(* ===== verification/Prelude.thy ===== *)
theory Prelude
  imports Main "HOL-Library.Word"
begin

text \<open>
  Shared material of the development: the machine integers of the modelled crates, the
  outcomes of a Rust call (a value, an error, a panic, undefined behaviour), computations that
  thread a mutable cursor (\<open>offset: &mut usize\<close>) and may fail, triples for them, and segments of
  byte lists.

  The target is a 64-bit little-endian machine: \<open>usize\<close> is 64 bits wide. A \<open>usize\<close> is a natural
  number below \<open>2 ^ 64\<close> and every wrapping operation on it writes the reduction out; the narrower
  integers are words of their width. A Rust slice is never longer than \<open>isize::MAX\<close> bytes, which
  is the predicate \<open>valid_slice\<close>.
\<close>

named_theorems comp_simps \<open>evaluation of computations\<close>
named_theorems triple_rules \<open>triples of computations\<close>

section \<open>Machine integers\<close>

type_synonym u8 = "8 word"
type_synonym u16 = "16 word"
type_synonym u32 = "32 word"
type_synonym u64 = "64 word"
type_synonym usize = nat
type_synonym bytes = "u8 list"

abbreviation USIZE_MAX :: usize where
  "USIZE_MAX \<equiv> 18446744073709551615"

abbreviation ISIZE_MAX :: usize where
  "ISIZE_MAX \<equiv> 9223372036854775807"

definition usize_wrapping_add :: "usize \<Rightarrow> usize \<Rightarrow> usize" where
  "usize_wrapping_add a b = (a + b) mod 18446744073709551616"

definition usize_wrapping_sub :: "usize \<Rightarrow> usize \<Rightarrow> usize" where
  "usize_wrapping_sub a b = (a + 18446744073709551616 - b) mod 18446744073709551616"

definition usize_wrapping_mul :: "usize \<Rightarrow> usize \<Rightarrow> usize" where
  "usize_wrapping_mul a b = (a * b) mod 18446744073709551616"

definition usize_checked_add :: "usize \<Rightarrow> usize \<Rightarrow> usize option" where
  "usize_checked_add a b = (if a + b \<le> USIZE_MAX then Some (a + b) else None)"

definition usize_checked_sub :: "usize \<Rightarrow> usize \<Rightarrow> usize option" where
  "usize_checked_sub a b = (if b \<le> a then Some (a - b) else None)"

definition usize_checked_mul :: "usize \<Rightarrow> usize \<Rightarrow> usize option" where
  "usize_checked_mul a b = (if a * b \<le> USIZE_MAX then Some (a * b) else None)"

definition u16_saturating_add :: "u16 \<Rightarrow> u16 \<Rightarrow> u16" where
  "u16_saturating_add a b = (if unat a + unat b < 65536 then a + b else 65535)"

lemma usize_wrapping_add_small [simp]:
  "a + b \<le> USIZE_MAX \<Longrightarrow> usize_wrapping_add a b = a + b"
  by (simp add: usize_wrapping_add_def)

lemma usize_wrapping_sub_small [simp]:
  "b \<le> a \<Longrightarrow> a \<le> USIZE_MAX \<Longrightarrow> usize_wrapping_sub a b = a - b"
  by (simp add: usize_wrapping_sub_def mod_if)

lemma usize_wrapping_mul_small [simp]:
  "a * b \<le> USIZE_MAX \<Longrightarrow> usize_wrapping_mul a b = a * b"
  by (simp add: usize_wrapping_mul_def)

definition valid_slice :: "'a list \<Rightarrow> bool" where
  "valid_slice bs \<longleftrightarrow> length bs \<le> ISIZE_MAX"

lemma valid_slice_length: "valid_slice bs \<Longrightarrow> length bs \<le> ISIZE_MAX"
  by (simp add: valid_slice_def)

lemma unat_u8_bound [simp]: "unat (b :: u8) < 256" "unat (b :: u8) \<le> 255"
  using unsigned_less [of b, where ?'a = nat] by simp_all

lemma unat_u16_bound [simp]: "unat (v :: u16) < 65536" "unat (v :: u16) \<le> 65535"
  using unsigned_less [of v, where ?'a = nat] by simp_all

lemma unat_of_nat_u8: "n < 256 \<Longrightarrow> unat (of_nat n :: u8) = n"
  by (simp add: unat_of_nat)

lemma unat_of_nat_u16: "n < 65536 \<Longrightarrow> unat (of_nat n :: u16) = n"
  by (simp add: unat_of_nat)

lemma unat_ucast_u8_u16 [simp]: "unat (ucast (b :: u8) :: u16) = unat b"
  by (simp add: unsigned_ucast_eq take_bit_nat_eq_self order_less_trans [OF unat_u8_bound(1)])

lemma unat_ucast_u8_u32 [simp]: "unat (ucast (b :: u8) :: u32) = unat b"
  by (simp add: unsigned_ucast_eq take_bit_nat_eq_self order_less_trans [OF unat_u8_bound(1)])

lemma unat_ucast_u16_u32 [simp]: "unat (ucast (v :: u16) :: u32) = unat v"
  by (simp add: unsigned_ucast_eq take_bit_nat_eq_self order_less_trans [OF unat_u16_bound(1)])

lemma index_step:
  fixes index num :: "'a::len word"
  assumes "index < num"
  shows "unat (index + 1) = Suc (unat index)" "unat (num - (index + 1)) < unat (num - index)"
proof -
  from assms have l: "unat index < unat num" by (simp add: word_less_nat_alt)
  have "Suc (unat index) < 2 ^ LENGTH('a)"
    using l unsigned_less [of num, where ?'a = nat] by linarith
  then show s: "unat (index + 1) = Suc (unat index)"
    using unat_of_nat [of "Suc (unat index)", where ?'a = 'a] by (simp add: add.commute)
  from l s have "index + 1 \<le> num" by (simp add: word_le_nat_alt)
  then show "unat (num - (index + 1)) < unat (num - index)"
    using l s assms by (simp add: unat_sub)
qed

section \<open>Outcomes of a call\<close>

text \<open>
  \<open>Ok\<close> and \<open>Err\<close> are the two variants of a Rust \<open>Result\<close>. \<open>Panic\<close> is a panicking call (a failed
  bounds check of a safe index, \<open>unreachable!\<close>, \<open>assert!\<close>). \<open>UB\<close> is undefined behaviour: an
  \<open>unsafe\<close> read outside its buffer. Safety of the \<open>unsafe\<close> code is that \<open>UB\<close> never happens.
\<close>

datatype (dead 'e, 'a) outcome = Ok 'a | Err 'e | Panic | UB

fun is_ok :: "('e, 'a) outcome \<Rightarrow> bool" where
  "is_ok (Ok _) = True"
| "is_ok _ = False"

fun no_fault :: "('e, 'a) outcome \<Rightarrow> bool" where
  "no_fault Panic = False"
| "no_fault UB = False"
| "no_fault _ = True"

fun r_bind :: "('e, 'a) outcome \<Rightarrow> ('a \<Rightarrow> ('e, 'b) outcome) \<Rightarrow> ('e, 'b) outcome" where
  "r_bind (Ok x) f = f x"
| "r_bind (Err e) f = Err e"
| "r_bind Panic f = Panic"
| "r_bind UB f = UB"

lemma r_bind_Ok_iff: "r_bind m f = Ok y \<longleftrightarrow> (\<exists>x. m = Ok x \<and> f x = Ok y)"
  by (cases m) auto

lemma r_bind_Ok_E:
  assumes "r_bind m f = Ok y"
  obtains x where "m = Ok x" "f x = Ok y"
  using assms by (auto simp: r_bind_Ok_iff)

lemma no_fault_r_bind:
  "no_fault m \<Longrightarrow> (\<And>x. m = Ok x \<Longrightarrow> no_fault (f x)) \<Longrightarrow> no_fault (r_bind m f)"
  by (cases m) auto

lemma r_bind_cong:
  "m = m' \<Longrightarrow> (\<And>x. m' = Ok x \<Longrightarrow> f x = g x) \<Longrightarrow> r_bind m f = r_bind m' g"
  by (cases m') auto

section \<open>Computations with a mutable cursor\<close>

text \<open>
  A function that takes \<open>&mut usize\<close> and returns a \<open>Result\<close> is a function from the cursor to an
  outcome and the cursor it leaves behind. The cursor is kept on every path: the code advances it
  on some failing paths too.
\<close>

type_synonym ('s, 'e, 'a) comp = "'s \<Rightarrow> ('e, 'a) outcome \<times> 's"

definition p_return :: "'a \<Rightarrow> ('s, 'e, 'a) comp" where
  "p_return x s = (Ok x, s)"

definition p_lift :: "('e, 'a) outcome \<Rightarrow> ('s, 'e, 'a) comp" where
  "p_lift r s = (r, s)"

definition p_get :: "('s, 'e, 's) comp" where
  "p_get s = (Ok s, s)"

definition p_modify :: "('s \<Rightarrow> 's) \<Rightarrow> ('s, 'e, unit) comp" where
  "p_modify f s = (Ok (), f s)"

definition p_bind :: "('s, 'e, 'a) comp \<Rightarrow> ('a \<Rightarrow> ('s, 'e, 'b) comp) \<Rightarrow> ('s, 'e, 'b) comp" where
  "p_bind m f s =
     (case m s of
        (Ok x, s') \<Rightarrow> f x s'
      | (Err e, s') \<Rightarrow> (Err e, s')
      | (Panic, s') \<Rightarrow> (Panic, s')
      | (UB, s') \<Rightarrow> (UB, s'))"

text \<open>The \<open>for _ in 0..n\<close> loop whose body updates an accumulator.\<close>

fun p_for :: "nat \<Rightarrow> ('acc \<Rightarrow> ('s, 'e, 'acc) comp) \<Rightarrow> 'acc \<Rightarrow> ('s, 'e, 'acc) comp" where
  "p_for 0 body acc = p_return acc"
| "p_for (Suc n) body acc = p_bind (body acc) (\<lambda>acc'. p_for n body acc')"

lemma p_return_Ok_iff [simp]: "p_return x s = (Ok y, s') \<longleftrightarrow> y = x \<and> s' = s"
  by (auto simp: p_return_def)

lemma p_lift_Ok_iff [simp]: "p_lift r s = (Ok y, s') \<longleftrightarrow> r = Ok y \<and> s' = s"
  by (auto simp: p_lift_def)

lemma p_get_Ok_iff [simp]: "p_get s = (Ok y, s') \<longleftrightarrow> y = s \<and> s' = s"
  by (auto simp: p_get_def)

lemma p_modify_Ok_iff [simp]: "p_modify f s = (Ok y, s') \<longleftrightarrow> s' = f s"
  by (auto simp: p_modify_def)

lemma p_bind_Ok_iff:
  "p_bind m f s = (Ok y, s'') \<longleftrightarrow> (\<exists>x s'. m s = (Ok x, s') \<and> f x s' = (Ok y, s''))"
  by (auto simp: p_bind_def split: prod.splits outcome.splits)

lemma p_bind_Ok_E:
  assumes "p_bind m f s = (Ok y, s'')"
  obtains x s' where "m s = (Ok x, s')" "f x s' = (Ok y, s'')"
  using assms by (auto simp: p_bind_Ok_iff)

lemma p_bind_step: "m s = (Ok x, s') \<Longrightarrow> p_bind m f s = f x s'"
  by (simp add: p_bind_def)

lemma p_bind_err: "m s = (Err e, s') \<Longrightarrow> p_bind m f s = (Err e, s')"
  by (simp add: p_bind_def)

lemmas comp_unfold = p_return_def p_lift_def p_get_def p_modify_def

subsection \<open>Triples\<close>

text \<open>
  \<open>triple P m Q\<close>: from a cursor that satisfies \<open>P\<close>, the computation neither panics nor has
  undefined behaviour, and a value it returns satisfies \<open>Q\<close> with the cursor it leaves.
\<close>

definition triple :: "('s \<Rightarrow> bool) \<Rightarrow> ('s, 'e, 'a) comp \<Rightarrow> ('a \<Rightarrow> 's \<Rightarrow> bool) \<Rightarrow> bool" where
  "triple P m Q \<longleftrightarrow>
     (\<forall>s. P s \<longrightarrow> no_fault (fst (m s)) \<and> (\<forall>x s'. m s = (Ok x, s') \<longrightarrow> Q x s'))"

lemma tripleI:
  assumes "\<And>s. P s \<Longrightarrow> no_fault (fst (m s))"
    and "\<And>s x s'. P s \<Longrightarrow> m s = (Ok x, s') \<Longrightarrow> Q x s'"
  shows "triple P m Q"
  using assms by (simp add: triple_def)

lemma tripleD_no_fault: "triple P m Q \<Longrightarrow> P s \<Longrightarrow> no_fault (fst (m s))"
  by (simp add: triple_def)

lemma tripleD_post: "triple P m Q \<Longrightarrow> P s \<Longrightarrow> m s = (Ok x, s') \<Longrightarrow> Q x s'"
  by (simp add: triple_def)

lemma triple_bind [triple_rules]:
  assumes m: "triple P m Q" and f: "\<And>x. triple (Q x) (f x) R"
  shows "triple P (p_bind m f) R"
proof (rule tripleI)
  fix s assume P: "P s"
  show "no_fault (fst (p_bind m f s))"
  proof (cases "m s")
    case (Pair r s')
    have nf: "no_fault r" using tripleD_no_fault [OF m P] Pair by simp
    show ?thesis
    proof (cases r)
      case (Ok x)
      with Pair have "Q x s'" using tripleD_post [OF m P] by simp
      then show ?thesis
        using tripleD_no_fault [OF f] Ok Pair by (simp add: p_bind_def)
    qed (use nf Pair in \<open>auto simp: p_bind_def\<close>)
  qed
next
  fix s y s''
  assume "P s" "p_bind m f s = (Ok y, s'')"
  then show "R y s''"
    by (elim p_bind_Ok_E) (rule tripleD_post [OF f], rule tripleD_post [OF m])
qed

lemma triple_return: "(\<And>s. P s \<Longrightarrow> Q x s) \<Longrightarrow> triple P (p_return x) Q"
  by (simp add: triple_def p_return_def)

lemma triple_lift:
  "(\<And>s. P s \<Longrightarrow> no_fault r) \<Longrightarrow> (\<And>s x. P s \<Longrightarrow> r = Ok x \<Longrightarrow> Q x s) \<Longrightarrow> triple P (p_lift r) Q"
  by (auto simp: triple_def p_lift_def)

lemma triple_get: "(\<And>s. P s \<Longrightarrow> Q s s) \<Longrightarrow> triple P p_get Q"
  by (simp add: triple_def p_get_def)

lemma triple_modify: "(\<And>s. P s \<Longrightarrow> Q () (f s)) \<Longrightarrow> triple P (p_modify f) Q"
  by (simp add: triple_def p_modify_def)

lemma triple_pre: "triple P m Q \<Longrightarrow> (\<And>s. P' s \<Longrightarrow> P s) \<Longrightarrow> triple P' m Q"
  unfolding triple_def by blast

lemma triple_post: "triple P m Q \<Longrightarrow> (\<And>x s. Q x s \<Longrightarrow> Q' x s) \<Longrightarrow> triple P m Q'"
  unfolding triple_def by blast

lemma triple_if:
  "(b \<Longrightarrow> triple P m Q) \<Longrightarrow> (\<not> b \<Longrightarrow> triple P m' Q) \<Longrightarrow> triple P (if b then m else m') Q"
  by simp

lemma triple_get_bind:
  "(\<And>s. P s \<Longrightarrow> triple P (f s) Q) \<Longrightarrow> triple P (p_bind p_get f) Q"
  by (simp add: triple_def p_bind_def p_get_def)

lemma triple_err: "triple P (p_lift (Err e)) Q"
  by (simp add: triple_def p_lift_def)

lemma triple_guard:
  "no_fault r \<Longrightarrow> (\<And>x. r = Ok x \<Longrightarrow> triple P (f x) Q) \<Longrightarrow> triple P (p_bind (p_lift r) f) Q"
  by (cases r) (auto simp: triple_def p_bind_def p_lift_def)

lemma triple_for:
  assumes "\<And>acc. triple P (body acc) (\<lambda>_. P)"
  shows "triple P (p_for n body acc) (\<lambda>_. P)"
proof (induction n arbitrary: acc)
  case 0
  show ?case by (simp add: triple_return)
next
  case (Suc n)
  show ?case
    by (simp, rule triple_bind [OF assms]) (rule Suc.IH)
qed

lemma foldl_snoc_map: "foldl (\<lambda>ys x. ys @ [f x]) acc xs = acc @ map f xs"
  by (induction xs arbitrary: acc) auto

section \<open>Segments of a buffer\<close>

text \<open>\<open>seg bs i j xs\<close>: the bytes of \<open>bs\<close> from \<open>i\<close> up to (not including) \<open>j\<close> are \<open>xs\<close>.\<close>

definition seg :: "'a list \<Rightarrow> nat \<Rightarrow> nat \<Rightarrow> 'a list \<Rightarrow> bool" where
  "seg bs i j xs \<longleftrightarrow> j \<le> length bs \<and> i + length xs = j \<and> take (length xs) (drop i bs) = xs"

lemma seg_end: "seg bs i j xs \<Longrightarrow> j = i + length xs"
  by (simp add: seg_def)

lemma seg_bounds: "seg bs i j xs \<Longrightarrow> i \<le> j" "seg bs i j xs \<Longrightarrow> j \<le> length bs"
  by (simp_all add: seg_def)

lemma seg_Nil [simp]: "seg bs i j [] \<longleftrightarrow> i = j \<and> j \<le> length bs"
  by (auto simp: seg_def)

lemma seg_Cons:
  "seg bs i k (x # xs) \<longleftrightarrow> i < length bs \<and> bs ! i = x \<and> seg bs (Suc i) k xs"
proof (cases "i < length bs")
  case True
  then have "drop i bs = bs ! i # drop (Suc i) bs"
    by (simp add: Cons_nth_drop_Suc)
  then show ?thesis using True by (auto simp: seg_def)
next
  case False
  then show ?thesis by (auto simp: seg_def)
qed

lemma seg_append:
  "seg bs i k (xs @ ys) \<longleftrightarrow> seg bs i (i + length xs) xs \<and> seg bs (i + length xs) k ys"
proof (induction xs arbitrary: i)
  case Nil
  then show ?case by (auto simp: seg_def)
next
  case (Cons x xs)
  then show ?case by (simp add: seg_Cons)
qed

lemma seg_appendI: "seg bs i j xs \<Longrightarrow> seg bs j k ys \<Longrightarrow> seg bs i k (xs @ ys)"
  by (auto simp: seg_append dest: seg_end)

lemma seg_unique: "seg bs i j xs \<Longrightarrow> seg bs i j ys \<Longrightarrow> xs = ys"
  unfolding seg_def by (metis add_left_cancel)

lemma seg_take_drop: "i + n \<le> length bs \<Longrightarrow> seg bs i (i + n) (take n (drop i bs))"
  by (auto simp: seg_def min_def)

lemma take_drop_seg: "seg bs i j xs \<Longrightarrow> take (length xs) (drop i bs) = xs"
  by (simp add: seg_def)

lemma seg_full [simp]: "seg bs 0 (length bs) xs \<longleftrightarrow> xs = bs"
  by (auto simp: seg_def)

lemma seg_prefix: "seg bs 0 n xs \<longleftrightarrow> n \<le> length bs \<and> xs = take n bs"
  by (auto simp: seg_def)

lemma seg_nth: "seg bs i j xs \<Longrightarrow> k < length xs \<Longrightarrow> bs ! (i + k) = xs ! k"
  unfolding seg_def by (metis add_leD1 le_add1 nth_drop nth_take)

lemma seg_take_iff: "j \<le> n \<Longrightarrow> n \<le> length bs \<Longrightarrow> seg (take n bs) i j xs \<longleftrightarrow> seg bs i j xs"
  by (cases "i + length xs = j") (auto simp: seg_def drop_take)

lemma seg_shift: "seg (pre @ bs) (length pre + i) (length pre + j) xs \<longleftrightarrow> seg bs i j xs"
  by (auto simp: seg_def)

section \<open>Chunks\<close>

text \<open>The elements of an array of \<open>n\<close> values of \<open>sz\<close> bytes each.\<close>

fun chunks :: "nat \<Rightarrow> nat \<Rightarrow> 'a list \<Rightarrow> 'a list list" where
  "chunks sz 0 bs = []"
| "chunks sz (Suc n) bs = take sz bs # chunks sz n (drop sz bs)"

lemma length_chunks [simp]: "length (chunks sz n bs) = n"
  by (induction n arbitrary: bs) auto

lemma chunks_concat:
  "(\<forall>x \<in> set xs. length x = sz) \<Longrightarrow> chunks sz (length xs) (concat xs) = xs"
  by (induction xs) auto

lemma concat_chunks: "length bs = sz * n \<Longrightarrow> concat (chunks sz n bs) = bs"
  by (induction n arbitrary: bs) auto

lemma chunks_length_elem: "length bs = sz * n \<Longrightarrow> x \<in> set (chunks sz n bs) \<Longrightarrow> length x = sz"
proof (induction n arbitrary: bs)
  case (Suc n)
  from Suc.prems(2) consider "x = take sz bs" | "x \<in> set (chunks sz n (drop sz bs))"
    by auto
  then show ?case
    using Suc.prems(1) Suc.IH [of "drop sz bs"] by cases simp_all
qed simp

lemma length_concat_sized:
  "(\<forall>x \<in> set xs. length x = sz) \<Longrightarrow> length (concat xs) = sz * length xs"
  by (induction xs) auto

end
