(* ===== verification/Bytes.thy ===== *)
theory Bytes
  imports Prelude
begin

unbundle bit_operations_syntax

text \<open>
  \<open>transaction-view/src/bytes.rs\<close>: the readers every frame parser is built from, and
  \<open>transaction-view/src/result.rs\<close>, their error type. The buffer is a byte list, the cursor
  (\<open>offset: &mut usize\<close>) is threaded. A generic parameter \<open>T\<close> of the source appears as the size
  of \<open>T\<close> in bytes. An \<open>unsafe\<close> read is \<open>UB\<close> unless it stays inside the buffer.

  For every reader that can succeed there is a soundness lemma (what a success says of the bytes
  between the two cursors) and a completeness lemma (which bytes make it succeed); the encoding of
  the compact-u16 format they refer to is \<open>enc_compact_u16\<close>.
\<close>

section \<open>Errors\<close>

datatype TransactionViewError = ParseError | SanitizeError | AddressLookupMismatch

type_synonym 'a tv_result = "(TransactionViewError, 'a) outcome"
type_synonym 'a reader = "(usize, TransactionViewError, 'a) comp"

section \<open>The readers\<close>

text \<open>\<open>slice.get(i)\<close>.\<close>

definition slice_get :: "'a list \<Rightarrow> usize \<Rightarrow> 'a option" where
  "slice_get bs i = (if i < length bs then Some (bs ! i) else None)"

definition check_remaining :: "bytes \<Rightarrow> usize \<Rightarrow> usize \<Rightarrow> unit tv_result" where
  "check_remaining bytes offset num_bytes =
     (if num_bytes > usize_wrapping_sub (length bytes) offset then Err ParseError else Ok ())"

definition checked_offset :: "usize \<Rightarrow> u16 tv_result" where
  "checked_offset offset = (if offset \<le> 65535 then Ok (of_nat offset) else Err ParseError)"

definition read_byte :: "bytes \<Rightarrow> u8 reader" where
  "read_byte bytes offset =
     (case slice_get bytes offset of None \<Rightarrow> Err ParseError | Some v \<Rightarrow> Ok v,
      usize_wrapping_add offset 1)"

definition unchecked_read_byte :: "bytes \<Rightarrow> u8 reader" where
  "unchecked_read_byte bytes offset =
     (if offset < length bytes then Ok (bytes ! offset) else UB, usize_wrapping_add offset 1)"

text \<open>The \<open>for i in 0..3\<close> loop; the first argument counts the rounds left.\<close>

fun read_compressed_u16_loop :: "nat \<Rightarrow> nat \<Rightarrow> u16 \<Rightarrow> u16 \<Rightarrow> bytes \<Rightarrow> u16 reader" where
  "read_compressed_u16_loop 0 i result shift bytes offset =
     (Ok result, usize_wrapping_add offset 3)"
| "read_compressed_u16_loop (Suc k) i result shift bytes offset =
     (case slice_get bytes (usize_wrapping_add offset i) of
        None \<Rightarrow> (Err ParseError, offset)
      | Some byte \<Rightarrow>
          if (i > 0 \<and> byte = 0) \<or> (i = 2 \<and> byte > 3) then (Err ParseError, offset)
          else
            let result' = result OR push_bit (unat shift) (ucast (byte AND 0x7F));
                shift' = shift + 7
            in if byte AND 0x80 = 0
               then (Ok result', usize_wrapping_add (usize_wrapping_add offset i) 1)
               else read_compressed_u16_loop k (Suc i) result' shift' bytes offset)"

definition read_compressed_u16 :: "bytes \<Rightarrow> u16 reader" where
  "read_compressed_u16 bytes = read_compressed_u16_loop 3 0 0 0 bytes"

definition optimized_read_compressed_u16 :: "bytes \<Rightarrow> u16 reader" where
  "optimized_read_compressed_u16 bytes offset =
     (case slice_get bytes offset of
        None \<Rightarrow> (Err ParseError, offset)
      | Some byte1 \<Rightarrow>
          let result = 0 OR ucast (byte1 AND 0x7F) in
          if byte1 AND 0x80 = 0 then (Ok result, usize_wrapping_add offset 1)
          else
            (case slice_get bytes (usize_wrapping_add offset 1) of
               None \<Rightarrow> (Err ParseError, offset)
             | Some byte2 \<Rightarrow>
                 if byte2 = 0 \<or> byte2 AND 0x80 \<noteq> 0 then (Err ParseError, offset)
                 else (Ok (result OR push_bit 7 (ucast (byte2 AND 0x7F))),
                       usize_wrapping_add offset 2)))"

definition advance_offset_for_array :: "usize \<Rightarrow> bytes \<Rightarrow> u16 \<Rightarrow> unit reader" where
  "advance_offset_for_array size_of_T bytes num_elements =
     (let array_len_bytes = usize_wrapping_mul (unat num_elements) size_of_T in
      p_bind p_get (\<lambda>offset.
      p_bind (p_lift (check_remaining bytes offset array_len_bytes)) (\<lambda>_.
      p_modify (\<lambda>offset. usize_wrapping_add offset array_len_bytes))))"

definition advance_offset_for_type :: "usize \<Rightarrow> bytes \<Rightarrow> unit reader" where
  "advance_offset_for_type size_of_T bytes =
     p_bind p_get (\<lambda>offset.
     p_bind (p_lift (check_remaining bytes offset size_of_T)) (\<lambda>_.
     p_modify (\<lambda>offset. usize_wrapping_add offset size_of_T)))"

text \<open>
  \<open>bytes.as_ptr().add(offset)\<close> is defined only up to one past the end of the buffer;
  \<open>from_raw_parts\<close> and a raw dereference are defined only inside it.
\<close>

definition ptr_add :: "bytes \<Rightarrow> usize \<Rightarrow> usize tv_result" where
  "ptr_add bytes offset = (if offset \<le> length bytes then Ok offset else UB)"

definition from_raw_parts :: "usize \<Rightarrow> bytes \<Rightarrow> usize \<Rightarrow> usize \<Rightarrow> bytes list tv_result" where
  "from_raw_parts size_of_T bytes ptr n =
     (if ptr + n * size_of_T \<le> length bytes
      then Ok (chunks size_of_T n (drop ptr bytes)) else UB)"

definition from_raw_parts_u8 :: "bytes \<Rightarrow> usize \<Rightarrow> usize \<Rightarrow> bytes tv_result" where
  "from_raw_parts_u8 bytes ptr n =
     (if ptr + n \<le> length bytes then Ok (take n (drop ptr bytes)) else UB)"

text \<open>The slice readers are used with \<open>T = u8\<close> only.\<close>

definition read_slice_data :: "bytes \<Rightarrow> u16 \<Rightarrow> bytes reader" where
  "read_slice_data bytes num_elements =
     p_bind p_get (\<lambda>offset.
     p_bind (p_lift (ptr_add bytes offset)) (\<lambda>current_ptr.
     p_bind (advance_offset_for_array 1 bytes num_elements) (\<lambda>_.
     p_lift (from_raw_parts_u8 bytes current_ptr (unat num_elements)))))"

definition unchecked_read_slice_data :: "bytes \<Rightarrow> u16 \<Rightarrow> bytes reader" where
  "unchecked_read_slice_data bytes num_elements =
     p_bind p_get (\<lambda>offset.
     p_bind (p_lift (ptr_add bytes offset)) (\<lambda>current_ptr.
     (let array_len_bytes = usize_wrapping_mul (unat num_elements) 1 in
      p_bind (p_modify (\<lambda>offset. usize_wrapping_add offset array_len_bytes)) (\<lambda>_.
      p_lift (from_raw_parts_u8 bytes current_ptr (unat num_elements))))))"

definition read_type :: "usize \<Rightarrow> bytes \<Rightarrow> bytes reader" where
  "read_type size_of_T bytes =
     p_bind p_get (\<lambda>offset.
     p_bind (p_lift (ptr_add bytes offset)) (\<lambda>current_ptr.
     p_bind (advance_offset_for_type size_of_T bytes) (\<lambda>_.
     p_lift (from_raw_parts_u8 bytes current_ptr size_of_T))))"

text \<open>\<open>unchecked_copy_value::<T>\<close>: the bytes of the value, decoded by the caller's type.\<close>

definition unchecked_copy_value :: "usize \<Rightarrow> bytes \<Rightarrow> usize \<Rightarrow> bytes tv_result" where
  "unchecked_copy_value size_of_T bytes offset =
     (if offset + size_of_T \<le> length bytes then Ok (take size_of_T (drop offset bytes)) else UB)"

text \<open>A little-endian integer from its bytes.\<close>

fun le_value :: "bytes \<Rightarrow> nat" where
  "le_value [] = 0"
| "le_value (b # bs) = unat b + 256 * le_value bs"

fun le_bytes :: "nat \<Rightarrow> nat \<Rightarrow> bytes" where
  "le_bytes 0 v = []"
| "le_bytes (Suc k) v = of_nat (v mod 256) # le_bytes k (v div 256)"

text \<open>
  The compact-u16 (ShortU16) encoding: seven bits per byte, least significant first, a set top bit
  on every byte but the last. It is the specification the two compressed readers are compared with.
\<close>

definition enc_compact_u16 :: "nat \<Rightarrow> bytes" where
  "enc_compact_u16 n =
     (if n < 128 then [of_nat n]
      else if n < 16384 then [of_nat (n mod 128 + 128), of_nat (n div 128)]
      else [of_nat (n mod 128 + 128), of_nat (n div 128 mod 128 + 128), of_nat (n div 16384)])"

section \<open>Little-endian integers\<close>

lemma length_le_bytes [simp]: "length (le_bytes k v) = k"
  by (induction k arbitrary: v) auto

lemma le_value_le_bytes: "le_value (le_bytes k v) = v mod 256 ^ k"
proof (induction k arbitrary: v)
  case (Suc k)
  have "unat (of_nat (v mod 256) :: u8) = v mod 256" by (intro unat_of_nat_u8) simp
  then show ?case
    using Suc.IH mod_mult2_eq [of v 256 "256 ^ k"] by simp
qed simp

lemma le_bytes_le_value: "le_bytes (length bs) (le_value bs) = bs"
  by (induction bs) auto

lemma le_value_bound: "le_value bs < 256 ^ length bs"
proof (induction bs)
  case (Cons b bs)
  have "unat b + 256 * le_value bs < 256 * (le_value bs + 1)" using unat_u8_bound(1) [of b] by simp
  also have "\<dots> \<le> 256 * 256 ^ length bs" using Cons.IH by simp
  finally show ?case by simp
qed simp

section \<open>Bits of a compact-u16\<close>

lemma unat_and_127 [simp]: "unat ((b :: u8) AND 0x7F) = unat b mod 128"
proof -
  have "b AND 0x7F = take_bit 7 b"
    by (simp add: take_bit_eq_mask mask_eq_exp_minus_1)
  then show ?thesis
    by (simp add: unsigned_take_bit_eq take_bit_nat_def)
qed

lemma and_128_eq_0_iff: "(b :: u8) AND 0x80 = 0 \<longleftrightarrow> unat b < 128"
proof -
  have "b AND 0x80 = 0 \<longleftrightarrow> \<not> bit b 7"
    using and_exp_eq_0_iff_not_bit [of b 7] by simp
  also have "\<dots> \<longleftrightarrow> even (unat b div 128)"
    using bit_unsigned_iff [where ?'a = nat, of b 7] by (simp add: bit_iff_odd)
  also have "\<dots> \<longleftrightarrow> unat b < 128"
  proof -
    have "unat b div 128 < 2" using unat_u8_bound(1) [of b] by linarith
    then consider "unat b div 128 = 0" | "unat b div 128 = 1" by linarith
    then show ?thesis by cases auto
  qed
  finally show ?thesis .
qed

lemma unat_or_push_bit:
  fixes a c :: u16
  assumes "unat a < 2 ^ k" and "unat c * 2 ^ k < 65536 - unat a"
  shows "unat (a OR push_bit k c) = unat a + 2 ^ k * unat c"
proof -
  have "a = take_bit k a"
    using assms(1) by (metis less_imp_le take_bit_nat_eq_self unsigned_take_bit_eq word_unat_eq_iff)
  then have "\<not> bit a n \<or> n < k" for n
    by (metis bit_take_bit_iff)
  then have "\<not> bit a n \<or> \<not> bit (push_bit k c) n" for n
    using not_less by (auto simp: bit_push_bit_iff) 
  then have "a OR push_bit k c = a + push_bit k c"
    by (intro disjunctive_add [symmetric])
  also have "\<dots> = of_nat (unat a + unat c * 2 ^ k)"
    by (simp add: push_bit_eq_mult)
  finally have eq: "a OR push_bit k c = of_nat (unat a + unat c * 2 ^ k)" .
  have "unat a + unat c * 2 ^ k < 65536"
    using assms(2) by simp
  then show ?thesis
    unfolding eq by (simp only: unat_of_nat_u16 mult.commute)
qed

section \<open>Evaluation and triples of the readers\<close>

lemma slice_get_simps [simp]:
  "i < length bs \<Longrightarrow> slice_get bs i = Some (bs ! i)"
  "length bs \<le> i \<Longrightarrow> slice_get bs i = None"
  by (simp_all add: slice_get_def)

lemma slice_get_Some_iff: "slice_get bs i = Some x \<longleftrightarrow> i < length bs \<and> bs ! i = x"
  by (auto simp: slice_get_def)

text \<open>The cursor positions at which the readers are called.\<close>

definition in_buffer :: "'a list \<Rightarrow> usize \<Rightarrow> bool" where
  "in_buffer bs i \<longleftrightarrow> valid_slice bs \<and> i \<le> length bs"

lemma in_buffer_bounds:
  "in_buffer bs i \<Longrightarrow> i \<le> length bs" "in_buffer bs i \<Longrightarrow> length bs \<le> ISIZE_MAX"
  by (simp_all add: in_buffer_def valid_slice_def)

lemma check_remaining_iff:
  "in_buffer bytes offset \<Longrightarrow>
   check_remaining bytes offset n = (if offset + n \<le> length bytes then Ok () else Err ParseError)"
  by (auto simp: check_remaining_def in_buffer_def valid_slice_def)

lemma checked_offset_Ok_iff:
  "checked_offset offset = Ok v \<longleftrightarrow> offset \<le> 65535 \<and> v = of_nat offset"
  by (auto simp: checked_offset_def)

lemma unat_checked_offset: "checked_offset offset = Ok v \<Longrightarrow> unat v = offset"
  by (auto simp: checked_offset_def unat_of_nat_u16 split: if_splits)

lemma no_fault_checks [simp]:
  "no_fault (check_remaining bytes offset n)" "no_fault (checked_offset offset)"
  by (simp_all add: check_remaining_def checked_offset_def)

lemma read_byte_Ok_iff:
  assumes "in_buffer bytes offset"
  shows "read_byte bytes offset = (Ok v, offset') \<longleftrightarrow> seg bytes offset offset' [v]"
  using assms by (auto simp: read_byte_def seg_Cons slice_get_def in_buffer_def valid_slice_def)

lemma unchecked_read_byte_Ok:
  assumes "in_buffer bytes offset" "offset < length bytes"
  shows "unchecked_read_byte bytes offset = (Ok (bytes ! offset), Suc offset)"
  using assms by (simp add: unchecked_read_byte_def in_buffer_def valid_slice_def)

lemma advance_offset_for_type_Ok_iff:
  assumes "in_buffer bytes offset" "sz \<le> ISIZE_MAX"
  shows "advance_offset_for_type sz bytes offset = (Ok u, offset') \<longleftrightarrow>
     offset' = offset + sz \<and> offset' \<le> length bytes"
  using assms in_buffer_bounds [OF assms(1)]
  by (auto simp: advance_offset_for_type_def p_bind_Ok_iff check_remaining_iff split: if_splits)

lemma array_len_small: "sz \<le> 65536 \<Longrightarrow> unat (n :: u16) * sz \<le> 4294967296"
  using mult_le_mono [OF unat_u16_bound(2) [of n], of sz 65536] by simp

lemma advance_offset_for_array_Ok_iff:
  assumes "in_buffer bytes offset" "sz \<le> 65536"
  shows "advance_offset_for_array sz bytes n offset = (Ok u, offset') \<longleftrightarrow>
     offset' = offset + unat n * sz \<and> offset' \<le> length bytes"
  using assms in_buffer_bounds [OF assms(1)] array_len_small [OF assms(2), of n]
  by (auto simp: advance_offset_for_array_def Let_def p_bind_Ok_iff check_remaining_iff split: if_splits)

lemma in_buffer_seg: "in_buffer bs i \<Longrightarrow> seg bs i j xs \<Longrightarrow> in_buffer bs j"
  by (auto simp: in_buffer_def dest: seg_bounds)

lemma read_byte_triple [triple_rules]:
  "triple (in_buffer bytes) (read_byte bytes) (\<lambda>_. in_buffer bytes)"
proof (rule tripleI)
  fix offset show "no_fault (fst (read_byte bytes offset))"
    by (simp add: read_byte_def split: option.split)
qed (auto simp: read_byte_Ok_iff elim: in_buffer_seg)

lemma advance_offset_for_type_triple [triple_rules]:
  assumes "sz \<le> ISIZE_MAX"
  shows "triple (in_buffer bytes) (advance_offset_for_type sz bytes) (\<lambda>_. in_buffer bytes)"
proof (rule tripleI)
  fix offset show "no_fault (fst (advance_offset_for_type sz bytes offset))"
    by (simp add: advance_offset_for_type_def p_bind_def comp_unfold check_remaining_def)
qed (use assms in \<open>auto simp: advance_offset_for_type_Ok_iff in_buffer_def\<close>)

lemma advance_offset_for_array_triple [triple_rules]:
  assumes "sz \<le> 65536"
  shows "triple (in_buffer bytes) (advance_offset_for_array sz bytes n) (\<lambda>_. in_buffer bytes)"
proof (rule tripleI)
  fix offset show "no_fault (fst (advance_offset_for_array sz bytes n offset))"
    by (simp add: advance_offset_for_array_def Let_def p_bind_def comp_unfold check_remaining_def)
qed (use assms in \<open>auto simp: advance_offset_for_array_Ok_iff in_buffer_def\<close>)

lemma advance_seg:
  assumes "in_buffer bytes offset" "sz \<le> 65536"
    and "advance_offset_for_array sz bytes n offset = (Ok u, offset')"
  shows "seg bytes offset offset' (take (unat n * sz) (drop offset bytes))"
  using assms by (auto simp: advance_offset_for_array_Ok_iff intro: seg_take_drop)

lemma advance_array_complete:
  assumes "in_buffer bytes offset" "sz \<le> 65536" "seg bytes offset offset' xs" "length xs = unat n * sz"
  shows "advance_offset_for_array sz bytes n offset = (Ok (), offset')"
  using assms seg_end [OF assms(3)] seg_bounds [OF assms(3)]
  by (simp add: advance_offset_for_array_Ok_iff)

lemma advance_type_complete:
  assumes "in_buffer bytes offset" "sz \<le> ISIZE_MAX" "seg bytes offset offset' xs" "length xs = sz"
  shows "advance_offset_for_type sz bytes offset = (Ok (), offset')"
  using assms seg_end [OF assms(3)] seg_bounds [OF assms(3)]
  by (simp add: advance_offset_for_type_Ok_iff)

section \<open>Slices\<close>

lemma from_raw_parts_u8_seg:
  "seg bytes i j xs \<Longrightarrow> n = length xs \<Longrightarrow> from_raw_parts_u8 bytes i n = Ok xs"
  by (auto simp: from_raw_parts_u8_def seg_def)

lemma from_raw_parts_seg:
  assumes "seg bytes i j (concat xs)" "\<forall>x \<in> set xs. length x = sz" "n = length xs"
  shows "from_raw_parts sz bytes i n = Ok xs"
proof -
  have len: "length (concat xs) = n * sz"
    using length_concat_sized [OF assms(2)] assms(3) by (simp add: mult.commute)
  have td: "take (n * sz) (drop i bytes) = concat xs"
    using take_drop_seg [OF assms(1)] len by simp
  have "chunks sz n (drop i bytes) = chunks sz n (take (n * sz) (drop i bytes))"
    by (induction n arbitrary: i) (simp_all add: min_def drop_take)
  then have "chunks sz n (drop i bytes) = xs"
    using td chunks_concat [OF assms(2)] assms(3) by simp
  then show ?thesis
    using assms(1) len by (auto simp: from_raw_parts_def seg_def)
qed

lemma read_slice_data_complete:
  assumes "in_buffer bytes offset" "seg bytes offset offset' xs" "length xs = unat n"
  shows "read_slice_data bytes n offset = (Ok xs, offset')"
  using assms advance_array_complete [of bytes offset 1 offset' xs n]
    from_raw_parts_u8_seg [OF assms(2)]
  by (simp add: read_slice_data_def p_bind_def comp_unfold ptr_add_def in_buffer_def)

lemma unchecked_read_slice_data_complete:
  assumes "in_buffer bytes offset" "seg bytes offset offset' xs" "length xs = unat n"
  shows "unchecked_read_slice_data bytes n offset = (Ok xs, offset')"
  using assms from_raw_parts_u8_seg [OF assms(2)] seg_end [OF assms(2)] seg_bounds [OF assms(2)]
    in_buffer_bounds [OF assms(1)]
  by (simp add: unchecked_read_slice_data_def Let_def p_bind_def comp_unfold ptr_add_def
      order_trans [OF unat_u16_bound(2)])

lemma read_type_complete:
  assumes "in_buffer bytes offset" "seg bytes offset offset' xs" "length xs = sz" "sz \<le> ISIZE_MAX"
  shows "read_type sz bytes offset = (Ok xs, offset')"
  using assms advance_type_complete [of bytes offset sz offset' xs]
    from_raw_parts_u8_seg [OF assms(2)]
  by (simp add: read_type_def p_bind_def comp_unfold ptr_add_def in_buffer_def)

lemma unchecked_copy_value_seg:
  "seg bytes i j xs \<Longrightarrow> length xs = sz \<Longrightarrow> unchecked_copy_value sz bytes i = Ok xs"
  by (auto simp: unchecked_copy_value_def seg_def)

section \<open>The compact-u16 readers\<close>

lemma unat_low7: "unat (ucast ((b :: u8) AND 0x7F) :: u16) = unat b mod 128"
  by (simp add: unat_and_127)

lemma nat_high7: "128 \<le> x \<Longrightarrow> x < 256 \<Longrightarrow> x mod 128 + 128 = (x :: nat)"
  using mod_if [of x 128] mod_less [of "x - 128" 128] by simp

lemma unat_two_digits:
  fixes b1 b2 :: u8
  shows "unat ((ucast (b1 AND 0x7F) :: u16) OR push_bit 7 (ucast (b2 AND 0x7F)))
     = unat b1 mod 128 + 128 * (unat b2 mod 128)"
proof -
  have "unat b1 mod 128 < 128" "unat b2 mod 128 < 128" by simp_all
  then have "unat b2 mod 128 * 2 ^ 7 < 65536 - unat b1 mod 128"
    by simp
  moreover have "unat b1 mod 128 < 2 ^ 7" by simp
  ultimately show ?thesis
    using unat_or_push_bit [of "ucast (b1 AND 0x7F)" 7 "ucast (b2 AND 0x7F)"]
    by (simp only: unat_low7) simp
qed

lemma unat_three_digits:
  fixes b1 b2 b3 :: u8
  assumes "unat b3 \<le> 3"
  shows "unat (((ucast (b1 AND 0x7F) :: u16) OR push_bit 7 (ucast (b2 AND 0x7F)))
           OR push_bit 14 (ucast (b3 AND 0x7F)))
         = unat b1 mod 128 + 128 * (unat b2 mod 128) + 16384 * unat b3"
proof -
  have b3: "unat b3 mod 128 = unat b3" using assms by simp
  have "unat b1 mod 128 < 128" "unat b2 mod 128 < 128" by simp_all
  then have lt: "unat b1 mod 128 + 128 * (unat b2 mod 128) < 2 ^ 14"
    by simp
  then have "unat b3 * 2 ^ 14 < 65536 - (unat b1 mod 128 + 128 * (unat b2 mod 128))"
    using assms by simp
  with lt show ?thesis
    using unat_or_push_bit [of "ucast (b1 AND 0x7F) OR push_bit 7 (ucast (b2 AND 0x7F))" 14
        "ucast (b3 AND 0x7F)"]
    by (simp only: unat_low7 unat_two_digits b3) simp
qed

lemma enc_compact_u16_1: "unat b < 128 \<Longrightarrow> enc_compact_u16 (unat b) = [b]"
  by (simp add: enc_compact_u16_def)

lemma enc_compact_u16_2:
  fixes b1 b2 :: u8
  assumes "128 \<le> unat b1" "b2 \<noteq> 0" "unat b2 < 128"
  shows "enc_compact_u16 (unat b1 mod 128 + 128 * unat b2) = [b1, b2]"
proof -
  have "unat b2 \<noteq> 0" using assms(2) by (simp add: unat_eq_zero)
  moreover have "unat b1 mod 128 + 128 = unat b1"
    using assms(1) by (simp add: nat_high7)
  ultimately show ?thesis
    using assms by (simp add: enc_compact_u16_def del: of_nat_add)
qed

lemma enc_compact_u16_3:
  fixes b1 b2 b3 :: u8
  assumes "128 \<le> unat b1" "128 \<le> unat b2" "b3 \<noteq> 0"
  shows "enc_compact_u16 (unat b1 mod 128 + 128 * (unat b2 mod 128) + 16384 * unat b3) = [b1, b2, b3]"
proof -
  let ?n = "unat b1 mod 128 + 128 * (unat b2 mod 128) + 16384 * unat b3"
  have b3: "unat b3 \<noteq> 0" using assms(3) by (simp add: unat_eq_zero)
  have d: "?n mod 128 + 128 = unat b1" "?n div 128 mod 128 + 128 = unat b2" "?n div 16384 = unat b3"
  proof -
    have *: "?n = unat b1 mod 128 + 128 * (unat b2 mod 128 + 128 * unat b3)" by simp
    show "?n mod 128 + 128 = unat b1"
      using assms(1) unfolding * by (simp only: mod_mult_self2 mod_mod_trivial nat_high7 unat_u8_bound)
    have q: "?n div 128 = unat b2 mod 128 + 128 * unat b3" unfolding * by simp
    show "?n div 128 mod 128 + 128 = unat b2"
      using assms(2) unfolding q by (simp add: nat_high7)
    have "?n div 16384 = ?n div 128 div 128" by (simp add: div_mult2_eq [symmetric])
    then show "?n div 16384 = unat b3" unfolding q by simp
  qed
  have "\<not> ?n < 16384" "\<not> ?n < 128" using b3 by simp_all
  then show ?thesis
    using d by (simp only: enc_compact_u16_def if_False of_nat_unat ucast_id)
qed

lemma enc_compact_u16_length: "length (enc_compact_u16 n) \<in> {1, 2, 3}"
  by (simp add: enc_compact_u16_def)

lemma enc_compact_u16_length_small: "n < 16384 \<Longrightarrow> length (enc_compact_u16 n) \<le> 2"
  by (simp add: enc_compact_u16_def)

lemma enc_compact_u16_length_pos: "1 \<le> length (enc_compact_u16 n)"
  by (simp add: enc_compact_u16_def)

lemma enc_compact_u16_nonempty [simp]: "enc_compact_u16 n \<noteq> []"
  by (simp add: enc_compact_u16_def)

lemma optimized_read_compressed_u16_sound:
  assumes ib: "in_buffer bytes offset"
    and ok: "optimized_read_compressed_u16 bytes offset = (Ok v, offset')"
  shows "unat v < 16384 \<and> seg bytes offset offset' (enc_compact_u16 (unat v))"
proof -
  note b = in_buffer_bounds [OF ib]
  have lt: "offset < length bytes"
    using ok by (auto simp: optimized_read_compressed_u16_def slice_get_def split: if_splits)
  define b1 where "b1 = bytes ! offset"
  show ?thesis
  proof (cases "unat b1 < 128")
    case True
    then have "v = ucast (b1 AND 0x7F)" "offset' = Suc offset"
      using ok lt b by (simp_all add: optimized_read_compressed_u16_def and_128_eq_0_iff flip: b1_def)
    moreover from this True have "unat v = unat b1" by simp
    ultimately show ?thesis
      using True lt by (simp add: enc_compact_u16_1 seg_Cons b1_def)
  next
    case False
    then have lt2: "Suc offset < length bytes"
      using ok lt b by (auto simp: optimized_read_compressed_u16_def and_128_eq_0_iff slice_get_def
          simp flip: b1_def split: if_splits)
    define b2 where "b2 = bytes ! Suc offset"
    have b2: "b2 \<noteq> 0" "unat b2 < 128"
      and v: "v = ucast (b1 AND 0x7F) OR push_bit 7 (ucast (b2 AND 0x7F))" "offset' = offset + 2"
      using ok False lt lt2 b
      by (auto simp: optimized_read_compressed_u16_def and_128_eq_0_iff simp flip: b1_def b2_def
          split: if_splits)
    have "unat v = unat b1 mod 128 + 128 * unat b2"
      using b2 v unat_two_digits [of b1 b2] by simp
    moreover have "unat b1 mod 128 < 128" by simp
    ultimately have "unat v < 16384" "enc_compact_u16 (unat v) = [b1, b2]"
      using b2 False enc_compact_u16_2 [of b1 b2] by simp_all
    then show ?thesis
      using lt lt2 v by (simp add: seg_Cons b1_def b2_def)
  qed
qed

lemma optimized_read_compressed_u16_complete:
  assumes ib: "in_buffer bytes offset" and v: "n < 16384"
    and sg: "seg bytes offset offset' (enc_compact_u16 n)"
  shows "optimized_read_compressed_u16 bytes offset = (Ok (of_nat n), offset')"
proof -
  note b = in_buffer_bounds [OF ib]
  show ?thesis
  proof (cases "n < 128")
    case True
    then have s: "offset < length bytes" "bytes ! offset = of_nat n" "offset' = Suc offset"
      using sg by (auto simp: enc_compact_u16_def seg_Cons)
    have u: "unat (of_nat n :: u8) = n"
      using True by (intro unat_of_nat_u8) simp
    then have "ucast ((of_nat n :: u8) AND 0x7F) = (of_nat n :: u16)"
      using True by (simp add: word_unat_eq_iff unat_of_nat_u16)
    then show ?thesis
      using s u True b by (simp add: optimized_read_compressed_u16_def and_128_eq_0_iff)
  next
    case False
    define b1 :: u8 where "b1 = of_nat (n mod 128 + 128)"
    define b2 :: u8 where "b2 = of_nat (n div 128)"
    have s: "offset < length bytes" "bytes ! offset = b1"
      "Suc offset < length bytes" "bytes ! Suc offset = b2" "offset' = offset + 2"
      using sg v False by (auto simp: enc_compact_u16_def seg_Cons b1_def b2_def)
    have u1: "unat b1 = n mod 128 + 128"
      unfolding b1_def by (rule unat_of_nat_u8) simp
    have u2: "unat b2 = n div 128"
      unfolding b2_def using v by (intro unat_of_nat_u8) simp
    have h: "\<not> unat b1 < 128" "unat b2 < 128" "b2 \<noteq> 0"
      using u1 u2 v False by (auto simp: div_eq_0_iff simp flip: unat_eq_zero)
    have "unat (ucast (b1 AND 0x7F) OR push_bit 7 (ucast (b2 AND 0x7F)) :: u16) = n"
      using h v by (simp only: unat_two_digits u1 u2) simp
    then have "ucast (b1 AND 0x7F) OR push_bit 7 (ucast (b2 AND 0x7F)) = (of_nat n :: u16)"
      by (metis of_nat_unat ucast_id)
    then show ?thesis
      using s h b by (simp add: optimized_read_compressed_u16_def and_128_eq_0_iff)
  qed
qed

lemma optimized_read_compressed_u16_triple [triple_rules]:
  "triple (in_buffer bytes) (optimized_read_compressed_u16 bytes) (\<lambda>_. in_buffer bytes)"
proof (rule tripleI)
  fix offset show "no_fault (fst (optimized_read_compressed_u16 bytes offset))"
    by (simp add: optimized_read_compressed_u16_def Let_def split: option.split)
qed (blast dest: optimized_read_compressed_u16_sound intro: in_buffer_seg)

lemma read_compressed_u16_unfold:
  assumes ib: "in_buffer bytes offset"
  shows "read_compressed_u16 bytes offset =
    (case slice_get bytes offset of None \<Rightarrow> (Err ParseError, offset) | Some b1 \<Rightarrow>
     if unat b1 < 128 then (Ok (ucast (b1 AND 0x7F)), offset + 1) else
     (case slice_get bytes (offset + 1) of None \<Rightarrow> (Err ParseError, offset) | Some b2 \<Rightarrow>
     if b2 = 0 then (Err ParseError, offset) else
     if unat b2 < 128
     then (Ok (ucast (b1 AND 0x7F) OR push_bit 7 (ucast (b2 AND 0x7F))), offset + 2) else
     (case slice_get bytes (offset + 2) of None \<Rightarrow> (Err ParseError, offset) | Some b3 \<Rightarrow>
     if b3 = 0 \<or> 3 < unat b3 then (Err ParseError, offset) else
     (Ok ((ucast (b1 AND 0x7F) OR push_bit 7 (ucast (b2 AND 0x7F))) OR push_bit 14 (ucast (b3 AND 0x7F))),
      offset + 3))))"
proof -
  note b = in_buffer_bounds [OF ib]
  have gt3: "(3 :: u8) < b \<longleftrightarrow> 3 < unat b" for b
    by (simp add: word_less_nat_alt)
  have hi: "\<not> 3 < unat b \<Longrightarrow> unat b < 128" for b :: u8 by simp
  have w: "usize_wrapping_add offset (Suc 0) = Suc offset" "usize_wrapping_add offset 0 = offset"
    "usize_wrapping_add offset (Suc (Suc 0)) = Suc (Suc offset)"
    "usize_wrapping_add (Suc offset) (Suc 0) = Suc (Suc offset)"
    "usize_wrapping_add (Suc (Suc offset)) (Suc 0) = Suc (Suc (Suc offset))"
    using b by simp_all
  have u: "unat (7 :: u16) = 7" "unat (14 :: u16) = 14" by simp_all
  have loop: "read_compressed_u16 bytes = read_compressed_u16_loop (Suc (Suc (Suc 0))) 0 0 0 bytes"
    by (simp add: read_compressed_u16_def numeral_3_eq_3)
  show ?thesis
    unfolding loop
    by (simp add: Let_def w u gt3 and_128_eq_0_iff hi split: option.split)
qed

lemma read_compressed_u16_sound:
  assumes ib: "in_buffer bytes offset" and ok: "read_compressed_u16 bytes offset = (Ok v, offset')"
  shows "seg bytes offset offset' (enc_compact_u16 (unat v))"
proof -
  from ok ib obtain b1 where b1: "slice_get bytes offset = Some b1"
    by (auto simp: read_compressed_u16_unfold split: option.splits)
  show ?thesis
  proof (cases "unat b1 < 128")
    case True
    with ok ib b1 have "v = ucast (b1 AND 0x7F)" "offset' = offset + 1"
      by (simp_all add: read_compressed_u16_unfold)
    with True b1 show ?thesis
      by (simp add: enc_compact_u16_1 seg_Cons slice_get_Some_iff)
  next
    case F1: False
    with ok ib b1 obtain b2 where b2: "slice_get bytes (offset + 1) = Some b2" "b2 \<noteq> 0"
      by (auto simp: read_compressed_u16_unfold split: option.splits if_splits)
    show ?thesis
    proof (cases "unat b2 < 128")
      case True
      with ok ib b1 b2 F1 have
        "v = ucast (b1 AND 0x7F) OR push_bit 7 (ucast (b2 AND 0x7F))" "offset' = offset + 2"
        by (simp_all add: read_compressed_u16_unfold)
      with True F1 b1 b2 show ?thesis
        by (simp add: unat_two_digits enc_compact_u16_2 seg_Cons slice_get_Some_iff)
    next
      case F2: False
      with ok ib b1 b2 F1 obtain b3 where b3: "slice_get bytes (offset + 2) = Some b3" "b3 \<noteq> 0"
          "unat b3 \<le> 3" "offset' = offset + 3"
        and "v = (ucast (b1 AND 0x7F) OR push_bit 7 (ucast (b2 AND 0x7F)))
                 OR push_bit 14 (ucast (b3 AND 0x7F))"
        by (auto simp: read_compressed_u16_unfold split: option.splits if_splits)
      with F1 F2 b1 b2 show ?thesis
        by (simp add: unat_three_digits enc_compact_u16_3 seg_Cons slice_get_Some_iff)
    qed
  qed
qed

lemma enc_compact_u16_digits:
  assumes n: "n < 65536" and big: "16384 \<le> n"
  obtains b1 b2 b3 :: u8 where "enc_compact_u16 n = [b1, b2, b3]" "128 \<le> unat b1" "128 \<le> unat b2"
    "b3 \<noteq> 0" "unat b3 \<le> 3" "n = unat b1 mod 128 + 128 * (unat b2 mod 128) + 16384 * unat b3"
proof
  let ?b1 = "of_nat (n mod 128 + 128) :: u8" and ?b2 = "of_nat (n div 128 mod 128 + 128) :: u8"
    and ?b3 = "of_nat (n div 16384) :: u8"
  show "enc_compact_u16 n = [?b1, ?b2, ?b3]" using big by (simp add: enc_compact_u16_def)
  have u: "unat ?b1 = n mod 128 + 128" "unat ?b2 = n div 128 mod 128 + 128"
    by (rule unat_of_nat_u8; simp)+
  have u3: "unat ?b3 = n div 16384" using n by (intro unat_of_nat_u8) simp
  show "128 \<le> unat ?b1" "128 \<le> unat ?b2" unfolding u by simp_all
  show "?b3 \<noteq> 0" using u3 big by (simp add: unat_eq_zero [symmetric] div_eq_0_iff del: unat_eq_zero)
  show "unat ?b3 \<le> 3" unfolding u3 using n by simp
  have "n = n mod 128 + 128 * (n div 128 mod 128 + 128 * (n div 128 div 128))" by simp
  then show "n = unat ?b1 mod 128 + 128 * (unat ?b2 mod 128) + 16384 * unat ?b3"
    unfolding u u3 by (simp add: div_mult2_eq [symmetric])
qed

lemma read_compressed_u16_complete:
  assumes ib: "in_buffer bytes offset" and sg: "seg bytes offset offset' (enc_compact_u16 (unat v))"
  shows "read_compressed_u16 bytes offset = (Ok v, offset')"
proof (cases "unat v < 16384")
  case True
  have "optimized_read_compressed_u16 bytes offset = (Ok v, offset')"
    using optimized_read_compressed_u16_complete [OF ib True sg] by simp
  then show ?thesis
    using ib in_buffer_bounds [OF ib]
    by (auto simp: read_compressed_u16_unfold optimized_read_compressed_u16_def Let_def
        and_128_eq_0_iff split: option.splits if_splits)
next
  case False
  then have "16384 \<le> unat v" by simp
  then obtain b1 b2 b3 where b: "enc_compact_u16 (unat v) = [b1, b2, b3]" "128 \<le> unat b1"
      "128 \<le> unat b2" "b3 \<noteq> 0" "unat b3 \<le> 3"
      "unat v = unat b1 mod 128 + 128 * (unat b2 mod 128) + 16384 * unat b3"
    using enc_compact_u16_digits [OF unat_u16_bound(1), of v] by blast
  have "v = (ucast (b1 AND 0x7F) OR push_bit 7 (ucast (b2 AND 0x7F)))
              OR push_bit 14 (ucast (b3 AND 0x7F))"
    unfolding word_unat_eq_iff b(6) unat_three_digits [OF b(5)] by simp
  moreover have "b2 \<noteq> 0" using b(3) by auto
  ultimately show ?thesis
    using sg b(1-5) ib by (simp add: read_compressed_u16_unfold seg_Cons slice_get_def numeral_3_eq_3)
qed

text \<open>
  C8. The general compact-u16 reader accepts exactly the minimal encodings: from a cursor inside a
  buffer it returns \<open>v\<close> and the cursor \<open>offset'\<close> iff the bytes between the two cursors are the
  compact-u16 encoding of \<open>v\<close>. Non-minimal, overlong and overflowing encodings are rejected.
\<close>

theorem read_compressed_u16_correct:
  assumes "in_buffer bytes offset"
  shows "read_compressed_u16 bytes offset = (Ok v, offset') \<longleftrightarrow>
         seg bytes offset offset' (enc_compact_u16 (unat v))"
  using assms read_compressed_u16_sound read_compressed_u16_complete by blast

theorem read_compressed_u16_correct_witness:
  "in_buffer [7, 0xFF, 0xFF, 0x03 :: u8] 1 \<and>
   read_compressed_u16 [7, 0xFF, 0xFF, 0x03] 1 = (Ok 0xFFFF, 4)"
proof -
  have h: "in_buffer [7, 0xFF, 0xFF, 0x03 :: u8] 1"
    by (simp add: in_buffer_def valid_slice_def)
  have "seg [7, 0xFF, 0xFF, 0x03 :: u8] 1 4 (enc_compact_u16 (unat (0xFFFF :: u16)))"
    by (simp add: enc_compact_u16_def seg_def)
  with h show ?thesis
    using read_compressed_u16_correct [OF h, of "0xFFFF" 4] by simp
qed

text \<open>
  C9. The optimised reader is the general one restricted to values a packet can hold: it succeeds
  with \<open>v\<close> exactly when the general reader does and \<open>v\<close> fits in two bytes of seven bits, leaving
  the same cursor.
\<close>

theorem optimized_read_compressed_u16_equiv:
  assumes "in_buffer bytes offset"
  shows "optimized_read_compressed_u16 bytes offset = (Ok v, offset') \<longleftrightarrow>
         read_compressed_u16 bytes offset = (Ok v, offset') \<and> unat v < 16384"
proof
  assume "optimized_read_compressed_u16 bytes offset = (Ok v, offset')"
  then show "read_compressed_u16 bytes offset = (Ok v, offset') \<and> unat v < 16384"
    using optimized_read_compressed_u16_sound [OF assms] read_compressed_u16_complete [OF assms] by blast
next
  assume r: "read_compressed_u16 bytes offset = (Ok v, offset') \<and> unat v < 16384"
  then show "optimized_read_compressed_u16 bytes offset = (Ok v, offset')"
    using optimized_read_compressed_u16_complete [OF assms, of "unat v"]
      read_compressed_u16_sound [OF assms] by simp
qed

theorem optimized_read_compressed_u16_equiv_witness:
  "in_buffer [0xD0, 0x09 :: u8] 0 \<and>
   (optimized_read_compressed_u16 [0xD0, 0x09] 0 = (Ok 1232, 2) \<longleftrightarrow>
    read_compressed_u16 [0xD0, 0x09] 0 = (Ok 1232, 2) \<and> unat (1232 :: u16) < 16384)"
proof -
  have h: "in_buffer [0xD0, 0x09 :: u8] 0"
    by (simp add: in_buffer_def valid_slice_def)
  show ?thesis using h optimized_read_compressed_u16_equiv [OF h, of 1232 2] by blast
qed

end
