(* ===== verification/Transaction_Config.thy ===== *)
theory Transaction_Config
  imports Bytes
begin

unbundle bit_operations_syntax

text \<open>
  \<open>transaction_config_view.rs\<close>: the optional configuration of a v1 transaction, a 32-bit mask and
  one 4-byte word per set bit. The specification is the record \<open>tx_config\<close> of the logical fields
  with its wire form \<open>config_mask\<close> and \<open>config_values\<close>: the masks the parser accepts are exactly
  those of a logical configuration, and the accessors of the view return its fields.
\<close>

section \<open>The frame\<close>

record TransactionConfigFrame =
  tcf_mask_offset :: u16
  tcf_mask :: u32
  tcf_values_offset :: u16

definition CONFIG_VALUE_SIZE :: usize where
  "CONFIG_VALUE_SIZE = 4"

definition TransactionConfigFrame_not_applicable :: TransactionConfigFrame where
  "TransactionConfigFrame_not_applicable =
     \<lparr>tcf_mask_offset = 0, tcf_mask = 0, tcf_values_offset = 0\<rparr>"

definition TransactionConfigFrame_is_present :: "TransactionConfigFrame \<Rightarrow> bool" where
  "TransactionConfigFrame_is_present self \<longleftrightarrow> tcf_mask_offset self \<noteq> 0"

text \<open>\<open>u32::count_ones\<close>.\<close>

definition count_ones :: "u32 \<Rightarrow> nat" where
  "count_ones w = length (filter (bit w) [0..<32])"

definition has_bit :: "u32 \<Rightarrow> u8 \<Rightarrow> bool" where
  "has_bit msk b \<longleftrightarrow> unat b < 32 \<and> drop_bit (unat b) msk AND 1 \<noteq> 0"

definition ALLOWED_TRANSACTION_CONFIG_MASK :: u32 where
  "ALLOWED_TRANSACTION_CONFIG_MASK = 0b11111"

definition sanitize_mask :: "u32 \<Rightarrow> unit tv_result" where
  "sanitize_mask msk =
     (if msk AND NOT ALLOWED_TRANSACTION_CONFIG_MASK \<noteq> 0 then Err SanitizeError
      else
        let bit0 = has_bit msk 0; bit1 = has_bit msk 1 in
        if bit0 \<noteq> bit1 then Err SanitizeError else Ok ())"

text \<open>\<open>u16::try_from\<close> with the error of this parser.\<close>

definition u16_try_from :: "usize \<Rightarrow> u16 tv_result" where
  "u16_try_from n = (if n \<le> 65535 then Ok (of_nat n) else Err SanitizeError)"

definition TransactionConfigFrame_try_new ::
  "bytes \<Rightarrow> usize \<Rightarrow> u32 \<Rightarrow> TransactionConfigFrame reader" where
  "TransactionConfigFrame_try_new bytes mask_offset msk =
     (if \<not> mask_offset > 0 then p_lift Panic
      else
        p_bind (p_lift (sanitize_mask msk)) (\<lambda>_.
        let num_values = of_nat (count_ones msk) :: u8 in
        p_bind (p_lift (u16_try_from mask_offset)) (\<lambda>mask_offset.
        p_bind p_get (\<lambda>offset.
        p_bind (p_lift (u16_try_from offset)) (\<lambda>values_offset.
        p_bind (advance_offset_for_array 4 bytes (ucast num_values)) (\<lambda>_.
        p_return \<lparr>tcf_mask_offset = mask_offset, tcf_mask = msk,
                  tcf_values_offset = values_offset\<rparr>))))))"

definition word_index_for_bit :: "TransactionConfigFrame \<Rightarrow> u8 \<Rightarrow> u8 option" where
  "word_index_for_bit self b =
     (if \<not> TransactionConfigFrame_is_present self \<or> \<not> has_bit (tcf_mask self) b then None
      else
        let mask_before_bit = push_bit (unat b) 1 - 1 in
        Some (of_nat (count_ones (tcf_mask self AND mask_before_bit))))"

definition word_offset :: "TransactionConfigFrame \<Rightarrow> u8 \<Rightarrow> usize option" where
  "word_offset self b =
     (case word_index_for_bit self b of
        None \<Rightarrow> None
      | Some word_index \<Rightarrow>
          Some (usize_wrapping_add (unat (tcf_values_offset self))
                  (usize_wrapping_mul (unat word_index) CONFIG_VALUE_SIZE)))"

section \<open>The view\<close>

record TransactionConfigView =
  tcv_frame :: TransactionConfigFrame
  tcv_bytes :: bytes

text \<open>\<open>word_offset(b).map(|offset| uN::from_le(unchecked_copy_value(bytes, offset)))\<close>.\<close>

definition config_word :: "TransactionConfigView \<Rightarrow> u8 \<Rightarrow> usize \<Rightarrow> nat option tv_result" where
  "config_word self b n =
     (case word_offset (tcv_frame self) b of
        None \<Rightarrow> Ok None
      | Some offset \<Rightarrow>
          r_bind (unchecked_copy_value n (tcv_bytes self) offset) (\<lambda>bs. Ok (Some (le_value bs))))"

definition priority_fee_lamports :: "TransactionConfigView \<Rightarrow> u64 option tv_result" where
  "priority_fee_lamports self = r_bind (config_word self 0 8) (\<lambda>v. Ok (map_option of_nat v))"

definition compute_unit_limit :: "TransactionConfigView \<Rightarrow> u32 option tv_result" where
  "compute_unit_limit self = r_bind (config_word self 2 4) (\<lambda>v. Ok (map_option of_nat v))"

definition loaded_accounts_data_size_limit :: "TransactionConfigView \<Rightarrow> u32 option tv_result" where
  "loaded_accounts_data_size_limit self =
     r_bind (config_word self 3 4) (\<lambda>v. Ok (map_option of_nat v))"

definition requested_heap_size :: "TransactionConfigView \<Rightarrow> u32 option tv_result" where
  "requested_heap_size self = r_bind (config_word self 4 4) (\<lambda>v. Ok (map_option of_nat v))"

definition TransactionConfigView_mask :: "TransactionConfigView \<Rightarrow> u32" where
  "TransactionConfigView_mask self = tcf_mask (tcv_frame self)"

section \<open>Logical configurations\<close>

record tx_config =
  cfg_priority_fee :: "u64 option"
  cfg_compute_unit_limit :: "u32 option"
  cfg_loaded_size_limit :: "u32 option"
  cfg_heap_size :: "u32 option"

definition config_mask :: "tx_config \<Rightarrow> u32" where
  "config_mask c =
     (if cfg_priority_fee c = None then 0 else 3)
   + (if cfg_compute_unit_limit c = None then 0 else 4)
   + (if cfg_loaded_size_limit c = None then 0 else 8)
   + (if cfg_heap_size c = None then 0 else 16)"

definition enc_opt :: "nat \<Rightarrow> ('a::len word) option \<Rightarrow> bytes" where
  "enc_opt k v = (case v of None \<Rightarrow> [] | Some w \<Rightarrow> le_bytes k (unat w))"

definition config_values :: "tx_config \<Rightarrow> bytes" where
  "config_values c =
     enc_opt 8 (cfg_priority_fee c) @ enc_opt 4 (cfg_compute_unit_limit c)
   @ enc_opt 4 (cfg_loaded_size_limit c) @ enc_opt 4 (cfg_heap_size c)"

section \<open>Masks\<close>

text \<open>The mask of a configuration, by which of its four fields are present.\<close>

definition mask_of_bits :: "bool \<Rightarrow> bool \<Rightarrow> bool \<Rightarrow> bool \<Rightarrow> u32" where
  "mask_of_bits b0 b2 b3 b4 =
     (if b0 then 3 else 0) + (if b2 then 4 else 0) + (if b3 then 8 else 0) + (if b4 then 16 else 0)"

lemma config_mask_bits:
  "config_mask c = mask_of_bits (cfg_priority_fee c \<noteq> None) (cfg_compute_unit_limit c \<noteq> None)
     (cfg_loaded_size_limit c \<noteq> None) (cfg_heap_size c \<noteq> None)"
  by (simp add: config_mask_def mask_of_bits_def)

lemma sane_masks_check:
  "list_all (\<lambda>m. sanitize_mask m = Ok () \<longrightarrow>
     m \<in> set [mask_of_bits b0 b2 b3 b4. b0 \<leftarrow> [False, True], b2 \<leftarrow> [False, True],
              b3 \<leftarrow> [False, True], b4 \<leftarrow> [False, True]])
   (map of_nat [0..<32])"
  by code_simp

lemma mask_bits_check:
  "\<forall>b0 b2 b3 b4. sanitize_mask (mask_of_bits b0 b2 b3 b4) = Ok ()
     \<and> count_ones (mask_of_bits b0 b2 b3 b4) = 2 * of_bool b0 + of_bool b2 + of_bool b3 + of_bool b4"
  by code_simp

lemma mask_bits_facts:
  "sanitize_mask (mask_of_bits b0 b2 b3 b4) = Ok ()"
  "count_ones (mask_of_bits b0 b2 b3 b4) = 2 * of_bool b0 + of_bool b2 + of_bool b3 + of_bool b4"
  using mask_bits_check by blast+

lemma allowed_mask_small:
  assumes "m AND NOT ALLOWED_TRANSACTION_CONFIG_MASK = 0"
  shows "unat m < 32"
proof -
  have "m = take_bit 5 m OR (m AND NOT (0b11111 :: u32))"
    by (rule bit_eqI) (auto simp: take_bit_eq_mask mask_eq_exp_minus_1 bit_simps)
  with assms have "m = take_bit 5 m"
    by (simp add: ALLOWED_TRANSACTION_CONFIG_MASK_def)
  then have "unat m = take_bit 5 (unat m)"
    by (metis unsigned_take_bit_eq)
  moreover have "take_bit 5 (unat m) < 2 ^ 5" by (rule take_bit_nat_less_exp)
  ultimately show ?thesis by simp
qed

lemma sanitize_mask_bits:
  assumes "sanitize_mask m = Ok ()"
  obtains b0 b2 b3 b4 where "m = mask_of_bits b0 b2 b3 b4"
proof -
  have "m AND NOT ALLOWED_TRANSACTION_CONFIG_MASK = 0"
    using assms by (simp add: sanitize_mask_def split: if_splits)
  then have "m \<in> set (map of_nat [0..<32])"
    using allowed_mask_small [of m] of_nat_unat [of m] by (force intro: rev_image_eqI)
  then show thesis
    using sane_masks_check assms that unfolding list_all_iff by fastforce
qed

text \<open>Which fields are present, and where their words start.\<close>

lemma word_index_check:
  "\<forall>b0 b2 b3 b4. let f = \<lparr>tcf_mask_offset = 1, tcf_mask = mask_of_bits b0 b2 b3 b4,
                          tcf_values_offset = 0\<rparr> in
     word_index_for_bit f 0 = (if b0 then Some 0 else None)
   \<and> word_index_for_bit f 2 = (if b2 then Some (2 * of_bool b0) else None)
   \<and> word_index_for_bit f 3 = (if b3 then Some (2 * of_bool b0 + of_bool b2) else None)
   \<and> word_index_for_bit f 4 = (if b4 then Some (2 * of_bool b0 + of_bool b2 + of_bool b3) else None)"
  by code_simp

lemma word_index_cong:
  "tcf_mask_offset f \<noteq> 0 \<Longrightarrow> word_index_for_bit f b
     = word_index_for_bit \<lparr>tcf_mask_offset = 1, tcf_mask = tcf_mask f, tcf_values_offset = 0\<rparr> b"
  by (simp add: word_index_for_bit_def TransactionConfigFrame_is_present_def)

lemma word_index_bits:
  assumes "tcf_mask_offset f \<noteq> 0" "tcf_mask f = mask_of_bits b0 b2 b3 b4"
  shows "word_index_for_bit f 0 = (if b0 then Some 0 else None)"
    "word_index_for_bit f 2 = (if b2 then Some (2 * of_bool b0) else None)"
    "word_index_for_bit f 3 = (if b3 then Some (2 * of_bool b0 + of_bool b2) else None)"
    "word_index_for_bit f 4 = (if b4 then Some (2 * of_bool b0 + of_bool b2 + of_bool b3) else None)"
  using word_index_check assms word_index_cong [OF assms(1)] by (simp_all add: Let_def)

section \<open>Words of the configuration\<close>

lemma length_enc_opt: "length (enc_opt k w) = (if w = None then 0 else k)"
  by (simp add: enc_opt_def split: option.split)

lemma length_config_values: "length (config_values c) = 4 * count_ones (config_mask c)"
  by (simp add: config_values_def length_enc_opt config_mask_bits mask_bits_facts)

lemma le_value_enc:
  fixes w :: "'a::len word"
  assumes "LENGTH('a) = 8 * k"
  shows "of_nat (le_value (le_bytes k (unat w))) = w"
proof -
  have "unat w < 256 ^ k"
    using unsigned_less [of w, where ?'a = nat] assms by (simp add: power_mult)
  then show ?thesis by (simp add: le_value_le_bytes)
qed

lemma enc_opt_surj:
  assumes "LENGTH('a::len) = 8 * k" "length bs = (if b then k else 0)"
  obtains w :: "'a::len word option" where "(w \<noteq> None) = b" "enc_opt k w = bs"
proof (cases b)
  case True
  with assms(2) have len: "length bs = k" by simp
  have "le_value bs < 2 ^ LENGTH('a)"
    using le_value_bound [of bs] len assms(1) by (simp add: power_mult)
  then have "unat (of_nat (le_value bs) :: 'a word) = le_value bs"
    by (simp add: unat_of_nat)
  then have "enc_opt k (Some (of_nat (le_value bs) :: 'a word)) = bs"
    using le_bytes_le_value [of bs] len by (simp add: enc_opt_def)
  with True show ?thesis by (intro that [of "Some (of_nat (le_value bs))"]) simp_all
next
  case False
  with assms(2) show ?thesis by (intro that [of None]) (simp_all add: enc_opt_def)
qed

lemma config_values_surj:
  assumes "sanitize_mask m = Ok ()" "length bs = 4 * count_ones m"
  obtains c where "config_mask c = m" "config_values c = bs"
proof -
  obtain b0 b2 b3 b4 where m: "m = mask_of_bits b0 b2 b3 b4"
    using sanitize_mask_bits [OF assms(1)] .
  have len: "length bs = (if b0 then 8 else 0) + ((if b2 then 4 else 0) + ((if b3 then 4 else 0)
      + (if b4 then 4 else 0)))"
    using assms(2) by (simp add: m mask_bits_facts)
  define v0 r0 where "v0 = take (if b0 then 8 else 0) bs" and "r0 = drop (if b0 then 8 else 0) bs"
  define v2 r2 where "v2 = take (if b2 then 4 else 0) r0" and "r2 = drop (if b2 then 4 else 0) r0"
  define v3 r3 where "v3 = take (if b3 then 4 else 0) r2" and "r3 = drop (if b3 then 4 else 0) r2"
  have lens: "length v0 = (if b0 then 8 else 0)" "length v2 = (if b2 then 4 else 0)"
      "length v3 = (if b3 then 4 else 0)" "length r3 = (if b4 then 4 else 0)"
    using len by (simp_all add: v0_def r0_def v2_def r2_def v3_def r3_def)
  have bs: "bs = v0 @ v2 @ v3 @ r3"
    unfolding v0_def v2_def v3_def r3_def by (simp only: append_take_drop_id r2_def r0_def)
  obtain w0 :: "u64 option" where w0: "(w0 \<noteq> None) = b0" "enc_opt 8 w0 = v0"
    by (rule enc_opt_surj [of 8 v0 b0]) (use lens in auto)
  obtain w2 :: "u32 option" where w2: "(w2 \<noteq> None) = b2" "enc_opt 4 w2 = v2"
    by (rule enc_opt_surj [of 4 v2 b2]) (use lens in auto)
  obtain w3 :: "u32 option" where w3: "(w3 \<noteq> None) = b3" "enc_opt 4 w3 = v3"
    by (rule enc_opt_surj [of 4 v3 b3]) (use lens in auto)
  obtain w4 :: "u32 option" where w4: "(w4 \<noteq> None) = b4" "enc_opt 4 w4 = r3"
    by (rule enc_opt_surj [of 4 r3 b4]) (use lens in auto)
  show thesis
  proof (rule that)
    let ?c = "\<lparr>cfg_priority_fee = w0, cfg_compute_unit_limit = w2, cfg_loaded_size_limit = w3,
               cfg_heap_size = w4\<rparr>"
    show "config_mask ?c = m" using w0 w2 w3 w4 by (simp add: config_mask_bits m)
    show "config_values ?c = bs" using w0 w2 w3 w4 by (simp add: config_values_def bs)
  qed
qed

section \<open>Correctness of the frame\<close>

definition config_frame_of :: "usize \<Rightarrow> tx_config \<Rightarrow> usize \<Rightarrow> TransactionConfigFrame" where
  "config_frame_of mask_offset c offset =
     \<lparr>tcf_mask_offset = of_nat mask_offset, tcf_mask = config_mask c,
      tcf_values_offset = of_nat offset\<rparr>"

lemma count_ones_bound: "count_ones m \<le> 32"
  unfolding count_ones_def by (metis diff_zero length_filter_le length_upt)

lemma unat_num_values: "unat (ucast (of_nat (count_ones m) :: u8) :: u16) = count_ones m"
  using count_ones_bound [of m] by (simp add: unat_of_nat_u8)

lemma TransactionConfigFrame_sound:
  assumes ib: "in_buffer bytes offset"
    and ok: "TransactionConfigFrame_try_new bytes mask_offset m offset = (Ok f, offset')"
  obtains c where "m = config_mask c" "seg bytes offset offset' (config_values c)"
    "f = config_frame_of mask_offset c offset" "mask_offset \<le> 65535" "offset \<le> 65535"
proof -
  from ok have s: "sanitize_mask m = Ok ()" "mask_offset \<le> 65535" "offset \<le> 65535"
      and a: "advance_offset_for_array 4 bytes (ucast (of_nat (count_ones m) :: u8)) offset
              = (Ok (), offset')"
      and f: "f = \<lparr>tcf_mask_offset = of_nat mask_offset, tcf_mask = m,
                   tcf_values_offset = of_nat offset\<rparr>"
    by (auto simp: TransactionConfigFrame_try_new_def p_bind_Ok_iff Let_def u16_try_from_def
        split: if_splits)
  let ?bs = "take (count_ones m * 4) (drop offset bytes)"
  have sg: "seg bytes offset offset' ?bs" using advance_seg [OF ib _ a] by (simp only: unat_num_values)
  have "length ?bs = 4 * count_ones m"
    using a ib unat_num_values [of m] by (auto simp: advance_offset_for_array_Ok_iff)
  then obtain c where "config_mask c = m" "config_values c = ?bs"
    using config_values_surj [OF s(1)] by metis
  with s sg f show thesis by (intro that [of c]) (auto simp: config_frame_of_def)
qed

lemma TransactionConfigFrame_complete:
  assumes ib: "in_buffer bytes offset" and mo: "0 < mask_offset" "mask_offset \<le> 65535"
    and o: "offset \<le> 65535" and sg: "seg bytes offset offset' (config_values c)"
  shows "TransactionConfigFrame_try_new bytes mask_offset (config_mask c) offset
         = (Ok (config_frame_of mask_offset c offset), offset')"
proof -
  have "sanitize_mask (config_mask c) = Ok ()" by (simp add: config_mask_bits mask_bits_facts)
  moreover have "advance_offset_for_array 4 bytes (ucast (of_nat (count_ones (config_mask c)) :: u8))
      offset = (Ok (), offset')"
    using length_config_values [of c]
    by (intro advance_array_complete [OF ib _ sg]) (simp, simp only: unat_num_values mult.commute)
  ultimately show ?thesis
    using mo o by (simp add: TransactionConfigFrame_try_new_def p_bind_def comp_unfold Let_def
        u16_try_from_def config_frame_of_def)
qed

lemma TransactionConfigFrame_triple:
  assumes "0 < mask_offset"
  shows "triple (in_buffer bytes) (TransactionConfigFrame_try_new bytes mask_offset m)
           (\<lambda>_. in_buffer bytes)"
proof -
  have "no_fault (sanitize_mask m)" "no_fault (u16_try_from n)" for n
    by (simp_all add: sanitize_mask_def u16_try_from_def Let_def)
  then show ?thesis
    unfolding TransactionConfigFrame_try_new_def Let_def
    using assms
    by (simp, intro triple_bind [where Q = "\<lambda>_. in_buffer bytes"] triple_lift triple_get
        advance_offset_for_array_triple triple_return) simp_all
qed

section \<open>Correctness of the view\<close>

text \<open>A view whose frame describes the configuration \<open>c\<close> laid out in its bytes.\<close>

definition config_view_for :: "TransactionConfigView \<Rightarrow> tx_config \<Rightarrow> bool" where
  "config_view_for v c \<longleftrightarrow>
     (\<exists>mask_offset offset offset'. 0 < mask_offset \<and> mask_offset \<le> 65535 \<and> offset \<le> 65535
       \<and> tcv_frame v = config_frame_of mask_offset c offset
       \<and> seg (tcv_bytes v) offset offset' (config_values c))"

lemma config_word_at:
  assumes w: "word_index_for_bit (tcv_frame v) b = Some i"
    and o: "unat (tcf_values_offset (tcv_frame v)) = offset" "offset \<le> 65535"
    and sg: "seg (tcv_bytes v) offset offset' (xs @ ys @ zs)"
    and len: "length xs = 4 * unat i" "length ys = n"
  shows "config_word v b n = Ok (Some (le_value ys))"
proof -
  have "unat i * 4 \<le> USIZE_MAX" "offset + unat i * 4 \<le> USIZE_MAX"
    using o(2) unat_u8_bound(2) [of i] by linarith+
  then have "word_offset (tcv_frame v) b = Some (offset + length xs)"
    using w o(1) len(1) by (simp add: word_offset_def CONFIG_VALUE_SIZE_def mult.commute)
  moreover have "seg (tcv_bytes v) (offset + length xs) (offset + length xs + length ys) ys"
    using sg by (simp add: seg_append)
  ultimately show ?thesis
    using len(2) unchecked_copy_value_seg by (simp add: config_word_def)
qed

lemma config_word_none:
  "word_index_for_bit (tcv_frame v) b = None \<Longrightarrow> config_word v b n = Ok None"
  by (simp add: config_word_def word_offset_def)

lemma config_field:
  fixes x :: "'a::len word option"
  assumes w: "word_index_for_bit (tcv_frame v) b = (if x \<noteq> None then Some i else None)"
    and o: "unat (tcf_values_offset (tcv_frame v)) = offset" "offset \<le> 65535"
    and sg: "seg (tcv_bytes v) offset offset' (xs @ enc_opt n x @ zs)"
    and len: "length xs = 4 * unat i" and n: "LENGTH('a) = 8 * n"
  shows "r_bind (config_word v b n) (\<lambda>v. Ok (map_option of_nat v)) = Ok x"
proof (cases x)
  case None
  with w show ?thesis by (simp add: config_word_none)
next
  case (Some y)
  then have "config_word v b n = Ok (Some (le_value (le_bytes n (unat y))))"
    using w sg by (intro config_word_at [OF _ o _ len]) (simp_all add: enc_opt_def)
  with Some n show ?thesis by (simp add: le_value_enc)
qed

lemma config_view_read:
  assumes "config_view_for v c"
  shows "priority_fee_lamports v = Ok (cfg_priority_fee c)
       \<and> compute_unit_limit v = Ok (cfg_compute_unit_limit c)
       \<and> loaded_accounts_data_size_limit v = Ok (cfg_loaded_size_limit c)
       \<and> requested_heap_size v = Ok (cfg_heap_size c)"
proof -
  from assms obtain mo offset offset' where mo: "0 < mo" "mo \<le> 65535" and o: "offset \<le> 65535"
      and f: "tcv_frame v = config_frame_of mo c offset"
      and sg: "seg (tcv_bytes v) offset offset' (config_values c)"
    by (auto simp: config_view_for_def)
  have uo: "unat (tcf_values_offset (tcv_frame v)) = offset"
    using o by (simp add: f config_frame_of_def unat_of_nat_u16)
  have "tcf_mask_offset (tcv_frame v) \<noteq> 0"
    using mo by (simp add: f config_frame_of_def word_unat_eq_iff unat_of_nat_u16)
  then have w: "word_index_for_bit (tcv_frame v) 0 = (if cfg_priority_fee c \<noteq> None then Some 0 else None)"
    "word_index_for_bit (tcv_frame v) 2 = (if cfg_compute_unit_limit c \<noteq> None
       then Some (2 * of_bool (cfg_priority_fee c \<noteq> None)) else None)"
    "word_index_for_bit (tcv_frame v) 3 = (if cfg_loaded_size_limit c \<noteq> None
       then Some (2 * of_bool (cfg_priority_fee c \<noteq> None)
                  + of_bool (cfg_compute_unit_limit c \<noteq> None)) else None)"
    "word_index_for_bit (tcv_frame v) 4 = (if cfg_heap_size c \<noteq> None
       then Some (2 * of_bool (cfg_priority_fee c \<noteq> None) + of_bool (cfg_compute_unit_limit c \<noteq> None)
                  + of_bool (cfg_loaded_size_limit c \<noteq> None)) else None)"
    by (intro word_index_bits [of "tcv_frame v"];
        simp add: f config_frame_of_def config_mask_bits)+
  let ?e0 = "enc_opt 8 (cfg_priority_fee c)" and ?e2 = "enc_opt 4 (cfg_compute_unit_limit c)"
    and ?e3 = "enc_opt 4 (cfg_loaded_size_limit c)" and ?e4 = "enc_opt 4 (cfg_heap_size c)"
  note sg = sg [unfolded config_values_def]
  show ?thesis
    unfolding priority_fee_lamports_def compute_unit_limit_def loaded_accounts_data_size_limit_def
      requested_heap_size_def
  proof (intro conjI)
    show "r_bind (config_word v 0 8) (\<lambda>v. Ok (map_option of_nat v)) = Ok (cfg_priority_fee c)"
      using sg by (intro config_field [OF w(1) uo o, where xs = "[]"]) simp_all
    show "r_bind (config_word v 2 4) (\<lambda>v. Ok (map_option of_nat v)) = Ok (cfg_compute_unit_limit c)"
      using sg by (intro config_field [OF w(2) uo o, where xs = ?e0]) (auto simp: length_enc_opt)
    show "r_bind (config_word v 3 4) (\<lambda>v. Ok (map_option of_nat v)) = Ok (cfg_loaded_size_limit c)"
      using sg by (intro config_field [OF w(3) uo o, where xs = "?e0 @ ?e2"]) (auto simp: length_enc_opt)
    show "r_bind (config_word v 4 4) (\<lambda>v. Ok (map_option of_nat v)) = Ok (cfg_heap_size c)"
      using sg by (intro config_field [OF w(4) uo o, where xs = "?e0 @ ?e2 @ ?e3" and zs = "[]"])
        (auto simp: length_enc_opt)
  qed
qed

text \<open>
  C16. A v1 configuration reads back field by field. When the parser accepts a mask and the value words
  at the cursor, there is a logical configuration \<open>c\<close> whose mask is that mask and whose encoding are
  the bytes between the two cursors, and the four accessors of the resulting view return exactly the
  optional fields of \<open>c\<close>, without an out-of-bounds read: the priority fee spans two words, every
  other field one, absent fields are \<open>None\<close> and take no space.
\<close>

theorem config_parse_read:
  assumes "in_buffer bytes offset" "0 < mask_offset"
    and "TransactionConfigFrame_try_new bytes mask_offset msk offset = (Ok f, offset')"
  shows "\<exists>c. config_mask c = msk \<and> seg bytes offset offset' (config_values c)
    \<and> priority_fee_lamports \<lparr>tcv_frame = f, tcv_bytes = bytes\<rparr> = Ok (cfg_priority_fee c)
    \<and> compute_unit_limit \<lparr>tcv_frame = f, tcv_bytes = bytes\<rparr> = Ok (cfg_compute_unit_limit c)
    \<and> loaded_accounts_data_size_limit \<lparr>tcv_frame = f, tcv_bytes = bytes\<rparr>
        = Ok (cfg_loaded_size_limit c)
    \<and> requested_heap_size \<lparr>tcv_frame = f, tcv_bytes = bytes\<rparr> = Ok (cfg_heap_size c)"
proof -
  obtain c where c: "msk = config_mask c" "seg bytes offset offset' (config_values c)"
      "f = config_frame_of mask_offset c offset" "mask_offset \<le> 65535" "offset \<le> 65535"
    by (rule TransactionConfigFrame_sound [OF assms(1,3)])
  then have "config_view_for \<lparr>tcv_frame = f, tcv_bytes = bytes\<rparr> c"
    using assms(2) unfolding config_view_for_def
    by (intro exI [of _ mask_offset] exI [of _ offset] exI [of _ offset']) simp
  from config_view_read [OF this] c(1,2) show ?thesis by blast
qed

theorem config_parse_read_witness:
  "\<exists>c. config_mask c = 4 \<and> seg [0, 0, 0, 0, 9, 1, 0, 0 :: u8] 4 8 (config_values c)"
proof -
  let ?bs = "[0, 0, 0, 0, 9, 1, 0, 0 :: u8]"
  let ?c = "\<lparr>cfg_priority_fee = None, cfg_compute_unit_limit = Some 265, cfg_loaded_size_limit = None,
             cfg_heap_size = None\<rparr>"
  have ib: "in_buffer ?bs 4" by (simp add: in_buffer_def valid_slice_def)
  have "config_values ?c = [9, 1, 0, 0]" by code_simp
  then have "seg ?bs 4 8 (config_values ?c)" by (simp add: seg_def)
  then have "TransactionConfigFrame_try_new ?bs 2 (config_mask ?c) 4
      = (Ok (config_frame_of 2 ?c 4), 8)"
    by (intro TransactionConfigFrame_complete [OF ib]) simp_all
  moreover have "config_mask ?c = 4" by (simp add: config_mask_def)
  ultimately show ?thesis using config_parse_read [OF ib, of 2 4 _ 8] by auto
qed

end
