(* ===== verification/Header_Frames.thy ===== *)
theory Header_Frames
  imports Bytes
begin

unbundle bit_operations_syntax

text \<open>
  The fixed parts of a transaction: \<open>signature_frame.rs\<close>, \<open>static_account_keys_frame.rs\<close>,
  \<open>message_header_frame.rs\<close> and \<open>transaction_version.rs\<close>. Each frame has a soundness lemma (a
  successful parse exhibits the values whose encoding lies between the two cursors, and the frame
  describes exactly those), a completeness lemma (every such encoding is accepted) and a triple
  (no panic, no undefined behaviour, the cursor stays inside the buffer).
\<close>

section \<open>Layout constants\<close>

text \<open>
  Sizes and markers of the wire format that the sources import: a public key and a hash have 32
  bytes and a packet 1232 (comments of \<open>static_account_keys_frame.rs\<close> and \<open>message_frame.rs\<close>), a
  signature 64 (the v1 transaction built in the tests of \<open>transaction_frame.rs\<close>); the version
  marker is the top bit of a byte, and the v1 version byte is the marker with version number 1
  (comments of \<open>transaction_frame.rs\<close> and the tests of \<open>message_frame.rs\<close>).
\<close>

abbreviation size_of_Pubkey :: usize where "size_of_Pubkey \<equiv> 32"
abbreviation size_of_Hash :: usize where "size_of_Hash \<equiv> 32"
abbreviation size_of_Signature :: usize where "size_of_Signature \<equiv> 64"
abbreviation PACKET_DATA_SIZE :: usize where "PACKET_DATA_SIZE \<equiv> 1232"
abbreviation MESSAGE_VERSION_PREFIX :: u8 where "MESSAGE_VERSION_PREFIX \<equiv> 0x80"
abbreviation V1_PREFIX :: u8 where "V1_PREFIX \<equiv> 0x81"

text \<open>A sequence of values of one size, as it appears on the wire.\<close>

definition sized :: "nat \<Rightarrow> bytes list \<Rightarrow> bool" where
  "sized sz xs \<longleftrightarrow> (\<forall>x \<in> set xs. length x = sz)"

datatype TransactionVersion = Legacy | V0 | V1

section \<open>Signatures\<close>

record SignatureFrame =
  sf_num_signatures :: u8
  sf_offset :: u16

definition SignatureFrame_try_new :: "bytes \<Rightarrow> SignatureFrame reader" where
  "SignatureFrame_try_new bytes =
     p_bind (read_byte bytes) (\<lambda>num_signatures.
     if num_signatures = 0 \<or> num_signatures AND 0x80 \<noteq> 0 then p_lift (Err ParseError)
     else
       p_bind p_get (\<lambda>offset.
       let signature_offset = of_nat offset in
       p_bind (advance_offset_for_array size_of_Signature bytes (ucast num_signatures)) (\<lambda>_.
       p_return \<lparr>sf_num_signatures = num_signatures, sf_offset = signature_offset\<rparr>)))"

definition SignatureFrame_signatures :: "SignatureFrame \<Rightarrow> bytes \<Rightarrow> bytes list tv_result" where
  "SignatureFrame_signatures self bytes =
     r_bind (ptr_add bytes (unat (sf_offset self))) (\<lambda>ptr.
     from_raw_parts size_of_Signature bytes ptr (unat (sf_num_signatures self)))"

section \<open>Static account keys\<close>

definition LEGACY_OR_V0_MAX_STATIC_ACCOUNTS_PER_PACKET :: u8 where
  "LEGACY_OR_V0_MAX_STATIC_ACCOUNTS_PER_PACKET = of_nat (PACKET_DATA_SIZE div size_of_Pubkey)"

record StaticAccountKeysFrame =
  skf_num_static_accounts :: u8
  skf_offset :: u16

definition StaticAccountKeysFrame_try_new :: "bytes \<Rightarrow> StaticAccountKeysFrame reader" where
  "StaticAccountKeysFrame_try_new bytes =
     p_bind (read_byte bytes) (\<lambda>num_static_accounts.
     if num_static_accounts = 0
        \<or> num_static_accounts > LEGACY_OR_V0_MAX_STATIC_ACCOUNTS_PER_PACKET
     then p_lift (Err ParseError)
     else
       p_bind p_get (\<lambda>offset.
       let static_accounts_offset = of_nat offset in
       p_bind (advance_offset_for_array size_of_Pubkey bytes (ucast num_static_accounts)) (\<lambda>_.
       p_return \<lparr>skf_num_static_accounts = num_static_accounts,
                 skf_offset = static_accounts_offset\<rparr>)))"

section \<open>Message header\<close>

record MessageHeaderFrame =
  mhf_offset :: u16
  mhf_version :: TransactionVersion
  mhf_num_required_signatures :: u8
  mhf_num_readonly_signed_accounts :: u8
  mhf_num_readonly_unsigned_accounts :: u8

definition MessageHeaderFrame_try_new :: "bytes \<Rightarrow> MessageHeaderFrame reader" where
  "MessageHeaderFrame_try_new bytes =
     p_bind p_get (\<lambda>offset.
     let message_offset = of_nat offset in
     p_bind (read_byte bytes) (\<lambda>message_prefix.
     p_bind
       (if message_prefix AND MESSAGE_VERSION_PREFIX \<noteq> 0 then
          let version = message_prefix AND NOT MESSAGE_VERSION_PREFIX in
          if version = 0
          then p_bind (read_byte bytes) (\<lambda>n. p_return (V0, n))
          else p_lift (Err ParseError)
        else p_return (Legacy, message_prefix))
       (\<lambda>(version, num_required_signatures).
     p_bind (read_byte bytes) (\<lambda>num_readonly_signed_accounts.
     p_bind (read_byte bytes) (\<lambda>num_readonly_unsigned_accounts.
     p_return
       \<lparr>mhf_offset = message_offset,
        mhf_version = version,
        mhf_num_required_signatures = num_required_signatures,
        mhf_num_readonly_signed_accounts = num_readonly_signed_accounts,
        mhf_num_readonly_unsigned_accounts = num_readonly_unsigned_accounts\<rparr>)))))"

text \<open>The header on the wire: the version byte of a v0 message, then the three counts.\<close>

definition enc_header :: "TransactionVersion \<Rightarrow> u8 \<Rightarrow> u8 \<Rightarrow> u8 \<Rightarrow> bytes" where
  "enc_header version req ro_signed ro_unsigned =
     (if version = V0 then [MESSAGE_VERSION_PREFIX] else []) @ [req, ro_signed, ro_unsigned]"

definition wf_header :: "TransactionVersion \<Rightarrow> u8 \<Rightarrow> bool" where
  "wf_header version req \<longleftrightarrow> version = V0 \<or> version = Legacy \<and> unat req < 128"

section \<open>Counted arrays\<close>

lemma advance_array_sound:
  assumes "in_buffer bytes offset" "sz \<le> 65536"
    and "advance_offset_for_array sz bytes n offset = (Ok u, offset')"
  obtains xs where "length xs = unat n" "sized sz xs" "seg bytes offset offset' (concat xs)"
proof
  let ?bs = "take (unat n * sz) (drop offset bytes)"
  have len: "length ?bs = sz * unat n"
    using assms by (auto simp: advance_offset_for_array_Ok_iff)
  show "length (chunks sz (unat n) ?bs) = unat n" by simp
  show "sized sz (chunks sz (unat n) ?bs)"
    using chunks_length_elem [OF len] by (simp only: sized_def Ball_def) blast
  show "seg bytes offset offset' (concat (chunks sz (unat n) ?bs))"
    using advance_seg [OF assms] by (simp only: concat_chunks [OF len])
qed

lemma advance_sized_complete:
  assumes "in_buffer bytes offset" "seg bytes offset offset' (concat xs)" "sized sz xs"
    and "sz \<le> 65536" "length xs = unat n"
  shows "advance_offset_for_array sz bytes n offset = (Ok (), offset')"
  using assms length_concat_sized [of xs sz]
  by (intro advance_array_complete) (auto simp: sized_def mult.commute)

section \<open>Correctness of the signature frame\<close>

definition sig_frame_of :: "usize \<Rightarrow> bytes list \<Rightarrow> SignatureFrame" where
  "sig_frame_of offset sigs =
     \<lparr>sf_num_signatures = of_nat (length sigs), sf_offset = of_nat (Suc offset)\<rparr>"

lemma u8_of_length: "length xs = unat (n :: u8) \<Longrightarrow> of_nat (length xs) = n"
  by simp

lemma SignatureFrame_sound:
  assumes ib: "in_buffer bytes offset"
    and ok: "SignatureFrame_try_new bytes offset = (Ok f, offset')"
  obtains sigs where "1 \<le> length sigs" "length sigs \<le> 127" "sized size_of_Signature sigs"
    "seg bytes offset offset' (of_nat (length sigs) # concat sigs)" "f = sig_frame_of offset sigs"
proof -
  from ok obtain n o1 where r: "read_byte bytes offset = (Ok n, o1)"
      and n: "n \<noteq> 0" "n AND 0x80 = 0"
      and a: "advance_offset_for_array size_of_Signature bytes (ucast n) o1 = (Ok (), offset')"
      and f: "f = \<lparr>sf_num_signatures = n, sf_offset = of_nat o1\<rparr>"
    by (auto simp: SignatureFrame_try_new_def p_bind_Ok_iff Let_def split: if_splits)
  have s1: "seg bytes offset o1 [n]" using r ib by (simp add: read_byte_Ok_iff)
  then have o1: "o1 = Suc offset" by (simp add: seg_def)
  obtain sigs where s: "length sigs = unat n" "sized size_of_Signature sigs"
      "seg bytes o1 offset' (concat sigs)"
    using advance_array_sound [OF in_buffer_seg [OF ib s1] _ a] by auto
  show ?thesis
  proof (rule that [OF _ _ s(2)])
    show "1 \<le> length sigs" using s(1) n(1) by (simp add: unat_gt_0 Suc_le_eq)
    show "length sigs \<le> 127" using s(1) n(2) by (simp add: and_128_eq_0_iff)
    show "seg bytes offset offset' (of_nat (length sigs) # concat sigs)"
      using seg_appendI [OF s1 s(3)] u8_of_length [OF s(1)] by simp
    show "f = sig_frame_of offset sigs"
      using f o1 u8_of_length [OF s(1)] by (simp add: sig_frame_of_def)
  qed
qed

lemma SignatureFrame_complete:
  assumes ib: "in_buffer bytes offset"
    and n: "1 \<le> length sigs" "length sigs \<le> 127" "sized size_of_Signature sigs"
    and sg: "seg bytes offset offset' (of_nat (length sigs) # concat sigs)"
  shows "SignatureFrame_try_new bytes offset = (Ok (sig_frame_of offset sigs), offset')"
proof -
  let ?n = "of_nat (length sigs) :: u8"
  have u: "unat ?n = length sigs" using n by (intro unat_of_nat_u8) simp
  have s: "seg bytes offset (Suc offset) [?n]" "seg bytes (Suc offset) offset' (concat sigs)"
    using sg seg_append [of bytes offset offset' "[?n]" "concat sigs"] by simp_all
  have r: "read_byte bytes offset = (Ok ?n, Suc offset)" using ib s(1) by (simp add: read_byte_Ok_iff)
  have a: "advance_offset_for_array size_of_Signature bytes (ucast ?n) (Suc offset) = (Ok (), offset')"
    using advance_sized_complete [OF in_buffer_seg [OF ib s(1)] s(2) n(3)] u by simp
  have "?n \<noteq> 0" using u n(1) by (metis not_one_le_zero unsigned_0)
  moreover have "?n AND 0x80 = 0" using u n(2) by (simp add: and_128_eq_0_iff)
  ultimately show ?thesis
    using r a
    by (simp add: SignatureFrame_try_new_def p_bind_def comp_unfold Let_def sig_frame_of_def)
qed

lemma SignatureFrame_triple [triple_rules]:
  "triple (in_buffer bytes) (SignatureFrame_try_new bytes) (\<lambda>_. in_buffer bytes)"
  unfolding SignatureFrame_try_new_def Let_def
  by (intro triple_bind [OF read_byte_triple] triple_if triple_err triple_get_bind
      triple_bind [OF advance_offset_for_array_triple] triple_return) simp_all

section \<open>Correctness of the static account key frame\<close>

lemma max_static_accounts: "unat LEGACY_OR_V0_MAX_STATIC_ACCOUNTS_PER_PACKET = 38"
  by (simp add: LEGACY_OR_V0_MAX_STATIC_ACCOUNTS_PER_PACKET_def)

definition keys_frame_of :: "usize \<Rightarrow> bytes list \<Rightarrow> StaticAccountKeysFrame" where
  "keys_frame_of offset keys =
     \<lparr>skf_num_static_accounts = of_nat (length keys), skf_offset = of_nat (Suc offset)\<rparr>"

lemma StaticAccountKeysFrame_sound:
  assumes ib: "in_buffer bytes offset"
    and ok: "StaticAccountKeysFrame_try_new bytes offset = (Ok f, offset')"
  obtains keys where "1 \<le> length keys" "length keys \<le> 38" "sized size_of_Pubkey keys"
    "seg bytes offset offset' (of_nat (length keys) # concat keys)" "f = keys_frame_of offset keys"
proof -
  from ok obtain n o1 where r: "read_byte bytes offset = (Ok n, o1)"
      and n: "n \<noteq> 0" "n \<le> LEGACY_OR_V0_MAX_STATIC_ACCOUNTS_PER_PACKET"
      and a: "advance_offset_for_array size_of_Pubkey bytes (ucast n) o1 = (Ok (), offset')"
      and f: "f = \<lparr>skf_num_static_accounts = n, skf_offset = of_nat o1\<rparr>"
    by (auto simp: StaticAccountKeysFrame_try_new_def p_bind_Ok_iff Let_def split: if_splits)
  have s1: "seg bytes offset o1 [n]" using r ib by (simp add: read_byte_Ok_iff)
  then have o1: "o1 = Suc offset" by (simp add: seg_def)
  obtain keys where s: "length keys = unat n" "sized size_of_Pubkey keys"
      "seg bytes o1 offset' (concat keys)"
    using advance_array_sound [OF in_buffer_seg [OF ib s1] _ a] by auto
  show ?thesis
  proof (rule that [OF _ _ s(2)])
    show "1 \<le> length keys" using s(1) n(1) by (simp add: unat_gt_0 Suc_le_eq)
    show "length keys \<le> 38" using s(1) n(2) by (simp add: word_le_nat_alt max_static_accounts)
    show "seg bytes offset offset' (of_nat (length keys) # concat keys)"
      using seg_appendI [OF s1 s(3)] u8_of_length [OF s(1)] by simp
    show "f = keys_frame_of offset keys"
      using f o1 u8_of_length [OF s(1)] by (simp add: keys_frame_of_def)
  qed
qed

lemma StaticAccountKeysFrame_complete:
  assumes ib: "in_buffer bytes offset"
    and n: "1 \<le> length keys" "length keys \<le> 38" "sized size_of_Pubkey keys"
    and sg: "seg bytes offset offset' (of_nat (length keys) # concat keys)"
  shows "StaticAccountKeysFrame_try_new bytes offset = (Ok (keys_frame_of offset keys), offset')"
proof -
  let ?n = "of_nat (length keys) :: u8"
  have u: "unat ?n = length keys" using n by (intro unat_of_nat_u8) simp
  have s: "seg bytes offset (Suc offset) [?n]" "seg bytes (Suc offset) offset' (concat keys)"
    using sg seg_append [of bytes offset offset' "[?n]" "concat keys"] by simp_all
  have r: "read_byte bytes offset = (Ok ?n, Suc offset)" using ib s(1) by (simp add: read_byte_Ok_iff)
  have a: "advance_offset_for_array size_of_Pubkey bytes (ucast ?n) (Suc offset) = (Ok (), offset')"
    using advance_sized_complete [OF in_buffer_seg [OF ib s(1)] s(2) n(3)] u by simp
  have "?n \<noteq> 0" using u n(1) by (metis not_one_le_zero unsigned_0)
  moreover have "\<not> ?n > LEGACY_OR_V0_MAX_STATIC_ACCOUNTS_PER_PACKET"
    using u n(2) by (simp add: word_less_nat_alt max_static_accounts)
  ultimately show ?thesis
    using r a
    by (simp add: StaticAccountKeysFrame_try_new_def p_bind_def comp_unfold Let_def keys_frame_of_def)
qed

lemma StaticAccountKeysFrame_triple [triple_rules]:
  "triple (in_buffer bytes) (StaticAccountKeysFrame_try_new bytes) (\<lambda>_. in_buffer bytes)"
  unfolding StaticAccountKeysFrame_try_new_def Let_def
  by (intro triple_bind [OF read_byte_triple] triple_if triple_err triple_get_bind
      triple_bind [OF advance_offset_for_array_triple] triple_return) simp_all

section \<open>Correctness of the header frame\<close>

lemma version_byte_iff:
  "(b :: u8) AND 0x80 \<noteq> 0 \<and> b AND NOT 0x80 = 0 \<longleftrightarrow> b = 0x80"
proof
  assume h: "b AND 0x80 \<noteq> 0 \<and> b AND NOT 0x80 = 0"
  have "b = (b AND 0x80) OR (b AND NOT 0x80)"
    by (rule bit_eqI) (auto simp: bit_simps)
  with h have "b = b AND 0x80" by simp
  then have "b \<le> 0x80" using word_and_le1 [of b "0x80"] by metis
  moreover have "128 \<le> unat b" using h by (simp add: and_128_eq_0_iff)
  ultimately show "b = 0x80" by (simp add: word_unat_eq_iff word_le_nat_alt)
qed simp

definition header_frame_of ::
  "usize \<Rightarrow> TransactionVersion \<Rightarrow> u8 \<Rightarrow> u8 \<Rightarrow> u8 \<Rightarrow> MessageHeaderFrame" where
  "header_frame_of offset version req ro_signed ro_unsigned =
     \<lparr>mhf_offset = of_nat offset, mhf_version = version, mhf_num_required_signatures = req,
      mhf_num_readonly_signed_accounts = ro_signed,
      mhf_num_readonly_unsigned_accounts = ro_unsigned\<rparr>"

lemma MessageHeaderFrame_sound:
  assumes ib: "in_buffer bytes offset"
    and ok: "MessageHeaderFrame_try_new bytes offset = (Ok f, offset')"
  obtains version req ros rou where "wf_header version req"
    "seg bytes offset offset' (enc_header version req ros rou)"
    "f = header_frame_of offset version req ros rou"
proof -
  from ok obtain b o1 version req o2 ros o3 rou where
      r1: "read_byte bytes offset = (Ok b, o1)"
      and v: "(b AND 0x80 \<noteq> 0 \<and> b AND NOT 0x80 = 0 \<and> version = V0 \<and> read_byte bytes o1 = (Ok req, o2))
              \<or> (b AND 0x80 = 0 \<and> version = Legacy \<and> req = b \<and> o2 = o1)"
      and r2: "read_byte bytes o2 = (Ok ros, o3)" and r3: "read_byte bytes o3 = (Ok rou, offset')"
      and f: "f = header_frame_of offset version req ros rou"
    unfolding MessageHeaderFrame_try_new_def header_frame_of_def Let_def
    by (elim p_bind_Ok_E) (fastforce simp: p_bind_Ok_iff split: if_splits prod.splits)
  have s1: "seg bytes offset o1 [b]" using r1 ib by (simp add: read_byte_Ok_iff)
  note ib1 = in_buffer_seg [OF ib s1]
  have s2: "seg bytes offset o2 ((if version = V0 then [0x80] else []) @ [req])"
  proof (cases "version = V0")
    case True
    with v have "b = 0x80" "read_byte bytes o1 = (Ok req, o2)" using version_byte_iff by auto
    then show ?thesis
      using True seg_appendI [OF s1] ib1 by (simp add: read_byte_Ok_iff)
  next
    case False
    with v s1 show ?thesis by simp
  qed
  note ib2 = in_buffer_seg [OF ib s2]
  have s3: "seg bytes o2 o3 [ros]" using r2 ib2 by (simp add: read_byte_Ok_iff)
  note ib3 = in_buffer_seg [OF ib2 s3]
  have s4: "seg bytes o3 offset' [rou]" using r3 ib3 by (simp add: read_byte_Ok_iff)
  show ?thesis
  proof (rule that [OF _ _ f])
    show "wf_header version req" using v by (auto simp: wf_header_def and_128_eq_0_iff)
    show "seg bytes offset offset' (enc_header version req ros rou)"
      using seg_appendI [OF seg_appendI [OF s2 s3] s4] by (simp add: enc_header_def)
  qed
qed

lemma MessageHeaderFrame_complete:
  assumes ib: "in_buffer bytes offset" and wf: "wf_header version req"
    and sg: "seg bytes offset offset' (enc_header version req ros rou)"
  shows "MessageHeaderFrame_try_new bytes offset
         = (Ok (header_frame_of offset version req ros rou), offset')"
proof (cases "version = V0")
  case True
  with sg have s: "seg bytes offset offset' [0x80, req, ros, rou]" by (simp add: enc_header_def)
  then have "seg bytes offset (offset + 1) [0x80]" "seg bytes (offset + 1) (offset + 2) [req]"
    "seg bytes (offset + 2) (offset + 3) [ros]" "seg bytes (offset + 3) offset' [rou]"
    by (auto simp: seg_Cons numeral_3_eq_3)
  then have "read_byte bytes offset = (Ok 0x80, offset + 1)"
    "read_byte bytes (offset + 1) = (Ok req, offset + 2)"
    "read_byte bytes (offset + 2) = (Ok ros, offset + 3)"
    "read_byte bytes (offset + 3) = (Ok rou, offset')"
    using ib by (simp_all add: read_byte_Ok_iff in_buffer_def seg_def)
  then show ?thesis
    using True by (simp add: MessageHeaderFrame_try_new_def p_bind_def comp_unfold Let_def
        header_frame_of_def)
next
  case False
  with wf have leg: "version = Legacy" "req AND 0x80 = 0"
    by (auto simp: wf_header_def and_128_eq_0_iff)
  with sg have s: "seg bytes offset offset' [req, ros, rou]" by (simp add: enc_header_def)
  then have "seg bytes offset (offset + 1) [req]"
    "seg bytes (offset + 1) (offset + 2) [ros]" "seg bytes (offset + 2) offset' [rou]"
    by (auto simp: seg_Cons)
  then have "read_byte bytes offset = (Ok req, offset + 1)"
    "read_byte bytes (offset + 1) = (Ok ros, offset + 2)"
    "read_byte bytes (offset + 2) = (Ok rou, offset')"
    using ib by (simp_all add: read_byte_Ok_iff in_buffer_def seg_def)
  then show ?thesis
    using leg by (simp add: MessageHeaderFrame_try_new_def p_bind_def comp_unfold Let_def
        header_frame_of_def)
qed

lemma MessageHeaderFrame_triple [triple_rules]:
  "triple (in_buffer bytes) (MessageHeaderFrame_try_new bytes) (\<lambda>_. in_buffer bytes)"
  unfolding MessageHeaderFrame_try_new_def Let_def case_prod_unfold
  by (intro triple_get_bind triple_bind [OF read_byte_triple] triple_if triple_err triple_return
      triple_bind [where Q = "\<lambda>_. in_buffer bytes"]) simp_all

end
