(* ===== verification/Record_Loop.thy ===== *)
theory Record_Loop
  imports Header_Frames
begin

text \<open>
  Two interfaces shared by the variable-size parts of a message.

  \<open>record_loop\<close> is the contract of a loop body that parses one record: what it accepts, how it
  updates its accumulator, that it stays inside the buffer. Its clients (the instruction and the
  address-table-lookup parsers) get the contract of the whole loop.

  \<open>record_iterator\<close> is the contract of a Rust iterator over records that lie in a validated
  buffer: each call of \<open>next\<close> yields the next record without a fault, then \<open>None\<close>. Its clients get
  that a loop over the iterator is the loop over the list of records, and the exact length.
\<close>

section \<open>Loops over an iterator\<close>

datatype 'a flow = Continue 'a | Break 'a

fun list_try_fold ::
  "('acc \<Rightarrow> 'x \<Rightarrow> ('e, 'acc flow) outcome) \<Rightarrow> 'acc \<Rightarrow> 'x list \<Rightarrow> ('e, 'acc) outcome" where
  "list_try_fold body acc [] = Ok acc"
| "list_try_fold body acc (x # xs) =
     r_bind (body acc x) (\<lambda>f. case f of Continue acc' \<Rightarrow> list_try_fold body acc' xs | Break acc' \<Rightarrow> Ok acc')"

text \<open>Loop bodies: a check of each element, a search, and collecting the elements.\<close>

definition each_body :: "('x \<Rightarrow> ('e, unit) outcome) \<Rightarrow> unit \<Rightarrow> 'x \<Rightarrow> ('e, unit flow) outcome" where
  "each_body check acc x = r_bind (check x) (\<lambda>_. Ok (Continue ()))"

definition any_body :: "('x \<Rightarrow> bool) \<Rightarrow> bool \<Rightarrow> 'x \<Rightarrow> ('e, bool flow) outcome" where
  "any_body P acc x = Ok (if P x then Break True else Continue acc)"

definition collect_body :: "'x list \<Rightarrow> 'x \<Rightarrow> ('e, 'x list flow) outcome" where
  "collect_body acc x = Ok (Continue (acc @ [x]))"

lemma list_try_fold_each:
  "list_try_fold (each_body check) () xs = Ok () \<longleftrightarrow> (\<forall>x \<in> set xs. check x = Ok ())"
proof (induction xs)
  case (Cons x xs)
  then show ?case by (cases "check x") (auto simp: each_body_def)
qed simp

lemma list_try_fold_each_no_fault:
  "(\<And>x. x \<in> set xs \<Longrightarrow> no_fault (check x)) \<Longrightarrow> no_fault (list_try_fold (each_body check) () xs)"
proof (induction xs)
  case (Cons x xs)
  then have "no_fault (check x)" by simp
  with Cons show ?case by (cases "check x") (auto simp: each_body_def)
qed simp

lemma list_try_fold_each_err:
  "(\<And>x. x \<in> set xs \<Longrightarrow> check x = Ok () \<or> check x = Err e) \<Longrightarrow>
   list_try_fold (each_body check) () xs
     = (if \<forall>x \<in> set xs. check x = Ok () then Ok () else Err e)"
proof (induction xs)
  case (Cons x xs)
  from Cons.prems [of x] consider "check x = Ok ()" | "check x = Err e" by auto
  then show ?case using Cons by cases (auto simp: each_body_def)
qed simp

lemma list_try_fold_any: "list_try_fold (any_body P) False xs = Ok (\<exists>x \<in> set xs. P x)"
  by (induction xs) (auto simp: any_body_def)

lemma list_try_fold_collect: "list_try_fold collect_body acc xs = Ok (acc @ xs)"
  by (induction xs arbitrary: acc) (auto simp: collect_body_def)

section \<open>Counted byte arrays\<close>

lemma counted_bytes_sound:
  assumes ib: "in_buffer bytes offset"
    and r: "optimized_read_compressed_u16 bytes offset = (Ok n, o1)"
    and a: "advance_offset_for_array 1 bytes n o1 = (Ok u, offset')"
  obtains xs where "length xs = unat n" "length xs < 16384" "n = of_nat (length xs)"
    "o1 = offset + length (enc_compact_u16 (length xs))"
    "seg bytes offset offset' (enc_compact_u16 (length xs) @ xs)"
proof -
  from optimized_read_compressed_u16_sound [OF ib r]
  have n: "unat n < 16384" and s1: "seg bytes offset o1 (enc_compact_u16 (unat n))" by simp_all
  have s2: "seg bytes o1 offset' (take (unat n) (drop o1 bytes))"
    using advance_seg [OF in_buffer_seg [OF ib s1] _ a] by simp
  have len: "length (take (unat n) (drop o1 bytes)) = unat n"
    using a in_buffer_seg [OF ib s1] by (auto simp: advance_offset_for_array_Ok_iff)
  show thesis
  proof (rule that)
    show "n = of_nat (length (take (unat n) (drop o1 bytes)))" unfolding len by simp
    show "seg bytes offset offset'
        (enc_compact_u16 (length (take (unat n) (drop o1 bytes))) @ take (unat n) (drop o1 bytes))"
      unfolding len by (rule seg_appendI [OF s1 s2])
  qed (use n len seg_end [OF s1] in \<open>simp_all only:\<close>)
qed

lemma counted_bytes_complete:
  assumes ib: "in_buffer bytes offset" and n: "length xs < 16384"
    and sg: "seg bytes offset offset' (enc_compact_u16 (length xs) @ xs)"
  shows "optimized_read_compressed_u16 bytes offset
           = (Ok (of_nat (length xs)), offset + length (enc_compact_u16 (length xs)))"
    and "advance_offset_for_array 1 bytes (of_nat (length xs))
           (offset + length (enc_compact_u16 (length xs))) = (Ok (), offset')"
proof -
  let ?o1 = "offset + length (enc_compact_u16 (length xs))"
  have s: "seg bytes offset ?o1 (enc_compact_u16 (length xs))" "seg bytes ?o1 offset' xs"
    using sg by (simp_all add: seg_append)
  show "optimized_read_compressed_u16 bytes offset = (Ok (of_nat (length xs)), ?o1)"
    by (rule optimized_read_compressed_u16_complete [OF ib n s(1)])
  show "advance_offset_for_array 1 bytes (of_nat (length xs)) ?o1 = (Ok (), offset')"
    using advance_array_complete [OF in_buffer_seg [OF ib s(1)] _ s(2), of 1 "of_nat (length xs)"] n
    by (simp add: unat_of_nat_u16)
qed

lemma in_buffer_wrapping_sub:
  "in_buffer bytes (i + k) \<Longrightarrow> usize_wrapping_sub (i + k) i = k"
  by (simp add: in_buffer_def valid_slice_def)

section \<open>The contract of a parsing loop\<close>

locale record_loop =
  fixes body :: "bytes \<Rightarrow> 'acc \<Rightarrow> 'acc reader"
    and enc :: "'w \<Rightarrow> bytes"
    and wf :: "'w \<Rightarrow> bool"
    and upd :: "'acc \<Rightarrow> 'w \<Rightarrow> 'acc"
  assumes body_sound: "in_buffer bytes offset \<Longrightarrow> body bytes acc offset = (Ok acc', offset') \<Longrightarrow>
      \<exists>w. wf w \<and> seg bytes offset offset' (enc w) \<and> acc' = upd acc w"
    and body_complete: "in_buffer bytes offset \<Longrightarrow> wf w \<Longrightarrow> seg bytes offset offset' (enc w) \<Longrightarrow>
      body bytes acc offset = (Ok (upd acc w), offset')"
    and body_triple: "triple (in_buffer bytes) (body bytes acc) (\<lambda>_. in_buffer bytes)"
begin

lemma loop_sound:
  assumes "in_buffer bytes offset" "p_for n (body bytes) acc offset = (Ok acc', offset')"
  shows "\<exists>ws. length ws = n \<and> list_all wf ws \<and> seg bytes offset offset' (concat (map enc ws))
              \<and> acc' = foldl upd acc ws"
  using assms
proof (induction n arbitrary: acc offset)
  case 0
  then show ?case by (auto simp: in_buffer_def)
next
  case (Suc n)
  from Suc.prems(2) obtain a o1 where b: "body bytes acc offset = (Ok a, o1)"
      and rest: "p_for n (body bytes) a o1 = (Ok acc', offset')"
    by (auto simp: p_bind_Ok_iff)
  from body_sound [OF Suc.prems(1) b] obtain w where w: "wf w" "seg bytes offset o1 (enc w)" "a = upd acc w"
    by blast
  from Suc.IH [OF in_buffer_seg [OF Suc.prems(1) w(2)] rest] obtain ws where ws: "length ws = n"
      "list_all wf ws" "seg bytes o1 offset' (concat (map enc ws))" "acc' = foldl upd a ws"
    by blast
  have "seg bytes offset offset' (concat (map enc (w # ws)))"
    using seg_appendI [OF w(2) ws(3)] by simp
  with w ws show ?case by (intro exI [of _ "w # ws"]) simp
qed

lemma loop_complete:
  assumes "in_buffer bytes offset" "list_all wf ws" "seg bytes offset offset' (concat (map enc ws))"
  shows "p_for (length ws) (body bytes) acc offset = (Ok (foldl upd acc ws), offset')"
  using assms
proof (induction ws arbitrary: acc offset)
  case Nil
  then show ?case by (simp add: p_return_def)
next
  case (Cons w ws)
  then have s: "seg bytes offset (offset + length (enc w)) (enc w)"
      "seg bytes (offset + length (enc w)) offset' (concat (map enc ws))"
    by (simp_all add: seg_append)
  from Cons.prems(1,2) s(1) have
    "body bytes acc offset = (Ok (upd acc w), offset + length (enc w))"
    by (intro body_complete) simp_all
  then show ?case
    using Cons.IH [OF in_buffer_seg [OF Cons.prems(1) s(1)] _ s(2)] Cons.prems(2)
    by (simp add: p_bind_step)
qed

lemma loop_triple: "triple (in_buffer bytes) (p_for n (body bytes) acc) (\<lambda>_. in_buffer bytes)"
  by (rule triple_for) (rule body_triple)

end

section \<open>The contract of an iterator over validated records\<close>

locale record_iterator =
  fixes nxt :: "'it \<Rightarrow> ('e, 'x option) outcome \<times> 'it"
    and len :: "'it \<Rightarrow> nat"
    and remaining :: "'it \<Rightarrow> 'x list \<Rightarrow> bool"
    and try_fold :: "'it \<Rightarrow> ('acc \<Rightarrow> 'x \<Rightarrow> ('e, 'acc flow) outcome) \<Rightarrow> 'acc \<Rightarrow> ('e, 'acc) outcome"
  assumes next_done: "remaining it [] \<Longrightarrow> nxt it = (Ok None, it)"
    and next_step: "remaining it (x # xs) \<Longrightarrow> \<exists>it'. nxt it = (Ok (Some x), it') \<and> remaining it' xs"
    and len_remaining: "remaining it xs \<Longrightarrow> len it = length xs"
    and fold_done: "nxt it = (Ok None, it') \<Longrightarrow> try_fold it body acc = Ok acc"
    and fold_step: "nxt it = (Ok (Some x), it') \<Longrightarrow> try_fold it body acc =
      r_bind (body acc x) (\<lambda>f. case f of Continue acc' \<Rightarrow> try_fold it' body acc' | Break acc' \<Rightarrow> Ok acc')"
begin

lemma try_fold_remaining: "remaining it xs \<Longrightarrow> try_fold it body acc = list_try_fold body acc xs"
proof (induction xs arbitrary: it acc)
  case Nil
  then show ?case by (simp add: fold_done [OF next_done])
next
  case (Cons x xs)
  from next_step [OF Cons.prems] obtain it' where "nxt it = (Ok (Some x), it')" "remaining it' xs"
    by blast
  then show ?case
    by (simp add: fold_step) (intro r_bind_cong refl, simp add: Cons.IH split: flow.split)
qed

end

end
