(* ===== verification/Instructions_Frame.thy ===== *)
theory Instructions_Frame
  imports Record_Loop
begin

text \<open>
  \<open>instructions_frame.rs\<close>: the parsers of the instruction section (legacy/v0 and v1 layouts), the
  cached per-instruction frames and the iterators that read the instructions back with unchecked
  reads. The wire layouts are \<open>enc_instruction\<close> (legacy/v0) and \<open>enc_v1_header\<close>, \<open>enc_v1_payload\<close>
  (v1). The parsers are instances of the loop contract of \<open>record_loop\<close>, the iterators of
  \<open>record_iterator\<close>: parsing and then iterating returns the instructions on the wire, and no
  unchecked read leaves the buffer.
\<close>

section \<open>Data\<close>

record SVMInstruction =
  ix_program_id_index :: u8
  ix_accounts :: bytes
  ix_data :: bytes

record LegacyAndV0InstructionFrame =
  lif_num_accounts :: u16
  lif_data_len :: u16
  lif_num_accounts_len :: u8
  lif_data_len_len :: u8

datatype InstructionsFrame =
    IF_LegacyAndV0 (if_num: u16) (if_offset: u16) (if_frames: "LegacyAndV0InstructionFrame list")
  | IF_V1 (if_num: u16) (if_headers_offset: u16) (if_payloads_offset: u16)

record V1InstructionHeader =
  vh_program_id_index :: u8
  vh_num_accounts :: u8
  vh_data_len :: u16

abbreviation size_of_V1InstructionHeader :: usize where
  "size_of_V1InstructionHeader \<equiv> 4"

section \<open>Parsers\<close>

text \<open>The body of the \<open>for _index in 0..num_instructions\<close> loop.\<close>

definition legacy_instruction_body ::
  "bytes \<Rightarrow> LegacyAndV0InstructionFrame list \<Rightarrow> LegacyAndV0InstructionFrame list reader" where
  "legacy_instruction_body bytes frames =
     p_bind (read_byte bytes) (\<lambda>program_id_index.
     p_bind p_get (\<lambda>num_accounts_offset.
     p_bind (optimized_read_compressed_u16 bytes) (\<lambda>num_accounts.
     p_bind p_get (\<lambda>offset.
     let num_accounts_len = of_nat (usize_wrapping_sub offset num_accounts_offset) in
     p_bind (advance_offset_for_array 1 bytes num_accounts) (\<lambda>_.
     p_bind p_get (\<lambda>data_len_offset.
     p_bind (optimized_read_compressed_u16 bytes) (\<lambda>data_len.
     p_bind p_get (\<lambda>offset.
     let data_len_len = of_nat (usize_wrapping_sub offset data_len_offset) in
     p_bind (advance_offset_for_array 1 bytes data_len) (\<lambda>_.
     p_return (frames @
       [\<lparr>lif_num_accounts = num_accounts, lif_data_len = data_len,
         lif_num_accounts_len = num_accounts_len, lif_data_len_len = data_len_len\<rparr>]))))))))))"

definition try_new_for_legacy_and_v0 :: "bytes \<Rightarrow> InstructionsFrame reader" where
  "try_new_for_legacy_and_v0 bytes =
     p_bind (optimized_read_compressed_u16 bytes) (\<lambda>num_instructions.
     p_bind p_get (\<lambda>offset.
     p_bind (p_lift (check_remaining bytes offset
                       (usize_wrapping_mul 3 (unat num_instructions)))) (\<lambda>_.
     let instructions_offset = of_nat offset in
     p_bind (p_for (unat num_instructions) (legacy_instruction_body bytes) []) (\<lambda>frames.
     p_return (IF_LegacyAndV0 num_instructions instructions_offset frames)))))"

definition read_v1_header :: "bytes \<Rightarrow> V1InstructionHeader reader" where
  "read_v1_header bytes =
     p_bind p_get (\<lambda>offset.
     p_bind (p_lift (unchecked_copy_value size_of_V1InstructionHeader bytes offset)) (\<lambda>header.
     p_bind (p_modify (\<lambda>offset. usize_wrapping_add offset size_of_V1InstructionHeader)) (\<lambda>_.
     p_return \<lparr>vh_program_id_index = header ! 0, vh_num_accounts = header ! 1,
               vh_data_len = of_nat (le_value (drop 2 header))\<rparr>)))"

text \<open>\<open>ok_or(TransactionViewError::ParseError)\<close>.\<close>

definition ok_or_parse :: "'a option \<Rightarrow> 'a tv_result" where
  "ok_or_parse v = (case v of None \<Rightarrow> Err ParseError | Some x \<Rightarrow> Ok x)"

definition v1_header_body :: "bytes \<Rightarrow> usize \<Rightarrow> usize reader" where
  "v1_header_body bytes total_payload_len =
     p_bind (read_v1_header bytes) (\<lambda>header.
     p_bind (p_lift (ok_or_parse
       (usize_checked_add (unat (vh_num_accounts header)) (unat (vh_data_len header))))) (\<lambda>payload_len.
     p_lift (ok_or_parse (usize_checked_add total_payload_len payload_len))))"

text \<open>The header loop has a cursor of its own, \<open>header_offset\<close>.\<close>

definition try_new_for_v1 :: "bytes \<Rightarrow> u8 \<Rightarrow> InstructionsFrame reader" where
  "try_new_for_v1 bytes num_instructions =
     p_bind p_get (\<lambda>offset.
     let headers_offset = of_nat offset;
         headers_len = usize_wrapping_mul size_of_V1InstructionHeader (unat num_instructions) in
     p_bind (p_lift (check_remaining bytes offset headers_len)) (\<lambda>_.
     let header_offset = offset in
     p_bind (p_modify (\<lambda>offset. usize_wrapping_add offset headers_len)) (\<lambda>_.
     p_bind p_get (\<lambda>offset.
     let payloads_offset = of_nat offset in
     p_bind (p_lift (fst (p_for (unat num_instructions) (v1_header_body bytes) 0 header_offset)))
       (\<lambda>total_payload_len.
     p_bind (p_lift (check_remaining bytes offset total_payload_len)) (\<lambda>_.
     p_bind (p_modify (\<lambda>offset. usize_wrapping_add offset total_payload_len)) (\<lambda>_.
     p_return (IF_V1 (ucast num_instructions) headers_offset payloads_offset))))))))"

definition InstructionsFrame_num_instructions :: "InstructionsFrame \<Rightarrow> u16" where
  "InstructionsFrame_num_instructions self =
     (case self of
        IF_LegacyAndV0 num_instructions _ _ \<Rightarrow> num_instructions
      | IF_V1 num_instructions _ _ \<Rightarrow> num_instructions)"

section \<open>Iterators\<close>

datatype InstructionsIterator =
    II_LegacyAndV0 bytes usize (ii_num: u16) (ii_index: u16) "LegacyAndV0InstructionFrame list"
  | II_V1 bytes (ii_index: u16) (ii_num: u16) usize usize

definition InstructionsFrame_iter :: "InstructionsFrame \<Rightarrow> bytes \<Rightarrow> InstructionsIterator" where
  "InstructionsFrame_iter self bytes =
     (case self of
        IF_LegacyAndV0 num_instructions offset frames \<Rightarrow>
          II_LegacyAndV0 bytes (unat offset) num_instructions 0 frames
      | IF_V1 num_instructions headers_offset payloads_offset \<Rightarrow>
          II_V1 bytes 0 num_instructions (unat headers_offset) (unat payloads_offset))"

definition for_legacy_and_v0 ::
  "bytes \<Rightarrow> u16 \<Rightarrow> u8 \<Rightarrow> u16 \<Rightarrow> u8 \<Rightarrow> SVMInstruction reader" where
  "for_legacy_and_v0 bytes num_accounts num_accounts_len data_len data_len_len =
     p_bind (unchecked_read_byte bytes) (\<lambda>program_id_index.
     p_bind (p_modify (\<lambda>offset. usize_wrapping_add offset (unat num_accounts_len))) (\<lambda>_.
     p_bind (unchecked_read_slice_data bytes num_accounts) (\<lambda>accounts.
     p_bind (p_modify (\<lambda>offset. usize_wrapping_add offset (unat data_len_len))) (\<lambda>_.
     p_bind (unchecked_read_slice_data bytes data_len) (\<lambda>data.
     p_return \<lparr>ix_program_id_index = program_id_index, ix_accounts = accounts, ix_data = data\<rparr>)))))"

definition for_v1 :: "bytes \<Rightarrow> u8 \<Rightarrow> u16 \<Rightarrow> u16 \<Rightarrow> SVMInstruction reader" where
  "for_v1 bytes program_id_index num_accounts data_len =
     p_bind (unchecked_read_slice_data bytes num_accounts) (\<lambda>accounts.
     p_bind (unchecked_read_slice_data bytes data_len) (\<lambda>data.
     p_return \<lparr>ix_program_id_index = program_id_index, ix_accounts = accounts, ix_data = data\<rparr>))"

fun InstructionsIterator_next ::
  "InstructionsIterator \<Rightarrow> SVMInstruction option tv_result \<times> InstructionsIterator" where
  "InstructionsIterator_next (II_LegacyAndV0 bytes offset num_instructions index frames) =
     (if index \<ge> num_instructions
      then (Ok None, II_LegacyAndV0 bytes offset num_instructions index frames)
      else
        case slice_get frames (unat index) of
          None \<Rightarrow> (Panic, II_LegacyAndV0 bytes offset num_instructions index frames)
        | Some frame \<Rightarrow>
            let index' = index + 1;
                (r, offset') =
                  for_legacy_and_v0 bytes (lif_num_accounts frame) (lif_num_accounts_len frame)
                    (lif_data_len frame) (lif_data_len_len frame) offset
            in (r_bind r (\<lambda>ix. Ok (Some ix)),
                II_LegacyAndV0 bytes offset' num_instructions index' frames))"
| "InstructionsIterator_next (II_V1 bytes index num_instructions headers_offset payloads_offset) =
     (if index \<ge> num_instructions
      then (Ok None, II_V1 bytes index num_instructions headers_offset payloads_offset)
      else
        case read_v1_header bytes headers_offset of
          (Ok header, headers_offset') \<Rightarrow>
            let index' = index + 1;
                (r, payloads_offset') =
                  for_v1 bytes (vh_program_id_index header) (ucast (vh_num_accounts header))
                    (vh_data_len header) payloads_offset
            in (r_bind r (\<lambda>ix. Ok (Some ix)),
                II_V1 bytes index' num_instructions headers_offset' payloads_offset')
        | (Err e, headers_offset') \<Rightarrow>
            (Err e, II_V1 bytes index num_instructions headers_offset' payloads_offset)
        | (Panic, headers_offset') \<Rightarrow>
            (Panic, II_V1 bytes index num_instructions headers_offset' payloads_offset)
        | (UB, headers_offset') \<Rightarrow>
            (UB, II_V1 bytes index num_instructions headers_offset' payloads_offset))"

definition InstructionsIterator_len :: "InstructionsIterator \<Rightarrow> usize" where
  "InstructionsIterator_len self = unat (ii_num self - ii_index self)"

lemma InstructionsIterator_next_len:
  "InstructionsIterator_next it = (Ok (Some ix), it') \<Longrightarrow>
   InstructionsIterator_len it' < InstructionsIterator_len it"
  by (cases it) (auto simp: InstructionsIterator_len_def Let_def index_step
      split: if_splits option.splits prod.splits outcome.splits)

text \<open>A \<open>for\<close> loop (or \<open>any\<close>, \<open>collect\<close>) over the iterator.\<close>

function instructions_try_fold ::
  "InstructionsIterator \<Rightarrow> ('acc \<Rightarrow> SVMInstruction \<Rightarrow> 'acc flow tv_result) \<Rightarrow> 'acc \<Rightarrow> 'acc tv_result" where
  "instructions_try_fold it body acc =
     (case InstructionsIterator_next it of
        (Ok None, _) \<Rightarrow> Ok acc
      | (Ok (Some ix), it') \<Rightarrow>
          (case body acc ix of
             Ok (Continue acc') \<Rightarrow> instructions_try_fold it' body acc'
           | Ok (Break acc') \<Rightarrow> Ok acc'
           | Err e \<Rightarrow> Err e | Panic \<Rightarrow> Panic | UB \<Rightarrow> UB)
      | (Err e, _) \<Rightarrow> Err e
      | (Panic, _) \<Rightarrow> Panic
      | (UB, _) \<Rightarrow> UB)"
  by pat_completeness auto
termination
  by (relation "measure (\<lambda>(it, _, _). InstructionsIterator_len it)")
    (auto dest!: sym [of _ "InstructionsIterator_next _"] intro: InstructionsIterator_next_len)

declare instructions_try_fold.simps [simp del]

section \<open>Wire form\<close>

text \<open>A legacy or v0 instruction: program index, counted account indexes, counted data.\<close>

definition enc_instruction :: "SVMInstruction \<Rightarrow> bytes" where
  "enc_instruction ix =
     [ix_program_id_index ix] @ enc_compact_u16 (length (ix_accounts ix)) @ ix_accounts ix
       @ enc_compact_u16 (length (ix_data ix)) @ ix_data ix"

definition wf_instruction :: "SVMInstruction \<Rightarrow> bool" where
  "wf_instruction ix \<longleftrightarrow> length (ix_accounts ix) < 16384 \<and> length (ix_data ix) < 16384"

definition frame_of_instruction :: "SVMInstruction \<Rightarrow> LegacyAndV0InstructionFrame" where
  "frame_of_instruction ix =
     \<lparr>lif_num_accounts = of_nat (length (ix_accounts ix)), lif_data_len = of_nat (length (ix_data ix)),
      lif_num_accounts_len = of_nat (length (enc_compact_u16 (length (ix_accounts ix)))),
      lif_data_len_len = of_nat (length (enc_compact_u16 (length (ix_data ix))))\<rparr>"

text \<open>A v1 instruction: a fixed-size header in the header block, its payload in the payload block.\<close>

definition enc_v1_header :: "SVMInstruction \<Rightarrow> bytes" where
  "enc_v1_header ix =
     [ix_program_id_index ix, of_nat (length (ix_accounts ix))] @ le_bytes 2 (length (ix_data ix))"

definition enc_v1_payload :: "SVMInstruction \<Rightarrow> bytes" where
  "enc_v1_payload ix = ix_accounts ix @ ix_data ix"

definition wf_v1_instruction :: "SVMInstruction \<Rightarrow> bool" where
  "wf_v1_instruction ix \<longleftrightarrow> length (ix_accounts ix) < 256 \<and> length (ix_data ix) < 65536"

lemma length_enc_v1_header [simp]: "length (enc_v1_header ix) = 4"
  by (simp add: enc_v1_header_def)

lemma length_enc_v1_headers [simp]: "length (concat (map enc_v1_header ixs)) = 4 * length ixs"
  by (induction ixs) auto

section \<open>Correctness of the legacy and v0 parser\<close>

lemma legacy_instruction_body_sound:
  assumes ib: "in_buffer bytes offset"
    and ok: "legacy_instruction_body bytes frames offset = (Ok frames', offset')"
  shows "\<exists>ix. wf_instruction ix \<and> seg bytes offset offset' (enc_instruction ix)
              \<and> frames' = frames @ [frame_of_instruction ix]"
proof -
  from ok obtain pid o1 na o2 o3 dl o4 where r: "read_byte bytes offset = (Ok pid, o1)"
      "optimized_read_compressed_u16 bytes o1 = (Ok na, o2)"
      "advance_offset_for_array 1 bytes na o2 = (Ok (), o3)"
      "optimized_read_compressed_u16 bytes o3 = (Ok dl, o4)"
      "advance_offset_for_array 1 bytes dl o4 = (Ok (), offset')"
      and f: "frames' = frames @ [\<lparr>lif_num_accounts = na, lif_data_len = dl,
        lif_num_accounts_len = of_nat (usize_wrapping_sub o2 o1),
        lif_data_len_len = of_nat (usize_wrapping_sub o4 o3)\<rparr>]"
    by (auto simp: legacy_instruction_body_def p_bind_Ok_iff Let_def)
  have s1: "seg bytes offset o1 [pid]" using r(1) ib by (simp add: read_byte_Ok_iff)
  note ib1 = in_buffer_seg [OF ib s1]
  obtain accs where a: "length accs = unat na" "length accs < 16384" "na = of_nat (length accs)"
      "o2 = o1 + length (enc_compact_u16 (length accs))"
      "seg bytes o1 o3 (enc_compact_u16 (length accs) @ accs)"
    using counted_bytes_sound [OF ib1 r(2,3)] .
  note ib3 = in_buffer_seg [OF ib1 a(5)]
  obtain dat where d: "length dat = unat dl" "length dat < 16384" "dl = of_nat (length dat)"
      "o4 = o3 + length (enc_compact_u16 (length dat))"
      "seg bytes o3 offset' (enc_compact_u16 (length dat) @ dat)"
    using counted_bytes_sound [OF ib3 r(4,5)] .
  have "in_buffer bytes o2" "in_buffer bytes o4"
    using tripleD_post [OF optimized_read_compressed_u16_triple] ib1 ib3 r by blast+
  then have "usize_wrapping_sub o2 o1 = length (enc_compact_u16 (length accs))"
    "usize_wrapping_sub o4 o3 = length (enc_compact_u16 (length dat))"
    by (simp_all add: a(4) d(4) in_buffer_wrapping_sub)
  then have "wf_instruction \<lparr>ix_program_id_index = pid, ix_accounts = accs, ix_data = dat\<rparr> \<and>
    seg bytes offset offset' (enc_instruction \<lparr>ix_program_id_index = pid, ix_accounts = accs, ix_data = dat\<rparr>) \<and>
    frames' = frames @ [frame_of_instruction \<lparr>ix_program_id_index = pid, ix_accounts = accs, ix_data = dat\<rparr>]"
    using a(2,3) d(2,3) f seg_appendI [OF s1 seg_appendI [OF a(5) d(5)]]
    by (simp add: wf_instruction_def enc_instruction_def frame_of_instruction_def)
  then show ?thesis by blast
qed

lemma legacy_instruction_body_complete:
  assumes ib: "in_buffer bytes offset" and wf: "wf_instruction ix"
    and sg: "seg bytes offset offset' (enc_instruction ix)"
  shows "legacy_instruction_body bytes frames offset
         = (Ok (frames @ [frame_of_instruction ix]), offset')"
proof -
  let ?a = "ix_accounts ix" and ?d = "ix_data ix"
  let ?ca = "enc_compact_u16 (length ?a)" and ?cd = "enc_compact_u16 (length ?d)"
  define o1 where "o1 = Suc offset"
  define o3 where "o3 = o1 + length (?ca @ ?a)"
  have s: "seg bytes offset o1 [ix_program_id_index ix]"
      "seg bytes o1 o3 (?ca @ ?a)" "seg bytes o3 offset' (?cd @ ?d)"
    using sg seg_append [of bytes o1 offset' "?ca @ ?a" "?cd @ ?d"]
    by (simp_all add: enc_instruction_def seg_Cons o1_def o3_def)
  note ib1 = in_buffer_seg [OF ib s(1)]
  note ib3 = in_buffer_seg [OF ib1 s(2)]
  have w: "length ?a < 16384" "length ?d < 16384" using wf by (simp_all add: wf_instruction_def)
  have r: "read_byte bytes offset = (Ok (ix_program_id_index ix), o1)"
    using ib s(1) by (simp add: read_byte_Ok_iff)
  note ca = counted_bytes_complete [OF ib1 w(1) s(2)]
  note cd = counted_bytes_complete [OF ib3 w(2) s(3)]
  note in_buffer_wrapping_sub
    [OF tripleD_post [OF optimized_read_compressed_u16_triple ib1 ca(1)]]
    in_buffer_wrapping_sub [OF tripleD_post [OF optimized_read_compressed_u16_triple ib3 cd(1)]]
  then show ?thesis
    unfolding legacy_instruction_body_def Let_def
    by (simp add: p_bind_step r ca cd comp_unfold frame_of_instruction_def del: One_nat_def)
qed

lemma legacy_instruction_body_triple:
  "triple (in_buffer bytes) (legacy_instruction_body bytes frames) (\<lambda>_. in_buffer bytes)"
  unfolding legacy_instruction_body_def Let_def
  by (intro triple_bind [OF read_byte_triple] triple_get_bind triple_return
      triple_bind [OF optimized_read_compressed_u16_triple]
      triple_bind [OF advance_offset_for_array_triple]) simp_all

interpretation legacy_instructions: record_loop legacy_instruction_body enc_instruction wf_instruction
    "\<lambda>frames ix. frames @ [frame_of_instruction ix]"
  by unfold_locales
    (simp_all add: legacy_instruction_body_sound legacy_instruction_body_complete
      legacy_instruction_body_triple)

definition enc_instructions :: "SVMInstruction list \<Rightarrow> bytes" where
  "enc_instructions ixs = enc_compact_u16 (length ixs) @ concat (map enc_instruction ixs)"

definition wf_instructions :: "SVMInstruction list \<Rightarrow> bool" where
  "wf_instructions ixs \<longleftrightarrow> length ixs < 16384 \<and> list_all wf_instruction ixs"

definition instructions_frame_of :: "usize \<Rightarrow> SVMInstruction list \<Rightarrow> InstructionsFrame" where
  "instructions_frame_of offset ixs =
     IF_LegacyAndV0 (of_nat (length ixs)) (of_nat (offset + length (enc_compact_u16 (length ixs))))
       (map frame_of_instruction ixs)"

lemma enc_instructions_length: "3 * length ixs \<le> length (concat (map enc_instruction ixs))"
proof (induction ixs)
  case (Cons ix ixs)
  then show ?case
    using enc_compact_u16_length_pos [of "length (ix_accounts ix)"]
      enc_compact_u16_length_pos [of "length (ix_data ix)"]
    by (simp add: enc_instruction_def)
qed simp

lemma instructions_sound:
  assumes ib: "in_buffer bytes offset"
    and ok: "try_new_for_legacy_and_v0 bytes offset = (Ok f, offset')"
  obtains ixs where "wf_instructions ixs" "seg bytes offset offset' (enc_instructions ixs)"
    "f = instructions_frame_of offset ixs"
proof -
  from ok obtain n o1 frames where r: "optimized_read_compressed_u16 bytes offset = (Ok n, o1)"
      and l: "p_for (unat n) (legacy_instruction_body bytes) [] o1 = (Ok frames, offset')"
      and f: "f = IF_LegacyAndV0 n (of_nat o1) frames"
    by (auto simp: try_new_for_legacy_and_v0_def p_bind_Ok_iff Let_def)
  from optimized_read_compressed_u16_sound [OF ib r]
  have n: "unat n < 16384" and s1: "seg bytes offset o1 (enc_compact_u16 (unat n))" by simp_all
  from legacy_instructions.loop_sound [OF in_buffer_seg [OF ib s1] l] obtain ixs
    where ixs: "length ixs = unat n" "list_all wf_instruction ixs"
      "seg bytes o1 offset' (concat (map enc_instruction ixs))" "frames = map frame_of_instruction ixs"
    by (auto simp: foldl_snoc_map)
  show thesis
  proof (rule that)
    show "wf_instructions ixs" using ixs n by (simp add: wf_instructions_def)
    show "seg bytes offset offset' (enc_instructions ixs)"
      using seg_appendI [OF s1 ixs(3)] by (simp add: enc_instructions_def ixs(1))
    show "f = instructions_frame_of offset ixs"
      using f ixs(1,4) seg_end [OF s1] by (simp add: instructions_frame_of_def)
  qed
qed

lemma instructions_complete:
  assumes ib: "in_buffer bytes offset" and wf: "wf_instructions ixs"
    and sg: "seg bytes offset offset' (enc_instructions ixs)"
  shows "try_new_for_legacy_and_v0 bytes offset = (Ok (instructions_frame_of offset ixs), offset')"
proof -
  define o1 where "o1 = offset + length (enc_compact_u16 (length ixs))"
  have s: "seg bytes offset o1 (enc_compact_u16 (length ixs))"
      "seg bytes o1 offset' (concat (map enc_instruction ixs))"
    using sg by (simp_all add: enc_instructions_def seg_append o1_def)
  have w: "length ixs < 16384" "list_all wf_instruction ixs" using wf by (simp_all add: wf_instructions_def)
  have u: "unat (of_nat (length ixs) :: u16) = length ixs" using w(1) by (simp add: unat_of_nat_u16)
  note ib1 = in_buffer_seg [OF ib s(1)]
  have "o1 + 3 * length ixs \<le> length bytes"
    using enc_instructions_length [of ixs] seg_end [OF s(2)] seg_bounds(2) [OF s(2)] by simp
  then have c: "check_remaining bytes o1 (usize_wrapping_mul 3 (length ixs)) = Ok ()"
    using w(1) ib1 by (simp add: check_remaining_iff)
  show ?thesis
    unfolding try_new_for_legacy_and_v0_def Let_def
    by (simp add: p_bind_step optimized_read_compressed_u16_complete [OF ib w(1) s(1)] comp_unfold u c
        legacy_instructions.loop_complete [OF ib1 w(2) s(2)] foldl_snoc_map instructions_frame_of_def)
      (simp add: o1_def)
qed

lemma instructions_triple [triple_rules]:
  "triple (in_buffer bytes) (try_new_for_legacy_and_v0 bytes) (\<lambda>_. in_buffer bytes)"
  unfolding try_new_for_legacy_and_v0_def Let_def
  by (intro triple_bind [OF optimized_read_compressed_u16_triple] triple_get_bind triple_return
      triple_bind [OF legacy_instructions.loop_triple] triple_guard) simp_all

section \<open>Correctness of the v1 parser\<close>

definition wf_v1_instructions :: "SVMInstruction list \<Rightarrow> bool" where
  "wf_v1_instructions ixs \<longleftrightarrow> length ixs < 256 \<and> list_all wf_v1_instruction ixs"

definition enc_v1_instructions :: "SVMInstruction list \<Rightarrow> bytes" where
  "enc_v1_instructions ixs = concat (map enc_v1_header ixs) @ concat (map enc_v1_payload ixs)"

definition v1_instructions_frame_of :: "usize \<Rightarrow> SVMInstruction list \<Rightarrow> InstructionsFrame" where
  "v1_instructions_frame_of offset ixs =
     IF_V1 (of_nat (length ixs)) (of_nat offset) (of_nat (offset + 4 * length ixs))"

definition v1_header_of :: "SVMInstruction \<Rightarrow> V1InstructionHeader" where
  "v1_header_of ix = \<lparr>vh_program_id_index = ix_program_id_index ix,
     vh_num_accounts = of_nat (length (ix_accounts ix)), vh_data_len = of_nat (length (ix_data ix))\<rparr>"

lemma read_v1_header_complete:
  assumes "in_buffer bytes offset" "wf_v1_instruction ix" "seg bytes offset offset' (enc_v1_header ix)"
  shows "read_v1_header bytes offset = (Ok (v1_header_of ix), offset')"
  using assms unchecked_copy_value_seg [OF assms(3) length_enc_v1_header] seg_end [OF assms(3)]
    seg_bounds(2) [OF assms(3)] in_buffer_bounds [OF assms(1)]
  by (simp add: read_v1_header_def p_bind_step comp_unfold enc_v1_header_def v1_header_of_def
      wf_v1_instruction_def le_value_le_bytes)

lemma read_v1_header_sound:
  assumes ib: "in_buffer bytes offset" and len: "offset + 4 \<le> length bytes"
  obtains h where "read_v1_header bytes offset = (Ok h, offset + 4)"
    "\<And>accs dat. length accs = unat (vh_num_accounts h) \<Longrightarrow> length dat = unat (vh_data_len h) \<Longrightarrow>
      seg bytes offset (offset + 4) (enc_v1_header
        \<lparr>ix_program_id_index = vh_program_id_index h, ix_accounts = accs, ix_data = dat\<rparr>)"
proof
  let ?h = "take 4 (drop offset bytes)"
  let ?r = "\<lparr>vh_program_id_index = ?h ! 0, vh_num_accounts = ?h ! 1,
             vh_data_len = of_nat (le_value (drop 2 ?h))\<rparr>"
  have l4: "length ?h = 4" using len by simp
  have sg: "seg bytes offset (offset + 4) ?h" using len by (rule seg_take_drop)
  then show "read_v1_header bytes offset = (Ok ?r, offset + 4)"
    using unchecked_copy_value_seg [OF sg l4] in_buffer_bounds [OF ib] len
    by (simp add: read_v1_header_def p_bind_step comp_unfold)
  fix accs dat :: bytes
  assume "length accs = unat (vh_num_accounts ?r)" "length dat = unat (vh_data_len ?r)"
  moreover have v: "unat (of_nat (le_value (drop 2 ?h)) :: u16) = le_value (drop 2 ?h)"
    using le_value_bound [of "drop 2 ?h"] l4 by (intro unat_of_nat_u16) simp
  moreover have "le_bytes 2 (le_value (drop 2 ?h)) = drop 2 ?h"
    using le_bytes_le_value [of "drop 2 ?h"] l4 by simp
  moreover have "?h = [?h ! 0, ?h ! 1] @ drop 2 ?h"
    using l4 by (metis Cons_nth_drop_Suc One_nat_def append_Cons append_Nil drop0 numeral_2_eq_2
        zero_less_numeral less_numeral_extra(4) numeral_less_iff one_less_numeral_iff semiring_norm(76))
  ultimately have "enc_v1_header \<lparr>ix_program_id_index = vh_program_id_index ?r, ix_accounts = accs,
      ix_data = dat\<rparr> = ?h"
    by (simp add: enc_v1_header_def)
  with sg show "seg bytes offset (offset + 4) (enc_v1_header \<lparr>ix_program_id_index =
      vh_program_id_index ?r, ix_accounts = accs, ix_data = dat\<rparr>)" by simp
qed

lemma v1_header_body_step:
  assumes "read_v1_header bytes offset = (Ok h, offset')"
    and "acc + unat (vh_num_accounts h) + unat (vh_data_len h) \<le> USIZE_MAX"
  shows "v1_header_body bytes acc offset
         = (Ok (acc + (unat (vh_num_accounts h) + unat (vh_data_len h))), offset')"
  using assms
  by (simp add: v1_header_body_def p_bind_step comp_unfold usize_checked_add_def ok_or_parse_def)

text \<open>
  At most 255 headers are summed, so the sum stays far below \<open>usize::MAX\<close>: the checked additions
  never fail, and the accumulator before \<open>n\<close> more headers is bounded by \<open>v1_room n\<close>.
\<close>

definition v1_room :: "nat \<Rightarrow> usize" where
  "v1_room n = USIZE_MAX - 65791 * n"

lemma v1_room_step:
  assumes "acc \<le> v1_room (Suc n)" "Suc n < 256" "h < 256" "d < 65536"
  shows "acc + (h + d) \<le> v1_room n" "acc + h + d \<le> USIZE_MAX"
  using assms by (simp_all add: v1_room_def)

text \<open>One more instruction in front: its header is read, and the payload area has room for it.\<close>

lemma v1_instruction_cons:
  assumes hd: "\<And>accs dat. length accs = unat (vh_num_accounts h) \<Longrightarrow> length dat = unat (vh_data_len h) \<Longrightarrow>
      seg bytes ho (ho + 4) (enc_v1_header \<lparr>ix_program_id_index = vh_program_id_index h, ix_accounts = accs, ix_data = dat\<rparr>)"
    and po: "po2 = po + (unat (vh_num_accounts h) + unat (vh_data_len h))" "po2 \<le> length bytes"
    and ixs: "list_all wf_v1_instruction ixs" "seg bytes (ho + 4) ho' (concat (map enc_v1_header ixs))"
      "seg bytes po2 po' (concat (map enc_v1_payload ixs))"
  shows "\<exists>ix. wf_v1_instruction ix \<and> seg bytes ho ho' (concat (map enc_v1_header (ix # ixs)))
    \<and> seg bytes po po' (concat (map enc_v1_payload (ix # ixs)))"
proof -
  let ?a = "unat (vh_num_accounts h)" and ?d = "unat (vh_data_len h)"
  define po1 where "po1 = po + ?a"
  have b: "po1 \<le> length bytes" "po2 = po1 + ?d" using po by (simp_all add: po1_def)
  let ?ix = "\<lparr>ix_program_id_index = vh_program_id_index h, ix_accounts = take ?a (drop po bytes),
             ix_data = take ?d (drop po1 bytes)\<rparr>"
  have len: "length (ix_accounts ?ix) = ?a" "length (ix_data ?ix) = ?d"
    using b po(2) by (simp_all add: po1_def)
  have "seg bytes po po1 (ix_accounts ?ix)" "seg bytes po1 po2 (ix_data ?ix)"
    using b po(2) seg_take_drop [of po ?a bytes] seg_take_drop [of po1 ?d bytes] by (simp_all add: po1_def)
  then have "seg bytes po po2 (enc_v1_payload ?ix)"
    unfolding enc_v1_payload_def by (rule seg_appendI)
  moreover have "seg bytes ho (ho + 4) (enc_v1_header ?ix)" using hd len by simp
  moreover have "wf_v1_instruction ?ix" using len by (simp add: wf_v1_instruction_def)
  ultimately show ?thesis using ixs by (intro exI [of _ ?ix]) (auto intro: seg_appendI)
qed

lemma v1_headers_sound:
  assumes "in_buffer bytes ho" "ho + 4 * n \<le> length bytes" "n < 256" "acc \<le> v1_room n"
    and "in_buffer bytes po"
  shows "\<exists>total. p_for n (v1_header_body bytes) acc ho = (Ok total, ho + 4 * n) \<and> acc \<le> total
    \<and> (po + (total - acc) \<le> length bytes \<longrightarrow>
        (\<exists>ixs. length ixs = n \<and> list_all wf_v1_instruction ixs
           \<and> seg bytes ho (ho + 4 * n) (concat (map enc_v1_header ixs))
           \<and> seg bytes po (po + (total - acc)) (concat (map enc_v1_payload ixs))))"
  using assms
proof (induction n arbitrary: acc ho po)
  case 0
  then show ?case by (simp add: p_return_def in_buffer_def)
next
  case (Suc n)
  then have "ho + 4 \<le> length bytes" by simp
  with Suc.prems(1) obtain h where r: "read_v1_header bytes ho = (Ok h, ho + 4)"
    and hd: "\<And>accs dat. length accs = unat (vh_num_accounts h) \<Longrightarrow> length dat = unat (vh_data_len h) \<Longrightarrow>
      seg bytes ho (ho + 4) (enc_v1_header
        \<lparr>ix_program_id_index = vh_program_id_index h, ix_accounts = accs, ix_data = dat\<rparr>)"
    by (rule read_v1_header_sound) blast
  let ?a = "unat (vh_num_accounts h)" and ?d = "unat (vh_data_len h)"
  note room = v1_room_step [OF Suc.prems(4,3) unat_u8_bound(1) [of "vh_num_accounts h"]
      unat_u16_bound(1) [of "vh_data_len h"]]
  have step: "v1_header_body bytes acc ho = (Ok (acc + (?a + ?d)), ho + 4)"
    by (rule v1_header_body_step [OF r room(2)])
  have ho': "in_buffer bytes (ho + 4)" "ho + 4 + 4 * n \<le> length bytes" "n < 256"
    using Suc.prems by (simp_all add: in_buffer_def)
  have IH: "in_buffer bytes po' \<Longrightarrow>
    \<exists>total. p_for n (v1_header_body bytes) (acc + (?a + ?d)) (ho + 4) = (Ok total, ho + 4 * Suc n)
      \<and> acc + (?a + ?d) \<le> total
      \<and> (po' + (total - (acc + (?a + ?d))) \<le> length bytes \<longrightarrow>
          (\<exists>ixs. length ixs = n \<and> list_all wf_v1_instruction ixs
           \<and> seg bytes (ho + 4) (ho + 4 * Suc n) (concat (map enc_v1_header ixs))
           \<and> seg bytes po' (po' + (total - (acc + (?a + ?d)))) (concat (map enc_v1_payload ixs))))" for po'
    using Suc.IH [OF ho' room(1), of po'] by (simp add: algebra_simps)
  from IH [OF Suc.prems(5)] obtain total
    where t: "p_for n (v1_header_body bytes) (acc + (?a + ?d)) (ho + 4) = (Ok total, ho + 4 * Suc n)"
      "acc + (?a + ?d) \<le> total" by blast
  have "\<exists>ixs. length ixs = Suc n \<and> list_all wf_v1_instruction ixs
           \<and> seg bytes ho (ho + 4 * Suc n) (concat (map enc_v1_header ixs))
           \<and> seg bytes po (po + (total - acc)) (concat (map enc_v1_payload ixs))"
    if fits: "po + (total - acc) \<le> length bytes"
  proof -
    define po2 where "po2 = po + (?a + ?d)"
    have le: "po2 + (total - (acc + (?a + ?d))) = po + (total - acc)" using t(2) by (simp add: po2_def)
    with fits have b: "po2 \<le> length bytes" by simp
    then have "in_buffer bytes po2" using Suc.prems(1) by (simp add: in_buffer_def)
    from IH [OF this] t(1) obtain ixs where ixs: "length ixs = n" "list_all wf_v1_instruction ixs"
        "seg bytes (ho + 4) (ho + 4 * Suc n) (concat (map enc_v1_header ixs))"
        "seg bytes po2 (po + (total - acc)) (concat (map enc_v1_payload ixs))"
      using le fits by auto
    from v1_instruction_cons [OF hd po2_def b ixs(2-4)] ixs(1,2) show ?thesis by (metis length_Cons list.pred_inject(2))
  qed
  with t show ?case by (intro exI [of _ total]) (auto simp: p_bind_step step)
qed

lemma v1_headers_complete:
  assumes "in_buffer bytes ho" "list_all wf_v1_instruction ixs" "length ixs < 256"
    "acc \<le> v1_room (length ixs)" "seg bytes ho he (concat (map enc_v1_header ixs))"
  shows "p_for (length ixs) (v1_header_body bytes) acc ho
         = (Ok (acc + length (concat (map enc_v1_payload ixs))), he)"
  using assms
proof (induction ixs arbitrary: acc ho)
  case Nil
  then show ?case by (simp add: p_return_def)
next
  case (Cons ix ixs)
  then have s: "seg bytes ho (ho + 4) (enc_v1_header ix)"
      "seg bytes (ho + 4) he (concat (map enc_v1_header ixs))" and wf: "wf_v1_instruction ix"
    by (simp_all add: seg_append)
  let ?h = "v1_header_of ix"
  have u: "unat (vh_num_accounts ?h) = length (ix_accounts ix)" "unat (vh_data_len ?h) = length (ix_data ix)"
    using wf by (simp_all add: v1_header_of_def wf_v1_instruction_def unat_of_nat_u8 unat_of_nat_u16)
  note room = v1_room_step [where acc = acc and n = "length ixs", OF _ _
      unat_u8_bound(1) [of "vh_num_accounts ?h"] unat_u16_bound(1) [of "vh_data_len ?h"], unfolded u]
  have "v1_header_body bytes acc ho = (Ok (acc + length (enc_v1_payload ix)), ho + 4)"
    using v1_header_body_step [OF read_v1_header_complete [OF Cons.prems(1) wf s(1)], of acc] room Cons.prems(3,4)
    by (simp add: u enc_v1_payload_def)
  moreover have "p_for (length ixs) (v1_header_body bytes) (acc + length (enc_v1_payload ix)) (ho + 4)
      = (Ok (acc + length (enc_v1_payload ix) + length (concat (map enc_v1_payload ixs))), he)"
    using Cons.prems room
    by (intro Cons.IH [OF in_buffer_seg [OF Cons.prems(1) s(1)] _ _ _ s(2)])
      (simp_all add: enc_v1_payload_def)
  ultimately show ?case by (simp add: p_bind_step)
qed

lemma v1_room_0: "n < 256 \<Longrightarrow> 0 \<le> v1_room n" by simp

text \<open>What the parser does once the header block is known to fit.\<close>

lemma try_new_for_v1_eq:
  assumes ib: "in_buffer bytes offset"
  shows "try_new_for_v1 bytes n offset =
    (if offset + 4 * unat n \<le> length bytes then
       case fst (p_for (unat n) (v1_header_body bytes) 0 offset) of
         Ok n_payload \<Rightarrow> if offset + 4 * unat n + n_payload \<le> length bytes
                     then (Ok (IF_V1 (ucast n) (of_nat offset) (of_nat (offset + 4 * unat n))),
                           offset + 4 * unat n + n_payload)
                     else (Err ParseError, offset + 4 * unat n)
       | Err e \<Rightarrow> (Err e, offset + 4 * unat n)
       | Panic \<Rightarrow> (Panic, offset + 4 * unat n)
       | UB \<Rightarrow> (UB, offset + 4 * unat n)
     else (Err ParseError, offset))"
proof -
  note b = in_buffer_bounds [OF ib]
  have m: "usize_wrapping_mul 4 (unat n) = 4 * unat n"
    using unat_u8_bound(2) [of n] by (intro usize_wrapping_mul_small) linarith
  show ?thesis
  proof (cases "offset + 4 * unat n \<le> length bytes")
    case True
    then have ib': "in_buffer bytes (offset + 4 * unat n)" using ib by (simp add: in_buffer_def)
    have w: "usize_wrapping_add offset (4 * unat n) = offset + 4 * unat n"
      using True b by (intro usize_wrapping_add_small) linarith
    from True ib b show ?thesis
      by (cases "fst (p_for (unat n) (v1_header_body bytes) 0 offset)")
        (auto simp: try_new_for_v1_def Let_def p_bind_def comp_unfold m w check_remaining_iff
          check_remaining_iff [OF ib'])
  next
    case False
    with ib show ?thesis
      by (simp add: try_new_for_v1_def Let_def p_bind_def comp_unfold m check_remaining_iff)
  qed
qed

lemma v1_instructions_sound:
  assumes ib: "in_buffer bytes offset"
    and ok: "try_new_for_v1 bytes n offset = (Ok f, offset')"
  obtains ixs where "wf_v1_instructions ixs" "length ixs = unat n"
    "seg bytes offset offset' (enc_v1_instructions ixs)" "f = v1_instructions_frame_of offset ixs"
proof -
  from ok have le: "offset + 4 * unat n \<le> length bytes"
    by (auto simp: try_new_for_v1_eq [OF ib] split: if_splits)
  then have ibp: "in_buffer bytes (offset + 4 * unat n)" using ib by (simp add: in_buffer_def)
  from v1_headers_sound [OF ib le unat_u8_bound(1) v1_room_0 [OF unat_u8_bound(1)] ibp]
  obtain total where t: "p_for (unat n) (v1_header_body bytes) 0 offset = (Ok total, offset + 4 * unat n)"
    and ex: "offset + 4 * unat n + total \<le> length bytes \<longrightarrow>
        (\<exists>ixs. length ixs = unat n \<and> list_all wf_v1_instruction ixs
           \<and> seg bytes offset (offset + 4 * unat n) (concat (map enc_v1_header ixs))
           \<and> seg bytes (offset + 4 * unat n) (offset + 4 * unat n + total)
               (concat (map enc_v1_payload ixs)))"
    by auto
  from ok t le have f: "f = IF_V1 (ucast n) (of_nat offset) (of_nat (offset + 4 * unat n))"
      "offset' = offset + 4 * unat n + total" "offset + 4 * unat n + total \<le> length bytes"
    by (auto simp: try_new_for_v1_eq [OF ib] split: if_splits)
  with ex obtain ixs where ixs: "length ixs = unat n" "list_all wf_v1_instruction ixs"
      "seg bytes offset (offset + 4 * unat n) (concat (map enc_v1_header ixs))"
      "seg bytes (offset + 4 * unat n) offset' (concat (map enc_v1_payload ixs))"
    by blast
  show thesis
  proof (rule that [OF _ ixs(1)])
    show "wf_v1_instructions ixs" using ixs by (simp add: wf_v1_instructions_def)
    show "seg bytes offset offset' (enc_v1_instructions ixs)"
      unfolding enc_v1_instructions_def by (rule seg_appendI [OF ixs(3,4)])
    have "(ucast n :: u16) = of_nat (length ixs)" unfolding ixs(1) by (simp add: word_unat_eq_iff unat_of_nat_u16)
    then show "f = v1_instructions_frame_of offset ixs" by (simp add: f(1) v1_instructions_frame_of_def ixs(1))
  qed
qed

lemma v1_instructions_complete:
  assumes ib: "in_buffer bytes offset" and wf: "wf_v1_instructions ixs" and n: "length ixs = unat n"
    and sg: "seg bytes offset offset' (enc_v1_instructions ixs)"
  shows "try_new_for_v1 bytes n offset = (Ok (v1_instructions_frame_of offset ixs), offset')"
proof -
  have s: "seg bytes offset (offset + 4 * unat n) (concat (map enc_v1_header ixs))"
      "seg bytes (offset + 4 * unat n) offset' (concat (map enc_v1_payload ixs))"
    using sg n by (simp_all add: enc_v1_instructions_def seg_append)
  have "p_for (unat n) (v1_header_body bytes) 0 offset
      = (Ok (length (concat (map enc_v1_payload ixs))), offset + 4 * unat n)"
    using v1_headers_complete [OF ib _ _ _ s(1), of 0] wf n by (simp add: wf_v1_instructions_def)
  moreover have "(ucast n :: u16) = of_nat (length ixs)"
    unfolding n by (simp add: word_unat_eq_iff unat_of_nat_u16)
  ultimately show ?thesis
    using s seg_end [OF s(2)] seg_bounds(2) [OF s(1)] seg_bounds(2) [OF s(2)] n
    by (simp add: try_new_for_v1_eq [OF ib] v1_instructions_frame_of_def)
qed

lemma v1_instructions_triple [triple_rules]:
  "triple (in_buffer bytes) (try_new_for_v1 bytes n) (\<lambda>_. in_buffer bytes)"
proof (rule tripleI)
  fix offset assume ib: "in_buffer bytes offset"
  show "no_fault (fst (try_new_for_v1 bytes n offset))"
  proof (cases "offset + 4 * unat n \<le> length bytes")
    case True
    from v1_headers_sound [OF ib True unat_u8_bound(1) v1_room_0 [OF unat_u8_bound(1)] ib]
    obtain total where "p_for (unat n) (v1_header_body bytes) 0 offset = (Ok total, offset + 4 * unat n)"
      by blast
    then show ?thesis by (simp add: try_new_for_v1_eq [OF ib])
  qed (simp add: try_new_for_v1_eq [OF ib])
next
  fix offset f offset'
  assume ib: "in_buffer bytes offset" and "try_new_for_v1 bytes n offset = (Ok f, offset')"
  then show "in_buffer bytes offset'" by (blast elim: v1_instructions_sound intro: in_buffer_seg)
qed

section \<open>Correctness of the iterators\<close>

text \<open>The instructions an iterator has still to yield lie in its buffer at its offsets.\<close>

fun instructions_remaining :: "InstructionsIterator \<Rightarrow> SVMInstruction list \<Rightarrow> bool" where
  "instructions_remaining (II_LegacyAndV0 bytes offset num index frames) ixs \<longleftrightarrow>
     in_buffer bytes offset \<and> list_all wf_instruction ixs
     \<and> (\<exists>e. seg bytes offset e (concat (map enc_instruction ixs)))
     \<and> unat num = unat index + length ixs \<and> drop (unat index) frames = map frame_of_instruction ixs"
| "instructions_remaining (II_V1 bytes index num ho po) ixs \<longleftrightarrow>
     in_buffer bytes ho \<and> in_buffer bytes po \<and> list_all wf_v1_instruction ixs
     \<and> (\<exists>e. seg bytes ho e (concat (map enc_v1_header ixs)))
     \<and> (\<exists>e. seg bytes po e (concat (map enc_v1_payload ixs)))
     \<and> unat num = unat index + length ixs"

lemma for_legacy_and_v0_complete:
  assumes ib: "in_buffer bytes offset" and wf: "wf_instruction ix"
    and sg: "seg bytes offset offset' (enc_instruction ix)" and f: "f = frame_of_instruction ix"
  shows "for_legacy_and_v0 bytes (lif_num_accounts f) (lif_num_accounts_len f) (lif_data_len f)
           (lif_data_len_len f) offset = (Ok ix, offset')"
proof -
  let ?a = "ix_accounts ix" and ?d = "ix_data ix"
  let ?ca = "enc_compact_u16 (length ?a)" and ?cd = "enc_compact_u16 (length ?d)"
  define o1 o2 o3 o4 where "o1 = Suc offset" and "o2 = o1 + length ?ca" and "o3 = o2 + length ?a"
    and "o4 = o3 + length ?cd"
  have s: "offset < length bytes" "bytes ! offset = ix_program_id_index ix" "seg bytes o1 o2 ?ca"
      "seg bytes o2 o3 ?a" "seg bytes o3 o4 ?cd" "seg bytes o4 offset' ?d"
    using sg by (simp_all add: enc_instruction_def seg_Cons seg_append o1_def o2_def o3_def o4_def)
  have ib1: "in_buffer bytes o1" using ib s(1) by (simp add: in_buffer_def o1_def)
  note ib2 = in_buffer_seg [OF ib1 s(3)]
  note ib3 = in_buffer_seg [OF ib2 s(4)]
  note ib4 = in_buffer_seg [OF ib3 s(5)]
  have w: "length ?a < 16384" "length ?d < 16384" using wf by (simp_all add: wf_instruction_def)
  have l: "unat (lif_num_accounts_len f) = length ?ca" "unat (lif_data_len_len f) = length ?cd"
      "unat (lif_num_accounts f) = length ?a" "unat (lif_data_len f) = length ?d"
    using w enc_compact_u16_length_small [of "length ?a"] enc_compact_u16_length_small [of "length ?d"]
    by (simp_all add: f frame_of_instruction_def unat_of_nat_u8 unat_of_nat_u16)
  have u: "usize_wrapping_add o1 (length ?ca) = o2" "usize_wrapping_add o3 (length ?cd) = o4"
    using in_buffer_bounds [OF ib2] in_buffer_bounds [OF ib4] by (simp_all add: o2_def o4_def)
  have r: "unchecked_read_byte bytes offset = (Ok (ix_program_id_index ix), o1)"
    using ib s(1,2) by (simp add: unchecked_read_byte_Ok o1_def)
  show ?thesis
    unfolding for_legacy_and_v0_def
    by (simp add: p_bind_step r comp_unfold l u
        unchecked_read_slice_data_complete [OF ib2 s(4) l(3) [symmetric]]
        unchecked_read_slice_data_complete [OF ib4 s(6) l(4) [symmetric]])
qed

lemma for_v1_complete:
  assumes ib: "in_buffer bytes offset" and sg: "seg bytes offset offset' (enc_v1_payload ix)"
    and n: "length (ix_accounts ix) = unat na" "length (ix_data ix) = unat nd"
  shows "for_v1 bytes (ix_program_id_index ix) na nd offset = (Ok ix, offset')"
proof -
  define o1 where "o1 = offset + length (ix_accounts ix)"
  have s: "seg bytes offset o1 (ix_accounts ix)" "seg bytes o1 offset' (ix_data ix)"
    using sg by (simp_all add: enc_v1_payload_def seg_append o1_def)
  show ?thesis
    unfolding for_v1_def
    by (simp add: p_bind_step unchecked_read_slice_data_complete [OF ib s(1) n(1)]
        unchecked_read_slice_data_complete [OF in_buffer_seg [OF ib s(1)] s(2) n(2)] comp_unfold)
qed

lemma instructions_next_step:
  assumes "instructions_remaining it (ix # ixs)"
  shows "\<exists>it'. InstructionsIterator_next it = (Ok (Some ix), it') \<and> instructions_remaining it' ixs"
proof (cases it)
  case (II_LegacyAndV0 bytes offset num index frames)
  with assms obtain e where r: "in_buffer bytes offset" "wf_instruction ix" "list_all wf_instruction ixs"
      "seg bytes offset e (enc_instruction ix @ concat (map enc_instruction ixs))"
      "unat num = unat index + Suc (length ixs)"
      "drop (unat index) frames = frame_of_instruction ix # map frame_of_instruction ixs"
    by auto
  let ?o = "offset + length (enc_instruction ix)"
  have s: "seg bytes offset ?o (enc_instruction ix)" "seg bytes ?o e (concat (map enc_instruction ixs))"
    using r(4) by (simp_all add: seg_append)
  have lt: "index < num" using r(5) by (simp add: word_less_nat_alt)
  have g: "slice_get frames (unat index) = Some (frame_of_instruction ix)"
    using r(6) by (metis drop_eq_Nil2 leI list.distinct(1) list.inject Cons_nth_drop_Suc slice_get_simps(1))
  have d: "drop (Suc (unat index)) frames = map frame_of_instruction ixs"
    using r(6) by (metis drop_Suc list.sel(3) tl_drop)
  note n = for_legacy_and_v0_complete [OF r(1,2) s(1) refl]
  show ?thesis
    using lt r(3,5) d s(2) in_buffer_seg [OF r(1) s(1)]
    by (auto simp: II_LegacyAndV0 g n index_step(1) Let_def not_le)
next
  case (II_V1 bytes index num ho po)
  with assms obtain e e' where r: "in_buffer bytes ho" "in_buffer bytes po" "wf_v1_instruction ix"
      "list_all wf_v1_instruction ixs" "unat num = unat index + Suc (length ixs)"
      "seg bytes ho e (enc_v1_header ix @ concat (map enc_v1_header ixs))"
      "seg bytes po e' (enc_v1_payload ix @ concat (map enc_v1_payload ixs))"
    by auto
  let ?h = "ho + length (enc_v1_header ix)" and ?p = "po + length (enc_v1_payload ix)"
  have s: "seg bytes ho ?h (enc_v1_header ix)" "seg bytes ?h e (concat (map enc_v1_header ixs))"
      "seg bytes po ?p (enc_v1_payload ix)" "seg bytes ?p e' (concat (map enc_v1_payload ixs))"
    using r(6,7) unfolding seg_append by simp_all
  have lt: "index < num" using r(5) by (simp add: word_less_nat_alt)
  have "length (ix_accounts ix) = unat (ucast (vh_num_accounts (v1_header_of ix)) :: u16)"
    "length (ix_data ix) = unat (vh_data_len (v1_header_of ix))"
    using r(3) by (simp_all add: v1_header_of_def wf_v1_instruction_def unat_of_nat_u8 unat_of_nat_u16)
  note p = for_v1_complete [OF r(2) s(3) this]
  have pid: "vh_program_id_index (v1_header_of ix) = ix_program_id_index ix" by (simp add: v1_header_of_def)
  show ?thesis
    using lt r(4,5) s(2,4) in_buffer_seg [OF r(1) s(1)] in_buffer_seg [OF r(2) s(3)]
    by (auto simp: II_V1 read_v1_header_complete [OF r(1,3) s(1)] pid p index_step(1) Let_def not_le
        simp del: length_enc_v1_header)
qed

lemma instructions_next_done:
  "instructions_remaining it [] \<Longrightarrow> InstructionsIterator_next it = (Ok None, it)"
  by (cases it) (auto simp: word_le_nat_alt)

lemma instructions_len: "instructions_remaining it ixs \<Longrightarrow> InstructionsIterator_len it = length ixs"
  by (cases it) (auto simp: InstructionsIterator_len_def word_le_nat_alt unat_sub)

interpretation instructions_iter: record_iterator InstructionsIterator_next InstructionsIterator_len
    instructions_remaining instructions_try_fold
proof unfold_locales
  fix it it' :: InstructionsIterator and body :: "'acc \<Rightarrow> SVMInstruction \<Rightarrow> 'acc flow tv_result" and acc
  assume "InstructionsIterator_next it = (Ok None, it')"
  then show "instructions_try_fold it body acc = Ok acc" by (simp add: instructions_try_fold.simps)
next
  fix it it' ix and body :: "'acc \<Rightarrow> SVMInstruction \<Rightarrow> 'acc flow tv_result" and acc
  assume "InstructionsIterator_next it = (Ok (Some ix), it')"
  then show "instructions_try_fold it body acc = r_bind (body acc ix) (\<lambda>f. case f of
      Continue acc' \<Rightarrow> instructions_try_fold it' body acc' | Break acc' \<Rightarrow> Ok acc')"
    by (cases "body acc ix") (simp_all add: instructions_try_fold.simps [of it] split: flow.split)
qed (use instructions_next_step instructions_next_done instructions_len in blast)+

lemma instructions_frame_iter:
  assumes ib: "in_buffer bytes offset" and wf: "wf_instructions ixs" and o: "offset' \<le> 65535"
    and sg: "seg bytes offset offset' (enc_instructions ixs)"
  shows "instructions_remaining (InstructionsFrame_iter (instructions_frame_of offset ixs) bytes) ixs"
proof -
  define o1 where "o1 = offset + length (enc_compact_u16 (length ixs))"
  have s: "seg bytes offset o1 (enc_compact_u16 (length ixs))"
      "seg bytes o1 offset' (concat (map enc_instruction ixs))"
    using sg by (simp_all add: enc_instructions_def seg_append o1_def)
  have "unat (of_nat o1 :: u16) = o1" using seg_bounds(1) [OF s(2)] o by (intro unat_of_nat_u16) simp
  then show ?thesis
    using s(2) wf in_buffer_seg [OF ib s(1)]
    by (auto simp: InstructionsFrame_iter_def instructions_frame_of_def wf_instructions_def
        unat_of_nat_u16 simp flip: o1_def)
qed

lemma v1_instructions_frame_iter:
  assumes ib: "in_buffer bytes offset" and wf: "wf_v1_instructions ixs" and o: "offset' \<le> 65535"
    and sg: "seg bytes offset offset' (enc_v1_instructions ixs)"
  shows "instructions_remaining (InstructionsFrame_iter (v1_instructions_frame_of offset ixs) bytes) ixs"
proof -
  define o1 where "o1 = offset + 4 * length ixs"
  have s: "seg bytes offset o1 (concat (map enc_v1_header ixs))"
      "seg bytes o1 offset' (concat (map enc_v1_payload ixs))"
    using sg by (simp_all add: enc_v1_instructions_def seg_append o1_def)
  have "unat (of_nat o1 :: u16) = o1" "unat (of_nat offset :: u16) = offset"
    using seg_bounds(1) [OF s(1)] seg_bounds(1) [OF s(2)] o by (intro unat_of_nat_u16; simp)+
  then show ?thesis
    using s wf ib in_buffer_seg [OF ib s(1)]
    by (auto simp: InstructionsFrame_iter_def v1_instructions_frame_of_def wf_v1_instructions_def
        unat_of_nat_u16 simp flip: o1_def)
qed

end
