(* ===== verification/Address_Table_Lookup_Frame.thy ===== *)
theory Address_Table_Lookup_Frame
  imports Record_Loop
begin

text \<open>
  \<open>address_table_lookup_frame.rs\<close>: the parser of the address-table-lookup section of a v0 message
  and its iterator. The parser is an instance of \<open>record_loop\<close> whose accumulator holds the two u32
  totals; the iterator is an instance of \<open>record_iterator\<close>. A parsed frame describes a list of
  lookups on the wire, its totals are the sums of their index counts (the wrapping u32 additions
  never wrap), and iterating returns the same lookups.
\<close>

section \<open>Data and constants\<close>

record SVMMessageAddressTableLookup =
  atl_account_key :: bytes
  atl_writable_indexes :: bytes
  atl_readonly_indexes :: bytes

definition MIN_SIZED_ATL :: usize where
  "MIN_SIZED_ATL = size_of_Pubkey + 1 + 1 + 1"

definition MIN_SIZED_PACKET_WITH_ATLS :: usize where
  "MIN_SIZED_PACKET_WITH_ATLS =
     1 + size_of_Signature + 1 + 3 + 1 + size_of_Pubkey + size_of_Hash + 1 + 1"

definition MAX_ATLS_PER_PACKET :: u8 where
  "MAX_ATLS_PER_PACKET = of_nat ((PACKET_DATA_SIZE - MIN_SIZED_PACKET_WITH_ATLS) div MIN_SIZED_ATL)"

record AddressTableLookupFrame =
  atf_num_address_table_lookups :: u8
  atf_offset :: u16
  atf_total_writable_lookup_accounts :: u16
  atf_total_readonly_lookup_accounts :: u16

section \<open>The parser\<close>

text \<open>The loop body; its accumulator is the pair of totals.\<close>

definition atl_body :: "bytes \<Rightarrow> u32 \<times> u32 \<Rightarrow> (u32 \<times> u32) reader" where
  "atl_body bytes totals =
     (case totals of (total_writable_lookup_accounts, total_readonly_lookup_accounts) \<Rightarrow>
      p_bind (advance_offset_for_type size_of_Pubkey bytes) (\<lambda>_.
      p_bind (optimized_read_compressed_u16 bytes) (\<lambda>num_write_accounts.
      let total_writable_lookup_accounts = total_writable_lookup_accounts + ucast num_write_accounts in
      p_bind (advance_offset_for_array 1 bytes num_write_accounts) (\<lambda>_.
      p_bind (optimized_read_compressed_u16 bytes) (\<lambda>num_read_accounts.
      let total_readonly_lookup_accounts = total_readonly_lookup_accounts + ucast num_read_accounts in
      p_bind (advance_offset_for_array 1 bytes num_read_accounts) (\<lambda>_.
      p_return (total_writable_lookup_accounts, total_readonly_lookup_accounts)))))))"

definition u16_try_from_u32 :: "u32 \<Rightarrow> u16 tv_result" where
  "u16_try_from_u32 v = (if unat v \<le> 65535 then Ok (ucast v) else Err SanitizeError)"

definition AddressTableLookupFrame_try_new :: "bytes \<Rightarrow> AddressTableLookupFrame reader" where
  "AddressTableLookupFrame_try_new bytes =
     p_bind (read_byte bytes) (\<lambda>num_address_table_lookups.
     if num_address_table_lookups > MAX_ATLS_PER_PACKET then p_lift (Err ParseError)
     else
       p_bind p_get (\<lambda>offset.
       p_bind (p_lift (check_remaining bytes offset
                (usize_wrapping_mul MIN_SIZED_ATL (unat num_address_table_lookups)))) (\<lambda>_.
       let address_table_lookups_offset = of_nat offset in
       p_bind (p_for (unat num_address_table_lookups) (atl_body bytes) (0, 0))
         (\<lambda>(total_writable_lookup_accounts, total_readonly_lookup_accounts).
       p_bind (p_lift (u16_try_from_u32 total_writable_lookup_accounts)) (\<lambda>total_writable.
       p_bind (p_lift (u16_try_from_u32 total_readonly_lookup_accounts)) (\<lambda>total_readonly.
       p_return
         \<lparr>atf_num_address_table_lookups = num_address_table_lookups,
          atf_offset = address_table_lookups_offset,
          atf_total_writable_lookup_accounts = total_writable,
          atf_total_readonly_lookup_accounts = total_readonly\<rparr>))))))"

section \<open>The iterator\<close>

record AddressTableLookupIterator =
  ati_bytes :: bytes
  ati_offset :: usize
  ati_num_address_table_lookups :: u8
  ati_index :: u8

definition read_lookup :: "bytes \<Rightarrow> SVMMessageAddressTableLookup reader" where
  "read_lookup bytes =
     p_bind (read_type size_of_Pubkey bytes) (\<lambda>account_key.
     p_bind (optimized_read_compressed_u16 bytes) (\<lambda>num_write_accounts.
     p_bind (read_slice_data bytes num_write_accounts) (\<lambda>writable_indexes.
     p_bind (optimized_read_compressed_u16 bytes) (\<lambda>num_read_accounts.
     p_bind (read_slice_data bytes num_read_accounts) (\<lambda>readonly_indexes.
     p_return \<lparr>atl_account_key = account_key, atl_writable_indexes = writable_indexes,
               atl_readonly_indexes = readonly_indexes\<rparr>)))))"

text \<open>\<open>.ok()?\<close> in a function that returns an \<open>Option\<close>: an error ends it with \<open>None\<close>.\<close>

fun ok_or_none :: "('e, 'a) outcome \<Rightarrow> ('e, 'a option) outcome" where
  "ok_or_none (Ok x) = Ok (Some x)"
| "ok_or_none (Err e) = Ok None"
| "ok_or_none Panic = Panic"
| "ok_or_none UB = UB"

definition AddressTableLookupIterator_next ::
  "AddressTableLookupIterator \<Rightarrow>
   SVMMessageAddressTableLookup option tv_result \<times> AddressTableLookupIterator" where
  "AddressTableLookupIterator_next self =
     (if ati_index self < ati_num_address_table_lookups self then
        let self = self\<lparr>ati_index := ati_index self + 1\<rparr>;
            (r, offset) = read_lookup (ati_bytes self) (ati_offset self)
        in (ok_or_none r, self\<lparr>ati_offset := offset\<rparr>)
      else (Ok None, self))"

definition AddressTableLookupIterator_len :: "AddressTableLookupIterator \<Rightarrow> usize" where
  "AddressTableLookupIterator_len self =
     unat (ati_num_address_table_lookups self - ati_index self)"

lemma AddressTableLookupIterator_next_len:
  "AddressTableLookupIterator_next it = (Ok (Some x), it') \<Longrightarrow>
   AddressTableLookupIterator_len it' < AddressTableLookupIterator_len it"
  by (auto simp: AddressTableLookupIterator_next_def AddressTableLookupIterator_len_def Let_def
      index_step(2) split: if_splits prod.splits)

function lookups_try_fold ::
  "AddressTableLookupIterator \<Rightarrow> ('acc \<Rightarrow> SVMMessageAddressTableLookup \<Rightarrow> 'acc flow tv_result) \<Rightarrow>
   'acc \<Rightarrow> 'acc tv_result" where
  "lookups_try_fold it body acc =
     (case AddressTableLookupIterator_next it of
        (Ok None, _) \<Rightarrow> Ok acc
      | (Ok (Some x), it') \<Rightarrow>
          (case body acc x of
             Ok (Continue acc') \<Rightarrow> lookups_try_fold it' body acc'
           | Ok (Break acc') \<Rightarrow> Ok acc'
           | Err e \<Rightarrow> Err e | Panic \<Rightarrow> Panic | UB \<Rightarrow> UB)
      | (Err e, _) \<Rightarrow> Err e
      | (Panic, _) \<Rightarrow> Panic
      | (UB, _) \<Rightarrow> UB)"
  by pat_completeness auto
termination
  by (relation "measure (\<lambda>(it, _, _). AddressTableLookupIterator_len it)")
    (auto dest!: sym [of _ "AddressTableLookupIterator_next _"]
      intro: AddressTableLookupIterator_next_len)

declare lookups_try_fold.simps [simp del]

section \<open>Wire form\<close>

definition enc_atl :: "SVMMessageAddressTableLookup \<Rightarrow> bytes" where
  "enc_atl a =
     atl_account_key a
   @ enc_compact_u16 (length (atl_writable_indexes a)) @ atl_writable_indexes a
   @ enc_compact_u16 (length (atl_readonly_indexes a)) @ atl_readonly_indexes a"

definition wf_atl :: "SVMMessageAddressTableLookup \<Rightarrow> bool" where
  "wf_atl a \<longleftrightarrow> length (atl_account_key a) = size_of_Pubkey
     \<and> length (atl_writable_indexes a) < 16384 \<and> length (atl_readonly_indexes a) < 16384"

definition total_writable :: "SVMMessageAddressTableLookup list \<Rightarrow> nat" where
  "total_writable as = sum_list (map (length \<circ> atl_writable_indexes) as)"

definition total_readonly :: "SVMMessageAddressTableLookup list \<Rightarrow> nat" where
  "total_readonly as = sum_list (map (length \<circ> atl_readonly_indexes) as)"

definition wf_atls :: "SVMMessageAddressTableLookup list \<Rightarrow> bool" where
  "wf_atls as \<longleftrightarrow> length as \<le> 31 \<and> list_all wf_atl as
     \<and> total_writable as < 65536 \<and> total_readonly as < 65536"

definition enc_atls :: "SVMMessageAddressTableLookup list \<Rightarrow> bytes" where
  "enc_atls as = of_nat (length as) # concat (map enc_atl as)"

definition atls_frame_of :: "usize \<Rightarrow> SVMMessageAddressTableLookup list \<Rightarrow> AddressTableLookupFrame" where
  "atls_frame_of offset as =
     \<lparr>atf_num_address_table_lookups = of_nat (length as), atf_offset = of_nat (Suc offset),
      atf_total_writable_lookup_accounts = of_nat (total_writable as),
      atf_total_readonly_lookup_accounts = of_nat (total_readonly as)\<rparr>"

section \<open>Correctness of the parser\<close>

definition atl_upd :: "u32 \<times> u32 \<Rightarrow> SVMMessageAddressTableLookup \<Rightarrow> u32 \<times> u32" where
  "atl_upd totals a =
     (fst totals + of_nat (length (atl_writable_indexes a)),
      snd totals + of_nat (length (atl_readonly_indexes a)))"

lemma ucast_of_nat_u32: "n < 16384 \<Longrightarrow> (ucast (of_nat n :: u16) :: u32) = of_nat n"
  by (simp add: word_unat_eq_iff unat_of_nat_u16 unat_of_nat)

lemma atl_body_sound:
  assumes ib: "in_buffer bytes offset" and ok: "atl_body bytes totals offset = (Ok totals', offset')"
  shows "\<exists>a. wf_atl a \<and> seg bytes offset offset' (enc_atl a) \<and> totals' = atl_upd totals a"
proof -
  from ok obtain o1 nw o2 o3 nr o4 where r: "advance_offset_for_type size_of_Pubkey bytes offset = (Ok (), o1)"
      "optimized_read_compressed_u16 bytes o1 = (Ok nw, o2)"
      "advance_offset_for_array 1 bytes nw o2 = (Ok (), o3)"
      "optimized_read_compressed_u16 bytes o3 = (Ok nr, o4)"
      "advance_offset_for_array 1 bytes nr o4 = (Ok (), offset')"
      and t: "totals' = (fst totals + ucast nw, snd totals + ucast nr)"
    by (auto simp: atl_body_def p_bind_Ok_iff Let_def split: prod.splits)
  define key where "key = take size_of_Pubkey (drop offset bytes)"
  from r(1) ib have o1: "o1 = offset + 32" "o1 \<le> length bytes"
    by (simp_all add: advance_offset_for_type_Ok_iff)
  then have s1: "seg bytes offset o1 key" and lk: "length key = 32"
    using seg_take_drop [of offset 32 bytes] by (simp_all add: key_def)
  note ib1 = in_buffer_seg [OF ib s1]
  obtain ws where w: "length ws < 16384" "nw = of_nat (length ws)"
      "seg bytes o1 o3 (enc_compact_u16 (length ws) @ ws)"
    by (rule counted_bytes_sound [OF ib1 r(2,3)])
  note ib3 = in_buffer_seg [OF ib1 w(3)]
  obtain rs where rr: "length rs < 16384" "nr = of_nat (length rs)"
      "seg bytes o3 offset' (enc_compact_u16 (length rs) @ rs)"
    by (rule counted_bytes_sound [OF ib3 r(4,5)])
  let ?a = "\<lparr>atl_account_key = key, atl_writable_indexes = ws, atl_readonly_indexes = rs\<rparr>"
  have "seg bytes offset offset' (enc_atl ?a)"
    using seg_appendI [OF s1 seg_appendI [OF w(3) rr(3)]] by (simp add: enc_atl_def)
  moreover have "totals' = atl_upd totals ?a"
    using w rr by (simp add: t atl_upd_def ucast_of_nat_u32)
  ultimately show ?thesis
    using w(1) rr(1) lk by (intro exI [of _ ?a]) (simp add: wf_atl_def)
qed

lemma atl_body_complete:
  assumes ib: "in_buffer bytes offset" and wf: "wf_atl a" and sg: "seg bytes offset offset' (enc_atl a)"
  shows "atl_body bytes totals offset = (Ok (atl_upd totals a), offset')"
proof -
  let ?w = "atl_writable_indexes a" and ?r = "atl_readonly_indexes a"
  let ?cw = "enc_compact_u16 (length ?w) @ ?w" and ?cr = "enc_compact_u16 (length ?r) @ ?r"
  define o1 o3 where "o1 = offset + length (atl_account_key a)" and "o3 = o1 + length ?cw"
  have s: "seg bytes offset o1 (atl_account_key a)" "seg bytes o1 o3 ?cw" "seg bytes o3 offset' ?cr"
    using sg seg_append [of bytes o1 offset' ?cw ?cr]
      seg_append [of bytes offset offset' "atl_account_key a" "?cw @ ?cr"]
    by (simp_all add: enc_atl_def o1_def o3_def)
  have w: "length (atl_account_key a) = 32" "length ?w < 16384" "length ?r < 16384"
    using wf by (simp_all add: wf_atl_def)
  note ib1 = in_buffer_seg [OF ib s(1)]
  note ib3 = in_buffer_seg [OF ib1 s(2)]
  have k: "advance_offset_for_type size_of_Pubkey bytes offset = (Ok (), o1)"
    using advance_type_complete [OF ib _ s(1) w(1)] by simp
  show ?thesis
    by (cases totals)
      (simp add: atl_body_def Let_def p_bind_step k counted_bytes_complete [OF ib1 w(2) s(2)]
        counted_bytes_complete [OF ib3 w(3) s(3)] comp_unfold atl_upd_def ucast_of_nat_u32 w
        del: One_nat_def)
qed

lemma atl_body_triple: "triple (in_buffer bytes) (atl_body bytes totals) (\<lambda>_. in_buffer bytes)"
  unfolding atl_body_def Let_def case_prod_unfold
  by (intro triple_bind [OF advance_offset_for_type_triple]
      triple_bind [OF optimized_read_compressed_u16_triple]
      triple_bind [OF advance_offset_for_array_triple] triple_return) simp_all

interpretation lookups: record_loop atl_body enc_atl wf_atl atl_upd
  by unfold_locales (simp_all add: atl_body_sound atl_body_complete atl_body_triple)

lemma foldl_atl_upd:
  "foldl atl_upd (w, r) as = (w + of_nat (total_writable as), r + of_nat (total_readonly as))"
  by (induction as arbitrary: w r) (simp_all add: atl_upd_def total_writable_def total_readonly_def)

lemma sum_list_bound: "(\<And>x. x \<in> set xs \<Longrightarrow> f x \<le> k) \<Longrightarrow> sum_list (map f xs) \<le> k * length xs"
  for f :: "'a \<Rightarrow> nat"
proof (induction xs)
  case (Cons x xs)
  have "f x \<le> k" "sum_list (map f xs) \<le> k * length xs" using Cons by simp_all
  then show ?case by simp
qed simp

lemma max_atls: "unat MAX_ATLS_PER_PACKET = 31" "MIN_SIZED_ATL = 35"
  by (simp_all add: MAX_ATLS_PER_PACKET_def MIN_SIZED_PACKET_WITH_ATLS_def MIN_SIZED_ATL_def)

text \<open>The u32 totals never wrap: 31 lookups of at most 16383 indexes each.\<close>

lemma totals_u32:
  assumes "length as \<le> 31" "list_all wf_atl as"
  shows "unat (of_nat (total_writable as) :: u32) = total_writable as"
    and "unat (of_nat (total_readonly as) :: u32) = total_readonly as"
proof -
  have "x \<in> set as \<Longrightarrow> (length \<circ> atl_writable_indexes) x \<le> 16383"
    "x \<in> set as \<Longrightarrow> (length \<circ> atl_readonly_indexes) x \<le> 16383" for x
    using assms(2) by (auto simp: list_all_iff wf_atl_def)
  then have "total_writable as \<le> 16383 * length as" "total_readonly as \<le> 16383 * length as"
    unfolding total_writable_def total_readonly_def by (intro sum_list_bound; blast)+
  with assms(1) show "unat (of_nat (total_writable as) :: u32) = total_writable as"
    "unat (of_nat (total_readonly as) :: u32) = total_readonly as"
    by (simp_all add: unat_of_nat)
qed

lemma u16_try_from_u32_of_nat:
  "unat (of_nat n :: u32) = n \<Longrightarrow>
   u16_try_from_u32 (of_nat n) = (if n < 65536 then Ok (of_nat n) else Err SanitizeError)"
  by (auto simp: u16_try_from_u32_def word_unat_eq_iff unat_of_nat_u16 unsigned_ucast_eq
      take_bit_nat_eq_self)

lemma atls_sound:
  assumes ib: "in_buffer bytes offset"
    and ok: "AddressTableLookupFrame_try_new bytes offset = (Ok f, offset')"
  obtains as where "wf_atls as" "seg bytes offset offset' (enc_atls as)"
    "f = atls_frame_of offset as" "Suc offset + 35 * length as \<le> length bytes"
proof -
  from ok obtain n o1 w r tw tr where r: "read_byte bytes offset = (Ok n, o1)"
      and n: "n \<le> MAX_ATLS_PER_PACKET"
      and c: "check_remaining bytes o1 (usize_wrapping_mul MIN_SIZED_ATL (unat n)) = Ok ()"
      and l: "p_for (unat n) (atl_body bytes) (0, 0) o1 = (Ok (w, r), offset')"
      and t: "u16_try_from_u32 w = Ok tw" "u16_try_from_u32 r = Ok tr"
      and f: "f = \<lparr>atf_num_address_table_lookups = n, atf_offset = of_nat o1,
        atf_total_writable_lookup_accounts = tw, atf_total_readonly_lookup_accounts = tr\<rparr>"
    by (auto simp: AddressTableLookupFrame_try_new_def p_bind_Ok_iff Let_def split: if_splits prod.splits)
  have s1: "seg bytes offset o1 [n]" using r ib by (simp add: read_byte_Ok_iff)
  then have o1: "o1 = Suc offset" by (simp add: seg_def)
  note ib1 = in_buffer_seg [OF ib s1]
  have n31: "unat n \<le> 31" using n by (simp add: word_le_nat_alt max_atls)
  from lookups.loop_sound [OF ib1 l] obtain as where as: "length as = unat n" "list_all wf_atl as"
      "seg bytes o1 offset' (concat (map enc_atl as))" "w = of_nat (total_writable as)"
      "r = of_nat (total_readonly as)"
    by (auto simp: foldl_atl_upd)
  have le31: "length as \<le> 31" using as(1) n31 by simp
  note u = totals_u32 [OF le31 as(2)]
  have tt: "total_writable as < 65536" "total_readonly as < 65536"
      "tw = of_nat (total_writable as)" "tr = of_nat (total_readonly as)"
    using t u by (simp_all add: as(4,5) u16_try_from_u32_of_nat split: if_splits)
  have nn: "(of_nat (length as) :: u8) = n" using as(1) by simp
  show thesis
  proof (rule that)
    show "wf_atls as" using as tt le31 by (simp add: wf_atls_def)
    show "seg bytes offset offset' (enc_atls as)"
      using seg_appendI [OF s1 as(3)] nn by (simp add: enc_atls_def)
    show "f = atls_frame_of offset as" using f nn o1 tt by (simp add: atls_frame_of_def)
    show "Suc offset + 35 * length as \<le> length bytes"
      using c ib1 n31 by (simp add: check_remaining_iff max_atls as(1) o1 split: if_splits)
  qed
qed

lemma atls_complete:
  assumes ib: "in_buffer bytes offset" and wf: "wf_atls as"
    and sg: "seg bytes offset offset' (enc_atls as)"
    and room: "Suc offset + 35 * length as \<le> length bytes"
  shows "AddressTableLookupFrame_try_new bytes offset = (Ok (atls_frame_of offset as), offset')"
proof -
  let ?n = "of_nat (length as) :: u8"
  have w: "length as \<le> 31" "list_all wf_atl as" "total_writable as < 65536" "total_readonly as < 65536"
    using wf by (simp_all add: wf_atls_def)
  have un: "unat ?n = length as" using w(1) by (intro unat_of_nat_u8) simp
  have s: "seg bytes offset (Suc offset) [?n]" "seg bytes (Suc offset) offset' (concat (map enc_atl as))"
    using sg by (simp_all add: enc_atls_def seg_Cons)
  note ib1 = in_buffer_seg [OF ib s(1)]
  have r: "read_byte bytes offset = (Ok ?n, Suc offset)" using ib s(1) by (simp add: read_byte_Ok_iff)
  have c: "check_remaining bytes (Suc offset) (usize_wrapping_mul MIN_SIZED_ATL (length as)) = Ok ()"
    using room ib1 w(1) by (simp add: check_remaining_iff max_atls)
  have g: "\<not> MAX_ATLS_PER_PACKET < ?n" using un w(1) by (simp add: word_less_nat_alt max_atls)
  note u = totals_u32 [OF w(1,2)]
  show ?thesis
    unfolding AddressTableLookupFrame_try_new_def Let_def
    using g w(3,4) u
    by (simp add: p_bind_step r comp_unfold un c lookups.loop_complete [OF ib1 w(2) s(2)] foldl_atl_upd
        u16_try_from_u32_of_nat atls_frame_of_def)
qed

lemma AddressTableLookupFrame_triple [triple_rules]:
  "triple (in_buffer bytes) (AddressTableLookupFrame_try_new bytes) (\<lambda>_. in_buffer bytes)"
proof -
  have "no_fault (u16_try_from_u32 v)" for v by (simp add: u16_try_from_u32_def)
  then show ?thesis
    unfolding AddressTableLookupFrame_try_new_def Let_def case_prod_unfold
    by (intro triple_bind [OF read_byte_triple] triple_if triple_err triple_get_bind triple_return
        triple_bind [OF lookups.loop_triple] triple_guard) simp_all
qed

section \<open>Correctness of the iterator\<close>

definition lookups_remaining ::
  "AddressTableLookupIterator \<Rightarrow> SVMMessageAddressTableLookup list \<Rightarrow> bool" where
  "lookups_remaining it as \<longleftrightarrow>
     in_buffer (ati_bytes it) (ati_offset it) \<and> list_all wf_atl as
     \<and> (\<exists>e. seg (ati_bytes it) (ati_offset it) e (concat (map enc_atl as)))
     \<and> unat (ati_num_address_table_lookups it) = unat (ati_index it) + length as"

lemma read_lookup_complete:
  assumes ib: "in_buffer bytes offset" and wf: "wf_atl a" and sg: "seg bytes offset offset' (enc_atl a)"
  shows "read_lookup bytes offset = (Ok a, offset')"
proof -
  let ?w = "atl_writable_indexes a" and ?r = "atl_readonly_indexes a"
  let ?cw = "enc_compact_u16 (length ?w)" and ?cr = "enc_compact_u16 (length ?r)"
  define o1 o2 o3 o4 where "o1 = offset + length (atl_account_key a)" and "o2 = o1 + length ?cw"
    and "o3 = o2 + length ?w" and "o4 = o3 + length ?cr"
  have s: "seg bytes offset o1 (atl_account_key a)" "seg bytes o1 o2 ?cw" "seg bytes o2 o3 ?w"
      "seg bytes o3 o4 ?cr" "seg bytes o4 offset' ?r"
    using sg by (simp_all add: enc_atl_def seg_append o1_def o2_def o3_def o4_def)
  have w: "length (atl_account_key a) = 32" "length ?w < 16384" "length ?r < 16384"
    using wf by (simp_all add: wf_atl_def)
  have u: "length ?w = unat (of_nat (length ?w) :: u16)" "length ?r = unat (of_nat (length ?r) :: u16)"
    using w by (simp_all add: unat_of_nat_u16)
  note ib1 = in_buffer_seg [OF ib s(1)]
  note ib2 = in_buffer_seg [OF ib1 s(2)]
  note ib3 = in_buffer_seg [OF ib2 s(3)]
  note ib4 = in_buffer_seg [OF ib3 s(4)]
  have k: "read_type size_of_Pubkey bytes offset = (Ok (atl_account_key a), o1)"
    using read_type_complete [OF ib s(1) w(1)] by simp
  show ?thesis
    unfolding read_lookup_def
    by (simp add: p_bind_step k optimized_read_compressed_u16_complete [OF ib1 w(2) s(2)]
        read_slice_data_complete [OF ib2 s(3) u(1)]
        optimized_read_compressed_u16_complete [OF ib3 w(3) s(4)]
        read_slice_data_complete [OF ib4 s(5) u(2)] comp_unfold)
qed

lemma lookups_next_step:
  assumes "lookups_remaining it (a # as)"
  shows "\<exists>it'. AddressTableLookupIterator_next it = (Ok (Some a), it') \<and> lookups_remaining it' as"
proof -
  from assms obtain e where r: "in_buffer (ati_bytes it) (ati_offset it)" "wf_atl a" "list_all wf_atl as"
      "seg (ati_bytes it) (ati_offset it) e (enc_atl a @ concat (map enc_atl as))"
      "unat (ati_num_address_table_lookups it) = unat (ati_index it) + Suc (length as)"
    by (auto simp: lookups_remaining_def)
  let ?o = "ati_offset it + length (enc_atl a)"
  have s: "seg (ati_bytes it) (ati_offset it) ?o (enc_atl a)"
      "seg (ati_bytes it) ?o e (concat (map enc_atl as))"
    using r(4) by (simp_all add: seg_append)
  have lt: "ati_index it < ati_num_address_table_lookups it" using r(5) by (simp add: word_less_nat_alt)
  show ?thesis
    using lt r(3,5) s(2) in_buffer_seg [OF r(1) s(1)]
    by (auto simp: AddressTableLookupIterator_next_def read_lookup_complete [OF r(1,2) s(1)]
        lookups_remaining_def index_step(1) Let_def)
qed

lemma lookups_next_done:
  "lookups_remaining it [] \<Longrightarrow> AddressTableLookupIterator_next it = (Ok None, it)"
  by (simp add: lookups_remaining_def AddressTableLookupIterator_next_def word_less_nat_alt)

lemma lookups_len: "lookups_remaining it as \<Longrightarrow> AddressTableLookupIterator_len it = length as"
  by (simp add: lookups_remaining_def AddressTableLookupIterator_len_def word_le_nat_alt unat_sub)

interpretation lookups_iter: record_iterator AddressTableLookupIterator_next
    AddressTableLookupIterator_len lookups_remaining lookups_try_fold
proof unfold_locales
  fix it it' and body :: "'acc \<Rightarrow> SVMMessageAddressTableLookup \<Rightarrow> 'acc flow tv_result" and acc
  assume "AddressTableLookupIterator_next it = (Ok None, it')"
  then show "lookups_try_fold it body acc = Ok acc" by (simp add: lookups_try_fold.simps)
next
  fix it it' a and body :: "'acc \<Rightarrow> SVMMessageAddressTableLookup \<Rightarrow> 'acc flow tv_result" and acc
  assume "AddressTableLookupIterator_next it = (Ok (Some a), it')"
  then show "lookups_try_fold it body acc = r_bind (body acc a) (\<lambda>f. case f of
      Continue acc' \<Rightarrow> lookups_try_fold it' body acc' | Break acc' \<Rightarrow> Ok acc')"
    by (cases "body acc a") (simp_all add: lookups_try_fold.simps [of it] split: flow.split)
qed (use lookups_next_step lookups_next_done lookups_len in blast)+

end
