(* ===== verification/Message_Frame.thy ===== *)
theory Message_Frame
  imports Transaction_Config Instructions_Frame Address_Table_Lookup_Frame
begin

text \<open>
  \<open>message_frame.rs\<close>: the parser of a message (the signed part of a transaction) in its three
  versions and the accessors of its frame.

  The specification is the record \<open>message\<close> of the logical contents with its wire format
  \<open>enc_message\<close> and the limits \<open>wf_message\<close> the parser enforces. A successful parse yields the frame
  of a message whose encoding starts at the given offset (soundness), every encoding is accepted
  (completeness), no input makes the parser panic or read outside the buffer (triples), and the
  accessors of a frame return the contents of the message it was parsed from.
\<close>

section \<open>The frame\<close>

record MessageFrame =
  mf_message_header :: MessageHeaderFrame
  mf_static_account_keys :: StaticAccountKeysFrame
  mf_recent_blockhash_offset :: u16
  mf_instructions :: InstructionsFrame
  mf_address_table_lookup :: AddressTableLookupFrame
  mf_transaction_config_frame :: TransactionConfigFrame
  mf_end_offset :: u16

section \<open>Parsers\<close>

text \<open>The lookup frame of a message version without lookups.\<close>

definition no_lookups_frame :: AddressTableLookupFrame where
  "no_lookups_frame =
     \<lparr>atf_num_address_table_lookups = 0, atf_offset = 0,
      atf_total_writable_lookup_accounts = 0, atf_total_readonly_lookup_accounts = 0\<rparr>"

definition legacy_or_v0_message :: "bytes \<Rightarrow> MessageFrame reader" where
  "legacy_or_v0_message bytes =
     p_bind (MessageHeaderFrame_try_new bytes) (\<lambda>message_header.
     p_bind (StaticAccountKeysFrame_try_new bytes) (\<lambda>static_account_keys.
     p_bind p_get (\<lambda>offset.
     p_bind (p_lift (checked_offset offset)) (\<lambda>recent_blockhash_offset.
     p_bind (advance_offset_for_type size_of_Hash bytes) (\<lambda>_.
     p_bind (try_new_for_legacy_and_v0 bytes) (\<lambda>instructions.
     p_bind
       (case mhf_version message_header of
          Legacy \<Rightarrow> p_return no_lookups_frame
        | V0 \<Rightarrow> AddressTableLookupFrame_try_new bytes
        | V1 \<Rightarrow> p_lift Panic)
       (\<lambda>address_table_lookup.
     p_bind p_get (\<lambda>offset.
     p_bind (p_lift (checked_offset offset)) (\<lambda>end_offset.
     p_return
       \<lparr>mf_message_header = message_header,
        mf_static_account_keys = static_account_keys,
        mf_recent_blockhash_offset = recent_blockhash_offset,
        mf_instructions = instructions,
        mf_address_table_lookup = address_table_lookup,
        mf_transaction_config_frame = TransactionConfigFrame_not_applicable,
        mf_end_offset = end_offset\<rparr>)))))))))"

definition MessageFrame_try_new_as_legacy_or_v0 :: "bytes \<Rightarrow> usize \<Rightarrow> MessageFrame tv_result" where
  "MessageFrame_try_new_as_legacy_or_v0 bytes offset = fst (legacy_or_v0_message bytes offset)"

definition FIXED_V1_PREFIX_LEN :: usize where
  "FIXED_V1_PREFIX_LEN = 1 + 3 + 4 + size_of_Hash + 1 + 1"

definition v1_message :: "bytes \<Rightarrow> MessageFrame reader" where
  "v1_message bytes =
     p_bind p_get (\<lambda>offset.
     p_bind (p_lift (check_remaining bytes offset FIXED_V1_PREFIX_LEN)) (\<lambda>_.
     let message_offset = of_nat offset in
     p_bind (unchecked_read_byte bytes) (\<lambda>version.
     p_bind (if version = V1_PREFIX then p_return V1 else p_lift (Err ParseError)) (\<lambda>version.
     p_bind (unchecked_read_byte bytes) (\<lambda>num_required_signatures.
     p_bind (unchecked_read_byte bytes) (\<lambda>num_readonly_signed_accounts.
     p_bind (unchecked_read_byte bytes) (\<lambda>num_readonly_unsigned_accounts.
     p_bind p_get (\<lambda>transaction_config_mask_offset.
     p_bind (p_lift (unchecked_copy_value 4 bytes transaction_config_mask_offset)) (\<lambda>mask_bytes.
     let transaction_config_mask = of_nat (le_value mask_bytes) :: u32 in
     p_bind (p_modify (\<lambda>offset. usize_wrapping_add offset 4)) (\<lambda>_.
     p_bind p_get (\<lambda>offset.
     p_bind (p_lift (checked_offset offset)) (\<lambda>recent_blockhash_offset.
     p_bind (p_modify (\<lambda>offset. usize_wrapping_add offset size_of_Hash)) (\<lambda>_.
     p_bind (unchecked_read_byte bytes) (\<lambda>num_instructions.
     p_bind (unchecked_read_byte bytes) (\<lambda>num_addresses.
     p_bind p_get (\<lambda>offset.
     p_bind (p_lift (checked_offset offset)) (\<lambda>addresses_offset.
     p_bind (advance_offset_for_array size_of_Pubkey bytes (ucast num_addresses)) (\<lambda>_.
     p_bind (TransactionConfigFrame_try_new bytes transaction_config_mask_offset
               transaction_config_mask) (\<lambda>transaction_config_frame.
     p_bind (try_new_for_v1 bytes num_instructions) (\<lambda>instructions.
     p_bind p_get (\<lambda>offset.
     p_bind (p_lift (checked_offset offset)) (\<lambda>end_offset.
     p_return
       \<lparr>mf_message_header =
          \<lparr>mhf_offset = message_offset, mhf_version = version,
           mhf_num_required_signatures = num_required_signatures,
           mhf_num_readonly_signed_accounts = num_readonly_signed_accounts,
           mhf_num_readonly_unsigned_accounts = num_readonly_unsigned_accounts\<rparr>,
        mf_static_account_keys =
          \<lparr>skf_num_static_accounts = num_addresses, skf_offset = addresses_offset\<rparr>,
        mf_recent_blockhash_offset = recent_blockhash_offset,
        mf_instructions = instructions,
        mf_address_table_lookup = no_lookups_frame,
        mf_transaction_config_frame = transaction_config_frame,
        mf_end_offset = end_offset\<rparr>))))))))))))))))))))))"

definition MessageFrame_try_new_as_v1 :: "bytes \<Rightarrow> MessageFrame tv_result" where
  "MessageFrame_try_new_as_v1 bytes = fst (v1_message bytes 0)"

definition MessageFrame_try_new :: "bytes \<Rightarrow> MessageFrame tv_result" where
  "MessageFrame_try_new bytes =
     r_bind
       (if slice_get bytes 0 = Some V1_PREFIX
        then MessageFrame_try_new_as_v1 bytes
        else MessageFrame_try_new_as_legacy_or_v0 bytes 0)
       (\<lambda>message_frame.
          if unat (mf_end_offset message_frame) \<noteq> length bytes then Err ParseError
          else Ok message_frame)"

section \<open>Accessors\<close>

definition mf_version :: "MessageFrame \<Rightarrow> TransactionVersion" where
  "mf_version self = mhf_version (mf_message_header self)"

definition mf_num_required_signatures :: "MessageFrame \<Rightarrow> u8" where
  "mf_num_required_signatures self = mhf_num_required_signatures (mf_message_header self)"

definition mf_num_readonly_signed_static_accounts :: "MessageFrame \<Rightarrow> u8" where
  "mf_num_readonly_signed_static_accounts self =
     mhf_num_readonly_signed_accounts (mf_message_header self)"

definition mf_num_readonly_unsigned_static_accounts :: "MessageFrame \<Rightarrow> u8" where
  "mf_num_readonly_unsigned_static_accounts self =
     mhf_num_readonly_unsigned_accounts (mf_message_header self)"

definition mf_num_static_account_keys :: "MessageFrame \<Rightarrow> u8" where
  "mf_num_static_account_keys self = skf_num_static_accounts (mf_static_account_keys self)"

definition mf_num_instructions :: "MessageFrame \<Rightarrow> u16" where
  "mf_num_instructions self = InstructionsFrame_num_instructions (mf_instructions self)"

definition mf_num_address_table_lookups :: "MessageFrame \<Rightarrow> u8" where
  "mf_num_address_table_lookups self =
     atf_num_address_table_lookups (mf_address_table_lookup self)"

definition mf_total_writable_lookup_accounts :: "MessageFrame \<Rightarrow> u16" where
  "mf_total_writable_lookup_accounts self =
     atf_total_writable_lookup_accounts (mf_address_table_lookup self)"

definition mf_total_readonly_lookup_accounts :: "MessageFrame \<Rightarrow> u16" where
  "mf_total_readonly_lookup_accounts self =
     atf_total_readonly_lookup_accounts (mf_address_table_lookup self)"

definition mf_message_range :: "MessageFrame \<Rightarrow> u16 \<times> u16" where
  "mf_message_range self = (mhf_offset (mf_message_header self), mf_end_offset self)"

definition mf_static_account_keys_slice :: "MessageFrame \<Rightarrow> bytes \<Rightarrow> bytes list tv_result" where
  "mf_static_account_keys_slice self bytes =
     r_bind (ptr_add bytes (unat (skf_offset (mf_static_account_keys self)))) (\<lambda>ptr.
     from_raw_parts size_of_Pubkey bytes ptr
       (unat (skf_num_static_accounts (mf_static_account_keys self))))"

definition mf_recent_blockhash :: "MessageFrame \<Rightarrow> bytes \<Rightarrow> bytes tv_result" where
  "mf_recent_blockhash self bytes =
     r_bind (ptr_add bytes (unat (mf_recent_blockhash_offset self))) (\<lambda>ptr.
     from_raw_parts_u8 bytes ptr size_of_Hash)"

definition mf_instructions_iter :: "MessageFrame \<Rightarrow> bytes \<Rightarrow> InstructionsIterator" where
  "mf_instructions_iter self bytes = InstructionsFrame_iter (mf_instructions self) bytes"

definition mf_address_table_lookup_iter :: "MessageFrame \<Rightarrow> bytes \<Rightarrow> AddressTableLookupIterator" where
  "mf_address_table_lookup_iter self bytes =
     \<lparr>ati_bytes = bytes, ati_offset = unat (atf_offset (mf_address_table_lookup self)),
      ati_num_address_table_lookups = atf_num_address_table_lookups (mf_address_table_lookup self),
      ati_index = 0\<rparr>"

section \<open>Messages and their wire format\<close>

record message =
  m_version :: TransactionVersion
  m_num_required_signatures :: u8
  m_num_readonly_signed :: u8
  m_num_readonly_unsigned :: u8
  m_account_keys :: "bytes list"
  m_recent_blockhash :: bytes
  m_instructions :: "SVMInstruction list"
  m_lookups :: "SVMMessageAddressTableLookup list"
  m_config :: tx_config

definition empty_config :: tx_config where
  "empty_config = \<lparr>cfg_priority_fee = None, cfg_compute_unit_limit = None,
     cfg_loaded_size_limit = None, cfg_heap_size = None\<rparr>"

definition enc_keys :: "bytes list \<Rightarrow> bytes" where
  "enc_keys keys = of_nat (length keys) # concat keys"

text \<open>The fixed part of a v1 message up to the number of addresses, 42 bytes.\<close>

definition enc_v1_prefix :: "message \<Rightarrow> bytes" where
  "enc_v1_prefix m =
     [V1_PREFIX, m_num_required_signatures m, m_num_readonly_signed m, m_num_readonly_unsigned m]
     @ le_bytes 4 (unat (config_mask (m_config m))) @ m_recent_blockhash m
     @ [of_nat (length (m_instructions m)), of_nat (length (m_account_keys m))]"

definition enc_message :: "message \<Rightarrow> bytes" where
  "enc_message m =
     (if m_version m = V1 then
        enc_v1_prefix m @ concat (m_account_keys m) @ config_values (m_config m)
        @ enc_v1_instructions (m_instructions m)
      else
        enc_header (m_version m) (m_num_required_signatures m) (m_num_readonly_signed m)
          (m_num_readonly_unsigned m)
        @ enc_keys (m_account_keys m) @ m_recent_blockhash m @ enc_instructions (m_instructions m)
        @ (if m_version m = V0 then enc_atls (m_lookups m) else []))"

definition wf_message :: "message \<Rightarrow> bool" where
  "wf_message m \<longleftrightarrow>
     length (m_recent_blockhash m) = size_of_Hash \<and> sized size_of_Pubkey (m_account_keys m)
   \<and> (if m_version m = V1
      then length (m_account_keys m) < 256 \<and> wf_v1_instructions (m_instructions m) \<and> m_lookups m = []
      else wf_header (m_version m) (m_num_required_signatures m)
         \<and> 1 \<le> length (m_account_keys m) \<and> length (m_account_keys m) \<le> 38
         \<and> wf_instructions (m_instructions m) \<and> m_config m = empty_config
         \<and> (if m_version m = V0 then wf_atls (m_lookups m) else m_lookups m = []))"

text \<open>
  The parser asks for 35 bytes per lookup after the lookup count; \<open>trailing\<close> bytes of the buffer
  after the message count too. A lookup with an index has at least 35 bytes.
\<close>

definition lookups_fit :: "message \<Rightarrow> nat \<Rightarrow> bool" where
  "lookups_fit m trailing \<longleftrightarrow>
     35 * length (m_lookups m) \<le> length (concat (map enc_atl (m_lookups m))) + trailing"

text \<open>The frame of a message whose encoding starts at \<open>offset\<close>.\<close>

definition message_frame_of :: "usize \<Rightarrow> message \<Rightarrow> MessageFrame" where
  "message_frame_of offset m =
     (let n = length (m_account_keys m) in
      if m_version m = V1 then
        let keys = offset + 42; values = keys + 32 * n;
            ixs = values + length (config_values (m_config m)) in
        \<lparr>mf_message_header = header_frame_of offset V1 (m_num_required_signatures m)
           (m_num_readonly_signed m) (m_num_readonly_unsigned m),
         mf_static_account_keys = \<lparr>skf_num_static_accounts = of_nat n, skf_offset = of_nat keys\<rparr>,
         mf_recent_blockhash_offset = of_nat (offset + 8),
         mf_instructions = v1_instructions_frame_of ixs (m_instructions m),
         mf_address_table_lookup = no_lookups_frame,
         mf_transaction_config_frame = config_frame_of (offset + 4) (m_config m) values,
         mf_end_offset = of_nat (offset + length (enc_message m))\<rparr>
      else
        let keys = offset + (if m_version m = V0 then 4 else 3);
            hash = keys + 1 + 32 * n; ixs = hash + 32;
            atls = ixs + length (enc_instructions (m_instructions m)) in
        \<lparr>mf_message_header = header_frame_of offset (m_version m) (m_num_required_signatures m)
           (m_num_readonly_signed m) (m_num_readonly_unsigned m),
         mf_static_account_keys = keys_frame_of keys (m_account_keys m),
         mf_recent_blockhash_offset = of_nat hash,
         mf_instructions = instructions_frame_of ixs (m_instructions m),
         mf_address_table_lookup =
           (if m_version m = V0 then atls_frame_of atls (m_lookups m) else no_lookups_frame),
         mf_transaction_config_frame = TransactionConfigFrame_not_applicable,
         mf_end_offset = of_nat (offset + length (enc_message m))\<rparr>)"

section \<open>Legacy and v0 messages\<close>

lemma length_enc_header: "length (enc_header v req ros rou) = (if v = V0 then 4 else 3)"
  by (simp add: enc_header_def)

lemma length_enc_keys: "sized size_of_Pubkey keys \<Longrightarrow> length (enc_keys keys) = 1 + 32 * length keys"
  using length_concat_sized [of keys size_of_Pubkey] by (simp add: enc_keys_def sized_def)

lemma u16_checked_offset: "offset \<le> 65535 \<Longrightarrow> checked_offset offset = Ok (of_nat offset)"
  by (simp add: checked_offset_def)

text \<open>The boundaries between the parts of a legacy or v0 message.\<close>

lemma legacy_or_v0_parts:
  assumes v: "m_version m \<noteq> V1" and wf: "wf_message m"
    and p: "keys = offset + (if m_version m = V0 then 4 else 3)"
      "hash = keys + 1 + 32 * length (m_account_keys m)" "ixs = hash + 32"
      "atls = ixs + length (enc_instructions (m_instructions m))"
  shows "seg bytes offset e (enc_message m) \<longleftrightarrow>
    seg bytes offset keys (enc_header (m_version m) (m_num_required_signatures m)
      (m_num_readonly_signed m) (m_num_readonly_unsigned m))
    \<and> seg bytes keys hash (enc_keys (m_account_keys m)) \<and> seg bytes hash ixs (m_recent_blockhash m)
    \<and> seg bytes ixs atls (enc_instructions (m_instructions m))
    \<and> seg bytes atls e (if m_version m = V0 then enc_atls (m_lookups m) else [])"
proof -
  have l: "length (m_recent_blockhash m) = 32" "sized size_of_Pubkey (m_account_keys m)"
    using wf by (simp_all add: wf_message_def)
  show ?thesis
    using v by (simp add: enc_message_def seg_append p length_enc_header length_enc_keys l)
qed

lemma optional_lookups_sound:
  assumes ib: "in_buffer bytes pos" and v: "v \<noteq> V1"
    and r: "(case v of Legacy \<Rightarrow> p_return no_lookups_frame | V0 \<Rightarrow> AddressTableLookupFrame_try_new bytes
       | V1 \<Rightarrow> p_lift Panic) pos = (Ok atl, offset')"
  obtains as where "if v = V0 then wf_atls as else as = []"
    "seg bytes pos offset' (if v = V0 then enc_atls as else [])"
    "atl = (if v = V0 then atls_frame_of pos as else no_lookups_frame)"
    "as \<noteq> [] \<longrightarrow> Suc pos + 35 * length as \<le> length bytes"
proof (cases v)
  case Legacy
  with r ib show ?thesis by (intro that [of "[]"]) (auto simp: in_buffer_def)
next
  case V0
  with r have "AddressTableLookupFrame_try_new bytes pos = (Ok atl, offset')" by simp
  then obtain as where "wf_atls as" "seg bytes pos offset' (enc_atls as)"
      "atl = atls_frame_of pos as" "Suc pos + 35 * length as \<le> length bytes"
    by (rule atls_sound [OF ib])
  with V0 show ?thesis by (intro that [of as]) simp_all
qed (use v in simp)

text \<open>The parts of a message, put together.\<close>

lemma legacy_or_v0_assemble:
  assumes m: "m = \<lparr>m_version = v, m_num_required_signatures = req, m_num_readonly_signed = ros,
      m_num_readonly_unsigned = rou, m_account_keys = keys, m_recent_blockhash = bh,
      m_instructions = ixs, m_lookups = as, m_config = empty_config\<rparr>"
    and h: "wf_header v req" "seg bytes offset o1 (enc_header v req ros rou)"
    and k: "1 \<le> length keys" "length keys \<le> 38" "sized size_of_Pubkey keys"
      "seg bytes o1 o2 (of_nat (length keys) # concat keys)"
    and b: "seg bytes o2 o3 bh" "length bh = 32"
    and i: "wf_instructions ixs" "seg bytes o3 o4 (enc_instructions ixs)"
    and a: "if v = V0 then wf_atls as else as = []" "seg bytes o4 offset' (if v = V0 then enc_atls as else [])"
      "as \<noteq> [] \<longrightarrow> Suc o4 + 35 * length as \<le> length bytes"
  shows "wf_message m" "m_version m \<noteq> V1" "seg bytes offset offset' (enc_message m)" "lookups_fit m (length bytes - offset')"
    "o1 = offset + (if v = V0 then 4 else 3)" "o2 = o1 + 1 + 32 * length keys" "o3 = o2 + 32"
    "o4 = o3 + length (enc_instructions ixs)"
proof -
  have v: "v \<noteq> V1" using h(1) by (auto simp: wf_header_def)
  show wf: "wf_message m" using h(1) k b i(1) a(1) v by (simp add: wf_message_def m)
  show v': "m_version m \<noteq> V1" using v by (simp add: m)
  show pos: "o1 = offset + (if v = V0 then 4 else 3)" "o2 = o1 + 1 + 32 * length keys" "o3 = o2 + 32"
      "o4 = o3 + length (enc_instructions ixs)"
    using seg_end [OF h(2)] seg_end [OF k(4)] length_enc_keys [OF k(3)] seg_end [OF b(1)] b(2) seg_end [OF i(2)]
    by (simp_all add: length_enc_header enc_keys_def)
  have pos': "o1 = offset + (if m_version m = V0 then 4 else 3)" "o2 = o1 + 1 + 32 * length (m_account_keys m)"
      "o3 = o2 + 32" "o4 = o3 + length (enc_instructions (m_instructions m))"
    using pos by (simp_all add: m)
  show "seg bytes offset offset' (enc_message m)"
    unfolding legacy_or_v0_parts [OF v' wf pos']
    using h(2) k(4) b(1) i(2) a(2) by (simp add: m enc_keys_def split: if_splits)
  show "lookups_fit m (length bytes - offset')"
  proof (cases "as = []")
    case False
    then have "v = V0" using a(1) v by (cases v) auto
    with a(3) False seg_end [OF a(2)] show ?thesis by (simp add: m lookups_fit_def enc_atls_def)
  qed (simp add: m lookups_fit_def)
qed

lemma legacy_or_v0_message_sound:
  assumes ib: "in_buffer bytes offset"
    and ok: "legacy_or_v0_message bytes offset = (Ok f, offset')"
  obtains m where "wf_message m" "m_version m \<noteq> V1" "seg bytes offset offset' (enc_message m)"
    "offset' \<le> 65535" "lookups_fit m (length bytes - offset')" "f = message_frame_of offset m"
proof -
  from ok obtain h o1 k o2 rb o3 ix o4 atl e where
      r: "MessageHeaderFrame_try_new bytes offset = (Ok h, o1)"
      "StaticAccountKeysFrame_try_new bytes o1 = (Ok k, o2)" "checked_offset o2 = Ok rb"
      "advance_offset_for_type size_of_Hash bytes o2 = (Ok (), o3)"
      "try_new_for_legacy_and_v0 bytes o3 = (Ok ix, o4)"
      "(case mhf_version h of Legacy \<Rightarrow> p_return no_lookups_frame
          | V0 \<Rightarrow> AddressTableLookupFrame_try_new bytes | V1 \<Rightarrow> p_lift Panic) o4 = (Ok atl, offset')"
      "checked_offset offset' = Ok e"
      and f: "f = \<lparr>mf_message_header = h, mf_static_account_keys = k, mf_recent_blockhash_offset = rb,
        mf_instructions = ix, mf_address_table_lookup = atl,
        mf_transaction_config_frame = TransactionConfigFrame_not_applicable, mf_end_offset = e\<rparr>"
    by (auto simp: legacy_or_v0_message_def p_bind_Ok_iff)
  obtain v req ros rou where h: "wf_header v req" "seg bytes offset o1 (enc_header v req ros rou)"
      "h = header_frame_of offset v req ros rou"
    using MessageHeaderFrame_sound [OF ib r(1)] .
  note ib1 = in_buffer_seg [OF ib h(2)]
  obtain keys where k: "1 \<le> length keys" "length keys \<le> 38" "sized size_of_Pubkey keys"
      "seg bytes o1 o2 (of_nat (length keys) # concat keys)" "k = keys_frame_of o1 keys"
    using StaticAccountKeysFrame_sound [OF ib1 r(2)] .
  note ib2 = in_buffer_seg [OF ib1 k(4)]
  define bh where "bh = take 32 (drop o2 bytes)"
  from r(4) ib2 have o3: "o3 = o2 + 32" "o3 \<le> length bytes" by (simp_all add: advance_offset_for_type_Ok_iff)
  then have b: "seg bytes o2 o3 bh" "length bh = 32"
    using seg_take_drop [of o2 32 bytes] by (simp_all add: bh_def)
  note ib3 = in_buffer_seg [OF ib2 b(1)]
  obtain ixs where i: "wf_instructions ixs" "seg bytes o3 o4 (enc_instructions ixs)"
      "ix = instructions_frame_of o3 ixs"
    using instructions_sound [OF ib3 r(5)] .
  note ib4 = in_buffer_seg [OF ib3 i(2)]
  have v: "v \<noteq> V1" using h(1) by (auto simp: wf_header_def)
  have ver: "v = mhf_version h" using h(3) by (simp add: header_frame_of_def)
  obtain as where a: "if v = V0 then wf_atls as else as = []"
      "seg bytes o4 offset' (if v = V0 then enc_atls as else [])"
      "atl = (if v = V0 then atls_frame_of o4 as else no_lookups_frame)"
      "as \<noteq> [] \<longrightarrow> Suc o4 + 35 * length as \<le> length bytes"
    by (rule optional_lookups_sound [OF ib4 v, of atl offset']) (use r(6) ver in simp)
  define m where "m = \<lparr>m_version = v, m_num_required_signatures = req, m_num_readonly_signed = ros,
    m_num_readonly_unsigned = rou, m_account_keys = keys, m_recent_blockhash = bh,
    m_instructions = ixs, m_lookups = as, m_config = empty_config\<rparr>"
  note parts = legacy_or_v0_assemble [OF m_def h(1,2) k(1-4) b i(1,2) a(1,2,4)]
  have le: "offset' \<le> 65535" "e = of_nat offset'" "rb = of_nat o2"
    using r(3,7) by (simp_all add: checked_offset_Ok_iff)
  have "f = message_frame_of offset m"
    using v seg_end [OF parts(3)]
    by (simp add: f message_frame_of_def Let_def h(3) k(5) i(3) a(3) le(2,3) parts(5-8)) (simp add: m_def)
  then show thesis by (rule that [OF parts(1-3) le(1) parts(4)])
qed

lemma optional_lookups_complete:
  assumes ib: "in_buffer bytes atls" and wf: "wf_message m" and v: "m_version m \<noteq> V1"
    and sg: "seg bytes atls offset' (if m_version m = V0 then enc_atls (m_lookups m) else [])"
    and fit: "lookups_fit m (length bytes - offset')"
  shows "(case m_version m of Legacy \<Rightarrow> p_return no_lookups_frame
        | V0 \<Rightarrow> AddressTableLookupFrame_try_new bytes | V1 \<Rightarrow> p_lift Panic) atls
      = (Ok (if m_version m = V0 then atls_frame_of atls (m_lookups m) else no_lookups_frame), offset')"
proof (cases "m_version m")
  case V0
  with wf sg have a: "wf_atls (m_lookups m)" "seg bytes atls offset' (enc_atls (m_lookups m))"
    by (simp_all add: wf_message_def)
  have "Suc atls + 35 * length (m_lookups m) \<le> length bytes"
    using fit seg_end [OF a(2)] seg_bounds(2) [OF a(2)] by (simp add: lookups_fit_def enc_atls_def)
  with atls_complete [OF ib a] V0 show ?thesis by simp
qed (use sg v in \<open>simp_all add: p_return_def\<close>)

lemma legacy_or_v0_message_complete:
  assumes ib: "in_buffer bytes offset" and wf: "wf_message m" and v: "m_version m \<noteq> V1"
    and sg: "seg bytes offset offset' (enc_message m)" and le: "offset' \<le> 65535"
    and fit: "lookups_fit m (length bytes - offset')"
  shows "legacy_or_v0_message bytes offset = (Ok (message_frame_of offset m), offset')"
proof -
  define keys hash ixs atls where pos: "keys = offset + (if m_version m = V0 then 4 else 3)"
    "hash = keys + 1 + 32 * length (m_account_keys m)" "ixs = hash + 32"
    "atls = ixs + length (enc_instructions (m_instructions m))"
  from sg have s: "seg bytes offset keys (enc_header (m_version m) (m_num_required_signatures m)
      (m_num_readonly_signed m) (m_num_readonly_unsigned m))"
    "seg bytes keys hash (enc_keys (m_account_keys m))" "seg bytes hash ixs (m_recent_blockhash m)"
    "seg bytes ixs atls (enc_instructions (m_instructions m))"
    "seg bytes atls offset' (if m_version m = V0 then enc_atls (m_lookups m) else [])"
    unfolding legacy_or_v0_parts [OF v wf pos] by blast+
  have w: "length (m_recent_blockhash m) = 32" "sized size_of_Pubkey (m_account_keys m)"
      "wf_header (m_version m) (m_num_required_signatures m)" "1 \<le> length (m_account_keys m)"
      "length (m_account_keys m) \<le> 38" "wf_instructions (m_instructions m)"
    using wf v by (simp_all add: wf_message_def)
  note ib1 = in_buffer_seg [OF ib s(1)]
  note ib2 = in_buffer_seg [OF ib1 s(2)]
  note ib3 = in_buffer_seg [OF ib2 s(3)]
  note ib4 = in_buffer_seg [OF ib3 s(4)]
  have ord: "hash \<le> offset'"
    using seg_bounds(1) [OF s(3)] seg_bounds(1) [OF s(4)] seg_bounds(1) [OF s(5)] by simp
  have h: "advance_offset_for_type size_of_Hash bytes hash = (Ok (), ixs)"
    using advance_type_complete [OF ib2 _ s(3) w(1)] by simp
  note atl = optional_lookups_complete [OF ib4 wf v s(5) fit]
  have hd: "mhf_version (header_frame_of offset (m_version m) a b c) = m_version m" for a b c
    by (simp add: header_frame_of_def)
  note r = MessageHeaderFrame_complete [OF ib w(3) s(1)]
    StaticAccountKeysFrame_complete [OF ib1 w(4,5,2) s(2) [unfolded enc_keys_def]]
    instructions_complete [OF ib3 w(6) s(4)]
  have "legacy_or_v0_message bytes offset =
    (Ok \<lparr>mf_message_header = header_frame_of offset (m_version m) (m_num_required_signatures m)
           (m_num_readonly_signed m) (m_num_readonly_unsigned m),
         mf_static_account_keys = keys_frame_of keys (m_account_keys m),
         mf_recent_blockhash_offset = of_nat hash,
         mf_instructions = instructions_frame_of ixs (m_instructions m),
         mf_address_table_lookup =
           (if m_version m = V0 then atls_frame_of atls (m_lookups m) else no_lookups_frame),
         mf_transaction_config_frame = TransactionConfigFrame_not_applicable,
         mf_end_offset = of_nat offset'\<rparr>, offset')"
    unfolding legacy_or_v0_message_def
    using le ord by (simp add: p_bind_step r h hd atl comp_unfold u16_checked_offset)
  then show ?thesis
    using v seg_end [OF sg] by (simp add: message_frame_of_def Let_def pos)
qed

lemma legacy_or_v0_message_triple:
  "triple (in_buffer bytes) (legacy_or_v0_message bytes) (\<lambda>_. in_buffer bytes)"
proof -
  have hdr: "triple (in_buffer bytes) (MessageHeaderFrame_try_new bytes)
      (\<lambda>h offset. in_buffer bytes offset \<and> mhf_version h \<noteq> V1)"
  proof (rule tripleI)
    fix offset assume "in_buffer bytes offset"
    then show "no_fault (fst (MessageHeaderFrame_try_new bytes offset))"
      by (rule tripleD_no_fault [OF MessageHeaderFrame_triple])
  next
    fix offset h offset'
    assume ib: "in_buffer bytes offset" and "MessageHeaderFrame_try_new bytes offset = (Ok h, offset')"
    then obtain version req ros rou where "wf_header version req"
        "seg bytes offset offset' (enc_header version req ros rou)"
        "h = header_frame_of offset version req ros rou"
      by (rule MessageHeaderFrame_sound)
    with in_buffer_seg [OF ib] show "in_buffer bytes offset' \<and> mhf_version h \<noteq> V1"
      by (auto simp: header_frame_of_def wf_header_def)
  qed
  have atl: "triple (in_buffer bytes) (case v of Legacy \<Rightarrow> p_return no_lookups_frame
      | V0 \<Rightarrow> AddressTableLookupFrame_try_new bytes | V1 \<Rightarrow> p_lift Panic) (\<lambda>_. in_buffer bytes)"
    if "v \<noteq> V1" for v
    using that by (cases v) (auto intro: triple_return AddressTableLookupFrame_triple)
  have imp: "triple (\<lambda>offset. in_buffer bytes offset \<and> mhf_version h \<noteq> V1) (G h) (\<lambda>_. in_buffer bytes)"
    if "mhf_version h \<noteq> V1 \<Longrightarrow> triple (in_buffer bytes) (G h) (\<lambda>_. in_buffer bytes)"
    for h and G :: "MessageHeaderFrame \<Rightarrow> MessageFrame reader"
    using that by (auto simp: triple_def)
  show ?thesis
    unfolding legacy_or_v0_message_def
    by (intro triple_bind [OF hdr] imp triple_bind [OF StaticAccountKeysFrame_triple] triple_get_bind triple_guard
        triple_bind [OF advance_offset_for_type_triple] triple_bind [OF instructions_triple]
        triple_bind [OF atl] triple_return) simp_all
qed

section \<open>V1 messages\<close>

text \<open>The parser after the fixed prefix, as a function of the buffer.\<close>

definition v1_mask :: "bytes \<Rightarrow> u32" where
  "v1_mask bytes = of_nat (le_value (take 4 (drop 4 bytes)))"

definition v1_rest :: "bytes \<Rightarrow> MessageFrame reader" where
  "v1_rest bytes =
     p_bind (advance_offset_for_array size_of_Pubkey bytes (ucast (bytes ! 41))) (\<lambda>_.
     p_bind (TransactionConfigFrame_try_new bytes 4 (v1_mask bytes)) (\<lambda>transaction_config_frame.
     p_bind (try_new_for_v1 bytes (bytes ! 40)) (\<lambda>instructions.
     p_bind p_get (\<lambda>offset.
     p_bind (p_lift (checked_offset offset)) (\<lambda>end_offset.
     p_return
       \<lparr>mf_message_header = header_frame_of 0 V1 (bytes ! 1) (bytes ! 2) (bytes ! 3),
        mf_static_account_keys = \<lparr>skf_num_static_accounts = bytes ! 41, skf_offset = 42\<rparr>,
        mf_recent_blockhash_offset = 8,
        mf_instructions = instructions,
        mf_address_table_lookup = no_lookups_frame,
        mf_transaction_config_frame = transaction_config_frame,
        mf_end_offset = end_offset\<rparr>)))))"

lemma unchecked_read_byte_at:
  "valid_slice bytes \<Longrightarrow> i < length bytes \<Longrightarrow>
   unchecked_read_byte bytes i = (Ok (bytes ! i), Suc i)"
  by (rule unchecked_read_byte_Ok) (simp_all add: in_buffer_def)

lemma v1_message_unfold:
  assumes vs: "valid_slice bytes"
  shows "v1_message bytes 0 =
    (if length bytes < 42 then (Err ParseError, 0)
     else if bytes ! 0 \<noteq> V1_PREFIX then (Err ParseError, 1)
     else v1_rest bytes 42)"
proof (cases "length bytes < 42")
  case True
  have "in_buffer bytes 0" using vs by (simp add: in_buffer_def)
  with True show ?thesis
    by (simp add: v1_message_def p_bind_def comp_unfold check_remaining_iff FIXED_V1_PREFIX_LEN_def)
next
  case False
  have ib: "in_buffer bytes 0" using vs by (simp add: in_buffer_def)
  have c: "check_remaining bytes 0 FIXED_V1_PREFIX_LEN = Ok ()"
    using False ib by (simp add: check_remaining_iff FIXED_V1_PREFIX_LEN_def)
  have nth: "i < 42 \<Longrightarrow> unchecked_read_byte bytes i = (Ok (bytes ! i), Suc i)" for i
    using False by (intro unchecked_read_byte_at [OF vs]) simp
  have b: "unchecked_read_byte bytes 0 = (Ok (bytes ! 0), 1)"
      "unchecked_read_byte bytes 1 = (Ok (bytes ! 1), 2)"
      "unchecked_read_byte bytes 2 = (Ok (bytes ! 2), 3)"
      "unchecked_read_byte bytes 3 = (Ok (bytes ! 3), 4)"
      "unchecked_read_byte bytes 40 = (Ok (bytes ! 40), 41)"
      "unchecked_read_byte bytes 41 = (Ok (bytes ! 41), 42)"
    by (simp_all add: nth)
  have m: "unchecked_copy_value 4 bytes 4 = Ok (take 4 (drop 4 bytes))"
    using False by (simp add: unchecked_copy_value_def)
  show ?thesis
    unfolding v1_message_def Let_def
    using False
    by (simp add: p_bind_step p_bind_err comp_unfold c b m u16_checked_offset v1_mask_def v1_rest_def
        header_frame_of_def del: One_nat_def)
qed

lemma v1_prefix_seg:
  assumes len: "42 \<le> length bytes"
  shows "seg bytes 0 42 ([bytes ! 0, bytes ! 1, bytes ! 2, bytes ! 3] @ take 4 (drop 4 bytes)
           @ take 32 (drop 8 bytes) @ [bytes ! 40, bytes ! 41])"
proof (intro seg_appendI)
  show "seg bytes 0 4 [bytes ! 0, bytes ! 1, bytes ! 2, bytes ! 3]" "seg bytes 40 42 [bytes ! 40, bytes ! 41]"
    using len by (auto simp: seg_Cons numeral_eq_Suc)
  show "seg bytes 4 8 (take 4 (drop 4 bytes))" using len seg_take_drop [of 4 4 bytes] by simp
  show "seg bytes 8 40 (take 32 (drop 8 bytes))" using len seg_take_drop [of 8 32 bytes] by simp
qed

lemma v1_mask_bytes:
  assumes "42 \<le> length bytes"
  shows "le_bytes 4 (unat (v1_mask bytes)) = take 4 (drop 4 bytes)"
proof -
  let ?b = "take 4 (drop 4 bytes)"
  have l: "length ?b = 4" using assms by simp
  then have "le_value ?b < 2 ^ 32" using le_value_bound [of ?b] by simp
  then have "unat (v1_mask bytes) = le_value ?b" by (simp add: v1_mask_def unat_of_nat)
  then show ?thesis using le_bytes_le_value [of ?b] l by simp
qed

lemma length_enc_v1_prefix: "length (m_recent_blockhash m) = 32 \<Longrightarrow> length (enc_v1_prefix m) = 42"
  by (simp add: enc_v1_prefix_def)

text \<open>The boundaries between the parts of a v1 message at the start of the buffer.\<close>

lemma v1_parts:
  assumes v: "m_version m = V1" and wf: "wf_message m"
    and p: "values = 42 + 32 * length (m_account_keys m)"
      "ixs = values + length (config_values (m_config m))"
  shows "seg bytes 0 e (enc_message m) \<longleftrightarrow>
    seg bytes 0 42 (enc_v1_prefix m) \<and> seg bytes 42 values (concat (m_account_keys m))
    \<and> seg bytes values ixs (config_values (m_config m))
    \<and> seg bytes ixs e (enc_v1_instructions (m_instructions m))"
proof -
  have l: "length (enc_v1_prefix m) = 42" "length (concat (m_account_keys m)) = 32 * length (m_account_keys m)"
    using wf length_concat_sized [of "m_account_keys m" 32]
    by (simp_all add: wf_message_def length_enc_v1_prefix sized_def)
  then show ?thesis
    using v by (simp add: enc_message_def seg_append p)
qed

lemma v1_message_sound:
  assumes vs: "valid_slice bytes" and ok: "v1_message bytes 0 = (Ok f, offset')"
  obtains m where "wf_message m" "m_version m = V1" "seg bytes 0 offset' (enc_message m)"
    "offset' \<le> 65535" "f = message_frame_of 0 m"
proof -
  have len: "42 \<le> length bytes" and b0: "bytes ! 0 = V1_PREFIX" and rest: "v1_rest bytes 42 = (Ok f, offset')"
    using ok by (simp_all add: v1_message_unfold [OF vs] split: if_splits)
  have ib: "in_buffer bytes 42" using vs len by (simp add: in_buffer_def)
  from rest obtain o1 cf o2 ixf e where
      r: "advance_offset_for_array size_of_Pubkey bytes (ucast (bytes ! 41)) 42 = (Ok (), o1)"
      "TransactionConfigFrame_try_new bytes 4 (v1_mask bytes) o1 = (Ok cf, o2)"
      "try_new_for_v1 bytes (bytes ! 40) o2 = (Ok ixf, offset')" "checked_offset offset' = Ok e"
      and f: "f = \<lparr>mf_message_header = header_frame_of 0 V1 (bytes ! 1) (bytes ! 2) (bytes ! 3),
        mf_static_account_keys = \<lparr>skf_num_static_accounts = bytes ! 41, skf_offset = 42\<rparr>,
        mf_recent_blockhash_offset = 8, mf_instructions = ixf,
        mf_address_table_lookup = no_lookups_frame, mf_transaction_config_frame = cf,
        mf_end_offset = e\<rparr>"
    by (auto simp: v1_rest_def p_bind_Ok_iff)
  obtain keys where k: "length keys = unat (bytes ! 41)" "sized size_of_Pubkey keys"
      "seg bytes 42 o1 (concat keys)"
    using advance_array_sound [OF ib _ r(1)] by auto
  note ib1 = in_buffer_seg [OF ib k(3)]
  obtain c where c: "v1_mask bytes = config_mask c" "seg bytes o1 o2 (config_values c)"
      "cf = config_frame_of 4 c o1"
    by (rule TransactionConfigFrame_sound [OF ib1 r(2)])
  note ib2 = in_buffer_seg [OF ib1 c(2)]
  obtain ixs where i: "wf_v1_instructions ixs" "length ixs = unat (bytes ! 40)"
      "seg bytes o2 offset' (enc_v1_instructions ixs)" "ixf = v1_instructions_frame_of o2 ixs"
    by (rule v1_instructions_sound [OF ib2 r(3)])
  define m where "m = \<lparr>m_version = V1, m_num_required_signatures = bytes ! 1,
    m_num_readonly_signed = bytes ! 2, m_num_readonly_unsigned = bytes ! 3, m_account_keys = keys,
    m_recent_blockhash = take 32 (drop 8 bytes), m_instructions = ixs, m_lookups = [], m_config = c\<rparr>"
  have wf: "wf_message m" using len k i by (simp add: wf_message_def m_def)
  have v: "m_version m = V1" by (simp add: m_def)
  have pos: "o1 = 42 + 32 * length (m_account_keys m)" "o2 = o1 + length (config_values (m_config m))"
    using seg_end [OF k(3)] seg_end [OF c(2)] length_concat_sized [of keys 32] k(2)
    by (simp_all add: m_def sized_def)
  have "enc_v1_prefix m = [bytes ! 0, bytes ! 1, bytes ! 2, bytes ! 3] @ take 4 (drop 4 bytes)
           @ take 32 (drop 8 bytes) @ [bytes ! 40, bytes ! 41]"
    using v1_mask_bytes [OF len] b0 k(1) i(2) c(1) by (simp add: enc_v1_prefix_def m_def)
  then have sg: "seg bytes 0 offset' (enc_message m)"
    unfolding v1_parts [OF v wf pos]
    using v1_prefix_seg [OF len] k(3) c(2) i(3) by (simp add: m_def)
  have e: "offset' \<le> 65535" "e = of_nat offset'" using r(4) by (simp_all add: checked_offset_Ok_iff)
  show thesis
  proof (rule that [OF wf v sg e(1)])
    have "of_nat (length keys) = bytes ! 41" using k(1) by simp
    then show "f = message_frame_of 0 m"
      using f c(3) i(4) e(2) seg_end [OF sg] pos
      by (simp add: message_frame_of_def Let_def v) (simp add: m_def add.commute)
  qed
qed

lemma v1_message_complete:
  assumes vs: "valid_slice bytes" and wf: "wf_message m" and v: "m_version m = V1"
    and sg: "seg bytes 0 offset' (enc_message m)" and le: "offset' \<le> 65535"
  shows "v1_message bytes 0 = (Ok (message_frame_of 0 m), offset')"
proof -
  define o1 o2 where pos: "o1 = 42 + 32 * length (m_account_keys m)"
    "o2 = o1 + length (config_values (m_config m))"
  from sg have s: "seg bytes 0 42 (enc_v1_prefix m)" "seg bytes 42 o1 (concat (m_account_keys m))"
    "seg bytes o1 o2 (config_values (m_config m))"
    "seg bytes o2 offset' (enc_v1_instructions (m_instructions m))"
    unfolding v1_parts [OF v wf pos] by blast+
  have w: "length (m_account_keys m) < 256" "sized size_of_Pubkey (m_account_keys m)"
    "wf_v1_instructions (m_instructions m)" "length (m_recent_blockhash m) = 32"
    using wf v by (simp_all add: wf_message_def)
  have len: "42 \<le> length bytes" using seg_bounds(2) [OF s(1)] .
  from seg_unique [OF s(1) v1_prefix_seg [OF len]]
  have p: "bytes ! 0 = V1_PREFIX" "bytes ! 1 = m_num_required_signatures m"
      "bytes ! 2 = m_num_readonly_signed m" "bytes ! 3 = m_num_readonly_unsigned m"
      "le_bytes 4 (unat (config_mask (m_config m))) = take 4 (drop 4 bytes)"
      "bytes ! 40 = of_nat (length (m_instructions m))" "bytes ! 41 = of_nat (length (m_account_keys m))"
    using w(4) len by (simp_all add: enc_v1_prefix_def append_eq_append_conv)
  have msk: "v1_mask bytes = config_mask (m_config m)"
    unfolding v1_mask_def p(5) [symmetric] by (rule le_value_enc) simp
  have ib: "in_buffer bytes 42" using vs len by (simp add: in_buffer_def)
  note ib1 = in_buffer_seg [OF ib s(2)]
  note ib2 = in_buffer_seg [OF ib1 s(3)]
  have uk: "length (m_account_keys m) = unat (ucast (bytes ! 41) :: u16)"
    using w(1) by (simp add: p(7) unat_of_nat_u8)
  have ui: "length (m_instructions m) = unat (bytes ! 40)"
    using w(3) by (simp add: p(6) unat_of_nat_u8 wf_v1_instructions_def)
  have o1: "o1 \<le> 65535" using seg_bounds(1) [OF s(3)] seg_bounds(1) [OF s(4)] le by simp
  note r = advance_sized_complete [OF ib s(2) w(2) _ uk]
    TransactionConfigFrame_complete [OF ib1 _ _ o1 s(3), where mask_offset = 4]
    v1_instructions_complete [OF ib2 w(3) ui s(4)]
  have "v1_rest bytes 42 =
    (Ok \<lparr>mf_message_header = header_frame_of 0 V1 (bytes ! 1) (bytes ! 2) (bytes ! 3),
        mf_static_account_keys = \<lparr>skf_num_static_accounts = bytes ! 41, skf_offset = 42\<rparr>,
        mf_recent_blockhash_offset = 8, mf_instructions = v1_instructions_frame_of o2 (m_instructions m),
        mf_address_table_lookup = no_lookups_frame,
        mf_transaction_config_frame = config_frame_of 4 (m_config m) o1,
        mf_end_offset = of_nat offset'\<rparr>, offset')"
    unfolding v1_rest_def msk using le by (simp add: p_bind_step r comp_unfold u16_checked_offset)
  also have "\<dots> = (Ok (message_frame_of 0 m), offset')"
    using seg_end [OF sg] by (simp add: message_frame_of_def Let_def v pos p add.commute del: One_nat_def)
  finally have "v1_rest bytes 42 = (Ok (message_frame_of 0 m), offset')" .
  then show ?thesis using len p(1) by (simp add: v1_message_unfold [OF vs])
qed

lemma v1_message_no_fault:
  assumes vs: "valid_slice bytes"
  shows "no_fault (fst (v1_message bytes 0))"
proof (cases "length bytes < 42")
  case False
  then have ib: "in_buffer bytes 42" using vs by (simp add: in_buffer_def)
  have "triple (in_buffer bytes) (v1_rest bytes) (\<lambda>_. in_buffer bytes)"
    unfolding v1_rest_def
    by (intro triple_bind [OF advance_offset_for_array_triple] triple_bind [OF TransactionConfigFrame_triple]
        triple_bind [OF v1_instructions_triple] triple_get_bind triple_guard triple_return) simp_all
  then have "no_fault (fst (v1_rest bytes 42))" using ib by (rule tripleD_no_fault)
  then show ?thesis by (simp add: v1_message_unfold [OF vs])
qed (simp add: v1_message_unfold [OF vs])

section \<open>Whole messages\<close>

lemma V1_lookups_fit: "wf_message m \<Longrightarrow> m_version m = V1 \<Longrightarrow> lookups_fit m n"
  by (simp add: wf_message_def lookups_fit_def)

lemma enc_message_first:
  assumes "wf_message m"
  obtains b rest where "enc_message m = b # rest" "b = V1_PREFIX \<longleftrightarrow> m_version m = V1"
proof (cases "m_version m")
  case Legacy
  then have u: "unat (m_num_required_signatures m) < 128"
    using assms by (auto simp: wf_message_def wf_header_def)
  have "m_num_required_signatures m \<noteq> 0x81"
  proof
    assume "m_num_required_signatures m = 0x81"
    with u show False by simp
  qed
  with Legacy show ?thesis by (intro that) (auto simp: enc_message_def enc_header_def)
next
  case V0
  then show ?thesis by (intro that) (auto simp: enc_message_def enc_header_def)
next
  case V1
  then show ?thesis by (intro that) (auto simp: enc_message_def enc_v1_prefix_def)
qed

lemma first_byte_version:
  assumes "wf_message m" "seg bytes 0 n (enc_message m)"
  shows "slice_get bytes 0 = Some V1_PREFIX \<longleftrightarrow> m_version m = V1"
proof -
  obtain b rest where "enc_message m = b # rest" "b = V1_PREFIX \<longleftrightarrow> m_version m = V1"
    using enc_message_first [OF assms(1)] .
  with assms(2) show ?thesis by (auto simp: seg_Cons slice_get_def)
qed

lemma message_fills_buffer:
  assumes "wf_message m" "seg bytes 0 e (enc_message m)" "e \<le> 65535" "unat (mf_end_offset (message_frame_of 0 m)) = length bytes"
  shows "e = length bytes" "enc_message m = bytes"
proof -
  have "mf_end_offset (message_frame_of 0 m) = of_nat e"
    using seg_end [OF assms(2)] by (simp add: message_frame_of_def Let_def)
  with assms(3,4) show e: "e = length bytes" by (simp add: unat_of_nat_u16)
  with assms(2) show "enc_message m = bytes" by simp
qed

lemma MessageFrame_try_new_sound:
  assumes vs: "valid_slice bytes" and ok: "MessageFrame_try_new bytes = Ok f"
  shows "\<exists>m. wf_message m \<and> enc_message m = bytes \<and> length bytes \<le> 65535 \<and> lookups_fit m 0 \<and> f = message_frame_of 0 m"
proof -
  have ib: "in_buffer bytes 0" using vs by (simp add: in_buffer_def)
  from ok consider "fst (v1_message bytes 0) = Ok f" "unat (mf_end_offset f) = length bytes"
    | "fst (legacy_or_v0_message bytes 0) = Ok f" "unat (mf_end_offset f) = length bytes"
    by (auto simp: MessageFrame_try_new_def r_bind_Ok_iff MessageFrame_try_new_as_v1_def
        MessageFrame_try_new_as_legacy_or_v0_def split: if_splits)
  then obtain m e where "wf_message m" "seg bytes 0 e (enc_message m)" "e \<le> 65535" "lookups_fit m (length bytes - e)"
    "f = message_frame_of 0 m" "unat (mf_end_offset f) = length bytes"
  proof cases
    case 1
    then obtain e where "v1_message bytes 0 = (Ok f, e)" by (metis prod.collapse)
    then show thesis using 1(2) that V1_lookups_fit by (elim v1_message_sound [OF vs]) blast
  next
    case 2
    then obtain e where "legacy_or_v0_message bytes 0 = (Ok f, e)" by (metis prod.collapse)
    then show thesis using 2(2) that by (elim legacy_or_v0_message_sound [OF ib]) blast
  qed
  with message_fills_buffer [of m bytes e] show ?thesis by (intro exI [of _ m]) auto
qed

lemma MessageFrame_try_new_complete:
  assumes vs: "valid_slice bytes" and m: "wf_message m" "enc_message m = bytes" "length bytes \<le> 65535" "lookups_fit m 0"
  shows "MessageFrame_try_new bytes = Ok (message_frame_of 0 m)"
proof -
  have ib: "in_buffer bytes 0" using vs by (simp add: in_buffer_def)
  have sg: "seg bytes 0 (length bytes) (enc_message m)" using m(2) by simp
  have "mf_end_offset (message_frame_of 0 m) = of_nat (length bytes)" using m(2) by (simp add: message_frame_of_def Let_def)
  then have e: "unat (mf_end_offset (message_frame_of 0 m)) = length bytes" using m(3) by (simp add: unat_of_nat_u16)
  show ?thesis
  proof (cases "m_version m = V1")
    case True
    then show ?thesis
      using first_byte_version [OF m(1) sg] v1_message_complete [OF vs m(1) True sg m(3)] e
      by (simp add: MessageFrame_try_new_def MessageFrame_try_new_as_v1_def)
  next
    case False
    then show ?thesis
      using first_byte_version [OF m(1) sg] m(3,4) e legacy_or_v0_message_complete [OF ib m(1) False sg]
      by (simp add: MessageFrame_try_new_def MessageFrame_try_new_as_legacy_or_v0_def)
  qed
qed

lemma MessageFrame_try_new_iff:
  assumes vs: "valid_slice bytes"
  shows "MessageFrame_try_new bytes = Ok f \<longleftrightarrow>
    (\<exists>m. wf_message m \<and> enc_message m = bytes \<and> length bytes \<le> 65535 \<and> lookups_fit m 0
         \<and> f = message_frame_of 0 m)"
  using MessageFrame_try_new_sound [OF vs] MessageFrame_try_new_complete [OF vs] by blast

lemma MessageFrame_try_new_no_fault:
  assumes vs: "valid_slice bytes"
  shows "no_fault (MessageFrame_try_new bytes)"
proof -
  have "in_buffer bytes 0" using vs by (simp add: in_buffer_def)
  then have "no_fault (fst (legacy_or_v0_message bytes 0))"
    by (rule tripleD_no_fault [OF legacy_or_v0_message_triple])
  then show ?thesis
    using v1_message_no_fault [OF vs]
    by (auto simp: MessageFrame_try_new_def MessageFrame_try_new_as_v1_def
        MessageFrame_try_new_as_legacy_or_v0_def intro!: no_fault_r_bind)
qed

section \<open>Accessors of a parsed frame\<close>

text \<open>The frame was parsed from a message \<open>m\<close> that lies in the buffer.\<close>

definition frame_describes :: "MessageFrame \<Rightarrow> bytes \<Rightarrow> message \<Rightarrow> bool" where
  "frame_describes f bytes m \<longleftrightarrow>
     (\<exists>offset e. in_buffer bytes offset \<and> wf_message m \<and> seg bytes offset e (enc_message m)
       \<and> e \<le> 65535 \<and> f = message_frame_of offset m \<and> (m_version m = V1 \<longrightarrow> offset = 0))"

lemma describes_wf: "frame_describes f bytes m \<Longrightarrow> wf_message m"
  by (auto simp: frame_describes_def)

lemma describes_header:
  assumes "frame_describes f bytes m"
  shows "mf_version f = m_version m"
    and "mf_num_required_signatures f = m_num_required_signatures m"
    and "mf_num_readonly_signed_static_accounts f = m_num_readonly_signed m"
    and "mf_num_readonly_unsigned_static_accounts f = m_num_readonly_unsigned m"
  using assms
  by (auto simp: frame_describes_def message_frame_of_def Let_def header_frame_of_def mf_version_def
      mf_num_required_signatures_def mf_num_readonly_signed_static_accounts_def
      mf_num_readonly_unsigned_static_accounts_def)

lemma wf_keys_length: "wf_message m \<Longrightarrow> length (m_account_keys m) < 256"
  by (auto simp: wf_message_def split: if_splits)

lemma wf_instructions_length: "wf_message m \<Longrightarrow> length (m_instructions m) < 65536"
  by (auto simp: wf_message_def wf_instructions_def wf_v1_instructions_def split: if_splits)

lemma wf_lookups_bounds:
  "wf_message m \<Longrightarrow> length (m_lookups m) < 256 \<and> total_writable (m_lookups m) < 65536
     \<and> total_readonly (m_lookups m) < 65536"
  by (auto simp: wf_message_def wf_atls_def total_writable_def total_readonly_def split: if_splits)

lemma describes_counts:
  assumes "frame_describes f bytes m"
  shows "unat (mf_num_static_account_keys f) = length (m_account_keys m)"
    and "unat (mf_num_instructions f) = length (m_instructions m)"
    and "unat (mf_num_address_table_lookups f) = length (m_lookups m)"
    and "unat (mf_total_writable_lookup_accounts f) = total_writable (m_lookups m)"
    and "unat (mf_total_readonly_lookup_accounts f) = total_readonly (m_lookups m)"
proof -
  from assms obtain offset where f: "f = message_frame_of offset m" and wf: "wf_message m"
    by (auto simp: frame_describes_def)
  note b = wf_keys_length [OF wf] wf_instructions_length [OF wf] wf_lookups_bounds [OF wf]
  have emp: "m_version m \<noteq> V0 \<Longrightarrow> m_lookups m = []"
    using wf by (cases "m_version m") (auto simp: wf_message_def)
  show "unat (mf_num_static_account_keys f) = length (m_account_keys m)"
    using b(1) by (simp add: f message_frame_of_def Let_def mf_num_static_account_keys_def
        keys_frame_of_def unat_of_nat_u8)
  show "unat (mf_num_instructions f) = length (m_instructions m)"
    using b(2) by (simp add: f message_frame_of_def Let_def mf_num_instructions_def
        InstructionsFrame_num_instructions_def instructions_frame_of_def v1_instructions_frame_of_def
        unat_of_nat_u16)
  show "unat (mf_num_address_table_lookups f) = length (m_lookups m)"
    "unat (mf_total_writable_lookup_accounts f) = total_writable (m_lookups m)"
    "unat (mf_total_readonly_lookup_accounts f) = total_readonly (m_lookups m)"
    using b(3) emp
    by (auto simp: f message_frame_of_def Let_def atls_frame_of_def no_lookups_frame_def
        mf_num_address_table_lookups_def mf_total_writable_lookup_accounts_def
        mf_total_readonly_lookup_accounts_def total_writable_def total_readonly_def
        unat_of_nat_u8 unat_of_nat_u16)
qed

lemma from_raw_parts_at:
  assumes "seg bytes i j (concat xs)" "sized sz xs" "n = length xs" "j \<le> 65535"
  shows "r_bind (ptr_add bytes (unat (of_nat i :: u16))) (\<lambda>ptr. from_raw_parts sz bytes ptr n) = Ok xs"
proof -
  have "unat (of_nat i :: u16) = i" "i \<le> length bytes"
    using seg_bounds [OF assms(1)] assms(4) by (simp_all add: unat_of_nat_u16)
  then show ?thesis
    using from_raw_parts_seg [OF assms(1)] assms(2,3) by (simp add: ptr_add_def sized_def)
qed

lemma from_raw_parts_u8_at:
  assumes "seg bytes i j xs" "n = length xs" "j \<le> 65535"
  shows "r_bind (ptr_add bytes (unat (of_nat i :: u16))) (\<lambda>ptr. from_raw_parts_u8 bytes ptr n) = Ok xs"
proof -
  have "unat (of_nat i :: u16) = i" "i \<le> length bytes"
    using seg_bounds [OF assms(1)] assms(3) by (simp_all add: unat_of_nat_u16)
  then show ?thesis
    using from_raw_parts_u8_seg [OF assms(1)] assms(2) by (simp add: ptr_add_def)
qed

lemma describes_data_v1:
  assumes v: "m_version m = V1" and wf: "wf_message m" and sg: "seg bytes 0 e (enc_message m)"
    and e: "e \<le> 65535" and vs: "valid_slice bytes"
  shows "mf_static_account_keys_slice (message_frame_of 0 m) bytes = Ok (m_account_keys m)"
    and "mf_recent_blockhash (message_frame_of 0 m) bytes = Ok (m_recent_blockhash m)"
    and "instructions_remaining (mf_instructions_iter (message_frame_of 0 m) bytes) (m_instructions m)"
    and "config_view_for \<lparr>tcv_frame = mf_transaction_config_frame (message_frame_of 0 m),
           tcv_bytes = bytes\<rparr> (m_config m)"
proof -
  define o1 o2 where pos: "o1 = 42 + 32 * length (m_account_keys m)"
    "o2 = o1 + length (config_values (m_config m))"
  from sg have s: "seg bytes 0 42 (enc_v1_prefix m)" "seg bytes 42 o1 (concat (m_account_keys m))"
    "seg bytes o1 o2 (config_values (m_config m))"
    "seg bytes o2 e (enc_v1_instructions (m_instructions m))"
    unfolding v1_parts [OF v wf pos] by blast+
  have o: "o1 \<le> 65535" using seg_bounds(1) [OF s(3)] seg_bounds(1) [OF s(4)] e by simp
  have w: "sized size_of_Pubkey (m_account_keys m)" "length (m_recent_blockhash m) = 32"
      "wf_v1_instructions (m_instructions m)" "length (m_account_keys m) < 256"
    using wf v by (simp_all add: wf_message_def)
  have u: "length (m_account_keys m) = unat (of_nat (length (m_account_keys m)) :: u8)"
    using w(4) by (simp add: unat_of_nat_u8)
  have ib2: "in_buffer bytes o2" using vs seg_bounds(2) [OF s(3)] by (simp add: in_buffer_def)
  have bh: "seg bytes 8 40 (m_recent_blockhash m)"
    using s(1) w(2) by (simp add: enc_v1_prefix_def seg_append seg_Cons)
  show "mf_static_account_keys_slice (message_frame_of 0 m) bytes = Ok (m_account_keys m)"
    using from_raw_parts_at [OF s(2) w(1) u [symmetric] o] v
    by (simp add: mf_static_account_keys_slice_def message_frame_of_def Let_def)
  show "mf_recent_blockhash (message_frame_of 0 m) bytes = Ok (m_recent_blockhash m)"
    using from_raw_parts_u8_at [OF bh w(2) [symmetric]] v
    by (simp add: mf_recent_blockhash_def message_frame_of_def Let_def)
  show "instructions_remaining (mf_instructions_iter (message_frame_of 0 m) bytes) (m_instructions m)"
    using v1_instructions_frame_iter [OF ib2 w(3) e s(4)] v
    by (simp add: mf_instructions_iter_def message_frame_of_def Let_def pos)
  show "config_view_for \<lparr>tcv_frame = mf_transaction_config_frame (message_frame_of 0 m),
      tcv_bytes = bytes\<rparr> (m_config m)"
    unfolding config_view_for_def
    by (rule exI [of _ 4], rule exI [of _ o1], rule exI [of _ o2])
      (use o s(3) v in \<open>simp add: message_frame_of_def Let_def pos\<close>)
qed

lemma describes_data_legacy:
  assumes v: "m_version m \<noteq> V1" and wf: "wf_message m" and sg: "seg bytes offset e (enc_message m)"
    and e: "e \<le> 65535" and vs: "valid_slice bytes"
  shows "mf_static_account_keys_slice (message_frame_of offset m) bytes = Ok (m_account_keys m)"
    and "mf_recent_blockhash (message_frame_of offset m) bytes = Ok (m_recent_blockhash m)"
    and "instructions_remaining (mf_instructions_iter (message_frame_of offset m) bytes) (m_instructions m)"
    and "m_version m = V0 \<Longrightarrow>
      lookups_remaining (mf_address_table_lookup_iter (message_frame_of offset m) bytes) (m_lookups m)"
proof -
  define keys hash ixs atls where pos: "keys = offset + (if m_version m = V0 then 4 else 3)"
    "hash = keys + 1 + 32 * length (m_account_keys m)" "ixs = hash + 32"
    "atls = ixs + length (enc_instructions (m_instructions m))"
  from sg have s: "seg bytes keys hash (enc_keys (m_account_keys m))"
    "seg bytes hash ixs (m_recent_blockhash m)"
    "seg bytes ixs atls (enc_instructions (m_instructions m))"
    "seg bytes atls e (if m_version m = V0 then enc_atls (m_lookups m) else [])"
    unfolding legacy_or_v0_parts [OF v wf pos] by blast+
  have w: "sized size_of_Pubkey (m_account_keys m)" "length (m_recent_blockhash m) = 32"
      "wf_instructions (m_instructions m)"
    using wf v by (simp_all add: wf_message_def)
  have u: "length (m_account_keys m) = unat (of_nat (length (m_account_keys m)) :: u8)"
    using wf_keys_length [OF wf] by (simp add: unat_of_nat_u8)
  have o: "atls \<le> 65535" "ixs \<le> 65535" "hash \<le> 65535"
    using seg_bounds(1) [OF s(2)] seg_bounds(1) [OF s(3)] seg_bounds(1) [OF s(4)] e by simp_all
  have ib: "in_buffer bytes ixs" "in_buffer bytes atls"
    using vs seg_bounds(2) [OF s(2)] seg_bounds(2) [OF s(3)] by (simp_all add: in_buffer_def)
  have k: "seg bytes (Suc keys) hash (concat (m_account_keys m))"
    using s(1) by (simp add: enc_keys_def seg_Cons)
  show "mf_static_account_keys_slice (message_frame_of offset m) bytes = Ok (m_account_keys m)"
    using from_raw_parts_at [OF k w(1) u [symmetric] o(3)] v
    by (simp add: mf_static_account_keys_slice_def message_frame_of_def Let_def keys_frame_of_def pos)
  show "mf_recent_blockhash (message_frame_of offset m) bytes = Ok (m_recent_blockhash m)"
    using from_raw_parts_u8_at [OF s(2) w(2) [symmetric] o(2)] v
    by (simp add: mf_recent_blockhash_def message_frame_of_def Let_def pos)
  show "instructions_remaining (mf_instructions_iter (message_frame_of offset m) bytes) (m_instructions m)"
    using instructions_frame_iter [OF ib(1) w(3) o(1) s(3)] v
    by (cases "m_version m = V0") (simp_all add: mf_instructions_iter_def message_frame_of_def Let_def pos)
  show "lookups_remaining (mf_address_table_lookup_iter (message_frame_of offset m) bytes) (m_lookups m)"
    if v0: "m_version m = V0"
  proof -
    have wa: "wf_atls (m_lookups m)" and sa: "seg bytes atls e (enc_atls (m_lookups m))"
      using wf v0 s(4) by (simp_all add: wf_message_def)
    then have sa': "seg bytes (Suc atls) e (concat (map enc_atl (m_lookups m)))"
      by (simp add: enc_atls_def seg_Cons)
    have "unat (of_nat (Suc atls) :: u16) = Suc atls"
      using seg_bounds(1) [OF sa'] e by (intro unat_of_nat_u16) simp
    moreover have "in_buffer bytes (Suc atls)"
      using vs seg_bounds [OF sa'] by (simp add: in_buffer_def)
    moreover have "unat (of_nat (length (m_lookups m)) :: u8) = length (m_lookups m)"
      using wa by (intro unat_of_nat_u8) (simp add: wf_atls_def)
    ultimately show ?thesis
      using wa sa' v0
      by (auto simp: lookups_remaining_def mf_address_table_lookup_iter_def message_frame_of_def Let_def
          atls_frame_of_def wf_atls_def pos simp del: of_nat_Suc)
  qed
qed

lemma describes_data:
  assumes "frame_describes f bytes m"
  shows "mf_static_account_keys_slice f bytes = Ok (m_account_keys m)"
    and "mf_recent_blockhash f bytes = Ok (m_recent_blockhash m)"
    and "instructions_remaining (mf_instructions_iter f bytes) (m_instructions m)"
    and "lookups_remaining (mf_address_table_lookup_iter f bytes) (m_lookups m)"
    and "m_version m = V1 \<Longrightarrow> config_view_for
      \<lparr>tcv_frame = mf_transaction_config_frame f, tcv_bytes = bytes\<rparr> (m_config m)"
    and "m_version m \<noteq> V1 \<Longrightarrow> \<not> TransactionConfigFrame_is_present (mf_transaction_config_frame f)"
proof -
  from assms obtain offset e where d: "in_buffer bytes offset" "wf_message m"
      "seg bytes offset e (enc_message m)" "e \<le> 65535" and f: "f = message_frame_of offset m"
      and z: "m_version m = V1 \<longrightarrow> offset = 0"
    by (auto simp: frame_describes_def)
  have vs: "valid_slice bytes" using d(1) by (simp add: in_buffer_def)
  show "mf_static_account_keys_slice f bytes = Ok (m_account_keys m)"
    "mf_recent_blockhash f bytes = Ok (m_recent_blockhash m)"
    "instructions_remaining (mf_instructions_iter f bytes) (m_instructions m)"
    using describes_data_v1(1-3) [OF _ d(2) _ d(4) vs] describes_data_legacy(1-3) [OF _ d(2-4) vs] d(3) z
    unfolding f by (cases "m_version m = V1"; auto)+
  show "lookups_remaining (mf_address_table_lookup_iter f bytes) (m_lookups m)"
  proof (cases "m_version m = V0")
    case True
    with describes_data_legacy(4) [OF _ d(2-4) vs] show ?thesis unfolding f by simp
  next
    case False
    then have "m_lookups m = []" "mf_address_table_lookup f = no_lookups_frame"
      using d(2) unfolding f by (cases "m_version m"; simp add: wf_message_def message_frame_of_def Let_def)+
    then show ?thesis
      using vs by (simp add: lookups_remaining_def mf_address_table_lookup_iter_def no_lookups_frame_def
          in_buffer_def)
  qed
  show "config_view_for \<lparr>tcv_frame = mf_transaction_config_frame f, tcv_bytes = bytes\<rparr> (m_config m)"
    if "m_version m = V1"
    using describes_data_v1(4) [OF that d(2) _ d(4) vs] d(3) z that unfolding f by simp
  show "\<not> TransactionConfigFrame_is_present (mf_transaction_config_frame f)" if "m_version m \<noteq> V1"
    using that unfolding f by (simp add: message_frame_of_def Let_def
        TransactionConfigFrame_not_applicable_def TransactionConfigFrame_is_present_def)
qed

lemma describes_range:
  assumes "frame_describes f bytes m"
  obtains i j where "mf_message_range f = (i, j)" "seg bytes (unat i) (unat j) (enc_message m)"
    "unat j = unat (mf_end_offset f)"
proof -
  from assms obtain offset e where d: "seg bytes offset e (enc_message m)" "e \<le> 65535"
      and f: "f = message_frame_of offset m"
    by (auto simp: frame_describes_def)
  have "mf_message_range f = (of_nat offset, of_nat e)" "mf_end_offset f = of_nat e"
    using seg_end [OF d(1)] unfolding f
    by (simp_all add: mf_message_range_def message_frame_of_def Let_def header_frame_of_def)
  moreover have "unat (of_nat offset :: u16) = offset" "unat (of_nat e :: u16) = e"
    using seg_bounds(1) [OF d(1)] d(2) by (simp_all add: unat_of_nat_u16)
  ultimately show thesis using d(1) by (intro that [of "of_nat offset" "of_nat e"]) simp_all
qed

end
