(* ===== verification/Transaction_Frame.thy ===== *)
theory Transaction_Frame
  imports Message_Frame
begin

unbundle bit_operations_syntax

text \<open>
  \<open>transaction_frame.rs\<close>: the parser of a whole transaction. Legacy and v0 transactions start with
  the signatures, v1 transactions end with them. \<open>enc_transaction\<close> is the wire format of the record
  \<open>transaction\<close>; the lemmas relate the parser to it in both directions, for a buffer that is
  exactly one transaction (\<open>try_new\<close>) and for one that may have trailing bytes
  (\<open>try_new_from_prefix\<close>).
\<close>

section \<open>The frame and its parser\<close>

record TransactionFrame =
  tf_signature :: SignatureFrame
  tf_message :: MessageFrame
  tf_data_len :: u16

definition is_legacy_or_v0 :: "bytes \<Rightarrow> bool tv_result" where
  "is_legacy_or_v0 bytes =
     (case slice_get bytes 0 of
        None \<Rightarrow> Err ParseError
      | Some first_byte \<Rightarrow> Ok (first_byte AND MESSAGE_VERSION_PREFIX = 0))"

definition TransactionFrame_try_new_as_legacy_or_v0 :: "bytes \<Rightarrow> TransactionFrame tv_result" where
  "TransactionFrame_try_new_as_legacy_or_v0 bytes =
     (case SignatureFrame_try_new bytes 0 of
        (r, offset) \<Rightarrow>
          r_bind r (\<lambda>signature.
          r_bind (MessageFrame_try_new_as_legacy_or_v0 bytes offset) (\<lambda>message.
          Ok \<lparr>tf_signature = signature, tf_message = message, tf_data_len = mf_end_offset message\<rparr>)))"

definition TransactionFrame_try_new_as_v1 :: "bytes \<Rightarrow> TransactionFrame tv_result" where
  "TransactionFrame_try_new_as_v1 bytes =
     r_bind (MessageFrame_try_new_as_v1 bytes) (\<lambda>message.
     let num_signatures = mf_num_required_signatures message;
         offset = unat (mf_end_offset message) in
     case advance_offset_for_array size_of_Signature bytes (ucast num_signatures) offset of
       (r, offset) \<Rightarrow>
         r_bind r (\<lambda>_.
         r_bind (checked_offset offset) (\<lambda>data_len.
         Ok \<lparr>tf_signature = \<lparr>sf_num_signatures = num_signatures, sf_offset = mf_end_offset message\<rparr>,
             tf_message = message, tf_data_len = data_len\<rparr>)))"

definition TransactionFrame_try_new_from_prefix :: "bytes \<Rightarrow> TransactionFrame tv_result" where
  "TransactionFrame_try_new_from_prefix bytes =
     r_bind (is_legacy_or_v0 bytes) (\<lambda>b.
     if b then TransactionFrame_try_new_as_legacy_or_v0 bytes
     else TransactionFrame_try_new_as_v1 bytes)"

definition TransactionFrame_try_new :: "bytes \<Rightarrow> TransactionFrame tv_result" where
  "TransactionFrame_try_new bytes =
     r_bind (TransactionFrame_try_new_from_prefix bytes) (\<lambda>transaction_frame.
     if unat (tf_data_len transaction_frame) \<noteq> length bytes then Err ParseError
     else Ok transaction_frame)"

section \<open>Transactions and their wire format\<close>

record transaction =
  tx_signatures :: "bytes list"
  tx_message :: message

definition enc_transaction :: "transaction \<Rightarrow> bytes" where
  "enc_transaction t =
     (if m_version (tx_message t) = V1 then enc_message (tx_message t) @ concat (tx_signatures t)
      else (of_nat (length (tx_signatures t)) # concat (tx_signatures t)) @ enc_message (tx_message t))"

definition wf_transaction :: "transaction \<Rightarrow> bool" where
  "wf_transaction t \<longleftrightarrow>
     wf_message (tx_message t) \<and> sized size_of_Signature (tx_signatures t)
   \<and> (if m_version (tx_message t) = V1
      then length (tx_signatures t) = unat (m_num_required_signatures (tx_message t))
      else 1 \<le> length (tx_signatures t) \<and> length (tx_signatures t) \<le> 127)"

text \<open>Where the message and the signatures of a transaction start.\<close>

definition message_start :: "transaction \<Rightarrow> usize" where
  "message_start t =
     (if m_version (tx_message t) = V1 then 0 else 1 + 64 * length (tx_signatures t))"

definition signatures_start :: "transaction \<Rightarrow> usize" where
  "signatures_start t =
     (if m_version (tx_message t) = V1 then length (enc_message (tx_message t)) else 1)"

definition transaction_frame_of :: "transaction \<Rightarrow> TransactionFrame" where
  "transaction_frame_of t =
     \<lparr>tf_signature = \<lparr>sf_num_signatures = of_nat (length (tx_signatures t)),
                      sf_offset = of_nat (signatures_start t)\<rparr>,
      tf_message = message_frame_of (message_start t) (tx_message t),
      tf_data_len = of_nat (length (enc_transaction t))\<rparr>"

section \<open>Correctness of the parser\<close>

lemma message_frame_end: "mf_end_offset (message_frame_of offset m) = of_nat (offset + length (enc_message m))"
  by (simp add: message_frame_of_def Let_def)

lemma length_concat_sigs: "sized size_of_Signature sigs \<Longrightarrow> length (concat sigs) = 64 * length sigs"
  using length_concat_sized [of sigs size_of_Signature] by (simp add: sized_def)

lemma enc_transaction_parts:
  assumes "wf_transaction t"
  shows "seg bytes 0 n (enc_transaction t) \<longleftrightarrow>
    (if m_version (tx_message t) = V1
     then seg bytes 0 (signatures_start t) (enc_message (tx_message t))
        \<and> seg bytes (signatures_start t) n (concat (tx_signatures t))
     else seg bytes 0 (message_start t) (of_nat (length (tx_signatures t)) # concat (tx_signatures t))
        \<and> seg bytes (message_start t) n (enc_message (tx_message t)))"
proof -
  have "sized size_of_Signature (tx_signatures t)" using assms by (simp add: wf_transaction_def)
  then have "length (concat (tx_signatures t)) = 64 * length (tx_signatures t)"
    by (rule length_concat_sigs)
  then show ?thesis
    by (auto simp: enc_transaction_def seg_append seg_Cons signatures_start_def message_start_def
        add.commute simp flip: append_Cons)
qed

lemma first_byte_legacy:
  assumes wf: "wf_transaction t" and sg: "seg bytes 0 n (enc_transaction t)"
  shows "is_legacy_or_v0 bytes = Ok (m_version (tx_message t) \<noteq> V1)"
proof (cases "m_version (tx_message t) = V1")
  case True
  with wf sg have "seg bytes 0 (signatures_start t) (enc_message (tx_message t))"
    by (simp add: enc_transaction_parts)
  moreover have "\<exists>rest. enc_message (tx_message t) = 0x81 # rest"
    using True by (simp add: enc_message_def enc_v1_prefix_def)
  ultimately have "slice_get bytes 0 = Some 0x81" by (auto simp: seg_Cons slice_get_def)
  with True show ?thesis by (simp add: is_legacy_or_v0_def)
next
  case False
  with wf sg have s: "slice_get bytes 0 = Some (of_nat (length (tx_signatures t)))"
    by (simp add: enc_transaction_parts seg_Cons slice_get_def)
  have "length (tx_signatures t) \<le> 127" using wf False by (simp add: wf_transaction_def)
  then have "(of_nat (length (tx_signatures t)) :: u8) AND 0x80 = 0"
    by (simp add: and_128_eq_0_iff unat_of_nat_u8)
  with s False show ?thesis by (simp add: is_legacy_or_v0_def)
qed

lemma prefix_complete:
  assumes vs: "valid_slice bytes" and wf: "wf_transaction t" and sg: "seg bytes 0 n (enc_transaction t)"
    and n: "n \<le> 65535" and fit: "lookups_fit (tx_message t) (length bytes - n)"
  shows "TransactionFrame_try_new_from_prefix bytes = Ok (transaction_frame_of t)"
proof (cases "m_version (tx_message t) = V1")
  case True
  let ?m = "tx_message t" and ?o = "signatures_start t"
  have ib: "in_buffer bytes 0" using vs by (simp add: in_buffer_def)
  have s: "seg bytes 0 ?o (enc_message ?m)" "seg bytes ?o n (concat (tx_signatures t))"
    using sg wf True by (simp_all add: enc_transaction_parts)
  have w: "wf_message ?m" "sized size_of_Signature (tx_signatures t)"
      "length (tx_signatures t) = unat (m_num_required_signatures ?m)"
    using wf True by (simp_all add: wf_transaction_def)
  have o: "?o \<le> 65535" using seg_bounds(1) [OF s(2)] n by simp
  have end_o: "mf_end_offset (message_frame_of 0 ?m) = of_nat ?o"
    using True by (simp add: message_frame_end signatures_start_def)
  have msg: "MessageFrame_try_new_as_v1 bytes = Ok (message_frame_of 0 ?m)"
    using v1_message_complete [OF vs w(1) True s(1) o] by (simp add: MessageFrame_try_new_as_v1_def)
  have req: "mf_num_required_signatures (message_frame_of 0 ?m) = m_num_required_signatures ?m"
    using True by (simp add: mf_num_required_signatures_def message_frame_of_def header_frame_of_def Let_def)
  have adv: "advance_offset_for_array size_of_Signature bytes (ucast (m_num_required_signatures ?m)) ?o
      = (Ok (), n)"
    using advance_sized_complete [OF in_buffer_seg [OF ib s(1)] s(2) w(2)] w(3) by simp
  have "unat (of_nat ?o :: u16) = ?o" using o by (simp add: unat_of_nat_u16)
  moreover have "of_nat (length (tx_signatures t)) = m_num_required_signatures ?m" using w(3) by simp
  ultimately show ?thesis
    using True msg req adv n seg_end [OF sg] first_byte_legacy [OF wf sg]
    by (simp add: TransactionFrame_try_new_from_prefix_def TransactionFrame_try_new_as_v1_def Let_def
        end_o u16_checked_offset transaction_frame_of_def message_start_def)
next
  case False
  let ?m = "tx_message t" and ?o = "message_start t"
  have ib: "in_buffer bytes 0" using vs by (simp add: in_buffer_def)
  have s: "seg bytes 0 ?o (of_nat (length (tx_signatures t)) # concat (tx_signatures t))"
      "seg bytes ?o n (enc_message ?m)"
    using sg wf False by (simp_all add: enc_transaction_parts)
  have w: "1 \<le> length (tx_signatures t)" "length (tx_signatures t) \<le> 127"
      "sized size_of_Signature (tx_signatures t)" "wf_message ?m"
    using wf False by (simp_all add: wf_transaction_def)
  have sig: "SignatureFrame_try_new bytes 0 = (Ok (sig_frame_of 0 (tx_signatures t)), ?o)"
    by (rule SignatureFrame_complete [OF ib w(1-3) s(1)])
  have msg: "MessageFrame_try_new_as_legacy_or_v0 bytes ?o = Ok (message_frame_of ?o ?m)"
    using legacy_or_v0_message_complete [OF in_buffer_seg [OF ib s(1)] w(4) False s(2) n fit]
    by (simp add: MessageFrame_try_new_as_legacy_or_v0_def)
  have "?o + length (enc_message ?m) = length (enc_transaction t)"
    using seg_end [OF sg] seg_end [OF s(2)] by simp
  then show ?thesis
    using False sig msg first_byte_legacy [OF wf sg]
    by (simp add: TransactionFrame_try_new_from_prefix_def TransactionFrame_try_new_as_legacy_or_v0_def
        transaction_frame_of_def message_frame_end sig_frame_of_def signatures_start_def)
qed

lemma legacy_or_v0_prefix_sound:
  assumes vs: "valid_slice bytes" and "TransactionFrame_try_new_as_legacy_or_v0 bytes = Ok f"
  shows "\<exists>t n. wf_transaction t \<and> seg bytes 0 n (enc_transaction t) \<and> n \<le> 65535
    \<and> lookups_fit (tx_message t) (length bytes - n)"
proof -
  have ib: "in_buffer bytes 0" using vs by (simp add: in_buffer_def)
  from assms(2) obtain sf o1 mf where sf: "SignatureFrame_try_new bytes 0 = (Ok sf, o1)"
      and mf: "MessageFrame_try_new_as_legacy_or_v0 bytes o1 = Ok mf"
    by (auto simp: TransactionFrame_try_new_as_legacy_or_v0_def r_bind_Ok_iff split: prod.splits)
  obtain sigs where s: "1 \<le> length sigs" "length sigs \<le> 127" "sized size_of_Signature sigs"
      "seg bytes 0 o1 (of_nat (length sigs) # concat sigs)"
    by (rule SignatureFrame_sound [OF ib sf])
  from mf obtain n where "legacy_or_v0_message bytes o1 = (Ok mf, n)"
    by (metis MessageFrame_try_new_as_legacy_or_v0_def prod.collapse)
  then obtain m where m: "wf_message m" "m_version m \<noteq> V1" "seg bytes o1 n (enc_message m)"
      "n \<le> 65535" "lookups_fit m (length bytes - n)"
    by (rule legacy_or_v0_message_sound [OF in_buffer_seg [OF ib s(4)]])
  let ?t = "\<lparr>tx_signatures = sigs, tx_message = m\<rparr>"
  have "seg bytes 0 n (enc_transaction ?t)"
    using seg_appendI [OF s(4) m(3)] m(2) by (simp add: enc_transaction_def)
  with s m show ?thesis by (intro exI [of _ ?t] exI [of _ n]) (simp add: wf_transaction_def)
qed

lemma v1_prefix_sound:
  assumes vs: "valid_slice bytes" and "TransactionFrame_try_new_as_v1 bytes = Ok f"
  shows "\<exists>t n. wf_transaction t \<and> seg bytes 0 n (enc_transaction t) \<and> n \<le> 65535
    \<and> lookups_fit (tx_message t) (length bytes - n)"
proof -
  have ib: "in_buffer bytes 0" using vs by (simp add: in_buffer_def)
  from assms(2) obtain mf where mf: "MessageFrame_try_new_as_v1 bytes = Ok mf"
    by (auto simp: TransactionFrame_try_new_as_v1_def r_bind_Ok_iff)
  with assms(2) obtain n where
      a: "advance_offset_for_array size_of_Signature bytes (ucast (mf_num_required_signatures mf))
                (unat (mf_end_offset mf)) = (Ok (), n)" and n: "n \<le> 65535"
    by (cases "advance_offset_for_array size_of_Signature bytes
        (ucast (mf_num_required_signatures mf)) (unat (mf_end_offset mf))")
      (auto simp: TransactionFrame_try_new_as_v1_def r_bind_Ok_iff Let_def checked_offset_Ok_iff)
  from mf obtain e where "v1_message bytes 0 = (Ok mf, e)"
    by (metis MessageFrame_try_new_as_v1_def prod.collapse)
  then obtain m where m: "wf_message m" "m_version m = V1" "seg bytes 0 e (enc_message m)"
      "e \<le> 65535" "mf = message_frame_of 0 m"
    by (rule v1_message_sound [OF vs])
  have e: "unat (mf_end_offset mf) = e"
    using m(4) seg_end [OF m(3)] by (simp add: m(5) message_frame_end unat_of_nat_u16)
  have req: "mf_num_required_signatures mf = m_num_required_signatures m"
    using m(2) by (simp add: m(5) mf_num_required_signatures_def message_frame_of_def header_frame_of_def Let_def)
  obtain sigs where s: "length sigs = unat (m_num_required_signatures m)"
      "sized size_of_Signature sigs" "seg bytes e n (concat sigs)"
    using advance_array_sound [OF in_buffer_seg [OF ib m(3)] _ a [unfolded e req]] by auto
  let ?t = "\<lparr>tx_signatures = sigs, tx_message = m\<rparr>"
  have "seg bytes 0 n (enc_transaction ?t)"
    using seg_appendI [OF m(3) s(3)] m(2) by (simp add: enc_transaction_def)
  with s m n show ?thesis
    by (intro exI [of _ ?t] exI [of _ n]) (simp add: wf_transaction_def V1_lookups_fit)
qed

lemma prefix_sound:
  assumes vs: "valid_slice bytes" and ok: "TransactionFrame_try_new_from_prefix bytes = Ok f"
  obtains t n where "wf_transaction t" "seg bytes 0 n (enc_transaction t)" "n \<le> 65535"
    "lookups_fit (tx_message t) (length bytes - n)" "f = transaction_frame_of t"
proof -
  from ok consider "TransactionFrame_try_new_as_legacy_or_v0 bytes = Ok f" | "TransactionFrame_try_new_as_v1 bytes = Ok f"
    by (auto simp: TransactionFrame_try_new_from_prefix_def r_bind_Ok_iff split: if_splits)
  then obtain t n where t: "wf_transaction t" "seg bytes 0 n (enc_transaction t)" "n \<le> 65535"
      "lookups_fit (tx_message t) (length bytes - n)"
    by cases (use legacy_or_v0_prefix_sound [OF vs] v1_prefix_sound [OF vs] in blast)+
  with prefix_complete [OF vs t] ok show thesis by (intro that [OF t]) simp
qed

lemma TransactionFrame_try_new_iff:
  assumes vs: "valid_slice bytes"
  shows "TransactionFrame_try_new bytes = Ok f \<longleftrightarrow>
    (\<exists>t. wf_transaction t \<and> enc_transaction t = bytes \<and> length bytes \<le> 65535
         \<and> lookups_fit (tx_message t) 0 \<and> f = transaction_frame_of t)"
proof
  assume "TransactionFrame_try_new bytes = Ok f"
  then have p: "TransactionFrame_try_new_from_prefix bytes = Ok f" and l: "unat (tf_data_len f) = length bytes"
    by (auto simp: TransactionFrame_try_new_def r_bind_Ok_iff split: if_splits)
  obtain t n where t: "wf_transaction t" "seg bytes 0 n (enc_transaction t)" "n \<le> 65535"
      "lookups_fit (tx_message t) (length bytes - n)" "f = transaction_frame_of t"
    by (rule prefix_sound [OF vs p])
  have "n = length bytes"
    using l t(3) seg_end [OF t(2)] by (simp add: t(5) transaction_frame_of_def unat_of_nat_u16)
  with t show "\<exists>t. wf_transaction t \<and> enc_transaction t = bytes \<and> length bytes \<le> 65535
         \<and> lookups_fit (tx_message t) 0 \<and> f = transaction_frame_of t"
    by (intro exI [of _ t]) simp
next
  assume "\<exists>t. wf_transaction t \<and> enc_transaction t = bytes \<and> length bytes \<le> 65535
         \<and> lookups_fit (tx_message t) 0 \<and> f = transaction_frame_of t"
  then obtain t where t: "wf_transaction t" "enc_transaction t = bytes" "length bytes \<le> 65535"
      "lookups_fit (tx_message t) 0" "f = transaction_frame_of t" by blast
  then have "TransactionFrame_try_new_from_prefix bytes = Ok f"
    using prefix_complete [OF vs t(1), of "length bytes"] by simp
  then show "TransactionFrame_try_new bytes = Ok f"
    using t by (simp add: TransactionFrame_try_new_def transaction_frame_of_def unat_of_nat_u16)
qed

lemma prefix_no_fault:
  assumes vs: "valid_slice bytes"
  shows "no_fault (TransactionFrame_try_new_from_prefix bytes)"
proof -
  have ib: "in_buffer bytes 0" using vs by (simp add: in_buffer_def)
  have "no_fault (TransactionFrame_try_new_as_legacy_or_v0 bytes)"
  proof (cases "SignatureFrame_try_new bytes 0")
    case (Pair r o1)
    then have "no_fault r" using tripleD_no_fault [OF SignatureFrame_triple ib] by simp
    moreover have "no_fault (MessageFrame_try_new_as_legacy_or_v0 bytes o1)" if "r = Ok sf" for sf
      unfolding MessageFrame_try_new_as_legacy_or_v0_def
      using tripleD_post [OF SignatureFrame_triple ib] Pair that
      by (intro tripleD_no_fault [OF legacy_or_v0_message_triple]) simp
    ultimately show ?thesis
      using Pair by (auto simp: TransactionFrame_try_new_as_legacy_or_v0_def intro!: no_fault_r_bind)
  qed
  moreover have "no_fault (TransactionFrame_try_new_as_v1 bytes)"
    using v1_message_no_fault [OF vs]
    by (auto simp: TransactionFrame_try_new_as_v1_def MessageFrame_try_new_as_v1_def Let_def
        advance_offset_for_array_def p_bind_def comp_unfold check_remaining_def checked_offset_def
        intro!: no_fault_r_bind)
  ultimately show ?thesis
    by (auto simp: TransactionFrame_try_new_from_prefix_def is_legacy_or_v0_def
        intro!: no_fault_r_bind split: option.split)
qed

end
