(* ===== verification/Views.thy ===== *)
theory Views
  imports Transaction_Frame
begin

text \<open>
  \<open>message_view.rs\<close> and \<open>transaction_view.rs\<close>: the views that pair a buffer with the frame parsed
  from it. \<open>MessageViewRef\<close> borrows the buffer and the message frame, \<open>MessageView\<close> and
  \<open>TransactionView\<close> own the buffer (\<open>D: AsRef<[u8]>\<close>, here its bytes). A safe slice that is out of
  range panics; an unchecked accessor is undefined outside the buffer. The main facts are that the
  views built by the constructors return the contents of the message on the wire, and that neither
  fault happens. The methods that need a sanitized view are here too; what sanitization
  guarantees them is in the theory \<open>Sanitize\<close>.
\<close>

section \<open>Slices\<close>

text \<open>The safe slice expressions \<open>&data[..n]\<close>, \<open>&data[i..j]\<close> and the safe index \<open>xs[i]\<close>.\<close>

definition slice_to :: "'a list \<Rightarrow> usize \<Rightarrow> 'a list tv_result" where
  "slice_to xs n = (if n \<le> length xs then Ok (take n xs) else Panic)"

definition slice_range :: "'a list \<Rightarrow> usize \<Rightarrow> usize \<Rightarrow> 'a list tv_result" where
  "slice_range xs i j = (if i \<le> j \<and> j \<le> length xs then Ok (take (j - i) (drop i xs)) else Panic)"

definition index_list :: "'a list \<Rightarrow> usize \<Rightarrow> 'a tv_result" where
  "index_list xs i = (if i < length xs then Ok (xs ! i) else Panic)"

lemma slice_range_seg: "seg bs i j xs \<Longrightarrow> slice_range bs i j = Ok xs"
  by (auto simp: slice_range_def seg_def)

section \<open>Borrowed message views\<close>

record MessageViewRef =
  mr_data :: bytes
  mr_message_frame :: MessageFrame

definition mr_static_account_keys :: "MessageViewRef \<Rightarrow> bytes list tv_result" where
  "mr_static_account_keys self = mf_static_account_keys_slice (mr_message_frame self) (mr_data self)"

definition mr_recent_blockhash :: "MessageViewRef \<Rightarrow> bytes tv_result" where
  "mr_recent_blockhash self = mf_recent_blockhash (mr_message_frame self) (mr_data self)"

definition mr_instructions_iter :: "MessageViewRef \<Rightarrow> InstructionsIterator" where
  "mr_instructions_iter self = mf_instructions_iter (mr_message_frame self) (mr_data self)"

definition mr_address_table_lookup_iter :: "MessageViewRef \<Rightarrow> AddressTableLookupIterator" where
  "mr_address_table_lookup_iter self =
     mf_address_table_lookup_iter (mr_message_frame self) (mr_data self)"

definition mr_transaction_config :: "MessageViewRef \<Rightarrow> TransactionConfigView option" where
  "mr_transaction_config self =
     (let transaction_config_frame = mf_transaction_config_frame (mr_message_frame self) in
      if TransactionConfigFrame_is_present transaction_config_frame
      then Some \<lparr>tcv_frame = transaction_config_frame, tcv_bytes = mr_data self\<rparr> else None)"

definition mr_data_slice :: "MessageViewRef \<Rightarrow> bytes tv_result" where
  "mr_data_slice self =
     (case mf_message_range (mr_message_frame self) of
        (start, end) \<Rightarrow> slice_range (mr_data self) (unat start) (unat end))"

subsection \<open>Methods of sanitized views\<close>

text \<open>The consumed iterator: every instruction with the key its program index selects.\<close>

definition program_body ::
  "bytes list \<Rightarrow> (bytes \<times> SVMInstruction) list \<Rightarrow> SVMInstruction \<Rightarrow>
   (bytes \<times> SVMInstruction) list flow tv_result" where
  "program_body static_account_keys acc ix =
     (let program_id_index = unat (ix_program_id_index ix) in
      r_bind (index_list static_account_keys program_id_index) (\<lambda>program_id.
      Ok (Continue (acc @ [(program_id, ix)]))))"

definition mr_program_instructions :: "MessageViewRef \<Rightarrow> (bytes \<times> SVMInstruction) list tv_result" where
  "mr_program_instructions self =
     r_bind (mr_static_account_keys self) (\<lambda>static_account_keys.
     instructions_try_fold (mr_instructions_iter self) (program_body static_account_keys) [])"

definition mr_num_static_unsigned_static_accounts :: "MessageViewRef \<Rightarrow> u8" where
  "mr_num_static_unsigned_static_accounts self =
     mf_num_static_account_keys (mr_message_frame self)
     - mf_num_required_signatures (mr_message_frame self)"

definition mr_num_writable_unsigned_static_accounts :: "MessageViewRef \<Rightarrow> u8" where
  "mr_num_writable_unsigned_static_accounts self =
     mr_num_static_unsigned_static_accounts self
     - mf_num_readonly_unsigned_static_accounts (mr_message_frame self)"

definition mr_num_writable_signed_static_accounts :: "MessageViewRef \<Rightarrow> u8" where
  "mr_num_writable_signed_static_accounts self =
     mf_num_required_signatures (mr_message_frame self)
     - mf_num_readonly_signed_static_accounts (mr_message_frame self)"

definition mr_total_num_accounts :: "MessageViewRef \<Rightarrow> u16" where
  "mr_total_num_accounts self =
     ucast (mf_num_static_account_keys (mr_message_frame self))
     + mf_total_writable_lookup_accounts (mr_message_frame self)
     + mf_total_readonly_lookup_accounts (mr_message_frame self)"

definition mr_num_requested_write_locks :: "MessageViewRef \<Rightarrow> u64" where
  "mr_num_requested_write_locks self =
     ucast ((ucast (mf_num_static_account_keys (mr_message_frame self)
                    - mf_num_readonly_signed_static_accounts (mr_message_frame self)
                    - mf_num_readonly_unsigned_static_accounts (mr_message_frame self)) :: u16)
            + mf_total_writable_lookup_accounts (mr_message_frame self))"

section \<open>Owned message views\<close>

record MessageView =
  mv_data :: bytes
  mv_message_frame :: MessageFrame

definition MessageView_try_new_unsanitized :: "bytes \<Rightarrow> MessageView tv_result" where
  "MessageView_try_new_unsanitized data =
     r_bind (MessageFrame_try_new data) (\<lambda>message_frame.
     Ok \<lparr>mv_data = data, mv_message_frame = message_frame\<rparr>)"

definition mv_message :: "MessageView \<Rightarrow> MessageViewRef tv_result" where
  "mv_message self =
     r_bind (slice_to (mv_data self) (unat (mf_end_offset (mv_message_frame self)))) (\<lambda>data.
     Ok \<lparr>mr_data = data, mr_message_frame = mv_message_frame self\<rparr>)"

definition mv_num_required_signatures :: "MessageView \<Rightarrow> u8" where
  "mv_num_required_signatures self = mf_num_required_signatures (mv_message_frame self)"

definition mv_num_readonly_signed_static_accounts :: "MessageView \<Rightarrow> u8" where
  "mv_num_readonly_signed_static_accounts self = mf_num_readonly_signed_static_accounts (mv_message_frame self)"

definition mv_num_readonly_unsigned_static_accounts :: "MessageView \<Rightarrow> u8" where
  "mv_num_readonly_unsigned_static_accounts self = mf_num_readonly_unsigned_static_accounts (mv_message_frame self)"

definition mv_num_static_account_keys :: "MessageView \<Rightarrow> u8" where
  "mv_num_static_account_keys self = mf_num_static_account_keys (mv_message_frame self)"

definition mv_num_instructions :: "MessageView \<Rightarrow> u16" where
  "mv_num_instructions self = mf_num_instructions (mv_message_frame self)"

definition mv_num_address_table_lookups :: "MessageView \<Rightarrow> u8" where
  "mv_num_address_table_lookups self = mf_num_address_table_lookups (mv_message_frame self)"

definition mv_total_writable_lookup_accounts :: "MessageView \<Rightarrow> u16" where
  "mv_total_writable_lookup_accounts self = mf_total_writable_lookup_accounts (mv_message_frame self)"

definition mv_total_readonly_lookup_accounts :: "MessageView \<Rightarrow> u16" where
  "mv_total_readonly_lookup_accounts self = mf_total_readonly_lookup_accounts (mv_message_frame self)"

definition mv_static_account_keys :: "MessageView \<Rightarrow> bytes list tv_result" where
  "mv_static_account_keys self = r_bind (mv_message self) mr_static_account_keys"

definition mv_recent_blockhash :: "MessageView \<Rightarrow> bytes tv_result" where
  "mv_recent_blockhash self = r_bind (mv_message self) mr_recent_blockhash"

definition mv_instructions_iter :: "MessageView \<Rightarrow> InstructionsIterator tv_result" where
  "mv_instructions_iter self = r_bind (mv_message self) (\<lambda>message. Ok (mr_instructions_iter message))"

definition mv_address_table_lookup_iter :: "MessageView \<Rightarrow> AddressTableLookupIterator tv_result" where
  "mv_address_table_lookup_iter self = r_bind (mv_message self) (\<lambda>message. Ok (mr_address_table_lookup_iter message))"

definition mv_transaction_config :: "MessageView \<Rightarrow> TransactionConfigView option tv_result" where
  "mv_transaction_config self = r_bind (mv_message self) (\<lambda>message. Ok (mr_transaction_config message))"

definition mv_program_instructions :: "MessageView \<Rightarrow> (bytes \<times> SVMInstruction) list tv_result" where
  "mv_program_instructions self = r_bind (mv_message self) mr_program_instructions"

definition mv_total_num_accounts :: "MessageView \<Rightarrow> u16 tv_result" where
  "mv_total_num_accounts self = r_bind (mv_message self) (\<lambda>message. Ok (mr_total_num_accounts message))"

definition mv_num_requested_write_locks :: "MessageView \<Rightarrow> u64 tv_result" where
  "mv_num_requested_write_locks self = r_bind (mv_message self) (\<lambda>message. Ok (mr_num_requested_write_locks message))"

definition mv_version :: "MessageView \<Rightarrow> TransactionVersion" where
  "mv_version self = mf_version (mv_message_frame self)"

definition mv_data_slice :: "MessageView \<Rightarrow> bytes tv_result" where
  "mv_data_slice self = r_bind (mv_message self) mr_data_slice"

section \<open>Transaction views\<close>

record TransactionView =
  tv_data :: bytes
  tv_frame :: TransactionFrame

definition TransactionView_try_new_unsanitized :: "bytes \<Rightarrow> TransactionView tv_result" where
  "TransactionView_try_new_unsanitized data =
     r_bind (TransactionFrame_try_new data) (\<lambda>frame. Ok \<lparr>tv_data = data, tv_frame = frame\<rparr>)"

definition TransactionView_try_new_unsanitized_from_prefix ::
  "bytes \<Rightarrow> (TransactionView \<times> usize) tv_result" where
  "TransactionView_try_new_unsanitized_from_prefix data =
     r_bind (TransactionFrame_try_new_from_prefix data) (\<lambda>frame.
     let consumed_len = unat (tf_data_len frame) in
     Ok (\<lparr>tv_data = data, tv_frame = frame\<rparr>, consumed_len))"

definition tv_num_signatures :: "TransactionView \<Rightarrow> u8" where
  "tv_num_signatures self = sf_num_signatures (tf_signature (tv_frame self))"

definition tv_version :: "TransactionView \<Rightarrow> TransactionVersion" where
  "tv_version self = mf_version (tf_message (tv_frame self))"

definition tv_data_slice :: "TransactionView \<Rightarrow> bytes tv_result" where
  "tv_data_slice self = slice_to (tv_data self) (unat (tf_data_len (tv_frame self)))"

definition tv_message :: "TransactionView \<Rightarrow> MessageViewRef tv_result" where
  "tv_message self =
     r_bind (tv_data_slice self) (\<lambda>data.
     Ok \<lparr>mr_data = data, mr_message_frame = tf_message (tv_frame self)\<rparr>)"

definition tv_signatures :: "TransactionView \<Rightarrow> bytes list tv_result" where
  "tv_signatures self =
     r_bind (tv_data_slice self) (\<lambda>data.
     SignatureFrame_signatures (tf_signature (tv_frame self)) data)"

definition tv_message_data :: "TransactionView \<Rightarrow> bytes tv_result" where
  "tv_message_data self = r_bind (tv_message self) mr_data_slice"

definition tv_num_required_signatures :: "TransactionView \<Rightarrow> u8" where
  "tv_num_required_signatures self = mf_num_required_signatures (tf_message (tv_frame self))"

definition tv_num_readonly_signed_static_accounts :: "TransactionView \<Rightarrow> u8" where
  "tv_num_readonly_signed_static_accounts self = mf_num_readonly_signed_static_accounts (tf_message (tv_frame self))"

definition tv_num_readonly_unsigned_static_accounts :: "TransactionView \<Rightarrow> u8" where
  "tv_num_readonly_unsigned_static_accounts self = mf_num_readonly_unsigned_static_accounts (tf_message (tv_frame self))"

definition tv_num_static_account_keys :: "TransactionView \<Rightarrow> u8" where
  "tv_num_static_account_keys self = mf_num_static_account_keys (tf_message (tv_frame self))"

definition tv_num_instructions :: "TransactionView \<Rightarrow> u16" where
  "tv_num_instructions self = mf_num_instructions (tf_message (tv_frame self))"

definition tv_num_address_table_lookups :: "TransactionView \<Rightarrow> u8" where
  "tv_num_address_table_lookups self = mf_num_address_table_lookups (tf_message (tv_frame self))"

definition tv_total_writable_lookup_accounts :: "TransactionView \<Rightarrow> u16" where
  "tv_total_writable_lookup_accounts self = mf_total_writable_lookup_accounts (tf_message (tv_frame self))"

definition tv_total_readonly_lookup_accounts :: "TransactionView \<Rightarrow> u16" where
  "tv_total_readonly_lookup_accounts self = mf_total_readonly_lookup_accounts (tf_message (tv_frame self))"

definition tv_static_account_keys :: "TransactionView \<Rightarrow> bytes list tv_result" where
  "tv_static_account_keys self = r_bind (tv_message self) mr_static_account_keys"

definition tv_recent_blockhash :: "TransactionView \<Rightarrow> bytes tv_result" where
  "tv_recent_blockhash self = r_bind (tv_message self) mr_recent_blockhash"

definition tv_instructions_iter :: "TransactionView \<Rightarrow> InstructionsIterator tv_result" where
  "tv_instructions_iter self = r_bind (tv_message self) (\<lambda>message. Ok (mr_instructions_iter message))"

definition tv_address_table_lookup_iter :: "TransactionView \<Rightarrow> AddressTableLookupIterator tv_result" where
  "tv_address_table_lookup_iter self = r_bind (tv_message self) (\<lambda>message. Ok (mr_address_table_lookup_iter message))"

definition tv_transaction_config :: "TransactionView \<Rightarrow> TransactionConfigView option tv_result" where
  "tv_transaction_config self = r_bind (tv_message self) (\<lambda>message. Ok (mr_transaction_config message))"

definition tv_program_instructions :: "TransactionView \<Rightarrow> (bytes \<times> SVMInstruction) list tv_result" where
  "tv_program_instructions self = r_bind (tv_message self) mr_program_instructions"

definition tv_num_writable_unsigned_static_accounts :: "TransactionView \<Rightarrow> u8 tv_result" where
  "tv_num_writable_unsigned_static_accounts self = r_bind (tv_message self) (\<lambda>message. Ok (mr_num_writable_unsigned_static_accounts message))"

definition tv_num_writable_signed_static_accounts :: "TransactionView \<Rightarrow> u8 tv_result" where
  "tv_num_writable_signed_static_accounts self = r_bind (tv_message self) (\<lambda>message. Ok (mr_num_writable_signed_static_accounts message))"

definition tv_total_num_accounts :: "TransactionView \<Rightarrow> u16 tv_result" where
  "tv_total_num_accounts self = r_bind (tv_message self) (\<lambda>message. Ok (mr_total_num_accounts message))"

definition tv_num_requested_write_locks :: "TransactionView \<Rightarrow> u64 tv_result" where
  "tv_num_requested_write_locks self = r_bind (tv_message self) (\<lambda>message. Ok (mr_num_requested_write_locks message))"

text \<open>\<open>data[offset..][..32].copy_from_slice(hash)\<close>; a hash has 32 bytes.\<close>

definition set_recent_blockhash :: "TransactionView \<Rightarrow> bytes \<Rightarrow> TransactionView tv_result" where
  "set_recent_blockhash self recent_blockhash =
     (let offset = unat (mf_recent_blockhash_offset (tf_message (tv_frame self))) in
      if offset \<le> length (tv_data self) \<and> size_of_Hash \<le> length (tv_data self) - offset
         \<and> length recent_blockhash = size_of_Hash
      then Ok (self\<lparr>tv_data := take offset (tv_data self) @ recent_blockhash
                              @ drop (offset + size_of_Hash) (tv_data self)\<rparr>)
      else Panic)"

section \<open>Views of a message on the wire\<close>

definition ref_describes :: "MessageViewRef \<Rightarrow> message \<Rightarrow> bool" where
  "ref_describes r m \<longleftrightarrow> frame_describes (mr_message_frame r) (mr_data r) m"

definition view_describes :: "TransactionView \<Rightarrow> transaction \<Rightarrow> bool" where
  "view_describes v t \<longleftrightarrow>
     wf_transaction t \<and> valid_slice (tv_data v) \<and> length (enc_transaction t) \<le> 65535
   \<and> seg (tv_data v) 0 (length (enc_transaction t)) (enc_transaction t)
   \<and> tv_frame v = transaction_frame_of t"

definition message_view_describes :: "MessageView \<Rightarrow> message \<Rightarrow> bool" where
  "message_view_describes v m \<longleftrightarrow>
     wf_message m \<and> mv_data v = enc_message m \<and> length (enc_message m) \<le> 65535
   \<and> mv_message_frame v = message_frame_of 0 m"

lemma ref_describes_data:
  assumes "ref_describes r m"
  shows "mr_static_account_keys r = Ok (m_account_keys m)"
    and "mr_recent_blockhash r = Ok (m_recent_blockhash m)"
    and "instructions_remaining (mr_instructions_iter r) (m_instructions m)"
    and "lookups_remaining (mr_address_table_lookup_iter r) (m_lookups m)"
    and "mr_data_slice r = Ok (enc_message m)"
proof -
  have d: "frame_describes (mr_message_frame r) (mr_data r) m" using assms by (simp add: ref_describes_def)
  show "mr_static_account_keys r = Ok (m_account_keys m)" "mr_recent_blockhash r = Ok (m_recent_blockhash m)"
    "instructions_remaining (mr_instructions_iter r) (m_instructions m)"
    "lookups_remaining (mr_address_table_lookup_iter r) (m_lookups m)"
    using describes_data [OF d]
    by (simp_all add: mr_static_account_keys_def mr_recent_blockhash_def mr_instructions_iter_def
        mr_address_table_lookup_iter_def)
  show "mr_data_slice r = Ok (enc_message m)"
    by (rule describes_range [OF d]) (simp add: mr_data_slice_def slice_range_seg)
qed

lemma view_describes_message:
  assumes "view_describes v t"
  shows "tv_data_slice v = Ok (enc_transaction t)"
    and "\<exists>r. tv_message v = Ok r \<and> ref_describes r (tx_message t) \<and> mr_data r = enc_transaction t
             \<and> mr_message_frame r = tf_message (tv_frame v)"
proof -
  let ?bs = "enc_transaction t"
  have d: "wf_transaction t" "valid_slice (tv_data v)" "length ?bs \<le> 65535"
      "seg (tv_data v) 0 (length ?bs) ?bs" "tv_frame v = transaction_frame_of t"
    using assms by (simp_all add: view_describes_def)
  have "unat (tf_data_len (tv_frame v)) = length ?bs"
    using d(3) by (simp add: d(5) transaction_frame_of_def unat_of_nat_u16)
  moreover have "length ?bs \<le> length (tv_data v)" "take (length ?bs) (tv_data v) = ?bs"
    using d(4) by (simp_all add: seg_def)
  ultimately show s: "tv_data_slice v = Ok ?bs" by (simp add: tv_data_slice_def slice_to_def)
  have vs: "valid_slice ?bs" using d(3) by (simp add: valid_slice_def)
  have "seg ?bs 0 (length ?bs) ?bs" by simp
  note parts = this [unfolded enc_transaction_parts [OF d(1)]]
  define e where "e = (if m_version (tx_message t) = V1 then signatures_start t else length ?bs)"
  have sg: "seg ?bs (message_start t) e (enc_message (tx_message t))"
    using parts by (auto simp: e_def message_start_def split: if_splits)
  have "e \<le> 65535" using seg_bounds(2) [OF sg] d(3) by simp
  moreover have "wf_message (tx_message t)" using d(1) by (simp add: wf_transaction_def)
  moreover have "in_buffer ?bs (message_start t)"
    using vs seg_bounds [OF sg] by (simp add: in_buffer_def)
  ultimately have "frame_describes (message_frame_of (message_start t) (tx_message t)) ?bs (tx_message t)"
    unfolding frame_describes_def using sg
    by (intro exI [of _ "message_start t"] exI [of _ e]) (simp add: message_start_def)
  then show "\<exists>r. tv_message v = Ok r \<and> ref_describes r (tx_message t) \<and> mr_data r = ?bs
      \<and> mr_message_frame r = tf_message (tv_frame v)"
    by (simp add: tv_message_def s ref_describes_def d(5) transaction_frame_of_def)
qed

lemma view_describes_signatures:
  assumes "view_describes v t"
  shows "tv_signatures v = Ok (tx_signatures t)"
    and "unat (tv_num_signatures v) = length (tx_signatures t)"
proof -
  let ?bs = "enc_transaction t"
  have d: "wf_transaction t" "length ?bs \<le> 65535" "tv_frame v = transaction_frame_of t"
    using assms by (simp_all add: view_describes_def)
  have n: "length (tx_signatures t) < 256" "sized size_of_Signature (tx_signatures t)"
    using d(1) by (auto simp: wf_transaction_def split: if_splits)
  have u: "unat (of_nat (length (tx_signatures t)) :: u8) = length (tx_signatures t)"
    using n(1) by (simp add: unat_of_nat_u8)
  have "seg ?bs 0 (length ?bs) ?bs" by simp
  note parts = this [unfolded enc_transaction_parts [OF d(1)]]
  define e where "e = (if m_version (tx_message t) = V1 then length ?bs else message_start t)"
  have sg: "seg ?bs (signatures_start t) e (concat (tx_signatures t))"
    using parts by (auto simp: e_def signatures_start_def seg_Cons split: if_splits)
  have "e \<le> 65535" using seg_bounds(2) [OF sg] d(2) by simp
  from from_raw_parts_at [OF sg n(2) u this]
  show "tv_signatures v = Ok (tx_signatures t)"
    using view_describes_message(1) [OF assms]
    by (simp add: tv_signatures_def SignatureFrame_signatures_def d(3) transaction_frame_of_def)
  show "unat (tv_num_signatures v) = length (tx_signatures t)"
    using u by (simp add: tv_num_signatures_def d(3) transaction_frame_of_def)
qed

lemma message_view_describes_message:
  assumes "message_view_describes v m"
  shows "\<exists>r. mv_message v = Ok r \<and> ref_describes r m \<and> mr_message_frame r = mv_message_frame v"
proof -
  have d: "wf_message m" "mv_data v = enc_message m" "length (enc_message m) \<le> 65535"
      "mv_message_frame v = message_frame_of 0 m"
    using assms by (simp_all add: message_view_describes_def)
  then have "unat (mf_end_offset (mv_message_frame v)) = length (enc_message m)"
    by (simp add: message_frame_end unat_of_nat_u16)
  moreover have "frame_describes (message_frame_of 0 m) (enc_message m) m"
    unfolding frame_describes_def using d
    by (intro exI [of _ 0] exI [of _ "length (enc_message m)"]) (simp add: in_buffer_def valid_slice_def)
  ultimately show ?thesis by (simp add: mv_message_def slice_to_def d(2,4) ref_describes_def)
qed

text \<open>What a client reads of a configuration: whether there is one, its mask and its four optional fields.\<close>

definition read_config :: "TransactionConfigView \<Rightarrow> (u32 \<times> tx_config) tv_result" where
  "read_config c =
     r_bind (priority_fee_lamports c) (\<lambda>fee.
     r_bind (compute_unit_limit c) (\<lambda>units.
     r_bind (loaded_accounts_data_size_limit c) (\<lambda>loaded.
     r_bind (requested_heap_size c) (\<lambda>heap.
     Ok (TransactionConfigView_mask c,
       \<lparr>cfg_priority_fee = fee, cfg_compute_unit_limit = units, cfg_loaded_size_limit = loaded,
        cfg_heap_size = heap\<rparr>)))))"

definition tv_read_config :: "TransactionView \<Rightarrow> (u32 \<times> tx_config) option tv_result" where
  "tv_read_config v =
     r_bind (tv_transaction_config v) (\<lambda>c.
     case c of None \<Rightarrow> Ok None | Some c' \<Rightarrow> r_bind (read_config c') (\<lambda>x. Ok (Some x)))"

text \<open>The instructions and the lookups of a view, by running its iterators to the end.\<close>

definition tv_read_instructions :: "TransactionView \<Rightarrow> SVMInstruction list tv_result" where
  "tv_read_instructions v = r_bind (tv_instructions_iter v) (\<lambda>it. instructions_try_fold it collect_body [])"

definition tv_read_lookups :: "TransactionView \<Rightarrow> SVMMessageAddressTableLookup list tv_result" where
  "tv_read_lookups v = r_bind (tv_address_table_lookup_iter v) (\<lambda>it. lookups_try_fold it collect_body [])"

lemma config_view_for_mask:
  assumes "config_view_for c x"
  shows "TransactionConfigView_mask c = config_mask x" "TransactionConfigFrame_is_present (tcv_frame c)"
proof -
  obtain k off where k: "0 < k" "k \<le> 65535" "tcv_frame c = config_frame_of k x off"
    using assms by (auto simp: config_view_for_def)
  then have "unat (of_nat k :: u16) \<noteq> 0" by (simp add: unat_of_nat_u16)
  then show "TransactionConfigView_mask c = config_mask x" "TransactionConfigFrame_is_present (tcv_frame c)"
    using k(3) by (auto simp: TransactionConfigView_mask_def TransactionConfigFrame_is_present_def config_frame_of_def)
qed

lemma read_config_for: "config_view_for c x \<Longrightarrow> read_config c = Ok (config_mask x, x)"
  by (simp add: read_config_def config_view_read config_view_for_mask(1))

lemma view_describes_config:
  assumes "view_describes v t"
  shows "tv_read_config v = Ok (if m_version (tx_message t) = V1
     then Some (config_mask (m_config (tx_message t)), m_config (tx_message t)) else None)"
proof -
  obtain r where r: "tv_message v = Ok r" "ref_describes r (tx_message t)"
    using view_describes_message(2) [OF assms] by blast
  note d = describes_data(5,6) [OF r(2) [unfolded ref_describes_def]]
  show ?thesis
  proof (cases "m_version (tx_message t) = V1")
    case True
    with d(1) show ?thesis
      using config_view_for_mask(2) [OF d(1) [OF True]]
      by (simp add: tv_read_config_def tv_transaction_config_def r(1) mr_transaction_config_def Let_def read_config_for)
  next
    case False
    with d(2) show ?thesis
      by (simp add: tv_read_config_def tv_transaction_config_def r(1) mr_transaction_config_def Let_def)
  qed
qed

lemma view_describes_header:
  assumes "view_describes v t"
  shows "tv_version v = m_version (tx_message t)"
    and "tv_num_required_signatures v = m_num_required_signatures (tx_message t)"
    and "tv_num_readonly_signed_static_accounts v = m_num_readonly_signed (tx_message t)"
    and "tv_num_readonly_unsigned_static_accounts v = m_num_readonly_unsigned (tx_message t)"
    and "unat (tv_num_static_account_keys v) = length (m_account_keys (tx_message t))"
    and "unat (tv_num_instructions v) = length (m_instructions (tx_message t))"
    and "unat (tv_num_address_table_lookups v) = length (m_lookups (tx_message t))"
    and "unat (tv_total_writable_lookup_accounts v) = total_writable (m_lookups (tx_message t))"
    and "unat (tv_total_readonly_lookup_accounts v) = total_readonly (m_lookups (tx_message t))"
proof -
  obtain r where r: "ref_describes r (tx_message t)" "mr_message_frame r = tf_message (tv_frame v)"
    using view_describes_message(2) [OF assms] by blast
  note d = r(1) [unfolded ref_describes_def r(2)]
  show "tv_version v = m_version (tx_message t)"
    "tv_num_required_signatures v = m_num_required_signatures (tx_message t)"
    "tv_num_readonly_signed_static_accounts v = m_num_readonly_signed (tx_message t)"
    "tv_num_readonly_unsigned_static_accounts v = m_num_readonly_unsigned (tx_message t)"
    "unat (tv_num_static_account_keys v) = length (m_account_keys (tx_message t))"
    "unat (tv_num_instructions v) = length (m_instructions (tx_message t))"
    "unat (tv_num_address_table_lookups v) = length (m_lookups (tx_message t))"
    "unat (tv_total_writable_lookup_accounts v) = total_writable (m_lookups (tx_message t))"
    "unat (tv_total_readonly_lookup_accounts v) = total_readonly (m_lookups (tx_message t))"
    by (simp_all add: describes_header [OF d] describes_counts [OF d] tv_version_def tv_num_required_signatures_def
        tv_num_readonly_signed_static_accounts_def tv_num_readonly_unsigned_static_accounts_def
        tv_num_static_account_keys_def tv_num_instructions_def tv_num_address_table_lookups_def
        tv_total_writable_lookup_accounts_def tv_total_readonly_lookup_accounts_def)
qed

lemma view_describes_contents:
  assumes "view_describes v t"
  shows "tv_message_data v = Ok (enc_message (tx_message t))"
    and "tv_static_account_keys v = Ok (m_account_keys (tx_message t))"
    and "tv_recent_blockhash v = Ok (m_recent_blockhash (tx_message t))"
    and "tv_read_instructions v = Ok (m_instructions (tx_message t))"
    and "tv_read_lookups v = Ok (m_lookups (tx_message t))"
proof -
  obtain r where r: "tv_message v = Ok r" "ref_describes r (tx_message t)"
    using view_describes_message(2) [OF assms] by blast
  note x = ref_describes_data [OF r(2)]
  show "tv_message_data v = Ok (enc_message (tx_message t))"
    "tv_static_account_keys v = Ok (m_account_keys (tx_message t))"
    "tv_recent_blockhash v = Ok (m_recent_blockhash (tx_message t))"
    "tv_read_instructions v = Ok (m_instructions (tx_message t))"
    "tv_read_lookups v = Ok (m_lookups (tx_message t))"
    by (simp_all add: tv_message_data_def tv_static_account_keys_def tv_recent_blockhash_def tv_read_instructions_def
        tv_read_lookups_def tv_instructions_iter_def tv_address_table_lookup_iter_def r(1) x
        instructions_iter.try_fold_remaining [OF x(3)] lookups_iter.try_fold_remaining [OF x(4)]
        list_try_fold_collect)
qed

lemmas view_describes_accessors =
  view_describes_message(1) view_describes_signatures view_describes_header view_describes_contents
  view_describes_config

section \<open>Constructors\<close>

lemma try_new_unsanitized_iff:
  assumes "valid_slice data"
  shows "TransactionView_try_new_unsanitized data = Ok v \<longleftrightarrow>
    (\<exists>t. view_describes v t \<and> tv_data v = data \<and> enc_transaction t = data
         \<and> lookups_fit (tx_message t) 0)"
  using assms
  by (cases v) (auto simp: TransactionView_try_new_unsanitized_def r_bind_Ok_iff
      TransactionFrame_try_new_iff view_describes_def)

lemma try_new_unsanitized_no_fault:
  "valid_slice data \<Longrightarrow> no_fault (TransactionView_try_new_unsanitized data)"
  using prefix_no_fault
  by (auto simp: TransactionView_try_new_unsanitized_def TransactionFrame_try_new_def
      intro!: no_fault_r_bind)

lemma from_prefix_sound:
  assumes vs: "valid_slice data" and ok: "TransactionView_try_new_unsanitized_from_prefix data = Ok (v, n)"
  obtains t where "view_describes v t" "tv_data v = data" "n = length (enc_transaction t)"
    "seg data 0 n (enc_transaction t)" "lookups_fit (tx_message t) (length data - n)"
proof -
  from ok obtain f where f: "TransactionFrame_try_new_from_prefix data = Ok f"
      and v: "v = \<lparr>tv_data = data, tv_frame = f\<rparr>" "n = unat (tf_data_len f)"
    by (auto simp: TransactionView_try_new_unsanitized_from_prefix_def r_bind_Ok_iff Let_def)
  obtain t k where t: "wf_transaction t" "seg data 0 k (enc_transaction t)" "k \<le> 65535"
      "lookups_fit (tx_message t) (length data - k)" "f = transaction_frame_of t"
    by (rule prefix_sound [OF vs f])
  have k: "k = length (enc_transaction t)" using seg_end [OF t(2)] by simp
  have "n = k" using v(2) t(3,5) k by (simp add: transaction_frame_of_def unat_of_nat_u16)
  with t k vs v(1) show thesis by (intro that [of t]) (simp_all add: view_describes_def)
qed

lemma from_prefix_complete:
  assumes "valid_slice data" "wf_transaction t" "n = length (enc_transaction t)" "n \<le> 65535"
    "seg data 0 n (enc_transaction t)" "lookups_fit (tx_message t) (length data - n)"
  shows "TransactionView_try_new_unsanitized_from_prefix data
         = Ok (\<lparr>tv_data = data, tv_frame = transaction_frame_of t\<rparr>, n)"
  using assms prefix_complete [OF assms(1,2,5,4,6)]
  by (simp add: TransactionView_try_new_unsanitized_from_prefix_def transaction_frame_of_def unat_of_nat_u16)

lemma message_view_try_new_iff:
  assumes "valid_slice data"
  shows "MessageView_try_new_unsanitized data = Ok v \<longleftrightarrow>
    (\<exists>m. message_view_describes v m \<and> mv_data v = data \<and> lookups_fit m 0)"
  using assms
  by (cases v) (auto simp: MessageView_try_new_unsanitized_def r_bind_Ok_iff MessageFrame_try_new_iff
      message_view_describes_def)

section \<open>A view determines its transaction\<close>

lemma remaining_instructions_unique:
  assumes "instructions_remaining it xs" "instructions_remaining it ys"
  shows "xs = ys"
proof -
  have "instructions_try_fold it collect_body [] = Ok zs" if "instructions_remaining it zs" for zs
    using that by (simp add: instructions_iter.try_fold_remaining list_try_fold_collect)
  from this [OF assms(1)] this [OF assms(2)] show ?thesis by simp
qed

lemma remaining_lookups_unique:
  assumes "lookups_remaining it xs" "lookups_remaining it ys"
  shows "xs = ys"
proof -
  have "lookups_try_fold it collect_body [] = Ok zs" if "lookups_remaining it zs" for zs
    using that by (simp add: lookups_iter.try_fold_remaining list_try_fold_collect)
  from this [OF assms(1)] this [OF assms(2)] show ?thesis by simp
qed

lemma describes_unique:
  assumes d: "frame_describes f bytes m" and d': "frame_describes f bytes m'"
  shows "m = m'"
proof -
  note h = describes_header [OF d] describes_header [OF d']
    and x = describes_data [OF d] and x' = describes_data [OF d']
  have v: "m_version m = m_version m'" using h by simp
  have c: "m_config m = m_config m'"
  proof (cases "m_version m = V1")
    case True
    with x(5) x'(5) v show ?thesis using config_view_read by (metis outcome.inject(1) tx_config.equality old.unit.exhaust)
  next
    case False
    with describes_wf [OF d] describes_wf [OF d'] v show ?thesis by (simp add: wf_message_def)
  qed
  have "m_account_keys m = m_account_keys m'" "m_recent_blockhash m = m_recent_blockhash m'"
    "m_instructions m = m_instructions m'" "m_lookups m = m_lookups m'"
    using x x' remaining_instructions_unique remaining_lookups_unique by auto
  with h v c show ?thesis by simp
qed

lemma view_describes_unique:
  assumes d: "view_describes v t" and d': "view_describes v t'"
  shows "t = t'"
proof -
  obtain r where r: "tv_message v = Ok r" "ref_describes r (tx_message t)"
    using view_describes_message(2) [OF d] by blast
  obtain r' where r': "tv_message v = Ok r'" "ref_describes r' (tx_message t')"
    using view_describes_message(2) [OF d'] by blast
  have "tx_message t = tx_message t'"
    using r r' describes_unique by (auto simp: ref_describes_def)
  moreover have "tx_signatures t = tx_signatures t'"
    using view_describes_signatures(1) [OF d] view_describes_signatures(1) [OF d'] by simp
  ultimately show ?thesis by simp
qed

text \<open>The bytes that one of the two constructors turned into a view: the whole buffer, or \<open>n\<close> bytes of its front.\<close>

definition parsed :: "bytes \<Rightarrow> TransactionView \<Rightarrow> usize \<Rightarrow> bool" where
  "parsed data v n \<longleftrightarrow>
     TransactionView_try_new_unsanitized data = Ok v \<and> n = length data
   \<or> TransactionView_try_new_unsanitized_from_prefix data = Ok (v, n)"

lemma parsed_describes:
  assumes "valid_slice data" "parsed data v n"
  shows "\<exists>t. view_describes v t \<and> n = length (enc_transaction t) \<and> take n data = enc_transaction t"
  using assms(2) unfolding parsed_def
proof
  assume "TransactionView_try_new_unsanitized data = Ok v \<and> n = length data"
  then show ?thesis using try_new_unsanitized_iff [OF assms(1)] by auto
next
  assume ok: "TransactionView_try_new_unsanitized_from_prefix data = Ok (v, n)"
  then show ?thesis by (rule from_prefix_sound [OF assms(1)]) (auto simp: seg_def)
qed

lemma same_accessors:
  assumes d: "view_describes v t" and d': "view_describes v' t'"
    and "tv_version v = tv_version v'"
    and "tv_num_required_signatures v = tv_num_required_signatures v'"
    and "tv_num_readonly_signed_static_accounts v = tv_num_readonly_signed_static_accounts v'"
    and "tv_num_readonly_unsigned_static_accounts v = tv_num_readonly_unsigned_static_accounts v'"
    and "tv_signatures v = tv_signatures v'" and "tv_static_account_keys v = tv_static_account_keys v'"
    and "tv_recent_blockhash v = tv_recent_blockhash v'"
    and "tv_read_instructions v = tv_read_instructions v'" and "tv_read_lookups v = tv_read_lookups v'"
    and "tv_read_config v = tv_read_config v'"
  shows "t = t'"
proof -
  let ?m = "tx_message t" and ?m' = "tx_message t'"
  note eqs = assms(3-12) [unfolded view_describes_accessors [OF d] view_describes_accessors [OF d']]
  have "wf_message ?m" "wf_message ?m'"
    using d d' by (simp_all add: view_describes_def wf_transaction_def)
  then have "m_version ?m \<noteq> V1 \<Longrightarrow> m_config ?m = m_config ?m'"
    using eqs(1) by (simp add: wf_message_def)
  then have "m_config ?m = m_config ?m'" using eqs(1,10) by (cases "m_version ?m = V1") simp_all
  with eqs show ?thesis by simp
qed

section \<open>Properties of the parser\<close>

lemma wf_lookups_fit:
  assumes "wf_message m" "1085 \<le> n"
  shows "lookups_fit m n"
proof -
  have "length (m_lookups m) \<le> 31"
    using assms(1) by (auto simp: wf_message_def wf_atls_def split: if_splits)
  with assms(2) show ?thesis by (simp add: lookups_fit_def)
qed

lemma enc_transaction_inject:
  assumes wf: "wf_transaction t" "wf_transaction t'" and eq: "enc_transaction t = enc_transaction t'"
    and len: "length (enc_transaction t) \<le> 65535"
  shows "t = t'"
proof -
  let ?n = "length (enc_transaction t)" and ?data = "enc_transaction t @ replicate 1085 0"
  have vs: "valid_slice ?data" using len by (simp add: valid_slice_def)
  have sg: "seg ?data 0 ?n (enc_transaction t)" by (simp add: seg_def)
  have fit: "lookups_fit (tx_message t) (length ?data - ?n)" "lookups_fit (tx_message t') (length ?data - ?n)"
    using wf by (auto simp: wf_transaction_def intro: wf_lookups_fit)
  have "TransactionView_try_new_unsanitized_from_prefix ?data
      = Ok (\<lparr>tv_data = ?data, tv_frame = transaction_frame_of t\<rparr>, ?n)"
    by (rule from_prefix_complete [OF vs wf(1) refl len sg fit(1)])
  moreover have "TransactionView_try_new_unsanitized_from_prefix ?data
      = Ok (\<lparr>tv_data = ?data, tv_frame = transaction_frame_of t'\<rparr>, ?n)"
    using from_prefix_complete [OF vs wf(2) _ len _ fit(2)] sg eq by simp
  ultimately have "view_describes \<lparr>tv_data = ?data, tv_frame = transaction_frame_of t\<rparr> t"
    "view_describes \<lparr>tv_data = ?data, tv_frame = transaction_frame_of t\<rparr> t'"
    using wf vs len sg eq by (simp_all add: view_describes_def)
  then show ?thesis by (rule view_describes_unique)
qed

lemma enc_message_inject:
  assumes wf: "wf_message m" "wf_message m'" and eq: "enc_message m = enc_message m'"
    and len: "length (enc_message m) \<le> 65535"
  shows "m = m'"
proof -
  let ?n = "length (enc_message m)" and ?data = "enc_message m @ replicate 1085 0"
  have vs: "valid_slice ?data" using len by (simp add: valid_slice_def)
  then have ib: "in_buffer ?data 0" by (simp add: in_buffer_def)
  have sg: "seg ?data 0 ?n (enc_message m)" "seg ?data 0 ?n (enc_message m')"
    using eq by (simp_all add: seg_def)
  have v: "m_version m = V1 \<longleftrightarrow> m_version m' = V1"
    using first_byte_version [OF wf(1) sg(1)] first_byte_version [OF wf(2) sg(2)] by simp
  have "message_frame_of 0 m = message_frame_of 0 m'"
  proof (cases "m_version m = V1")
    case True
    then show ?thesis
      using v1_message_complete [OF vs wf(1) _ sg(1) len] v1_message_complete [OF vs wf(2) _ sg(2) len] v
      by simp
  next
    case False
    have "lookups_fit m (length ?data - ?n)" "lookups_fit m' (length ?data - ?n)"
      using wf by (auto intro: wf_lookups_fit)
    then show ?thesis
      using legacy_or_v0_message_complete [OF ib wf(1) _ sg(1) len]
        legacy_or_v0_message_complete [OF ib wf(2) _ sg(2) len] v False by simp
  qed
  moreover have "frame_describes (message_frame_of 0 k) ?data k" if "wf_message k" "seg ?data 0 ?n (enc_message k)" for k
    using that ib len unfolding frame_describes_def by blast
  ultimately show ?thesis using wf sg describes_unique by metis
qed

text \<open>A v0 transaction with one signature, two keys, one instruction and one lookup.\<close>

definition example_message :: message where
  "example_message =
     \<lparr>m_version = V0, m_num_required_signatures = 1, m_num_readonly_signed = 0,
      m_num_readonly_unsigned = 1, m_account_keys = [replicate 32 1, replicate 32 2],
      m_recent_blockhash = replicate 32 3,
      m_instructions = [\<lparr>ix_program_id_index = 1, ix_accounts = [0, 2], ix_data = [5, 6, 7]\<rparr>],
      m_lookups = [\<lparr>atl_account_key = replicate 32 9, atl_writable_indexes = [4],
                    atl_readonly_indexes = []\<rparr>],
      m_config = empty_config\<rparr>"

definition example_transaction :: transaction where
  "example_transaction = \<lparr>tx_signatures = [replicate 64 8], tx_message = example_message\<rparr>"

lemma example_wf: "wf_message example_message" "wf_transaction example_transaction"
  by (simp_all add: wf_message_def wf_transaction_def example_message_def example_transaction_def
      sized_def wf_header_def wf_instructions_def wf_instruction_def wf_atls_def wf_atl_def
      total_writable_def total_readonly_def)

lemma example_length: "length (enc_message example_message) = 146"
    "length (enc_transaction example_transaction) = 211"
  by (simp_all add: enc_transaction_def example_transaction_def example_message_def enc_message_def
      enc_header_def enc_keys_def enc_instructions_def enc_instruction_def enc_atls_def enc_atl_def
      enc_compact_u16_def)

lemma example_fit: "lookups_fit example_message 0"
  by (simp add: lookups_fit_def example_message_def enc_atl_def enc_compact_u16_def)

lemma example_valid:
  "valid_slice (enc_message example_message)" "valid_slice (enc_transaction example_transaction)"
  by (simp_all add: valid_slice_def example_length)

lemma exact_view_describes:
  "wf_transaction t \<Longrightarrow> length (enc_transaction t) \<le> 65535 \<Longrightarrow>
   view_describes \<lparr>tv_data = enc_transaction t, tv_frame = transaction_frame_of t\<rparr> t"
  by (simp add: view_describes_def valid_slice_def)

definition example_view :: TransactionView where
  "example_view = \<lparr>tv_data = enc_transaction example_transaction,
     tv_frame = transaction_frame_of example_transaction\<rparr>"

lemma example_describes: "view_describes example_view example_transaction"
  unfolding example_view_def by (rule exact_view_describes) (simp_all add: example_wf example_length)

text \<open>
  C1. The parser implements the wire format, with nothing before, between or after the parts. On a
  slice of at most \<open>isize::MAX\<close> bytes, \<open>try_new\<close> succeeds with the frame \<open>f\<close> iff the bytes are the
  encoding of a well-formed transaction of at most 65535 bytes (whose lookups have 35 bytes each on
  average) and \<open>f\<close> is the frame of that transaction: every cached u16 offset is exact, none is
  truncated.
\<close>

theorem transaction_parse_iff:
  assumes "valid_slice bytes"
  shows "TransactionFrame_try_new bytes = Ok f \<longleftrightarrow>
    (\<exists>t. wf_transaction t \<and> enc_transaction t = bytes \<and> length bytes \<le> 65535
         \<and> lookups_fit (tx_message t) 0 \<and> f = transaction_frame_of t)"
  using assms by (rule TransactionFrame_try_new_iff)

theorem transaction_parse_iff_witness:
  "TransactionFrame_try_new (enc_transaction example_transaction)
   = Ok (transaction_frame_of example_transaction)"
  using transaction_parse_iff [OF example_valid(2), of "transaction_frame_of example_transaction"]
    example_wf(2) example_length(2) example_fit
  by (auto simp: example_transaction_def)

text \<open>
  C17. Accepted transactions are not malleable: what the accessors return determines the bytes. If two views,
  parsed from whole buffers or from the fronts of buffers, agree in version, signatures, header counts, keys,
  blockhash, instructions, lookups and configuration, then the bytes they were parsed from are the same: no
  second spelling of a length, no other order of the parts and no bytes between or after them are accepted.
\<close>

theorem accessors_determine_bytes:
  assumes "valid_slice data" "parsed data v n" and "valid_slice data'" "parsed data' v' n'"
    and "tv_version v = tv_version v'"
    and "tv_num_required_signatures v = tv_num_required_signatures v'"
    and "tv_num_readonly_signed_static_accounts v = tv_num_readonly_signed_static_accounts v'"
    and "tv_num_readonly_unsigned_static_accounts v = tv_num_readonly_unsigned_static_accounts v'"
    and "tv_signatures v = tv_signatures v'" and "tv_static_account_keys v = tv_static_account_keys v'"
    and "tv_recent_blockhash v = tv_recent_blockhash v'"
    and "tv_read_instructions v = tv_read_instructions v'" and "tv_read_lookups v = tv_read_lookups v'"
    and "tv_read_config v = tv_read_config v'"
  shows "n = n' \<and> take n data = take n' data'"
proof -
  obtain t where t: "view_describes v t" "n = length (enc_transaction t)" "take n data = enc_transaction t"
    using parsed_describes [OF assms(1,2)] by blast
  obtain t' where t': "view_describes v' t'" "n' = length (enc_transaction t')" "take n' data' = enc_transaction t'"
    using parsed_describes [OF assms(3,4)] by blast
  have "t = t'" by (rule same_accessors [OF t(1) t'(1) assms(5-14)])
  with t t' show ?thesis by simp
qed

theorem accessors_determine_bytes_witness:
  "\<exists>v v' n. parsed (enc_transaction example_transaction) v n
     \<and> parsed (enc_transaction example_transaction @ [7, 7]) v' n \<and> tv_data v \<noteq> tv_data v'
     \<and> take n (enc_transaction example_transaction) = take n (enc_transaction example_transaction @ [7, 7])"
proof -
  let ?bs = "enc_transaction example_transaction"
  let ?v = "\<lambda>data. \<lparr>tv_data = data, tv_frame = transaction_frame_of example_transaction\<rparr>"
  have vs: "valid_slice ?bs" "valid_slice (?bs @ [7, 7])" using example_length(2) by (simp_all add: valid_slice_def)
  have sg: "seg (?bs @ xs) 0 (length ?bs) ?bs" for xs by (simp add: seg_def)
  have fit: "lookups_fit (tx_message example_transaction) k" for k
    using example_fit by (simp add: lookups_fit_def example_transaction_def)
  have len: "length ?bs \<le> 65535" using example_length(2) by simp
  have p: "parsed ?bs (?v ?bs) (length ?bs)" "parsed (?bs @ [7, 7]) (?v (?bs @ [7, 7])) (length ?bs)"
    using from_prefix_complete [OF vs(1) example_wf(2) refl len sg [of "[]", unfolded append_Nil2] fit]
      from_prefix_complete [OF vs(2) example_wf(2) refl len sg fit] by (simp_all add: parsed_def)
  have d: "view_describes (?v ?bs) example_transaction" "view_describes (?v (?bs @ [7, 7])) example_transaction"
    using vs len sg [of "[]"] sg [of "[7, 7]"] example_wf(2) by (simp_all add: view_describes_def)
  show ?thesis
    using p accessors_determine_bytes [OF vs(1) p(1) vs(2) p(2)]
    by (intro exI [of _ "?v ?bs"] exI [of _ "?v (?bs @ [7, 7])"] exI [of _ "length ?bs"])
      (simp add: view_describes_accessors [OF d(1)] view_describes_accessors [OF d(2)])
qed

text \<open>
  C7. Views return what is on the wire. If \<open>data\<close> parses, it is the encoding of a transaction \<open>t\<close>, and
  every accessor that an unsanitized view has, the unchecked ones included, returns the part of \<open>t\<close> it names
  without a fault: the inner data and the data, the serialized message, the version, the signatures and their number, the
  header's number of required signatures and its two numbers of readonly accounts, the keys and their number,
  the blockhash, the collected instructions and lookups with their numbers, the numbers of writable and of
  readonly looked-up accounts, and the configuration, which exactly the v1 transactions have, with its mask
  and four fields.
\<close>

theorem view_accessors:
  assumes "valid_slice data" "TransactionView_try_new_unsanitized data = Ok v"
  shows "\<exists>t. enc_transaction t = data \<and> wf_transaction t
    \<and> tv_data v = data \<and> tv_data_slice v = Ok data
    \<and> tv_message_data v = Ok (enc_message (tx_message t))
    \<and> tv_version v = m_version (tx_message t)
    \<and> tv_signatures v = Ok (tx_signatures t)
    \<and> unat (tv_num_signatures v) = length (tx_signatures t)
    \<and> tv_num_required_signatures v = m_num_required_signatures (tx_message t)
    \<and> tv_num_readonly_signed_static_accounts v = m_num_readonly_signed (tx_message t)
    \<and> tv_num_readonly_unsigned_static_accounts v = m_num_readonly_unsigned (tx_message t)
    \<and> tv_static_account_keys v = Ok (m_account_keys (tx_message t))
    \<and> unat (tv_num_static_account_keys v) = length (m_account_keys (tx_message t))
    \<and> tv_recent_blockhash v = Ok (m_recent_blockhash (tx_message t))
    \<and> r_bind (tv_instructions_iter v) (\<lambda>it. instructions_try_fold it collect_body [])
        = Ok (m_instructions (tx_message t))
    \<and> unat (tv_num_instructions v) = length (m_instructions (tx_message t))
    \<and> r_bind (tv_address_table_lookup_iter v) (\<lambda>it. lookups_try_fold it collect_body [])
        = Ok (m_lookups (tx_message t))
    \<and> unat (tv_num_address_table_lookups v) = length (m_lookups (tx_message t))
    \<and> unat (tv_total_writable_lookup_accounts v) = total_writable (m_lookups (tx_message t))
    \<and> unat (tv_total_readonly_lookup_accounts v) = total_readonly (m_lookups (tx_message t))
    \<and> r_bind (tv_transaction_config v)
        (\<lambda>c. case c of None \<Rightarrow> Ok None | Some c' \<Rightarrow> r_bind (read_config c') (\<lambda>x. Ok (Some x)))
        = Ok (if m_version (tx_message t) = V1
              then Some (config_mask (m_config (tx_message t)), m_config (tx_message t)) else None)"
proof -
  obtain t where t: "view_describes v t" "tv_data v = data" "enc_transaction t = data"
    using assms try_new_unsanitized_iff by blast
  have "wf_transaction t" using t(1) by (simp add: view_describes_def)
  then show ?thesis
    using t(2,3) view_describes_accessors [OF t(1), unfolded tv_read_config_def tv_read_instructions_def tv_read_lookups_def]
    by (intro exI [of _ t]) simp
qed

theorem view_accessors_witness:
  "\<exists>v. TransactionView_try_new_unsanitized (enc_transaction example_transaction) = Ok v
     \<and> tv_data_slice v = Ok (enc_transaction example_transaction)"
proof -
  have "\<exists>v. TransactionView_try_new_unsanitized (enc_transaction example_transaction) = Ok v"
    using example_wf example_length example_fit example_valid(2)
    by (auto simp: TransactionView_try_new_unsanitized_def r_bind_Ok_iff TransactionFrame_try_new_iff
        example_transaction_def)
  then show ?thesis using view_accessors [OF example_valid(2)] by blast
qed

text \<open>
  C15. Parsing from the front of a longer buffer. For a well-formed transaction followed by arbitrary
  bytes, \<open>try_new_unsanitized_from_prefix\<close> returns a view of exactly that transaction and the number of
  bytes it occupies: the data of the view excludes the trailing bytes. (The 35 bytes per lookup that
  the parser asks for may come from the trailing bytes.)
\<close>

theorem from_prefix_roundtrip:
  assumes "valid_slice (enc_transaction t @ rest)" "wf_transaction t"
    and "length (enc_transaction t) \<le> 65535" "lookups_fit (tx_message t) (length rest)"
  shows "\<exists>v. TransactionView_try_new_unsanitized_from_prefix (enc_transaction t @ rest)
               = Ok (v, length (enc_transaction t))
           \<and> tv_data_slice v = Ok (enc_transaction t)
           \<and> tv_message_data v = Ok (enc_message (tx_message t))
           \<and> tv_signatures v = Ok (tx_signatures t)"
proof -
  let ?v = "\<lparr>tv_data = enc_transaction t @ rest, tv_frame = transaction_frame_of t\<rparr>"
  have sg: "seg (enc_transaction t @ rest) 0 (length (enc_transaction t)) (enc_transaction t)"
    by (simp add: seg_def)
  have d: "view_describes ?v t" using assms sg by (simp add: view_describes_def)
  obtain r where r: "tv_message ?v = Ok r" "ref_describes r (tx_message t)"
    using view_describes_message(2) [OF d] by blast
  show ?thesis
    using from_prefix_complete [OF assms(1,2) refl assms(3) sg] assms(4)
      view_describes_message(1) [OF d] view_describes_signatures(1) [OF d] ref_describes_data(5) [OF r(2)]
    by (intro exI [of _ ?v]) (simp add: tv_message_data_def r(1))
qed

theorem from_prefix_roundtrip_witness:
  "\<exists>v. TransactionView_try_new_unsanitized_from_prefix (enc_transaction example_transaction @ [1, 2, 3])
       = Ok (v, 211)
     \<and> tv_data_slice v = Ok (enc_transaction example_transaction)"
proof -
  have "valid_slice (enc_transaction example_transaction @ [1, 2, 3])"
    by (simp add: valid_slice_def example_length)
  moreover have "lookups_fit (tx_message example_transaction) (length [1, 2, 3 :: u8])"
    using example_fit by (simp add: lookups_fit_def example_transaction_def)
  ultimately show ?thesis
    using from_prefix_roundtrip [OF _ example_wf(2), of "[1, 2, 3]"] example_length(2)
    by (metis numeral_le_iff semiring_norm(68,71,72,73,76,77,78))
qed

section \<open>Replacing the blockhash\<close>

definition with_blockhash :: "transaction \<Rightarrow> bytes \<Rightarrow> transaction" where
  "with_blockhash t h = t\<lparr>tx_message := (tx_message t)\<lparr>m_recent_blockhash := h\<rparr>\<rparr>"

text \<open>The bytes before and after the blockhash in a message.\<close>

definition before_hash :: "message \<Rightarrow> bytes" where
  "before_hash m =
     (if m_version m = V1 then
        [V1_PREFIX, m_num_required_signatures m, m_num_readonly_signed m, m_num_readonly_unsigned m]
        @ le_bytes 4 (unat (config_mask (m_config m)))
      else
        enc_header (m_version m) (m_num_required_signatures m) (m_num_readonly_signed m)
          (m_num_readonly_unsigned m) @ enc_keys (m_account_keys m))"

definition after_hash :: "message \<Rightarrow> bytes" where
  "after_hash m =
     (if m_version m = V1 then
        [of_nat (length (m_instructions m)), of_nat (length (m_account_keys m))]
        @ concat (m_account_keys m) @ config_values (m_config m)
        @ enc_v1_instructions (m_instructions m)
      else
        enc_instructions (m_instructions m)
        @ (if m_version m = V0 then enc_atls (m_lookups m) else []))"

lemma enc_message_hash: "enc_message m = before_hash m @ m_recent_blockhash m @ after_hash m"
  by (simp add: enc_message_def before_hash_def after_hash_def enc_v1_prefix_def)

lemma hash_parts_update:
  "before_hash (m\<lparr>m_recent_blockhash := h\<rparr>) = before_hash m"
  "after_hash (m\<lparr>m_recent_blockhash := h\<rparr>) = after_hash m"
  by (simp_all add: before_hash_def after_hash_def)

lemma hash_offset:
  "wf_message m \<Longrightarrow>
   mf_recent_blockhash_offset (message_frame_of offset m) = of_nat (offset + length (before_hash m))"
  using length_enc_keys [of "m_account_keys m"]
  by (cases "m_version m")
    (simp_all add: message_frame_of_def Let_def before_hash_def length_enc_header wf_message_def
      algebra_simps)

lemma with_blockhash_wf:
  "wf_transaction t \<Longrightarrow> length h = 32 \<Longrightarrow> wf_transaction (with_blockhash t h)"
  by (auto simp: wf_transaction_def with_blockhash_def wf_message_def split: if_splits)

lemma with_blockhash_frame:
  assumes "wf_transaction t" "length h = 32"
  shows "transaction_frame_of (with_blockhash t h) = transaction_frame_of t"
proof -
  have "length (enc_message ((tx_message t)\<lparr>m_recent_blockhash := h\<rparr>)) = length (enc_message (tx_message t))"
    using assms by (simp add: enc_message_hash hash_parts_update wf_transaction_def wf_message_def)
  then show ?thesis
    by (simp add: transaction_frame_of_def with_blockhash_def signatures_start_def message_start_def
        enc_transaction_def message_frame_of_def Let_def)
qed

lemma enc_transaction_hash:
  assumes "wf_transaction t"
  obtains pre post where "\<And>h. enc_transaction (with_blockhash t h) = pre @ h @ post"
    "enc_transaction t = pre @ m_recent_blockhash (tx_message t) @ post"
    "mf_recent_blockhash_offset (tf_message (transaction_frame_of t)) = of_nat (length pre)"
proof -
  have wf: "wf_message (tx_message t)" using assms by (simp add: wf_transaction_def)
  have sl: "length (concat (tx_signatures t)) = 64 * length (tx_signatures t)"
    using assms by (intro length_concat_sigs) (simp add: wf_transaction_def)
  let ?s = "of_nat (length (tx_signatures t)) # concat (tx_signatures t)"
  let ?pre = "(if m_version (tx_message t) = V1 then [] else ?s) @ before_hash (tx_message t)"
  let ?post = "after_hash (tx_message t) @ (if m_version (tx_message t) = V1 then concat (tx_signatures t) else [])"
  show thesis
  proof (rule that)
    show "enc_transaction (with_blockhash t h) = ?pre @ h @ ?post" for h
      by (simp add: enc_transaction_def with_blockhash_def enc_message_hash hash_parts_update)
    show "enc_transaction t = ?pre @ m_recent_blockhash (tx_message t) @ ?post"
      by (simp add: enc_transaction_def enc_message_hash)
    show "mf_recent_blockhash_offset (tf_message (transaction_frame_of t)) = of_nat (length ?pre)"
      using sl by (simp add: transaction_frame_of_def hash_offset [OF wf] message_start_def)
  qed
qed

text \<open>
  C14. Replacing the recent blockhash. On a parsed view (trailing bytes allowed), \<open>set_recent_blockhash\<close>
  does not panic; the new view is a view of the same transaction with the new blockhash: signatures,
  keys, instructions, lookups and configuration are unchanged and the frame stays valid for the edited
  buffer.
\<close>

theorem set_recent_blockhash_correct:
  assumes "view_describes v t" "length h = size_of_Hash"
  shows "\<exists>v'. set_recent_blockhash v h = Ok v' \<and> view_describes v' (with_blockhash t h)
              \<and> length (tv_data v') = length (tv_data v)"
proof -
  have d: "wf_transaction t" "valid_slice (tv_data v)" "length (enc_transaction t) \<le> 65535"
      "seg (tv_data v) 0 (length (enc_transaction t)) (enc_transaction t)"
      "tv_frame v = transaction_frame_of t"
    using assms(1) by (simp_all add: view_describes_def)
  obtain pre post where p: "\<And>h. enc_transaction (with_blockhash t h) = pre @ h @ post"
      "enc_transaction t = pre @ m_recent_blockhash (tx_message t) @ post"
      "mf_recent_blockhash_offset (tf_message (transaction_frame_of t)) = of_nat (length pre)"
    by (rule enc_transaction_hash [OF d(1)]) blast
  have lh: "length (m_recent_blockhash (tx_message t)) = 32"
    using d(1) by (simp add: wf_transaction_def wf_message_def)
  obtain rest where data: "tv_data v = enc_transaction t @ rest"
    using d(4) by (metis append_take_drop_id seg_prefix)
  have o: "unat (of_nat (length pre) :: u16) = length pre"
    using d(3) p(2) by (intro unat_of_nat_u16) simp
  let ?v' = "v\<lparr>tv_data := enc_transaction (with_blockhash t h) @ rest\<rparr>"
  have "set_recent_blockhash v h = Ok ?v'"
    using assms(2) lh by (simp add: set_recent_blockhash_def Let_def d(5) p(3) o data p(1,2))
  moreover have len: "length (enc_transaction (with_blockhash t h)) = length (enc_transaction t)"
    using assms(2) lh by (simp add: p(1,2))
  moreover have "view_describes ?v' (with_blockhash t h)"
    using d(1,2,3,5) len with_blockhash_wf [OF d(1)] with_blockhash_frame [OF d(1)] assms(2)
    by (simp add: view_describes_def data valid_slice_def seg_def)
  ultimately show ?thesis by (intro exI [of _ ?v']) (simp add: data)
qed

theorem set_recent_blockhash_correct_witness:
  "\<exists>v'. set_recent_blockhash example_view (replicate 32 77) = Ok v'
      \<and> view_describes v' (with_blockhash example_transaction (replicate 32 77))"
  using set_recent_blockhash_correct [OF example_describes, of "replicate 32 77"] by auto

end
