(* ===== verification/Sanitize.thy ===== *)
theory Sanitize
  imports Views
begin

text \<open>
  \<open>sanitize.rs\<close> and the constructors of sanitized views. \<open>sane_message\<close> and \<open>sane_transaction\<close> state
  the constraints on the logical contents; the checks of the code, which run on the view with
  wrapping and saturating arithmetic, accept exactly the transactions and messages that satisfy
  them, report \<open>SanitizeError\<close> on the others, and never fault.
\<close>

section \<open>The checks\<close>

definition total_number_of_accounts :: "MessageViewRef \<Rightarrow> u16" where
  "total_number_of_accounts view =
     u16_saturating_add
       (u16_saturating_add (ucast (mf_num_static_account_keys (mr_message_frame view)))
          (mf_total_writable_lookup_accounts (mr_message_frame view)))
       (mf_total_readonly_lookup_accounts (mr_message_frame view))"

definition sanitize_transaction_size :: "TransactionView \<Rightarrow> unit tv_result" where
  "sanitize_transaction_size view =
     r_bind (tv_data_slice view) (\<lambda>data.
     if length data > PACKET_DATA_SIZE then Err SanitizeError else Ok ())"

definition sanitize_message_size :: "MessageViewRef \<Rightarrow> unit tv_result" where
  "sanitize_message_size view =
     r_bind (mr_data_slice view) (\<lambda>data.
     let signed_len =
       usize_wrapping_add
         (usize_wrapping_mul (unat (mf_num_required_signatures (mr_message_frame view)))
            size_of_Signature)
         (length data) in
     if usize_wrapping_add signed_len 1 > PACKET_DATA_SIZE then Err SanitizeError else Ok ())"

definition sanitize_message_header :: "MessageViewRef \<Rightarrow> unit tv_result" where
  "sanitize_message_header view =
     (let f = mr_message_frame view in
      if mf_num_required_signatures f < 1 then Err SanitizeError
      else if mf_num_readonly_signed_static_accounts f \<ge> mf_num_required_signatures f
      then Err SanitizeError
      else if mf_num_readonly_unsigned_static_accounts f
              > mf_num_static_account_keys f - mf_num_required_signatures f
      then Err SanitizeError
      else Ok ())"

definition sanitize_signatures :: "TransactionView \<Rightarrow> unit tv_result" where
  "sanitize_signatures view =
     (if tv_num_signatures view \<noteq> mf_num_required_signatures (tf_message (tv_frame view))
      then Err SanitizeError else Ok ())"

definition sanitize_required_signatures :: "MessageViewRef \<Rightarrow> unit tv_result" where
  "sanitize_required_signatures view =
     (if mf_num_static_account_keys (mr_message_frame view)
         < mf_num_required_signatures (mr_message_frame view)
      then Err SanitizeError else Ok ())"

definition sanitize_account_access :: "MessageViewRef \<Rightarrow> unit tv_result" where
  "sanitize_account_access view =
     (if (mf_version (mr_message_frame view) = Legacy \<or> mf_version (mr_message_frame view) = V0)
         \<and> total_number_of_accounts view > 256
      then Err SanitizeError else Ok ())"

definition check_account_index :: "u8 \<Rightarrow> u8 \<Rightarrow> unit tv_result" where
  "check_account_index max_account_index account_index =
     (if account_index > max_account_index then Err SanitizeError else Ok ())"

definition check_instruction :: "u8 \<Rightarrow> u8 \<Rightarrow> SVMInstruction \<Rightarrow> unit tv_result" where
  "check_instruction max_program_id_index max_account_index instruction =
     (if ix_program_id_index instruction > max_program_id_index then Err SanitizeError
      else if ix_program_id_index instruction = 0 then Err SanitizeError
      else list_try_fold (each_body (check_account_index max_account_index)) () (ix_accounts instruction))"

definition sanitize_instructions :: "MessageViewRef \<Rightarrow> unit tv_result" where
  "sanitize_instructions view =
     (let max_program_id_index = mf_num_static_account_keys (mr_message_frame view) - 1;
          max_account_index = ucast (total_number_of_accounts view - 1) in
      instructions_try_fold (mr_instructions_iter view)
        (each_body (check_instruction max_program_id_index max_account_index)) ())"

definition check_lookup :: "SVMMessageAddressTableLookup \<Rightarrow> unit tv_result" where
  "check_lookup address_table_lookup =
     (if atl_writable_indexes address_table_lookup = [] \<and> atl_readonly_indexes address_table_lookup = []
      then Err SanitizeError else Ok ())"

definition sanitize_address_table_lookups :: "MessageViewRef \<Rightarrow> unit tv_result" where
  "sanitize_address_table_lookups view =
     lookups_try_fold (mr_address_table_lookup_iter view) (each_body check_lookup) ()"

definition sanitize_message_body :: "MessageViewRef \<Rightarrow> unit tv_result" where
  "sanitize_message_body view =
     r_bind (sanitize_message_header view) (\<lambda>_.
     r_bind (sanitize_required_signatures view) (\<lambda>_.
     r_bind (sanitize_account_access view) (\<lambda>_.
     r_bind (sanitize_instructions view) (\<lambda>_.
     sanitize_address_table_lookups view))))"

definition sanitize :: "TransactionView \<Rightarrow> unit tv_result" where
  "sanitize view =
     r_bind (if tv_version view = Legacy \<or> tv_version view = V0
             then sanitize_transaction_size view else Ok ()) (\<lambda>_.
     r_bind (sanitize_signatures view) (\<lambda>_.
     r_bind (tv_message view) sanitize_message_body))"

definition sanitize_message :: "MessageViewRef \<Rightarrow> unit tv_result" where
  "sanitize_message view =
     r_bind (if mf_version (mr_message_frame view) = Legacy \<or> mf_version (mr_message_frame view) = V0
             then sanitize_message_size view else Ok ()) (\<lambda>_.
     sanitize_message_body view)"

section \<open>Constructors of sanitized views\<close>

definition TransactionView_sanitize :: "TransactionView \<Rightarrow> TransactionView tv_result" where
  "TransactionView_sanitize self =
     r_bind (sanitize self) (\<lambda>_. Ok \<lparr>tv_data = tv_data self, tv_frame = tv_frame self\<rparr>)"

definition TransactionView_try_new_sanitized :: "bytes \<Rightarrow> TransactionView tv_result" where
  "TransactionView_try_new_sanitized data =
     r_bind (TransactionView_try_new_unsanitized data) TransactionView_sanitize"

definition TransactionView_try_new_sanitized_from_prefix ::
  "bytes \<Rightarrow> (TransactionView \<times> usize) tv_result" where
  "TransactionView_try_new_sanitized_from_prefix data =
     r_bind (TransactionView_try_new_unsanitized_from_prefix data) (\<lambda>(unsanitized_view, consumed_len).
     r_bind (TransactionView_sanitize unsanitized_view) (\<lambda>view. Ok (view, consumed_len)))"

definition MessageView_sanitize :: "MessageView \<Rightarrow> MessageView tv_result" where
  "MessageView_sanitize self =
     r_bind (mv_message self) (\<lambda>view.
     r_bind (sanitize_message view) (\<lambda>_.
     Ok \<lparr>mv_data = mv_data self, mv_message_frame = mv_message_frame self\<rparr>))"

definition MessageView_try_new_sanitized :: "bytes \<Rightarrow> MessageView tv_result" where
  "MessageView_try_new_sanitized data =
     r_bind (MessageView_try_new_unsanitized data) MessageView_sanitize"

section \<open>The constraints on the contents\<close>

definition num_accounts :: "message \<Rightarrow> nat" where
  "num_accounts m =
     length (m_account_keys m) + total_writable (m_lookups m) + total_readonly (m_lookups m)"

definition sane_instruction :: "message \<Rightarrow> SVMInstruction \<Rightarrow> bool" where
  "sane_instruction m ix \<longleftrightarrow>
     0 < unat (ix_program_id_index ix) \<and> unat (ix_program_id_index ix) < length (m_account_keys m)
   \<and> (\<forall>i \<in> set (ix_accounts ix). unat i < num_accounts m)"

definition sane_header :: "message \<Rightarrow> bool" where
  "sane_header m \<longleftrightarrow>
     (let req = unat (m_num_required_signatures m) in
      unat (m_num_readonly_signed m) < req \<and> req \<le> length (m_account_keys m)
      \<and> req + unat (m_num_readonly_unsigned m) \<le> length (m_account_keys m))"

definition nonempty_lookup :: "SVMMessageAddressTableLookup \<Rightarrow> bool" where
  "nonempty_lookup a \<longleftrightarrow> atl_writable_indexes a \<noteq> [] \<or> atl_readonly_indexes a \<noteq> []"

definition sane_message :: "message \<Rightarrow> bool" where
  "sane_message m \<longleftrightarrow>
     sane_header m
   \<and> (m_version m \<noteq> V1 \<longrightarrow> num_accounts m \<le> 256)
   \<and> list_all (sane_instruction m) (m_instructions m)
   \<and> list_all nonempty_lookup (m_lookups m)"

definition sane_transaction :: "transaction \<Rightarrow> bool" where
  "sane_transaction t \<longleftrightarrow>
     (m_version (tx_message t) \<noteq> V1 \<longrightarrow> length (enc_transaction t) \<le> PACKET_DATA_SIZE)
   \<and> length (tx_signatures t) = unat (m_num_required_signatures (tx_message t))
   \<and> sane_message (tx_message t)"

section \<open>The checks decide the constraints\<close>

lemma u16_saturating_add_min: "unat (u16_saturating_add a b) = min (unat a + unat b) 65535"
proof (cases "unat a + unat b < 65536")
  case True
  then have "unat (a + b) = unat a + unat b" by (simp add: unat_word_ariths)
  with True show ?thesis by (simp add: u16_saturating_add_def)
qed (simp add: u16_saturating_add_def)

lemma total_number_of_accounts_eq:
  assumes "ref_describes r m"
  shows "unat (total_number_of_accounts r) = min (num_accounts m) 65535"
  using describes_counts [OF assms [unfolded ref_describes_def]]
  by (simp add: total_number_of_accounts_def u16_saturating_add_min num_accounts_def)

lemma sanitize_header_iff:
  assumes "ref_describes r m"
  shows "r_bind (sanitize_message_header r) (\<lambda>_. r_bind (sanitize_required_signatures r) f)
       = (if sane_header m then f () else Err SanitizeError)"
proof -
  note d = assms [unfolded ref_describes_def]
  let ?f = "mr_message_frame r"
  note h = describes_header [OF d] and c = describes_counts [OF d]
  have sub: "unat (mf_num_static_account_keys ?f - mf_num_required_signatures ?f)
      = length (m_account_keys m) - unat (m_num_required_signatures m)"
    if "unat (m_num_required_signatures m) \<le> length (m_account_keys m)"
    using that c(1) h(2) by (simp add: unat_sub word_le_nat_alt)
  define req ros rou k where "req = unat (m_num_required_signatures m)"
    and "ros = unat (m_num_readonly_signed m)" and "rou = unat (m_num_readonly_unsigned m)"
    and "k = length (m_account_keys m)"
  note defs = req_def [symmetric] ros_def [symmetric] rou_def [symmetric] k_def [symmetric]
  have hdr: "sanitize_message_header r =
      (if req = 0 \<or> req \<le> ros \<or> unat (mf_num_static_account_keys ?f - mf_num_required_signatures ?f) < rou
       then Err SanitizeError else Ok ())"
    by (simp add: sanitize_message_header_def Let_def h word_less_nat_alt word_le_nat_alt defs)
  have rs: "sanitize_required_signatures r = (if k < req then Err SanitizeError else Ok ())"
    by (simp add: sanitize_required_signatures_def h word_less_nat_alt c(1) defs)
  have sane: "sane_header m \<longleftrightarrow> ros < req \<and> req \<le> k \<and> req + rou \<le> k"
    by (simp add: sane_header_def Let_def defs)
  show ?thesis
  proof (cases "k < req")
    case True
    then show ?thesis by (simp add: hdr rs sane)
  next
    case False
    then have "unat (mf_num_static_account_keys ?f - mf_num_required_signatures ?f) = k - req"
      using sub by (simp add: defs)
    with False show ?thesis by (auto simp: hdr rs sane)
  qed
qed

lemma check_account_index_all:
  "list_try_fold (each_body (check_account_index mx)) () xs
     = (if \<forall>i \<in> set xs. unat i \<le> unat mx then Ok () else Err SanitizeError)"
proof -
  have "list_try_fold (each_body (check_account_index mx)) () xs
     = (if \<forall>i \<in> set xs. check_account_index mx i = Ok () then Ok () else Err SanitizeError)"
    by (rule list_try_fold_each_err) (simp add: check_account_index_def)
  then show ?thesis by (simp add: check_account_index_def word_less_nat_alt not_less)
qed

lemma check_instruction_eq:
  "check_instruction mp ma ix =
     (if unat (ix_program_id_index ix) \<le> unat mp \<and> 0 < unat (ix_program_id_index ix)
         \<and> (\<forall>i \<in> set (ix_accounts ix). unat i \<le> unat ma) then Ok () else Err SanitizeError)"
  by (auto simp: check_instruction_def check_account_index_all word_less_nat_alt unat_gt_0)

lemma max_account_index:
  assumes d: "ref_describes r m" and n: "1 \<le> num_accounts m" "num_accounts m \<le> 256"
  shows "unat (ucast (total_number_of_accounts r - 1) :: u8) = num_accounts m - 1"
proof -
  have t: "unat (total_number_of_accounts r) = num_accounts m"
    using total_number_of_accounts_eq [OF d] n(2) by simp
  then have "1 \<le> total_number_of_accounts r" using n(1) by (simp add: word_le_nat_alt)
  then have "unat (total_number_of_accounts r - 1) = num_accounts m - 1"
    using t by (simp add: unat_sub)
  then show ?thesis
    using n by (simp add: unsigned_ucast_eq take_bit_nat_eq_self)
qed

lemma sanitize_instructions_eq:
  assumes d: "ref_describes r m" and k: "1 \<le> length (m_account_keys m)" and n: "num_accounts m \<le> 256"
  shows "sanitize_instructions r
       = (if list_all (sane_instruction m) (m_instructions m) then Ok () else Err SanitizeError)"
proof -
  let ?mp = "mf_num_static_account_keys (mr_message_frame r) - 1"
    and ?ma = "ucast (total_number_of_accounts r - 1) :: u8"
  have n1: "1 \<le> num_accounts m" using k by (simp add: num_accounts_def)
  have c: "unat (mf_num_static_account_keys (mr_message_frame r)) = length (m_account_keys m)"
    using describes_counts(1) [OF d [unfolded ref_describes_def]] .
  then have "1 \<le> mf_num_static_account_keys (mr_message_frame r)" using k by (simp add: word_le_nat_alt)
  then have mp: "unat ?mp = length (m_account_keys m) - 1" using c by (simp add: unat_sub)
  have le: "x \<le> j - 1 \<longleftrightarrow> x < j" if "1 \<le> j" for x j :: nat using that by linarith
  have chk: "check_instruction ?mp ?ma ix = (if sane_instruction m ix then Ok () else Err SanitizeError)" for ix
    unfolding check_instruction_eq mp max_account_index [OF d n1 n] le [OF k] le [OF n1]
    by (simp add: sane_instruction_def conj_commute)
  have "sanitize_instructions r = list_try_fold (each_body (check_instruction ?mp ?ma)) () (m_instructions m)"
    using ref_describes_data(3) [OF d]
    by (simp add: sanitize_instructions_def Let_def instructions_iter.try_fold_remaining)
  also have "\<dots> = (if \<forall>ix \<in> set (m_instructions m). check_instruction ?mp ?ma ix = Ok () then Ok ()
      else Err SanitizeError)"
    by (rule list_try_fold_each_err) (simp add: chk)
  finally show ?thesis by (simp add: chk list_all_iff)
qed

lemma sanitize_lookups_eq:
  assumes d: "ref_describes r m"
  shows "sanitize_address_table_lookups r
       = (if list_all nonempty_lookup (m_lookups m) then Ok () else Err SanitizeError)"
proof -
  have "sanitize_address_table_lookups r = list_try_fold (each_body check_lookup) () (m_lookups m)"
    using ref_describes_data(4) [OF d]
    by (simp add: sanitize_address_table_lookups_def lookups_iter.try_fold_remaining)
  also have "\<dots> = (if \<forall>a \<in> set (m_lookups m). check_lookup a = Ok () then Ok () else Err SanitizeError)"
    by (rule list_try_fold_each_err) (simp add: check_lookup_def)
  finally show ?thesis by (auto simp: check_lookup_def list_all_iff nonempty_lookup_def)
qed

lemma V1_num_accounts: "wf_message m \<Longrightarrow> m_version m = V1 \<Longrightarrow> num_accounts m \<le> 256"
  by (simp add: wf_message_def num_accounts_def total_writable_def total_readonly_def)

lemma sanitize_account_access_eq:
  assumes "ref_describes r m"
  shows "sanitize_account_access r
       = (if m_version m \<noteq> V1 \<longrightarrow> num_accounts m \<le> 256 then Ok () else Err SanitizeError)"
  using total_number_of_accounts_eq [OF assms] describes_header(1) [OF assms [unfolded ref_describes_def]]
  by (cases "m_version m") (auto simp: sanitize_account_access_def word_less_nat_alt)

lemma sanitize_message_body_eq:
  assumes d: "ref_describes r m"
  shows "sanitize_message_body r = (if sane_message m then Ok () else Err SanitizeError)"
proof (cases "sane_header m \<and> (m_version m \<noteq> V1 \<longrightarrow> num_accounts m \<le> 256)")
  case True
  have wf: "wf_message m" using describes_wf d by (auto simp: ref_describes_def)
  have k: "1 \<le> length (m_account_keys m)" using True by (auto simp: sane_header_def Let_def)
  have n: "num_accounts m \<le> 256" using True V1_num_accounts [OF wf] by auto
  show ?thesis
    using True
    by (simp add: sanitize_message_body_def sanitize_header_iff [OF d] sanitize_account_access_eq [OF d]
        sanitize_instructions_eq [OF d k n] sanitize_lookups_eq [OF d] sane_message_def)
next
  case False
  then show ?thesis
    by (auto simp: sanitize_message_body_def sanitize_header_iff [OF d] sanitize_account_access_eq [OF d]
        sane_message_def)
qed

lemma sanitize_eq:
  assumes d: "view_describes v t"
  shows "sanitize v = (if sane_transaction t then Ok () else Err SanitizeError)"
proof -
  let ?m = "tx_message t"
  obtain r where r: "tv_message v = Ok r" "ref_describes r ?m" "mr_message_frame r = tf_message (tv_frame v)"
    using view_describes_message(2) [OF d] by blast
  note h = describes_header [OF r(2) [unfolded ref_describes_def], unfolded r(3)]
  have v: "tv_version v = m_version ?m" using h(1) by (simp add: tv_version_def)
  have size: "sanitize_transaction_size v
      = (if length (enc_transaction t) \<le> PACKET_DATA_SIZE then Ok () else Err SanitizeError)"
    by (simp add: sanitize_transaction_size_def view_describes_message(1) [OF d])
  have sigs: "sanitize_signatures v
      = (if length (tx_signatures t) = unat (m_num_required_signatures ?m) then Ok () else Err SanitizeError)"
    using view_describes_signatures(2) [OF d] h(2)
    by (auto simp: sanitize_signatures_def word_unat_eq_iff)
  show ?thesis
    by (cases "m_version ?m")
      (simp_all add: sanitize_def v size sigs r(1) sanitize_message_body_eq [OF r(2)] sane_transaction_def)
qed

section \<open>Sanitized constructors\<close>

lemma nonempty_lookup_length:
  assumes "wf_atl a" "nonempty_lookup a"
  shows "35 \<le> length (enc_atl a)"
proof -
  have "0 < length (atl_writable_indexes a) + length (atl_readonly_indexes a)"
    using assms(2) by (auto simp: nonempty_lookup_def)
  then show ?thesis
    using assms(1) enc_compact_u16_length_pos [of "length (atl_writable_indexes a)"]
      enc_compact_u16_length_pos [of "length (atl_readonly_indexes a)"]
    unfolding enc_atl_def wf_atl_def length_append by linarith
qed

lemma nonempty_lookups_length:
  "list_all wf_atl as \<Longrightarrow> list_all nonempty_lookup as \<Longrightarrow>
   35 * length as \<le> length (concat (map enc_atl as))"
proof (induction as)
  case (Cons a as)
  then show ?case using nonempty_lookup_length [of a] by simp
qed simp

lemma sane_lookups_fit:
  assumes "wf_message m" "sane_message m"
  shows "lookups_fit m n"
proof -
  have "list_all wf_atl (m_lookups m)"
    using assms(1) by (auto simp: wf_message_def wf_atls_def split: if_splits)
  moreover have "list_all nonempty_lookup (m_lookups m)"
    using assms(2) by (simp add: sane_message_def)
  ultimately show ?thesis using nonempty_lookups_length [of "m_lookups m"] by (simp add: lookups_fit_def)
qed

lemma TransactionView_sanitize_eq:
  "view_describes v t \<Longrightarrow>
   TransactionView_sanitize v = (if sane_transaction t then Ok v else Err SanitizeError)"
  by (simp add: TransactionView_sanitize_def sanitize_eq)

lemma try_new_sanitized_iff:
  assumes vs: "valid_slice data"
  shows "TransactionView_try_new_sanitized data = Ok v \<longleftrightarrow>
    (\<exists>t. view_describes v t \<and> tv_data v = data \<and> enc_transaction t = data \<and> sane_transaction t)"
    (is "?L \<longleftrightarrow> ?R")
proof
  assume ?L
  then obtain u where u: "TransactionView_try_new_unsanitized data = Ok u" "TransactionView_sanitize u = Ok v"
    by (auto simp: TransactionView_try_new_sanitized_def r_bind_Ok_iff)
  then obtain t where t: "view_describes u t" "tv_data u = data" "enc_transaction t = data"
    using try_new_unsanitized_iff [OF vs] by blast
  with u(2) show ?R by (auto simp: TransactionView_sanitize_eq split: if_splits)
next
  assume ?R
  then obtain t where t: "view_describes v t" "tv_data v = data" "enc_transaction t = data" "sane_transaction t"
    by blast
  then have "lookups_fit (tx_message t) 0"
    by (intro sane_lookups_fit) (simp_all add: view_describes_def wf_transaction_def sane_transaction_def)
  then have "TransactionView_try_new_unsanitized data = Ok v" using t try_new_unsanitized_iff [OF vs] by blast
  with t show ?L by (simp add: TransactionView_try_new_sanitized_def TransactionView_sanitize_eq)
qed

lemma try_new_sanitized_no_fault:
  assumes vs: "valid_slice data"
  shows "no_fault (TransactionView_try_new_sanitized data)"
  unfolding TransactionView_try_new_sanitized_def
proof (rule no_fault_r_bind [OF try_new_unsanitized_no_fault [OF vs]])
  fix v assume "TransactionView_try_new_unsanitized data = Ok v"
  then obtain t where "view_describes v t" using try_new_unsanitized_iff [OF vs] by blast
  then show "no_fault (TransactionView_sanitize v)" by (simp add: TransactionView_sanitize_eq)
qed

subsection \<open>Bare messages\<close>

definition signed_length :: "message \<Rightarrow> nat" where
  "signed_length m = 1 + 64 * unat (m_num_required_signatures m) + length (enc_message m)"

definition sane_bare_message :: "message \<Rightarrow> bool" where
  "sane_bare_message m \<longleftrightarrow>
     (m_version m \<noteq> V1 \<longrightarrow> signed_length m \<le> PACKET_DATA_SIZE) \<and> sane_message m"

lemma MessageView_sanitize_eq:
  assumes d: "message_view_describes v m"
  shows "MessageView_sanitize v = (if sane_bare_message m then Ok v else Err SanitizeError)"
proof -
  obtain r where r: "mv_message v = Ok r" "ref_describes r m"
    using message_view_describes_message [OF d] by blast
  note h = describes_header [OF r(2) [unfolded ref_describes_def]]
  have len: "length (enc_message m) \<le> 65535" using d by (simp add: message_view_describes_def)
  define req where "req = unat (m_num_required_signatures m)"
  then have req: "req \<le> 255" by simp
  have size: "sanitize_message_size r
      = (if signed_length m \<le> PACKET_DATA_SIZE then Ok () else Err SanitizeError)"
    using len req
    by (simp add: sanitize_message_size_def ref_describes_data(5) [OF r(2)] Let_def h signed_length_def
        mult.commute flip: req_def)
  show ?thesis
    by (cases "m_version m")
      (simp_all add: MessageView_sanitize_def r(1) sanitize_message_def h size
        sanitize_message_body_eq [OF r(2)] sane_bare_message_def)
qed

lemma message_try_new_sanitized_iff:
  assumes vs: "valid_slice data"
  shows "MessageView_try_new_sanitized data = Ok v \<longleftrightarrow>
    (\<exists>m. message_view_describes v m \<and> mv_data v = data \<and> sane_bare_message m)"
    (is "?L \<longleftrightarrow> ?R")
proof
  assume ?L
  then obtain u where u: "MessageView_try_new_unsanitized data = Ok u" "MessageView_sanitize u = Ok v"
    by (auto simp: MessageView_try_new_sanitized_def r_bind_Ok_iff)
  then obtain m where m: "message_view_describes u m" "mv_data u = data"
    using message_view_try_new_iff [OF vs] by blast
  with u(2) show ?R by (auto simp: MessageView_sanitize_eq split: if_splits)
next
  assume ?R
  then obtain m where m: "message_view_describes v m" "mv_data v = data" "sane_bare_message m" by blast
  then have "lookups_fit m 0"
    by (intro sane_lookups_fit) (simp_all add: message_view_describes_def sane_bare_message_def)
  then have "MessageView_try_new_unsanitized data = Ok v" using m message_view_try_new_iff [OF vs] by blast
  with m show ?L by (simp add: MessageView_try_new_sanitized_def MessageView_sanitize_eq)
qed

section \<open>Methods of sanitized views\<close>

lemma sane_header_bounds:
  assumes "sane_header m"
  shows "unat (m_num_readonly_signed m) < unat (m_num_required_signatures m)"
    "unat (m_num_required_signatures m) + unat (m_num_readonly_unsigned m) \<le> length (m_account_keys m)"
    "unat (m_num_readonly_signed m) + unat (m_num_readonly_unsigned m) \<le> length (m_account_keys m)"
  using assms by (simp_all add: sane_header_def Let_def)

lemma sane_num_accounts: "wf_message m \<Longrightarrow> sane_message m \<Longrightarrow> num_accounts m \<le> 256"
  using V1_num_accounts by (auto simp: sane_message_def)

lemma program_body_fold:
  "list_all (\<lambda>ix. unat (ix_program_id_index ix) < length keys) ixs \<Longrightarrow>
   list_try_fold (program_body keys) acc ixs
     = Ok (acc @ map (\<lambda>ix. (keys ! unat (ix_program_id_index ix), ix)) ixs)"
  by (induction ixs arbitrary: acc) (simp_all add: program_body_def index_list_def)

lemma sane_program_instructions:
  assumes d: "ref_describes r m" and s: "sane_message m"
  shows "mr_program_instructions r
       = Ok (map (\<lambda>ix. (m_account_keys m ! unat (ix_program_id_index ix), ix)) (m_instructions m))"
proof -
  have "list_all (\<lambda>ix. unat (ix_program_id_index ix) < length (m_account_keys m)) (m_instructions m)"
    using s by (auto simp: sane_message_def sane_instruction_def list_all_iff)
  then show ?thesis
    by (simp add: mr_program_instructions_def ref_describes_data [OF d] program_body_fold
        instructions_iter.try_fold_remaining [OF ref_describes_data(3) [OF d]])
qed

lemma u8_diff: "unat b \<le> unat a \<Longrightarrow> unat (a - b) = unat a - unat b" for a b :: u8
  by (simp add: unat_sub word_le_nat_alt)

lemma sane_account_counts:
  assumes d: "ref_describes r m" and s: "sane_header m"
  shows "unat (mr_num_writable_signed_static_accounts r)
           = unat (m_num_required_signatures m) - unat (m_num_readonly_signed m)"
    and "unat (mr_num_writable_unsigned_static_accounts r)
           = length (m_account_keys m) - unat (m_num_required_signatures m)
             - unat (m_num_readonly_unsigned m)"
proof -
  note h = describes_header [OF d [unfolded ref_describes_def]]
    and c = describes_counts [OF d [unfolded ref_describes_def]] and b = sane_header_bounds [OF s]
  show "unat (mr_num_writable_signed_static_accounts r)
      = unat (m_num_required_signatures m) - unat (m_num_readonly_signed m)"
    using b(1) by (simp add: mr_num_writable_signed_static_accounts_def h u8_diff)
  have "unat (mr_num_static_unsigned_static_accounts r)
      = length (m_account_keys m) - unat (m_num_required_signatures m)"
    using b(2) c(1) by (simp add: mr_num_static_unsigned_static_accounts_def h u8_diff)
  then show "unat (mr_num_writable_unsigned_static_accounts r)
      = length (m_account_keys m) - unat (m_num_required_signatures m) - unat (m_num_readonly_unsigned m)"
    using b(2) by (simp add: mr_num_writable_unsigned_static_accounts_def h u8_diff)
qed

lemma sane_total_num_accounts:
  assumes d: "ref_describes r m" and n: "num_accounts m \<le> 256"
  shows "unat (mr_total_num_accounts r) = num_accounts m"
proof -
  note c = describes_counts [OF d [unfolded ref_describes_def]]
  show ?thesis
    using n by (simp add: mr_total_num_accounts_def unat_word_ariths c num_accounts_def)
qed

section \<open>Properties of sanitization\<close>

lemma from_prefix_sanitized_no_fault:
  assumes vs: "valid_slice data"
  shows "no_fault (TransactionView_try_new_sanitized_from_prefix data)"
  unfolding TransactionView_try_new_sanitized_from_prefix_def
proof (rule no_fault_r_bind, goal_cases)
  case 1
  show ?case
    using prefix_no_fault [OF vs]
    by (auto simp: TransactionView_try_new_unsanitized_from_prefix_def intro!: no_fault_r_bind)
next
  case (2 x)
  obtain v n where x: "x = (v, n)" by (cases x)
  with 2 have p: "TransactionView_try_new_unsanitized_from_prefix data = Ok (v, n)" by simp
  obtain t where "view_describes v t" by (rule from_prefix_sound [OF vs p])
  then show ?case by (simp add: x TransactionView_sanitize_eq)
qed

lemma message_sanitized_no_fault:
  assumes vs: "valid_slice data"
  shows "no_fault (MessageView_try_new_sanitized data)"
  unfolding MessageView_try_new_sanitized_def
proof (rule no_fault_r_bind, goal_cases)
  case 1
  show ?case
    using MessageFrame_try_new_no_fault [OF vs]
    by (auto simp: MessageView_try_new_unsanitized_def intro!: no_fault_r_bind)
next
  case (2 v)
  then obtain m where "message_view_describes v m" using message_view_try_new_iff [OF vs] by blast
  then show ?case by (simp add: MessageView_sanitize_eq)
qed

lemma example_sane: "sane_message example_message" "sane_transaction example_transaction"
  using example_length
  by (simp_all add: sane_transaction_def sane_message_def sane_header_def sane_instruction_def
      nonempty_lookup_def num_accounts_def total_writable_def total_readonly_def
      example_transaction_def example_message_def)

text \<open>
  C2. Memory safety of the parsing and sanitizing entry points: on every byte slice (at most
  \<open>isize::MAX\<close> bytes, as every Rust slice) each constructor returns a view or an error. No input makes an
  \<open>unsafe\<close> read leave the buffer, an index or slice expression panic, or the \<open>unreachable!\<close> and
  \<open>assert!\<close> of the parser fire.
\<close>

theorem constructors_never_fault:
  assumes "valid_slice data"
  shows "no_fault (TransactionFrame_try_new data)
       \<and> no_fault (TransactionFrame_try_new_from_prefix data)
       \<and> no_fault (MessageFrame_try_new data)
       \<and> no_fault (TransactionView_try_new_sanitized data)
       \<and> no_fault (TransactionView_try_new_sanitized_from_prefix data)
       \<and> no_fault (MessageView_try_new_sanitized data)"
proof -
  have "no_fault (TransactionFrame_try_new data)"
    using prefix_no_fault [OF assms] by (auto simp: TransactionFrame_try_new_def intro!: no_fault_r_bind)
  then show ?thesis
    using assms prefix_no_fault MessageFrame_try_new_no_fault try_new_sanitized_no_fault
      from_prefix_sanitized_no_fault message_sanitized_no_fault by blast
qed

theorem constructors_never_fault_witness:
  "no_fault (TransactionView_try_new_sanitized [0x81, 255, 255]) \<and> no_fault (MessageFrame_try_new [0x80])"
  using constructors_never_fault [of "[0x81, 255, 255]"] constructors_never_fault [of "[0x80]"]
  by (simp add: valid_slice_def)

text \<open>
  C5. Sanitization decides the documented constraints. For a parsed view of the transaction \<open>t\<close>,
  \<open>sanitize\<close> accepts iff \<open>t\<close> is sane (packet size for legacy and v0, one signature per required signer,
  a writable fee payer, no overlap of the signed and readonly-unsigned ranges, at most 256 accounts for
  legacy and v0, program indexes that are static keys other than the fee payer, account indexes in
  range, no empty lookup) and otherwise returns \<open>SanitizeError\<close>. The wrapping, saturating and narrowing
  arithmetic of the checks does not change the verdict.
\<close>

theorem sanitize_verdict:
  assumes "view_describes v t"
  shows "TransactionView_sanitize v = (if sane_transaction t then Ok v else Err SanitizeError)"
  using assms by (rule TransactionView_sanitize_eq)

theorem sanitize_verdict_witness: "TransactionView_sanitize example_view = Ok example_view"
  using sanitize_verdict [OF example_describes] example_sane(2) by simp

text \<open>
  C3. What \<open>try_new_sanitized\<close> accepts: exactly the encodings of sane well-formed transactions of at
  most 65535 bytes. In particular the parser's demand of 35 bytes per lookup never rejects a sane
  transaction.
\<close>

theorem try_new_sanitized_accepts:
  assumes "valid_slice data"
  shows "is_ok (TransactionView_try_new_sanitized data) \<longleftrightarrow>
    (\<exists>t. wf_transaction t \<and> enc_transaction t = data \<and> length data \<le> 65535 \<and> sane_transaction t)"
proof
  assume "is_ok (TransactionView_try_new_sanitized data)"
  then obtain v where "TransactionView_try_new_sanitized data = Ok v"
    by (cases "TransactionView_try_new_sanitized data") auto
  then show "\<exists>t. wf_transaction t \<and> enc_transaction t = data \<and> length data \<le> 65535 \<and> sane_transaction t"
    unfolding try_new_sanitized_iff [OF assms] by (auto simp: view_describes_def)
next
  assume "\<exists>t. wf_transaction t \<and> enc_transaction t = data \<and> length data \<le> 65535 \<and> sane_transaction t"
  then obtain t where t: "wf_transaction t" "enc_transaction t = data" "length data \<le> 65535"
      "sane_transaction t" by blast
  then have "TransactionView_try_new_sanitized data
      = Ok \<lparr>tv_data = data, tv_frame = transaction_frame_of t\<rparr>"
    unfolding try_new_sanitized_iff [OF assms] using exact_view_describes [OF t(1)] by auto
  then show "is_ok (TransactionView_try_new_sanitized data)" by simp
qed

theorem try_new_sanitized_accepts_witness:
  "is_ok (TransactionView_try_new_sanitized (enc_transaction example_transaction))"
  using try_new_sanitized_accepts [OF example_valid(2)] example_wf(2) example_sane(2) example_length(2)
  by auto

lemma signed_transaction_length:
  "sized size_of_Signature (tx_signatures t) \<Longrightarrow>
   length (tx_signatures t) = unat (m_num_required_signatures (tx_message t)) \<Longrightarrow>
   length (enc_transaction t)
     = (if m_version (tx_message t) = V1 then signed_length (tx_message t) - 1
        else signed_length (tx_message t))"
  using length_concat_sigs [of "tx_signatures t"] by (simp add: enc_transaction_def signed_length_def)

lemma message_accepts_iff:
  assumes wf: "wf_message m" and len: "length (enc_message m) \<le> 65535"
  shows "is_ok (MessageView_try_new_sanitized (enc_message m)) \<longleftrightarrow> sane_bare_message m"
proof -
  let ?v = "\<lparr>mv_data = enc_message m, mv_message_frame = message_frame_of 0 m\<rparr>"
  have vs: "valid_slice (enc_message m)" using len by (simp add: valid_slice_def)
  have d: "message_view_describes ?v m" using wf len by (simp add: message_view_describes_def)
  have uniq: "m' = m" if "message_view_describes v m'" "mv_data v = enc_message m" for v m'
    using that wf len enc_message_inject [of m' m] by (simp add: message_view_describes_def)
  show ?thesis
  proof
    assume "is_ok (MessageView_try_new_sanitized (enc_message m))"
    then obtain v where "MessageView_try_new_sanitized (enc_message m) = Ok v"
      by (cases "MessageView_try_new_sanitized (enc_message m)") auto
    then show "sane_bare_message m"
      unfolding message_try_new_sanitized_iff [OF vs] using uniq by blast
  next
    assume "sane_bare_message m"
    then have "MessageView_try_new_sanitized (enc_message m) = Ok ?v"
      unfolding message_try_new_sanitized_iff [OF vs] using d by auto
    then show "is_ok (MessageView_try_new_sanitized (enc_message m))" by simp
  qed
qed

lemma transaction_accepts_iff:
  assumes wf: "wf_transaction t" and len: "length (enc_transaction t) \<le> 65535"
  shows "is_ok (TransactionView_try_new_sanitized (enc_transaction t)) \<longleftrightarrow> sane_transaction t"
proof -
  have vs: "valid_slice (enc_transaction t)" using len by (simp add: valid_slice_def)
  show ?thesis
  proof
    assume "is_ok (TransactionView_try_new_sanitized (enc_transaction t))"
    then obtain v where "TransactionView_try_new_sanitized (enc_transaction t) = Ok v"
      by (cases "TransactionView_try_new_sanitized (enc_transaction t)") auto
    then obtain t' where t': "view_describes v t'" "enc_transaction t' = enc_transaction t" "sane_transaction t'"
      unfolding try_new_sanitized_iff [OF vs] by blast
    then have "t' = t"
      using enc_transaction_inject [of t' t] wf len by (simp add: view_describes_def)
    with t'(3) show "sane_transaction t" by simp
  next
    assume "sane_transaction t"
    then have "TransactionView_try_new_sanitized (enc_transaction t)
        = Ok \<lparr>tv_data = enc_transaction t, tv_frame = transaction_frame_of t\<rparr>"
      unfolding try_new_sanitized_iff [OF vs] using exact_view_describes [OF wf len] by auto
    then show "is_ok (TransactionView_try_new_sanitized (enc_transaction t))" by simp
  qed
qed

text \<open>
  C13. Sanitizing a bare message agrees with sanitizing the transaction formed by signing it. Let \<open>t\<close>
  be a well-formed transaction with one signature per required signature that fits the 16-bit
  offsets of the parser (65535 bytes; every sane legacy or v0 transaction does). Then the message of
  \<open>t\<close> is accepted on its own iff \<open>t\<close> is accepted.
\<close>

theorem message_sanitize_agrees:
  assumes "wf_transaction t" "length (tx_signatures t) = unat (m_num_required_signatures (tx_message t))"
    and "length (enc_transaction t) \<le> 65535"
  shows "is_ok (MessageView_try_new_sanitized (enc_message (tx_message t))) \<longleftrightarrow>
         is_ok (TransactionView_try_new_sanitized (enc_transaction t))"
proof -
  have wf: "wf_message (tx_message t)" "sized size_of_Signature (tx_signatures t)"
    using assms(1) by (simp_all add: wf_transaction_def)
  have len: "length (enc_message (tx_message t)) \<le> 65535"
    using assms(3) by (simp add: enc_transaction_def split: if_splits)
  have "sane_bare_message (tx_message t) \<longleftrightarrow> sane_transaction t"
    using signed_transaction_length [OF wf(2) assms(2)] assms(2)
    by (auto simp: sane_bare_message_def sane_transaction_def)
  then show ?thesis
    using message_accepts_iff [OF wf(1) len] transaction_accepts_iff [OF assms(1,3)] by simp
qed

theorem message_sanitize_agrees_witness:
  "is_ok (MessageView_try_new_sanitized (enc_message example_message)) \<longleftrightarrow>
   is_ok (TransactionView_try_new_sanitized (enc_transaction example_transaction))"
proof -
  have "length (tx_signatures example_transaction)
      = unat (m_num_required_signatures (tx_message example_transaction))"
    "tx_message example_transaction = example_message"
    by (simp_all add: example_transaction_def example_message_def)
  then show ?thesis using message_sanitize_agrees [OF example_wf(2)] example_length(2) by simp
qed

end
