(* ===== verification/SVM_Message.thy ===== *)
theory SVM_Message
  imports Sanitize
begin

text \<open>
  The trait \<open>SVMStaticMessage\<close>, through which the runtime reads a sanitized message or transaction.
  The trait is a record of methods, each \<open>impl\<close> block of the sources (for \<open>TransactionView\<close>, for its
  reference, for \<open>MessageView\<close>; \<open>ResolvedTransactionView\<close> in its own theory) a value of it. The
  locale \<open>svm_static_message\<close> states what an implementation promises about the message it views:
  no method faults and each returns the corresponding part of the message. What the runtime relies on
  (the fee payer is a writable signer that no instruction invokes, programs are static keys) is
  proved once in the locale and holds for every implementation.
\<close>

section \<open>The trait\<close>

text \<open>The version type of the trait, \<open>solana_transaction::versioned::TransactionVersion\<close>.\<close>

datatype VersionedTransactionVersion = LEGACY | Number u8

definition TransactionVersion_into :: "TransactionVersion \<Rightarrow> VersionedTransactionVersion" where
  "TransactionVersion_into version =
     (case version of Legacy \<Rightarrow> LEGACY | V0 \<Rightarrow> Number 0 | V1 \<Rightarrow> Number 1)"

record 'v SVMStaticMessage =
  svm_version :: "'v \<Rightarrow> VersionedTransactionVersion"
  svm_num_transaction_signatures :: "'v \<Rightarrow> u64"
  svm_num_write_locks :: "'v \<Rightarrow> u64 tv_result"
  svm_num_readonly_signed_static_accounts :: "'v \<Rightarrow> u8"
  svm_num_readonly_unsigned_static_accounts :: "'v \<Rightarrow> u8"
  svm_recent_blockhash :: "'v \<Rightarrow> bytes tv_result"
  svm_num_instructions :: "'v \<Rightarrow> usize"
  svm_instructions_iter :: "'v \<Rightarrow> InstructionsIterator tv_result"
  svm_program_instructions :: "'v \<Rightarrow> (bytes \<times> SVMInstruction) list tv_result"
  svm_static_account_keys :: "'v \<Rightarrow> bytes list tv_result"
  svm_fee_payer :: "'v \<Rightarrow> bytes tv_result"
  svm_num_lookup_tables :: "'v \<Rightarrow> usize"
  svm_message_address_table_lookups :: "'v \<Rightarrow> AddressTableLookupIterator tv_result"
  svm_is_signer :: "'v \<Rightarrow> usize \<Rightarrow> bool"
  svm_is_invoked :: "'v \<Rightarrow> usize \<Rightarrow> bool tv_result"

text \<open>\<open>u8::try_from(key_index)\<close>, then a search of the instructions.\<close>

definition is_invoked_in :: "InstructionsIterator tv_result \<Rightarrow> usize \<Rightarrow> bool tv_result" where
  "is_invoked_in iter key_index =
     (if key_index \<le> 255 then
        let index = of_nat key_index in
        r_bind iter (\<lambda>it.
        instructions_try_fold it (any_body (\<lambda>ix. ix_program_id_index ix = index)) False)
      else Ok False)"

section \<open>The implementations\<close>

definition TransactionView_SVMStaticMessage :: "TransactionView SVMStaticMessage" where
  "TransactionView_SVMStaticMessage =
     \<lparr>svm_version = (\<lambda>self. TransactionVersion_into (tv_version self)),
      svm_num_transaction_signatures = (\<lambda>self. ucast (tv_num_required_signatures self)),
      svm_num_write_locks = tv_num_requested_write_locks,
      svm_num_readonly_signed_static_accounts = tv_num_readonly_signed_static_accounts,
      svm_num_readonly_unsigned_static_accounts = tv_num_readonly_unsigned_static_accounts,
      svm_recent_blockhash = tv_recent_blockhash,
      svm_num_instructions = (\<lambda>self. unat (tv_num_instructions self)),
      svm_instructions_iter = tv_instructions_iter,
      svm_program_instructions = tv_program_instructions,
      svm_static_account_keys = tv_static_account_keys,
      svm_fee_payer = (\<lambda>self. r_bind (tv_static_account_keys self) (\<lambda>keys. index_list keys 0)),
      svm_num_lookup_tables = (\<lambda>self. unat (tv_num_address_table_lookups self)),
      svm_message_address_table_lookups = tv_address_table_lookup_iter,
      svm_is_signer = (\<lambda>self index. index < unat (tv_num_required_signatures self)),
      svm_is_invoked = (\<lambda>self. is_invoked_in (tv_instructions_iter self))\<rparr>"

text \<open>The implementation for a reference forwards every method.\<close>

definition TransactionViewRef_SVMStaticMessage :: "TransactionView SVMStaticMessage" where
  "TransactionViewRef_SVMStaticMessage =
     \<lparr>svm_version = svm_version TransactionView_SVMStaticMessage,
      svm_num_transaction_signatures = svm_num_transaction_signatures TransactionView_SVMStaticMessage,
      svm_num_write_locks = svm_num_write_locks TransactionView_SVMStaticMessage,
      svm_num_readonly_signed_static_accounts =
        svm_num_readonly_signed_static_accounts TransactionView_SVMStaticMessage,
      svm_num_readonly_unsigned_static_accounts =
        svm_num_readonly_unsigned_static_accounts TransactionView_SVMStaticMessage,
      svm_recent_blockhash = svm_recent_blockhash TransactionView_SVMStaticMessage,
      svm_num_instructions = svm_num_instructions TransactionView_SVMStaticMessage,
      svm_instructions_iter = svm_instructions_iter TransactionView_SVMStaticMessage,
      svm_program_instructions = svm_program_instructions TransactionView_SVMStaticMessage,
      svm_static_account_keys = svm_static_account_keys TransactionView_SVMStaticMessage,
      svm_fee_payer = svm_fee_payer TransactionView_SVMStaticMessage,
      svm_num_lookup_tables = svm_num_lookup_tables TransactionView_SVMStaticMessage,
      svm_message_address_table_lookups =
        svm_message_address_table_lookups TransactionView_SVMStaticMessage,
      svm_is_signer = svm_is_signer TransactionView_SVMStaticMessage,
      svm_is_invoked = svm_is_invoked TransactionView_SVMStaticMessage\<rparr>"

definition MessageView_SVMStaticMessage :: "MessageView SVMStaticMessage" where
  "MessageView_SVMStaticMessage =
     \<lparr>svm_version = (\<lambda>self. TransactionVersion_into (mv_version self)),
      svm_num_transaction_signatures = (\<lambda>self. ucast (mv_num_required_signatures self)),
      svm_num_write_locks = mv_num_requested_write_locks,
      svm_num_readonly_signed_static_accounts = mv_num_readonly_signed_static_accounts,
      svm_num_readonly_unsigned_static_accounts = mv_num_readonly_unsigned_static_accounts,
      svm_recent_blockhash = mv_recent_blockhash,
      svm_num_instructions = (\<lambda>self. unat (mv_num_instructions self)),
      svm_instructions_iter = mv_instructions_iter,
      svm_program_instructions = mv_program_instructions,
      svm_static_account_keys = mv_static_account_keys,
      svm_fee_payer = (\<lambda>self. r_bind (mv_static_account_keys self) (\<lambda>keys. index_list keys 0)),
      svm_num_lookup_tables = (\<lambda>self. unat (mv_num_address_table_lookups self)),
      svm_message_address_table_lookups = mv_address_table_lookup_iter,
      svm_is_signer = (\<lambda>self index. index < unat (mv_num_required_signatures self)),
      svm_is_invoked = (\<lambda>self. is_invoked_in (mv_instructions_iter self))\<rparr>"

text \<open>\<open>SVMStaticTransaction::signature\<close>.\<close>

definition tv_signature :: "TransactionView \<Rightarrow> bytes tv_result" where
  "tv_signature self = r_bind (tv_signatures self) (\<lambda>signatures. index_list signatures 0)"

section \<open>Writable accounts\<close>

text \<open>
  The accounts a message asks to write: the writable signers come first among the signers, the
  writable non-signers first among the other static keys, then the writable lookups.
\<close>

definition requested_writable :: "message \<Rightarrow> nat \<Rightarrow> bool" where
  "requested_writable m i \<longleftrightarrow>
     (let req = unat (m_num_required_signatures m); k = length (m_account_keys m) in
      i < req - unat (m_num_readonly_signed m)
      \<or> req \<le> i \<and> i < k - unat (m_num_readonly_unsigned m)
      \<or> k \<le> i \<and> i < k + total_writable (m_lookups m))"

lemma card_requested_writable:
  assumes "sane_header m"
  shows "card {i. i < num_accounts m \<and> requested_writable m i}
       = length (m_account_keys m) - unat (m_num_readonly_signed m) - unat (m_num_readonly_unsigned m)
         + total_writable (m_lookups m)"
proof -
  define req ros rou k tw where "req = unat (m_num_required_signatures m)"
    and "ros = unat (m_num_readonly_signed m)" and "rou = unat (m_num_readonly_unsigned m)"
    and "k = length (m_account_keys m)" and "tw = total_writable (m_lookups m)"
  note defs = req_def [symmetric] ros_def [symmetric] rou_def [symmetric] k_def [symmetric] tw_def [symmetric]
  have b: "ros < req" "req + rou \<le> k" using sane_header_bounds [OF assms] by (simp_all add: defs)
  have set: "{i. i < num_accounts m \<and> requested_writable m i}
      = {0..<req - ros} \<union> ({req..<k - rou} \<union> {k..<k + tw})"
    using b by (auto simp: requested_writable_def num_accounts_def Let_def defs)
  have "card ({0..<req - ros} \<union> ({req..<k - rou} \<union> {k..<k + tw}))
      = card {0..<req - ros} + (card {req..<k - rou} + card {k..<k + tw})"
    using b by (subst card_Un_disjoint; (subst card_Un_disjoint)?; auto)
  then show ?thesis unfolding set defs using b by simp
qed

lemma write_locks_count:
  assumes d: "ref_describes r m" and h: "sane_header m" and n: "num_accounts m \<le> 256"
  shows "unat (mr_num_requested_write_locks r) = card {i. i < num_accounts m \<and> requested_writable m i}"
proof -
  note hd = describes_header [OF d [unfolded ref_describes_def]]
    and c = describes_counts [OF d [unfolded ref_describes_def]] and b = sane_header_bounds [OF h]
  let ?f = "mr_message_frame r"
  let ?s = "mf_num_static_account_keys ?f - m_num_readonly_signed m - m_num_readonly_unsigned m"
  have u1: "unat (mf_num_static_account_keys ?f - m_num_readonly_signed m)
      = length (m_account_keys m) - unat (m_num_readonly_signed m)"
    using b c(1) by (simp add: u8_diff)
  then have u2: "unat ?s
      = length (m_account_keys m) - unat (m_num_readonly_signed m) - unat (m_num_readonly_unsigned m)"
    using b u8_diff [of "m_num_readonly_unsigned m" "mf_num_static_account_keys ?f - m_num_readonly_signed m"]
    by simp
  have "unat ((ucast ?s :: u16) + mf_total_writable_lookup_accounts ?f)
      = unat ?s + total_writable (m_lookups m)"
    using n c(4) u2 by (simp add: unat_word_ariths num_accounts_def)
  then show ?thesis
    unfolding card_requested_writable [OF h]
    using n u2 by (simp add: mr_num_requested_write_locks_def hd num_accounts_def unsigned_ucast_eq
        take_bit_nat_eq_self)
qed

lemma is_invoked_remaining:
  assumes "it = Ok i" "instructions_remaining i ixs"
  shows "is_invoked_in it key_index = Ok (\<exists>ix \<in> set ixs. unat (ix_program_id_index ix) = key_index)"
proof (cases "key_index \<le> 255")
  case True
  then have u: "unat (of_nat key_index :: u8) = key_index" by (simp add: unat_of_nat_u8)
  then have "ix_program_id_index ix = of_nat key_index \<longleftrightarrow> unat (ix_program_id_index ix) = key_index"
    for ix :: SVMInstruction by (metis word_unat_eq_iff)
  with True assms show ?thesis
    by (simp add: is_invoked_in_def Let_def list_try_fold_any instructions_iter.try_fold_remaining [OF assms(2)])
next
  case False
  then have "unat (ix_program_id_index ix) \<noteq> key_index" for ix :: SVMInstruction
    using unat_u8_bound(2) [of "ix_program_id_index ix"] by linarith
  with False show ?thesis by (simp add: is_invoked_in_def)
qed

section \<open>The contract\<close>

locale svm_static_message =
  fixes impl :: "'v SVMStaticMessage"
    and describes :: "'v \<Rightarrow> message \<Rightarrow> bool"
  assumes views_sane: "describes v m \<Longrightarrow> wf_message m \<and> sane_message m"
    and version: "describes v m \<Longrightarrow> svm_version impl v = TransactionVersion_into (m_version m)"
    and num_transaction_signatures: "describes v m \<Longrightarrow>
      svm_num_transaction_signatures impl v = ucast (m_num_required_signatures m)"
    and num_write_locks: "describes v m \<Longrightarrow> svm_num_write_locks impl v
      = Ok (of_nat (card {i. i < num_accounts m \<and> requested_writable m i}))"
    and num_readonly: "describes v m \<Longrightarrow>
      svm_num_readonly_signed_static_accounts impl v = m_num_readonly_signed m
      \<and> svm_num_readonly_unsigned_static_accounts impl v = m_num_readonly_unsigned m"
    and recent_blockhash: "describes v m \<Longrightarrow> svm_recent_blockhash impl v = Ok (m_recent_blockhash m)"
    and num_instructions: "describes v m \<Longrightarrow> svm_num_instructions impl v = length (m_instructions m)"
    and instructions_iter: "describes v m \<Longrightarrow>
      \<exists>it. svm_instructions_iter impl v = Ok it \<and> instructions_remaining it (m_instructions m)"
    and program_instructions: "describes v m \<Longrightarrow> svm_program_instructions impl v
      = Ok (map (\<lambda>ix. (m_account_keys m ! unat (ix_program_id_index ix), ix)) (m_instructions m))"
    and static_account_keys: "describes v m \<Longrightarrow> svm_static_account_keys impl v = Ok (m_account_keys m)"
    and fee_payer: "describes v m \<Longrightarrow> svm_fee_payer impl v = Ok (m_account_keys m ! 0)"
    and num_lookup_tables: "describes v m \<Longrightarrow> svm_num_lookup_tables impl v = length (m_lookups m)"
    and address_table_lookups: "describes v m \<Longrightarrow>
      \<exists>it. svm_message_address_table_lookups impl v = Ok it \<and> lookups_remaining it (m_lookups m)"
    and is_signer: "describes v m \<Longrightarrow> svm_is_signer impl v i \<longleftrightarrow> i < unat (m_num_required_signatures m)"
    and is_invoked: "describes v m \<Longrightarrow>
      svm_is_invoked impl v i = Ok (\<exists>ix \<in> set (m_instructions m). unat (ix_program_id_index ix) = i)"
begin

lemma program_index_range:
  assumes "describes v m" "ix \<in> set (m_instructions m)"
  shows "0 < unat (ix_program_id_index ix)" "unat (ix_program_id_index ix) < length (m_account_keys m)"
  using views_sane [OF assms(1)] assms(2) by (auto simp: sane_message_def sane_instruction_def list_all_iff)

lemma fee_payer_contract:
  assumes "describes v m"
  shows "svm_fee_payer impl v = Ok (m_account_keys m ! 0) \<and> svm_is_signer impl v 0
         \<and> requested_writable m 0 \<and> svm_is_invoked impl v 0 = Ok False"
proof -
  have "sane_header m" using views_sane [OF assms] by (simp add: sane_message_def)
  then have "0 < unat (m_num_required_signatures m)"
    "0 < unat (m_num_required_signatures m) - unat (m_num_readonly_signed m)"
    by (auto dest: sane_header_bounds(1))
  then show ?thesis
    using fee_payer [OF assms] is_signer [OF assms] is_invoked [OF assms] program_index_range(1) [OF assms]
    by (auto simp: requested_writable_def Let_def)
qed

lemma programs_contract:
  assumes "describes v m"
  shows "\<exists>keys pis. svm_static_account_keys impl v = Ok keys \<and> svm_program_instructions impl v = Ok pis
    \<and> map snd pis = m_instructions m
    \<and> (\<forall>(pid, ix) \<in> set pis. \<exists>i. 0 < i \<and> i < length keys \<and> keys ! i = pid \<and> svm_is_invoked impl v i = Ok True)"
proof -
  have "\<exists>i > 0. i < length (m_account_keys m) \<and> m_account_keys m ! i = m_account_keys m ! unat (ix_program_id_index ix)
      \<and> svm_is_invoked impl v i = Ok True" if "ix \<in> set (m_instructions m)" for ix
    using program_index_range [OF assms that] is_invoked [OF assms, of "unat (ix_program_id_index ix)"] that
    by (intro exI [of _ "unat (ix_program_id_index ix)"]) auto
  then show ?thesis
    using static_account_keys [OF assms] program_instructions [OF assms] by (auto simp: comp_def)
qed

end

section \<open>The views satisfy the contract\<close>

definition sane_view_of :: "TransactionView \<Rightarrow> message \<Rightarrow> bool" where
  "sane_view_of v m \<longleftrightarrow> (\<exists>t. view_describes v t \<and> sane_transaction t \<and> tx_message t = m)"

definition sane_message_view_of :: "MessageView \<Rightarrow> message \<Rightarrow> bool" where
  "sane_message_view_of v m \<longleftrightarrow> message_view_describes v m \<and> sane_bare_message m"

lemma sane_keys_nonempty: "sane_header m \<Longrightarrow> 0 < length (m_account_keys m)"
  using sane_header_bounds [of m] by linarith

lemma sane_ref_facts:
  assumes d: "ref_describes r m" and s: "sane_message m"
  shows "wf_message m" "mr_num_requested_write_locks r
      = of_nat (card {i. i < num_accounts m \<and> requested_writable m i})"
    "index_list (m_account_keys m) 0 = Ok (m_account_keys m ! 0)"
proof -
  show wf: "wf_message m" using d describes_wf by (auto simp: ref_describes_def)
  have h: "sane_header m" using s by (simp add: sane_message_def)
  show "mr_num_requested_write_locks r = of_nat (card {i. i < num_accounts m \<and> requested_writable m i})"
    unfolding write_locks_count [OF d h sane_num_accounts [OF wf s], symmetric] by simp
  show "index_list (m_account_keys m) 0 = Ok (m_account_keys m ! 0)"
    using sane_keys_nonempty [OF h] by (simp add: index_list_def)
qed

lemmas tv_methods = tv_version_def tv_num_required_signatures_def
  tv_num_readonly_signed_static_accounts_def tv_num_readonly_unsigned_static_accounts_def
  tv_num_instructions_def tv_num_address_table_lookups_def tv_static_account_keys_def
  tv_recent_blockhash_def tv_instructions_iter_def tv_address_table_lookup_iter_def
  tv_program_instructions_def tv_num_requested_write_locks_def

lemmas mv_methods = mv_version_def mv_num_required_signatures_def
  mv_num_readonly_signed_static_accounts_def mv_num_readonly_unsigned_static_accounts_def
  mv_num_instructions_def mv_num_address_table_lookups_def mv_static_account_keys_def
  mv_recent_blockhash_def mv_instructions_iter_def mv_address_table_lookup_iter_def
  mv_program_instructions_def mv_num_requested_write_locks_def

text \<open>Every implementation forwards its methods to a borrowed view of the message.\<close>

definition forwards :: "'v SVMStaticMessage \<Rightarrow> 'v \<Rightarrow> MessageViewRef \<Rightarrow> bool" where
  "forwards impl v r \<longleftrightarrow> (let f = mr_message_frame r in
     svm_version impl v = TransactionVersion_into (mf_version f)
   \<and> svm_num_transaction_signatures impl v = ucast (mf_num_required_signatures f)
   \<and> svm_num_write_locks impl v = Ok (mr_num_requested_write_locks r)
   \<and> svm_num_readonly_signed_static_accounts impl v = mf_num_readonly_signed_static_accounts f
   \<and> svm_num_readonly_unsigned_static_accounts impl v = mf_num_readonly_unsigned_static_accounts f
   \<and> svm_recent_blockhash impl v = mr_recent_blockhash r
   \<and> svm_num_instructions impl v = unat (mf_num_instructions f)
   \<and> svm_instructions_iter impl v = Ok (mr_instructions_iter r)
   \<and> svm_program_instructions impl v = mr_program_instructions r
   \<and> svm_static_account_keys impl v = mr_static_account_keys r
   \<and> svm_fee_payer impl v = r_bind (mr_static_account_keys r) (\<lambda>keys. index_list keys 0)
   \<and> svm_num_lookup_tables impl v = unat (mf_num_address_table_lookups f)
   \<and> svm_message_address_table_lookups impl v = Ok (mr_address_table_lookup_iter r)
   \<and> svm_is_signer impl v = (\<lambda>i. i < unat (mf_num_required_signatures f))
   \<and> svm_is_invoked impl v = is_invoked_in (Ok (mr_instructions_iter r)))"

lemma forwards_contract:
  assumes "\<And>v m. describes v m \<Longrightarrow> \<exists>r. ref_describes r m \<and> sane_message m \<and> forwards impl v r"
  shows "svm_static_message impl describes"
proof unfold_locales
  fix v m i
  assume "describes v m"
  then obtain r where d: "ref_describes r m" and s: "sane_message m" and f: "forwards impl v r"
    using assms by blast
  note h = describes_header [OF d [unfolded ref_describes_def]]
    and c = describes_counts [OF d [unfolded ref_describes_def]] and x = ref_describes_data [OF d]
  note f = f [unfolded forwards_def Let_def]
  show "wf_message m \<and> sane_message m" using sane_ref_facts(1) [OF d s] s by simp
  show "svm_version impl v = TransactionVersion_into (m_version m)"
    "svm_num_transaction_signatures impl v = ucast (m_num_required_signatures m)"
    "svm_num_readonly_signed_static_accounts impl v = m_num_readonly_signed m
      \<and> svm_num_readonly_unsigned_static_accounts impl v = m_num_readonly_unsigned m"
    "svm_recent_blockhash impl v = Ok (m_recent_blockhash m)"
    "svm_num_instructions impl v = length (m_instructions m)"
    "svm_static_account_keys impl v = Ok (m_account_keys m)"
    "svm_num_lookup_tables impl v = length (m_lookups m)"
    "svm_is_signer impl v i \<longleftrightarrow> i < unat (m_num_required_signatures m)"
    using f by (simp_all add: h c x)
  show "svm_num_write_locks impl v = Ok (of_nat (card {i. i < num_accounts m \<and> requested_writable m i}))"
    using f by (simp add: sane_ref_facts(2) [OF d s])
  show "\<exists>it. svm_instructions_iter impl v = Ok it \<and> instructions_remaining it (m_instructions m)"
    "\<exists>it. svm_message_address_table_lookups impl v = Ok it \<and> lookups_remaining it (m_lookups m)"
    using f x(3,4) by simp_all
  show "svm_program_instructions impl v
      = Ok (map (\<lambda>ix. (m_account_keys m ! unat (ix_program_id_index ix), ix)) (m_instructions m))"
    using f by (simp add: sane_program_instructions [OF d s])
  show "svm_fee_payer impl v = Ok (m_account_keys m ! 0)"
    using f by (simp add: x(1) sane_ref_facts(3) [OF d s])
  show "svm_is_invoked impl v i = Ok (\<exists>ix \<in> set (m_instructions m). unat (ix_program_id_index ix) = i)"
    using f by (simp add: is_invoked_remaining [OF refl x(3)])
qed

lemma tv_forwards:
  "tv_message v = Ok r \<Longrightarrow> mr_message_frame r = tf_message (tv_frame v) \<Longrightarrow>
   forwards TransactionView_SVMStaticMessage v r"
  by (simp add: forwards_def TransactionView_SVMStaticMessage_def tv_methods)

lemma sane_view_ref:
  assumes "sane_view_of v m"
  shows "\<exists>r. tv_message v = Ok r \<and> ref_describes r m \<and> sane_message m
             \<and> mr_message_frame r = tf_message (tv_frame v)"
  using assms view_describes_message(2) by (fastforce simp: sane_view_of_def sane_transaction_def)

interpretation tv_svm: svm_static_message TransactionView_SVMStaticMessage sane_view_of
  by (rule forwards_contract) (use sane_view_ref tv_forwards in blast)

interpretation tv_ref_svm: svm_static_message TransactionViewRef_SVMStaticMessage sane_view_of
proof -
  have "TransactionViewRef_SVMStaticMessage = TransactionView_SVMStaticMessage"
    by (simp add: TransactionViewRef_SVMStaticMessage_def)
  then show "svm_static_message TransactionViewRef_SVMStaticMessage sane_view_of"
    using tv_svm.svm_static_message_axioms by simp
qed

interpretation mv_svm: svm_static_message MessageView_SVMStaticMessage sane_message_view_of
proof (rule forwards_contract)
  fix v m assume "sane_message_view_of v m"
  then have d: "message_view_describes v m" "sane_message m"
    by (simp_all add: sane_message_view_of_def sane_bare_message_def)
  then obtain r where r: "mv_message v = Ok r" "ref_describes r m" "mr_message_frame r = mv_message_frame v"
    using message_view_describes_message by blast
  then have "forwards MessageView_SVMStaticMessage v r"
    by (simp add: forwards_def MessageView_SVMStaticMessage_def mv_methods)
  with r d show "\<exists>r. ref_describes r m \<and> sane_message m \<and> forwards MessageView_SVMStaticMessage v r"
    by blast
qed

section \<open>Properties of sanitized transactions\<close>

lemma sanitized_sane_view:
  assumes "valid_slice data" "TransactionView_try_new_sanitized data = Ok v"
  shows "\<exists>m. sane_view_of v m"
  using assms(2) unfolding try_new_sanitized_iff [OF assms(1)] by (auto simp: sane_view_of_def)

lemma example_sane_view: "sane_view_of example_view example_message"
  unfolding sane_view_of_def
  by (rule exI [of _ example_transaction])
    (use example_describes example_sane(2) in \<open>simp add: example_transaction_def\<close>)

text \<open>
  C11. The fee payer of a sanitized transaction. Whatever bytes \<open>try_new_sanitized\<close> accepted, the view
  has a first static key, which is the fee payer; account 0 is a signer, is among the accounts
  requested writable, and is not invoked as a program; the first signature exists.
\<close>

theorem fee_payer_writable_signer:
  assumes "valid_slice data" "TransactionView_try_new_sanitized data = Ok v"
  shows "\<exists>m. sane_view_of v m \<and> requested_writable m 0
       \<and> svm_fee_payer TransactionView_SVMStaticMessage v = Ok (m_account_keys m ! 0)
       \<and> svm_is_signer TransactionView_SVMStaticMessage v 0
       \<and> svm_is_invoked TransactionView_SVMStaticMessage v 0 = Ok False
       \<and> (\<exists>s. tv_signature v = Ok s)"
proof -
  obtain m where m: "sane_view_of v m" using sanitized_sane_view [OF assms] by blast
  then obtain t where t: "view_describes v t" "sane_transaction t" "tx_message t = m"
    by (auto simp: sane_view_of_def)
  have "0 < length (tx_signatures t)"
    using t(2,3) sane_header_bounds(1) [of m] by (auto simp: sane_transaction_def sane_message_def)
  then have "\<exists>s. tv_signature v = Ok s"
    by (simp add: tv_signature_def view_describes_signatures(1) [OF t(1)] index_list_def)
  with m tv_svm.fee_payer_contract [OF m] show ?thesis by blast
qed

theorem fee_payer_writable_signer_witness:
  "\<exists>v. TransactionView_try_new_sanitized (enc_transaction example_transaction) = Ok v
     \<and> svm_is_signer TransactionView_SVMStaticMessage v 0"
proof -
  have "TransactionView_try_new_sanitized (enc_transaction example_transaction) = Ok example_view"
    unfolding try_new_sanitized_iff [OF example_valid(2)]
    using example_describes example_sane(2) by (auto simp: example_view_def)
  then show ?thesis using fee_payer_writable_signer [OF example_valid(2)] by blast
qed

text \<open>
  C10. Programs of a sanitized transaction. The iterator over the instructions paired with their
  program ids never panics on its index into the static keys: it yields every instruction of the
  message in order, each with a static key of index at least one, and \<open>is_invoked\<close> holds for that index.
\<close>

theorem program_instructions_safe:
  assumes "valid_slice data" "TransactionView_try_new_sanitized data = Ok v"
  shows "\<exists>m keys pis. sane_view_of v m
    \<and> tv_static_account_keys v = Ok keys \<and> tv_program_instructions v = Ok pis
    \<and> map snd pis = m_instructions m
    \<and> (\<forall>(pid, ix) \<in> set pis. \<exists>i. 0 < i \<and> i < length keys \<and> keys ! i = pid
          \<and> svm_is_invoked TransactionView_SVMStaticMessage v i = Ok True)"
proof -
  obtain m where m: "sane_view_of v m" using sanitized_sane_view [OF assms] by blast
  from tv_svm.programs_contract [OF m] m show ?thesis
    by (simp add: TransactionView_SVMStaticMessage_def) blast
qed

theorem program_instructions_safe_witness:
  "\<exists>v pis. TransactionView_try_new_sanitized (enc_transaction example_transaction) = Ok v
     \<and> tv_program_instructions v = Ok pis"
proof -
  have "TransactionView_try_new_sanitized (enc_transaction example_transaction) = Ok example_view"
    unfolding try_new_sanitized_iff [OF example_valid(2)]
    using example_describes example_sane(2) by (auto simp: example_view_def)
  then show ?thesis using program_instructions_safe [OF example_valid(2)] by blast
qed

text \<open>
  C12. The number of requested write locks of a sanitized transaction is the number of its accounts
  that are requested writable: the wrapping subtractions on u8 and the wrapping addition on u16 do not
  wrap. The total number of accounts is exact too and at most 256.
\<close>

theorem write_locks_exact:
  assumes "sane_view_of v m"
  shows "\<exists>locks n. tv_num_requested_write_locks v = Ok locks
       \<and> unat locks = card {i. i < num_accounts m \<and> requested_writable m i}
       \<and> tv_total_num_accounts v = Ok n \<and> unat n = num_accounts m \<and> num_accounts m \<le> 256"
proof -
  obtain r where r: "tv_message v = Ok r" "ref_describes r m" "sane_message m"
    using sane_view_ref [OF assms] by blast
  have n: "num_accounts m \<le> 256" by (rule sane_num_accounts [OF sane_ref_facts(1) [OF r(2,3)] r(3)])
  have h: "sane_header m" using r(3) by (simp add: sane_message_def)
  show ?thesis
    using write_locks_count [OF r(2) h n] sane_total_num_accounts [OF r(2) n] n
    by (simp add: tv_num_requested_write_locks_def tv_total_num_accounts_def r(1))
qed

theorem write_locks_exact_witness:
  "\<exists>locks. tv_num_requested_write_locks example_view = Ok locks \<and> unat locks = 2"
proof -
  have "card {i. i < num_accounts example_message \<and> requested_writable example_message i} = 2"
    using card_requested_writable [of example_message] example_sane(1)
    by (simp add: sane_message_def) (simp add: example_message_def total_writable_def)
  then show ?thesis using write_locks_exact [OF example_sane_view] by auto
qed

end
