(* ===== verification/Resolved_View.thy ===== *)
theory Resolved_View
  imports SVM_Message
begin

text \<open>
  \<open>resolved_transaction_view.rs\<close>: a sanitized transaction with its address lookups resolved and a
  cache of which of its accounts are writable. Code outside the repository is a parameter:
  \<open>keys_iter\<close> is \<open>AccountKeys::new_with_loaded_addresses_view(..).iter()\<close>, \<open>loaded\<close> is
  \<open>LoadedAddressesView::from\<close> and \<open>loader_id\<close> is \<open>bpf_loader_upgradeable::ID\<close>. What is assumed of
  \<open>keys_iter\<close> is its documented order (\<open>account_keys_order\<close>): the static keys, then the writable, then
  the readonly loaded addresses. \<open>writable_account\<close> specifies writability; the cache that the two
  loops build is proved to be its table.
\<close>

section \<open>Data\<close>

record LoadedAddressesView =
  la_writable :: "bytes list"
  la_readonly :: "bytes list"

type_synonym keys_iter = "bytes list \<Rightarrow> LoadedAddressesView option \<Rightarrow> bytes list"

record 'a ResolvedTransactionView =
  rv_view :: TransactionView
  rv_resolved_addresses :: "'a option"
  rv_writable_cache :: "bool list"

definition set_index :: "'a list \<Rightarrow> usize \<Rightarrow> 'a \<Rightarrow> 'a list tv_result" where
  "set_index xs i v = (if i < length xs then Ok (xs[i := v]) else Panic)"

section \<open>The cache of writable accounts\<close>

text \<open>The value of the block \<open>is_requested_write\<close> for an index.\<close>

definition is_requested_write :: "usize \<Rightarrow> usize \<Rightarrow> usize \<Rightarrow> usize \<Rightarrow> usize \<Rightarrow> usize \<Rightarrow> bool" where
  "is_requested_write num_static_account_keys num_writable_lookup_accounts num_signed_accounts
     num_writable_unsigned_static_accounts num_writable_signed_static_accounts index =
     (if index \<ge> num_static_account_keys then
        let loaded_address_index = usize_wrapping_sub index num_static_account_keys in
        loaded_address_index < num_writable_lookup_accounts
      else if index \<ge> num_signed_accounts then
        let unsigned_account_index = usize_wrapping_sub index num_signed_accounts in
        unsigned_account_index < num_writable_unsigned_static_accounts
      else index < num_writable_signed_static_accounts)"

text \<open>The loop over \<open>account_keys.iter().enumerate()\<close>.\<close>

fun cache_keys_loop ::
  "(usize \<Rightarrow> bool) \<Rightarrow> bytes set \<Rightarrow> usize \<Rightarrow> bytes list \<Rightarrow> bool list \<Rightarrow> bool list tv_result" where
  "cache_keys_loop requested reserved_account_keys index [] is_writable_cache =
     Ok is_writable_cache"
| "cache_keys_loop requested reserved_account_keys index (key # keys) is_writable_cache =
     r_bind (set_index is_writable_cache index
               (requested index \<and> key \<notin> reserved_account_keys)) (\<lambda>is_writable_cache.
     cache_keys_loop requested reserved_account_keys (Suc index) keys is_writable_cache)"

text \<open>
  The body of the loop over the instructions; the accumulator is the cache and the lazily computed
  \<open>is_upgradable_loader_present\<close>.
\<close>

definition program_cache_body ::
  "bytes \<Rightarrow> bytes list \<Rightarrow> bool list \<times> bool option \<Rightarrow> SVMInstruction \<Rightarrow>
   (bool list \<times> bool option) flow tv_result" where
  "program_cache_body loader_id account_keys acc ix =
     (case acc of (is_writable_cache, is_upgradable_loader_present) \<Rightarrow>
      let program_id_index = unat (ix_program_id_index ix) in
      r_bind (index_list is_writable_cache program_id_index) (\<lambda>w.
      if w then
        let present = (case is_upgradable_loader_present of
                         Some b \<Rightarrow> b
                       | None \<Rightarrow> list_ex (\<lambda>key. key = loader_id) account_keys) in
        if \<not> present then
          r_bind (set_index is_writable_cache program_id_index False) (\<lambda>is_writable_cache.
          Ok (Continue (is_writable_cache, Some present)))
        else Ok (Continue (is_writable_cache, Some present))
      else Ok (Continue (is_writable_cache, is_upgradable_loader_present))))"

definition cache_is_writable ::
  "keys_iter \<Rightarrow> bytes \<Rightarrow> TransactionView \<Rightarrow> LoadedAddressesView option \<Rightarrow> bytes set \<Rightarrow>
   bool list tv_result" where
  "cache_is_writable keys_iter loader_id view resolved_addresses reserved_account_keys =
     r_bind (tv_static_account_keys view) (\<lambda>static_account_keys.
     let account_keys = keys_iter static_account_keys resolved_addresses;
         is_writable_cache = replicate 256 False;
         num_static_account_keys = unat (tv_num_static_account_keys view);
         num_writable_lookup_accounts = unat (tv_total_writable_lookup_accounts view);
         num_signed_accounts = unat (tv_num_required_signatures view) in
     r_bind (tv_num_writable_unsigned_static_accounts view) (\<lambda>n_unsigned.
     let num_writable_unsigned_static_accounts = unat n_unsigned in
     r_bind (tv_num_writable_signed_static_accounts view) (\<lambda>n_signed.
     let num_writable_signed_static_accounts = unat n_signed in
     r_bind (cache_keys_loop
               (is_requested_write num_static_account_keys num_writable_lookup_accounts
                  num_signed_accounts num_writable_unsigned_static_accounts
                  num_writable_signed_static_accounts)
               reserved_account_keys 0 account_keys is_writable_cache) (\<lambda>is_writable_cache.
     r_bind (tv_instructions_iter view) (\<lambda>instructions.
     r_bind (instructions_try_fold instructions (program_cache_body loader_id account_keys)
               (is_writable_cache, None)) (\<lambda>(is_writable_cache, is_upgradable_loader_present).
     Ok is_writable_cache))))))"

section \<open>Construction and methods\<close>

definition ResolvedTransactionView_try_new_with_source ::
  "keys_iter \<Rightarrow> bytes \<Rightarrow> ('a \<Rightarrow> LoadedAddressesView) \<Rightarrow> TransactionView \<Rightarrow> 'a option \<Rightarrow> bytes set \<Rightarrow>
   'a ResolvedTransactionView tv_result" where
  "ResolvedTransactionView_try_new_with_source keys_iter loader_id loaded view resolved_addresses
     reserved_account_keys =
     (let resolved_addresses_view = map_option loaded resolved_addresses in
      if tv_version view = V0 \<and> resolved_addresses_view = None then Err AddressLookupMismatch
      else
        r_bind
          (case resolved_addresses_view of
             Some loaded_addresses_view \<Rightarrow>
               if length (la_writable loaded_addresses_view)
                    \<noteq> unat (tv_total_writable_lookup_accounts view)
                  \<or> length (la_readonly loaded_addresses_view)
                    \<noteq> unat (tv_total_readonly_lookup_accounts view)
               then Err AddressLookupMismatch else Ok ()
           | None \<Rightarrow>
               if tv_total_writable_lookup_accounts view \<noteq> 0
                  \<or> tv_total_readonly_lookup_accounts view \<noteq> 0
               then Err AddressLookupMismatch else Ok ()) (\<lambda>_.
        r_bind (cache_is_writable keys_iter loader_id view resolved_addresses_view
                  reserved_account_keys) (\<lambda>writable_cache.
        Ok \<lparr>rv_view = view, rv_resolved_addresses = resolved_addresses,
            rv_writable_cache = writable_cache\<rparr>)))"

text \<open>\<open>try_new\<close>: the source is \<open>LoadedAddresses\<close>.\<close>

definition ResolvedTransactionView_try_new ::
  "keys_iter \<Rightarrow> bytes \<Rightarrow> (LoadedAddressesView \<Rightarrow> LoadedAddressesView) \<Rightarrow> TransactionView \<Rightarrow>
   LoadedAddressesView option \<Rightarrow> bytes set \<Rightarrow> LoadedAddressesView ResolvedTransactionView tv_result" where
  "ResolvedTransactionView_try_new = ResolvedTransactionView_try_new_with_source"

definition loaded_addresses_view ::
  "('a \<Rightarrow> LoadedAddressesView) \<Rightarrow> 'a ResolvedTransactionView \<Rightarrow> LoadedAddressesView option" where
  "loaded_addresses_view loaded self = map_option loaded (rv_resolved_addresses self)"

definition rv_account_keys ::
  "keys_iter \<Rightarrow> ('a \<Rightarrow> LoadedAddressesView) \<Rightarrow> 'a ResolvedTransactionView \<Rightarrow> bytes list tv_result" where
  "rv_account_keys keys_iter loaded self =
     r_bind (tv_static_account_keys (rv_view self)) (\<lambda>static_account_keys.
     Ok (keys_iter static_account_keys (loaded_addresses_view loaded self)))"

definition rv_is_writable :: "'a ResolvedTransactionView \<Rightarrow> usize \<Rightarrow> bool" where
  "rv_is_writable self index =
     (case slice_get (rv_writable_cache self) index of Some b \<Rightarrow> b | None \<Rightarrow> False)"

definition rv_signature :: "'a ResolvedTransactionView \<Rightarrow> bytes tv_result" where
  "rv_signature self = r_bind (tv_signatures (rv_view self)) (\<lambda>signatures. index_list signatures 0)"

definition ResolvedTransactionView_SVMStaticMessage :: "'a ResolvedTransactionView SVMStaticMessage" where
  "ResolvedTransactionView_SVMStaticMessage =
     \<lparr>svm_version = (\<lambda>self. TransactionVersion_into (tv_version (rv_view self))),
      svm_num_transaction_signatures = (\<lambda>self. ucast (tv_num_required_signatures (rv_view self))),
      svm_num_write_locks = (\<lambda>self. tv_num_requested_write_locks (rv_view self)),
      svm_num_readonly_signed_static_accounts =
        (\<lambda>self. tv_num_readonly_signed_static_accounts (rv_view self)),
      svm_num_readonly_unsigned_static_accounts =
        (\<lambda>self. tv_num_readonly_unsigned_static_accounts (rv_view self)),
      svm_recent_blockhash = (\<lambda>self. tv_recent_blockhash (rv_view self)),
      svm_num_instructions = (\<lambda>self. unat (tv_num_instructions (rv_view self))),
      svm_instructions_iter = (\<lambda>self. tv_instructions_iter (rv_view self)),
      svm_program_instructions = (\<lambda>self. tv_program_instructions (rv_view self)),
      svm_static_account_keys = (\<lambda>self. tv_static_account_keys (rv_view self)),
      svm_fee_payer =
        (\<lambda>self. r_bind (tv_static_account_keys (rv_view self)) (\<lambda>keys. index_list keys 0)),
      svm_num_lookup_tables = (\<lambda>self. unat (tv_num_address_table_lookups (rv_view self))),
      svm_message_address_table_lookups = (\<lambda>self. tv_address_table_lookup_iter (rv_view self)),
      svm_is_signer = (\<lambda>self index. index < unat (tv_num_required_signatures (rv_view self))),
      svm_is_invoked = (\<lambda>self. is_invoked_in (tv_instructions_iter (rv_view self)))\<rparr>"

section \<open>Specification of writability\<close>

text \<open>The documented order of \<open>AccountKeys\<close>.\<close>

fun loaded_keys :: "LoadedAddressesView option \<Rightarrow> bytes list" where
  "loaded_keys None = []"
| "loaded_keys (Some l) = la_writable l @ la_readonly l"

definition account_keys_order :: "keys_iter \<Rightarrow> bool" where
  "account_keys_order keys_iter \<longleftrightarrow> (\<forall>static l. keys_iter static l = static @ loaded_keys l)"

definition lookups_match :: "message \<Rightarrow> LoadedAddressesView option \<Rightarrow> bool" where
  "lookups_match m l =
     (case l of
        None \<Rightarrow> m_version m \<noteq> V0 \<and> total_writable (m_lookups m) = 0 \<and> total_readonly (m_lookups m) = 0
      | Some l \<Rightarrow> length (la_writable l) = total_writable (m_lookups m)
                  \<and> length (la_readonly l) = total_readonly (m_lookups m))"

text \<open>
  An account is writable if the message asks for it, its key is not reserved, and it is not invoked
  as a program, unless the upgradeable loader is among the accounts.
\<close>

definition writable_account ::
  "message \<Rightarrow> bytes list \<Rightarrow> bytes set \<Rightarrow> bytes \<Rightarrow> nat \<Rightarrow> bool" where
  "writable_account m keys reserved loader_id i \<longleftrightarrow>
     i < length keys \<and> requested_writable m i \<and> keys ! i \<notin> reserved
     \<and> (loader_id \<in> set keys
        \<or> \<not> list_ex (\<lambda>ix. unat (ix_program_id_index ix) = i) (m_instructions m))"

section \<open>Correctness of the cache\<close>

lemma cache_keys_loop_eq:
  assumes "index + length keys \<le> length cache"
  shows "\<exists>c. cache_keys_loop req reserved index keys cache = Ok c \<and> length c = length cache
    \<and> (\<forall>j < length cache. c ! j = (if index \<le> j \<and> j < index + length keys
          then req j \<and> keys ! (j - index) \<notin> reserved else cache ! j))"
  using assms
proof (induction keys arbitrary: index cache)
  case Nil
  then show ?case by auto
next
  case (Cons key keys)
  let ?c1 = "cache[index := (req index \<and> key \<notin> reserved)]"
  from Cons.IH [of "Suc index" ?c1] Cons.prems obtain c where
    c: "cache_keys_loop req reserved (Suc index) keys ?c1 = Ok c" "length c = length cache"
      "\<forall>j < length cache. c ! j = (if Suc index \<le> j \<and> j < Suc index + length keys
          then req j \<and> keys ! (j - Suc index) \<notin> reserved else ?c1 ! j)"
    by auto
  have "c ! j = (if index \<le> j \<and> j < index + length (key # keys)
          then req j \<and> (key # keys) ! (j - index) \<notin> reserved else cache ! j)" if "j < length cache" for j
  proof (cases "j = index")
    case False
    with c(3) that show ?thesis by (auto simp: nth_Cons' Suc_le_eq)
  qed (use c(3) that in simp)
  with c(1,2) Cons.prems show ?case by (intro exI [of _ c]) (simp add: set_index_def)
qed

lemma program_cache_fold:
  assumes "length cache = 256" "present = None \<or> present = Some (loader_id \<in> set keys)"
  shows "\<exists>c p. list_try_fold (program_cache_body loader_id keys) (cache, present) ixs = Ok (c, p)
    \<and> length c = 256
    \<and> (\<forall>j < 256. c ! j \<longleftrightarrow> cache ! j \<and> (loader_id \<in> set keys
         \<or> \<not> list_ex (\<lambda>ix. unat (ix_program_id_index ix) = j) ixs))"
  using assms
proof (induction ixs arbitrary: cache present)
  case Nil
  then show ?case by simp
next
  case (Cons ix ixs)
  let ?i = "unat (ix_program_id_index ix)" and ?L = "loader_id \<in> set keys"
  have i: "?i < 256" by simp
  have ex: "list_ex (\<lambda>key. key = loader_id) keys = ?L" by (auto simp: list_ex_iff)
  define cache' where "cache' = (if cache ! ?i \<and> \<not> ?L then cache[?i := False] else cache)"
  define present' where "present' = (if cache ! ?i then Some ?L else present)"
  have p: "(case present of None \<Rightarrow> list_ex (\<lambda>key. key = loader_id) keys | Some b \<Rightarrow> b) = ?L"
    using Cons.prems(2) ex by auto
  have body: "program_cache_body loader_id keys (cache, present) ix = Ok (Continue (cache', present'))"
    using i Cons.prems(1)
    by (simp add: program_cache_body_def Let_def index_list_def set_index_def p cache'_def present'_def)
  have "length cache' = 256" "present' = None \<or> present' = Some ?L"
    using Cons.prems by (auto simp: cache'_def present'_def)
  from Cons.IH [OF this] obtain c q where
    c: "list_try_fold (program_cache_body loader_id keys) (cache', present') ixs = Ok (c, q)" "length c = 256"
      "\<forall>j < 256. c ! j \<longleftrightarrow> cache' ! j \<and> (?L \<or> \<not> list_ex (\<lambda>ix. unat (ix_program_id_index ix) = j) ixs)"
    by blast
  have "c ! j \<longleftrightarrow> cache ! j \<and> (?L \<or> \<not> list_ex (\<lambda>ix. unat (ix_program_id_index ix) = j) (ix # ixs))"
    if "j < 256" for j
    using c(3) that i Cons.prems(1) by (auto simp: cache'_def nth_list_update)
  with c(1,2) body show ?case by (intro exI [of _ c] exI [of _ q]) simp
qed

lemma requested_write_eq:
  assumes "sane_header m" "i < num_accounts m" "num_accounts m \<le> 256"
  shows "is_requested_write (length (m_account_keys m)) (total_writable (m_lookups m))
      (unat (m_num_required_signatures m))
      (length (m_account_keys m) - unat (m_num_required_signatures m) - unat (m_num_readonly_unsigned m))
      (unat (m_num_required_signatures m) - unat (m_num_readonly_signed m)) i
    \<longleftrightarrow> requested_writable m i"
proof -
  define req ros rou k tw where "req = unat (m_num_required_signatures m)"
    and "ros = unat (m_num_readonly_signed m)" and "rou = unat (m_num_readonly_unsigned m)"
    and "k = length (m_account_keys m)" and "tw = total_writable (m_lookups m)"
  note defs = req_def [symmetric] ros_def [symmetric] rou_def [symmetric] k_def [symmetric] tw_def [symmetric]
  have b: "ros < req" "req + rou \<le> k" using sane_header_bounds [OF assms(1)] by (simp_all add: defs)
  have "usize_wrapping_sub i a = i - a" if "a \<le> i" for a using that assms(2,3) by simp
  then show ?thesis
    unfolding requested_writable_def is_requested_write_def Let_def defs using b by auto
qed

lemma cache_is_writable_eq:
  assumes s: "sane_view_of v m" and ord: "account_keys_order keys_iter" and lm: "lookups_match m l"
  shows "\<exists>c. cache_is_writable keys_iter loader_id v l reserved = Ok c \<and> length c = 256
    \<and> (\<forall>i < 256. c ! i \<longleftrightarrow> writable_account m (m_account_keys m @ loaded_keys l) reserved loader_id i)"
proof -
  obtain r where r: "tv_message v = Ok r" "ref_describes r m" "sane_message m"
      "mr_message_frame r = tf_message (tv_frame v)"
    using sane_view_ref [OF s] by blast
  have hd: "sane_header m" using r(3) by (simp add: sane_message_def)
  have n: "num_accounts m \<le> 256" by (rule sane_num_accounts [OF sane_ref_facts(1) [OF r(2,3)] r(3)])
  let ?keys = "m_account_keys m @ loaded_keys l"
  have len: "length ?keys = num_accounts m"
    using lm by (cases l) (auto simp: lookups_match_def num_accounts_def)
  define req where "req = is_requested_write (length (m_account_keys m)) (total_writable (m_lookups m))
      (unat (m_num_required_signatures m))
      (length (m_account_keys m) - unat (m_num_required_signatures m) - unat (m_num_readonly_unsigned m))
      (unat (m_num_required_signatures m) - unat (m_num_readonly_signed m))"
  obtain c1 where c1: "cache_keys_loop req reserved 0 ?keys (replicate 256 False) = Ok c1" "length c1 = 256"
      "\<forall>j < 256. c1 ! j = (j < length ?keys \<and> req j \<and> ?keys ! j \<notin> reserved)"
    using cache_keys_loop_eq [of 0 ?keys "replicate 256 False" req reserved] len n by auto
  obtain c p where c: "list_try_fold (program_cache_body loader_id ?keys) (c1, None) (m_instructions m) = Ok (c, p)"
      "length c = 256" "\<forall>j < 256. c ! j \<longleftrightarrow> c1 ! j \<and> (loader_id \<in> set ?keys
         \<or> \<not> list_ex (\<lambda>ix. unat (ix_program_id_index ix) = j) (m_instructions m))"
    using program_cache_fold [OF c1(2), of None loader_id ?keys "m_instructions m"] by auto
  note d = r(2) [unfolded ref_describes_def r(4)]
  have "cache_is_writable keys_iter loader_id v l reserved = Ok c"
    using ord c1(1) c(1)
    by (simp add: cache_is_writable_def tv_methods tv_num_static_account_keys_def
        tv_total_writable_lookup_accounts_def tv_num_writable_unsigned_static_accounts_def
        tv_num_writable_signed_static_accounts_def r(1) ref_describes_data [OF r(2)] Let_def
        account_keys_order_def describes_counts [OF d] describes_header [OF d]
        sane_account_counts [OF r(2) hd] del: diff_diff_left flip: req_def)
      (simp add: instructions_iter.try_fold_remaining [OF ref_describes_data(3) [OF r(2)]])
  moreover have "c ! i \<longleftrightarrow> writable_account m ?keys reserved loader_id i" if "i < 256" for i
    using c(3) c1(3) that len requested_write_eq [OF hd _ n]
    by (auto simp: writable_account_def req_def)
  ultimately show ?thesis using c(2) by blast
qed

lemma try_new_with_source_eq:
  fixes resolved :: "'a option"
  assumes s: "sane_view_of v m" and ord: "account_keys_order keys_iter"
  shows "(lookups_match m (map_option loaded resolved) \<longrightarrow>
      (\<exists>c. ResolvedTransactionView_try_new_with_source keys_iter loader_id loaded v resolved reserved
           = Ok \<lparr>rv_view = v, rv_resolved_addresses = resolved, rv_writable_cache = c\<rparr>
         \<and> length c = 256
         \<and> (\<forall>i < 256. c ! i \<longleftrightarrow> writable_account m
               (m_account_keys m @ loaded_keys (map_option loaded resolved)) reserved loader_id i)))
    \<and> (\<not> lookups_match m (map_option loaded resolved) \<longrightarrow>
      ResolvedTransactionView_try_new_with_source keys_iter loader_id loaded v resolved reserved
        = Err AddressLookupMismatch)"
proof -
  obtain r where r: "tv_message v = Ok r" "ref_describes r m" "sane_message m"
      "mr_message_frame r = tf_message (tv_frame v)"
    using sane_view_ref [OF s] by blast
  note d = r(2) [unfolded ref_describes_def r(4)]
  have v: "tv_version v = m_version m" by (simp add: tv_version_def describes_header [OF d])
  have t: "unat (tv_total_writable_lookup_accounts v) = total_writable (m_lookups m)"
    "unat (tv_total_readonly_lookup_accounts v) = total_readonly (m_lookups m)"
    by (simp_all add: tv_total_writable_lookup_accounts_def tv_total_readonly_lookup_accounts_def
        describes_counts [OF d])
  then have z: "tv_total_writable_lookup_accounts v = 0 \<longleftrightarrow> total_writable (m_lookups m) = 0"
    "tv_total_readonly_lookup_accounts v = 0 \<longleftrightarrow> total_readonly (m_lookups m) = 0"
    by (metis unsigned_0 unat_eq_zero)+
  have main: "ResolvedTransactionView_try_new_with_source keys_iter loader_id loaded v resolved reserved
      = (if lookups_match m (map_option loaded resolved)
         then r_bind (cache_is_writable keys_iter loader_id v (map_option loaded resolved) reserved)
           (\<lambda>c. Ok \<lparr>rv_view = v, rv_resolved_addresses = resolved, rv_writable_cache = c\<rparr>)
         else Err AddressLookupMismatch)"
    by (cases resolved)
      (auto simp: ResolvedTransactionView_try_new_with_source_def Let_def lookups_match_def v t z)
  show ?thesis
  proof (cases "lookups_match m (map_option loaded resolved)")
    case True
    from cache_is_writable_eq [OF s ord True] True show ?thesis
      unfolding main by (metis r_bind.simps(1))
  qed (simp add: main)
qed

lemma rv_is_writable_cache:
  assumes "length (rv_writable_cache rv) = 256"
    and "\<forall>i < 256. rv_writable_cache rv ! i \<longleftrightarrow> P i" and "\<And>i. P i \<Longrightarrow> i < 256"
  shows "rv_is_writable rv i \<longleftrightarrow> P i"
  using assms by (cases "i < 256") (auto simp: rv_is_writable_def)

lemma writable_account_bound:
  assumes "sane_view_of v m" "lookups_match m l"
    and "writable_account m (m_account_keys m @ loaded_keys l) reserved loader_id i"
  shows "i < 256"
proof -
  obtain r where r: "ref_describes r m" "sane_message m" using sane_view_ref [OF assms(1)] by blast
  have "num_accounts m \<le> 256" by (rule sane_num_accounts [OF sane_ref_facts(1) [OF r] r(2)])
  moreover have "length (m_account_keys m @ loaded_keys l) = num_accounts m"
    using assms(2) by (cases l) (auto simp: lookups_match_def num_accounts_def)
  ultimately show ?thesis using assms(3) by (simp add: writable_account_def)
qed

section \<open>The static interface\<close>

interpretation rv_svm: svm_static_message
    "ResolvedTransactionView_SVMStaticMessage :: 'a ResolvedTransactionView SVMStaticMessage"
    "\<lambda>rv. sane_view_of (rv_view rv)"
proof (rule forwards_contract)
  fix rv :: "'a ResolvedTransactionView" and m
  assume "sane_view_of (rv_view rv) m"
  then obtain r where r: "tv_message (rv_view rv) = Ok r" "ref_describes r m" "sane_message m"
      "mr_message_frame r = tf_message (tv_frame (rv_view rv))"
    using sane_view_ref by blast
  then have "forwards ResolvedTransactionView_SVMStaticMessage rv r"
    by (simp add: forwards_def ResolvedTransactionView_SVMStaticMessage_def tv_methods)
  with r show "\<exists>r. ref_describes r m \<and> sane_message m \<and> forwards ResolvedTransactionView_SVMStaticMessage rv r"
    by blast
qed

text \<open>
  C4. Writability of a resolved transaction. Given a sanitized view of the message \<open>m\<close> and an
  address source whose counts match the lookups of \<open>m\<close> (a v0 message must have one), construction
  succeeds, and afterwards \<open>is_writable\<close> of an index holds exactly for the accounts that the message
  requests for writing, that are not reserved and that are not invoked as programs (unless the
  upgradeable loader is among the accounts); it is false beyond the accounts. With mismatching
  counts construction fails with \<open>AddressLookupMismatch\<close>.
\<close>

theorem resolved_is_writable:
  fixes resolved :: "'a option"
  assumes "sane_view_of v m" and "account_keys_order keys_iter"
  shows "if lookups_match m (map_option loaded resolved)
         then \<exists>rv. ResolvedTransactionView_try_new_with_source keys_iter loader_id loaded v resolved reserved
                    = Ok rv
              \<and> rv_view rv = v
              \<and> (\<forall>i. rv_is_writable rv i \<longleftrightarrow> writable_account m
                    (m_account_keys m @ loaded_keys (map_option loaded resolved)) reserved loader_id i)
         else ResolvedTransactionView_try_new_with_source keys_iter loader_id loaded v resolved reserved
                = Err AddressLookupMismatch"
proof (cases "lookups_match m (map_option loaded resolved)")
  case True
  with try_new_with_source_eq [OF assms, of loaded resolved loader_id reserved] obtain c where
    c: "ResolvedTransactionView_try_new_with_source keys_iter loader_id loaded v resolved reserved
        = Ok \<lparr>rv_view = v, rv_resolved_addresses = resolved, rv_writable_cache = c\<rparr>" "length c = 256"
      "\<forall>i < 256. c ! i \<longleftrightarrow> writable_account m
               (m_account_keys m @ loaded_keys (map_option loaded resolved)) reserved loader_id i"
    by blast
  let ?rv = "\<lparr>rv_view = v, rv_resolved_addresses = resolved, rv_writable_cache = c\<rparr>"
  have "rv_is_writable ?rv i \<longleftrightarrow> writable_account m
      (m_account_keys m @ loaded_keys (map_option loaded resolved)) reserved loader_id i" for i
    by (rule rv_is_writable_cache) (use c writable_account_bound [OF assms(1) True] in simp_all)
  with True c(1) show ?thesis by (simp add: exI [of _ ?rv])
qed (use try_new_with_source_eq [OF assms, of loaded resolved loader_id reserved] in simp)

theorem resolved_is_writable_witness:
  "\<exists>rv. ResolvedTransactionView_try_new_with_source (\<lambda>static l. static @ loaded_keys l) (replicate 32 99) id
          example_view (Some \<lparr>la_writable = [replicate 32 50], la_readonly = []\<rparr>) {} = Ok rv
      \<and> rv_is_writable rv 2 \<and> \<not> rv_is_writable rv 1"
proof -
  let ?l = "\<lparr>la_writable = [replicate 32 50], la_readonly = []\<rparr>"
  have o: "account_keys_order (\<lambda>static l. static @ loaded_keys l)" by (simp add: account_keys_order_def)
  have "lookups_match example_message (map_option id (Some ?l))"
    by (simp add: lookups_match_def example_message_def total_writable_def total_readonly_def)
  then obtain rv where rv: "ResolvedTransactionView_try_new_with_source (\<lambda>static l. static @ loaded_keys l)
      (replicate 32 99) id example_view (Some ?l) {} = Ok rv"
    "\<forall>i. rv_is_writable rv i \<longleftrightarrow> writable_account example_message
        (m_account_keys example_message @ loaded_keys (map_option id (Some ?l))) {} (replicate 32 99) i"
    using resolved_is_writable [OF example_sane_view o, of id "Some ?l" "replicate 32 99" "{}"] by auto
  then show ?thesis
    by (simp add: writable_account_def requested_writable_def example_message_def Let_def total_writable_def)
qed

end
