(* ===== verification/Rust_Strings.thy ===== *)
theory Rust_Strings
  imports Prelude "HOL-Library.Sublist" "HOL-Library.List_Lexorder" "HOL-Library.Product_Lexorder"
begin

text \<open>
  The operations of Rust's \<open>str\<close> that the event system uses. A string is the list of its code points;
  \<open>as_bytes\<close> is its UTF-8 encoding and \<open>len\<close> the length of that encoding. The order of strings is the
  lexicographic order of the code points, which is the order of the encodings. \<open>trim\<close> removes the
  characters with the Unicode property White\_Space at both ends.
\<close>

type_synonym str = "nat list"

definition str_lit :: "string \<Rightarrow> str" where
  "str_lit = map of_char"

section \<open>UTF-8\<close>

definition utf8_char :: "nat \<Rightarrow> bytes" where
  "utf8_char c =
     (if c < 0x80 then [of_nat c]
      else if c < 0x800 then [of_nat (0xC0 + c div 64), of_nat (0x80 + c mod 64)]
      else if c < 0x10000 then
        [of_nat (0xE0 + c div 4096), of_nat (0x80 + c div 64 mod 64), of_nat (0x80 + c mod 64)]
      else [of_nat (0xF0 + c div 262144), of_nat (0x80 + c div 4096 mod 64),
            of_nat (0x80 + c div 64 mod 64), of_nat (0x80 + c mod 64)])"

definition as_bytes :: "str \<Rightarrow> bytes" where
  "as_bytes s = concat (map utf8_char s)"

definition str_len :: "str \<Rightarrow> usize" where
  "str_len s = length (as_bytes s)"

lemma as_bytes_simps [simp]:
  "as_bytes [] = []" "as_bytes (c # s) = utf8_char c @ as_bytes s"
  by (simp_all add: as_bytes_def)

lemma as_bytes_append [simp]: "as_bytes (s @ t) = as_bytes s @ as_bytes t"
  by (simp add: as_bytes_def)

lemma utf8_char_ne [simp]: "utf8_char c \<noteq> []"
  by (simp add: utf8_char_def)

lemma as_bytes_Nil_iff [simp]: "as_bytes s = [] \<longleftrightarrow> s = []"
  by (cases s) auto

lemma utf8_char_ascii: "c < 0x80 \<Longrightarrow> utf8_char c = [of_nat c]"
  by (simp add: utf8_char_def)

lemma utf8_char_high:
  assumes "0x80 \<le> c"
  shows "\<exists>bs. utf8_char c = bs @ [of_nat (0x80 + c mod 64)] \<and> bs \<noteq> []"
  using assms by (auto simp: utf8_char_def Let_def)

lemma unat_continuation: "unat (of_nat (0x80 + c mod 64) :: u8) = 0x80 + c mod 64"
proof -
  have "c mod 64 < 64" by simp
  then have "(0x80 + c mod 64) mod 2 ^ LENGTH(8) = 0x80 + c mod 64" by simp
  then show ?thesis by (simp only: unat_of_nat take_bit_eq_mod)
qed

lemma str_len_append: "str_len (s @ t) = str_len s + str_len t"
  by (simp add: str_len_def)

lemma str_len_0 [simp]: "str_len s = 0 \<longleftrightarrow> s = []"
  by (simp add: str_len_def)

text \<open>Of two prefixes of one string the one with more bytes has more characters.\<close>

lemma prefix_str_len_le:
  assumes "prefix p s" "prefix q s"
  shows "str_len p \<le> str_len q \<longleftrightarrow> length p \<le> length q"
proof -
  from assms consider "prefix p q" | "prefix q p"
    using prefix_same_cases by blast
  then show ?thesis
  proof cases
    case 1
    then show ?thesis by (auto simp: prefix_def str_len_append)
  next
    case 2
    then show ?thesis by (auto simp: prefix_def str_len_append)
  qed
qed

section \<open>Trimming\<close>

definition is_whitespace :: "nat \<Rightarrow> bool" where
  "is_whitespace c \<longleftrightarrow>
     9 \<le> c \<and> c \<le> 13 \<or> c = 32 \<or> c = 0x85 \<or> c = 0xA0 \<or> c = 0x1680 \<or> 0x2000 \<le> c \<and> c \<le> 0x200A
     \<or> c = 0x2028 \<or> c = 0x2029 \<or> c = 0x202F \<or> c = 0x205F \<or> c = 0x3000"

definition trim :: "str \<Rightarrow> str" where
  "trim s = rev (dropWhile is_whitespace (rev (dropWhile is_whitespace s)))"

definition trimmed :: "str \<Rightarrow> bool" where
  "trimmed s \<longleftrightarrow> s = [] \<or> \<not> is_whitespace (hd s) \<and> \<not> is_whitespace (last s)"

lemma trim_Nil [simp]: "trim [] = []"
  by (simp add: trim_def)

lemma trim_trimmed [simp]: "trimmed s \<Longrightarrow> trim s = s"
proof (cases s rule: rev_cases)
  case (snoc ys y)
  assume "trimmed s"
  with snoc have "\<not> is_whitespace (hd s)" "\<not> is_whitespace y" by (auto simp: trimmed_def)
  moreover from this(1) have "dropWhile is_whitespace s = s" by (cases s) auto
  ultimately show ?thesis using snoc by (simp add: trim_def)
qed (simp add: trim_def)

lemma set_trim: "set (trim s) \<subseteq> set s"
  by (auto simp: trim_def dest!: set_dropWhileD)

lemma trimmed_trim: "trimmed (trim s)"
proof -
  define t where "t = dropWhile is_whitespace s"
  define u where "u = rev (dropWhile is_whitespace (rev t))"
  have t: "t = [] \<or> \<not> is_whitespace (hd t)"
    unfolding t_def using hd_dropWhile by blast
  have pre: "prefix u t"
    unfolding u_def using suffix_dropWhile [of is_whitespace "rev t"] by (simp add: suffix_to_prefix)
  have last: "u = [] \<or> \<not> is_whitespace (last u)"
    unfolding u_def using hd_dropWhile [of is_whitespace "rev t"] by (simp add: last_rev) blast
  have "u = [] \<or> hd u = hd t"
    using pre by (cases u) (auto simp: prefix_def)
  moreover have "u \<noteq> [] \<Longrightarrow> t \<noteq> []"
    using pre by auto
  ultimately show ?thesis
    using t last unfolding trimmed_def trim_def t_def [symmetric] u_def [symmetric] by metis
qed

lemma trimmed_no_whitespace: "(\<forall>c \<in> set s. \<not> is_whitespace c) \<Longrightarrow> trimmed s"
  by (cases s) (auto simp: trimmed_def)

section \<open>Splitting\<close>

text \<open>\<open>split\<close> at every occurrence of a one-character pattern, and \<open>split_once\<close> at the first one.\<close>

fun str_split :: "nat \<Rightarrow> str \<Rightarrow> str list" where
  "str_split d [] = [[]]"
| "str_split d (c # s) =
     (if c = d then [] # str_split d s
      else case str_split d s of [] \<Rightarrow> [[c]] | p # ps \<Rightarrow> (c # p) # ps)"

fun split_once :: "nat \<Rightarrow> str \<Rightarrow> (str \<times> str) option" where
  "split_once d [] = None"
| "split_once d (c # s) =
     (if c = d then Some ([], s)
      else case split_once d s of None \<Rightarrow> None | Some (p, r) \<Rightarrow> Some (c # p, r))"

lemma str_split_ne [simp]: "str_split d s \<noteq> []"
  by (cases s) (auto split: list.splits)

lemma str_split_no_delimiter: "d \<notin> set s \<Longrightarrow> str_split d s = [s]"
  by (induction s) auto

lemma str_split_append:
  "d \<notin> set s \<Longrightarrow> str_split d (s @ d # t) = s # str_split d t"
  by (induction s) auto

lemma str_split_parts: "p \<in> set (str_split d s) \<Longrightarrow> d \<notin> set p"
proof (induction s arbitrary: p)
  case (Cons c s)
  then show ?case
    by (cases "str_split d s") (auto split: if_splits)
qed simp

lemma split_once_None [simp]: "split_once d s = None \<longleftrightarrow> d \<notin> set s"
  by (induction s) (auto split: option.splits)

lemma split_once_append: "d \<notin> set p \<Longrightarrow> split_once d (p @ d # r) = Some (p, r)"
  by (induction p) auto

lemma split_once_Some: "split_once d s = Some (p, r) \<longleftrightarrow> s = p @ d # r \<and> d \<notin> set p"
proof
  show "split_once d s = Some (p, r) \<Longrightarrow> s = p @ d # r \<and> d \<notin> set p"
    by (induction s arbitrary: p) (auto split: if_splits option.splits)
qed (auto simp: split_once_append)

lemma split_once_takeWhile:
  "(case split_once d s of Some pr \<Rightarrow> pr | None \<Rightarrow> (s, []))
     = (takeWhile (\<lambda>c. c \<noteq> d) s, drop 1 (dropWhile (\<lambda>c. c \<noteq> d) s))"
proof (cases "split_once d s")
  case None
  then have "\<forall>c \<in> set s. c \<noteq> d" by auto
  then have "takeWhile (\<lambda>c. c \<noteq> d) s = s" "dropWhile (\<lambda>c. c \<noteq> d) s = []"
    by (simp_all add: takeWhile_eq_all_conv)
  then show ?thesis by (simp only: None option.case drop_Nil)
next
  case (Some pr)
  then obtain p r where "pr = (p, r)" "s = p @ d # r" "\<forall>c \<in> set p. c \<noteq> d"
    by (cases pr) (auto simp: split_once_Some)
  then show ?thesis using Some by simp
qed

section \<open>ASCII\<close>

definition to_ascii_lowercase :: "nat \<Rightarrow> nat" where
  "to_ascii_lowercase c = (if 65 \<le> c \<and> c \<le> 90 then c + 32 else c)"

definition eq_ignore_ascii_case :: "str \<Rightarrow> str \<Rightarrow> bool" where
  "eq_ignore_ascii_case s t \<longleftrightarrow> map to_ascii_lowercase s = map to_ascii_lowercase t"

section \<open>Decimal numbers\<close>

text \<open>
  \<open>format!("{n}")\<close> of an unsigned integer, and \<open>str::parse::<u64>\<close>: an optional plus sign, at least one
  digit, only digits, and a value below \<open>2 ^ 64\<close>.
\<close>

fun fmt_nat :: "nat \<Rightarrow> str" where
  "fmt_nat n = (if n < 10 then [48 + n] else fmt_nat (n div 10) @ [48 + n mod 10])"

declare fmt_nat.simps [simp del]

definition is_digit :: "nat \<Rightarrow> bool" where
  "is_digit c \<longleftrightarrow> 48 \<le> c \<and> c \<le> 57"

definition digits_value :: "str \<Rightarrow> nat" where
  "digits_value = foldl (\<lambda>v c. v * 10 + (c - 48)) 0"

definition parse_u64 :: "str \<Rightarrow> u64 option" where
  "parse_u64 s =
     (let digits = (case s of [] \<Rightarrow> [] | c # rest \<Rightarrow> if c = 43 then rest else s) in
      if digits \<noteq> [] \<and> list_all is_digit digits \<and> digits_value digits < 18446744073709551616
      then Some (of_nat (digits_value digits)) else None)"

lemma fmt_nat_digits: "fmt_nat n \<noteq> [] \<and> list_all is_digit (fmt_nat n) \<and> digits_value (fmt_nat n) = n"
proof (induction n rule: fmt_nat.induct)
  case (1 n)
  show ?case
  proof (cases "n < 10")
    case True
    then show ?thesis by (simp add: fmt_nat.simps [of n] is_digit_def digits_value_def)
  next
    case False
    then show ?thesis
      using 1 by (simp add: fmt_nat.simps [of n] is_digit_def digits_value_def)
  qed
qed

lemma parse_fmt_u64: "parse_u64 (fmt_nat (unat (n :: u64))) = Some n"
proof -
  obtain c s where cs: "fmt_nat (unat n) = c # s" and c: "is_digit c"
    using fmt_nat_digits [of "unat n"] by (cases "fmt_nat (unat n)") auto
  then have "(case fmt_nat (unat n) of [] \<Rightarrow> [] | c # rest \<Rightarrow> if c = 43 then rest else fmt_nat (unat n))
      = fmt_nat (unat n)"
    by (auto simp: is_digit_def)
  moreover have "unat n < 18446744073709551616"
    using unsigned_less [of n] by simp
  ultimately show ?thesis
    using fmt_nat_digits [of "unat n"] by (simp only: parse_u64_def Let_def) simp
qed

lemma fmt_nat_inject: "fmt_nat m = fmt_nat n \<Longrightarrow> m = n"
  using fmt_nat_digits by metis

text \<open>\<open>str::strip_prefix\<close>\<close>

definition strip_prefix :: "str \<Rightarrow> str \<Rightarrow> str option" where
  "strip_prefix s p = (if prefix p s then Some (drop (length p) s) else None)"

lemma strip_prefix_append [simp]: "strip_prefix (p @ s) p = Some s"
  by (simp add: strip_prefix_def)

end
