(* ===== verification/File_System.thy ===== *)
theory File_System
  imports Rust_Strings
begin

text \<open>
  The calls of \<open>std::fs\<close> that the event system makes, on a tree of files given by the list of its paths.
  A path is the list of its components; the empty path is the root and is always a directory. Every
  call can also fail for a reason of its own (a full disk, missing permissions): the world carries a
  list of such faults, one consumed by each call, and the theorems about single operations hold for every
  list. A faulty call changes nothing, also where \<open>std::fs\<close> makes several system calls (\<open>remove_dir_all\<close>).
\<close>

datatype io_error = AlreadyExists | NotFound | NotADirectory | DirectoryNotEmpty | OtherIo nat

datatype node = DirNode | FileNode bytes | LinkNode str

type_synonym path = "str list"
type_synonym files = "(path \<times> node) list"

definition node_at :: "files \<Rightarrow> path \<Rightarrow> node option" where
  "node_at fs p = (if p = [] then Some DirNode else map_of fs p)"

definition parent_is_dir :: "files \<Rightarrow> path \<Rightarrow> (io_error, unit) outcome" where
  "parent_is_dir fs p =
     (case node_at fs (butlast p) of
        Some DirNode \<Rightarrow> Ok () | None \<Rightarrow> Err NotFound | Some _ \<Rightarrow> Err NotADirectory)"

definition add_node :: "path \<Rightarrow> node \<Rightarrow> files \<Rightarrow> (io_error, files) outcome" where
  "add_node p n fs =
     r_bind (parent_is_dir fs p) (\<lambda>_.
     if node_at fs p = None then Ok ((p, n) # fs) else Err AlreadyExists)"

fun add_missing_dirs :: "path list \<Rightarrow> files \<Rightarrow> (io_error, files) outcome" where
  "add_missing_dirs [] fs = Ok fs"
| "add_missing_dirs (p # ps) fs =
     (if node_at fs p = Some DirNode then add_missing_dirs ps fs
      else r_bind (add_node p DirNode fs) (add_missing_dirs ps))"

definition remove_below :: "path \<Rightarrow> files \<Rightarrow> files" where
  "remove_below p fs = filter (\<lambda>(q, n). \<not> prefix p q) fs"

definition set_content :: "path \<Rightarrow> bytes \<Rightarrow> files \<Rightarrow> files" where
  "set_content p bs fs = map (\<lambda>(q, n). (q, if q = p then FileNode bs else n)) fs"

definition is_empty_dir :: "files \<Rightarrow> path \<Rightarrow> bool" where
  "is_empty_dir fs p \<longleftrightarrow> node_at fs p = Some DirNode \<and> list_all (\<lambda>(q, n). \<not> strict_prefix p q) fs"

definition move_below :: "path \<Rightarrow> path \<Rightarrow> files \<Rightarrow> files" where
  "move_below p q fs = map (\<lambda>(x, n). (if prefix p x then q @ drop (length p) x else x, n)) fs"

definition move_dir :: "path \<Rightarrow> path \<Rightarrow> files \<Rightarrow> (io_error, files) outcome" where
  "move_dir p q fs =
     (if node_at fs p = None then Err NotFound
      else r_bind (parent_is_dir fs q) (\<lambda>_.
        case node_at fs q of
          None \<Rightarrow> Ok (move_below p q fs)
        | Some DirNode \<Rightarrow>
            if is_empty_dir fs q then Ok (move_below p q (remove_below q fs)) else Err DirectoryNotEmpty
        | Some _ \<Rightarrow> Err NotADirectory))"

definition dir_entries :: "files \<Rightarrow> path \<Rightarrow> str list" where
  "dir_entries fs p = map (\<lambda>(q, n). last q) (filter (\<lambda>(q, n). q \<noteq> [] \<and> butlast q = p) fs)"

section \<open>The world\<close>

text \<open>
  The publishing process and the kernel: the files, the coming faults and random numbers, the open
  descriptors of anonymous memory files and the memory files themselves, which hold a queue of type \<open>'b\<close>
  and their seals.
\<close>

record 'b memfd =
  mem_seals :: u32
  mem_queue :: "'b option"

record 'b world =
  w_files :: files
  w_faults :: "io_error option list"
  w_random :: "u64 list"
  w_pid :: nat
  w_fds :: "(nat \<times> nat) list"
  w_mem :: "nat \<rightharpoonup> 'b memfd"
  w_next_mem :: nat

type_synonym ('b, 'e, 'a) io = "('b world, 'e, 'a) comp"

definition syscall :: "('b, io_error, 'a) io \<Rightarrow> ('b, io_error, 'a) io" where
  "syscall f w =
     (case w_faults w of
        [] \<Rightarrow> f w
      | Some e # faults \<Rightarrow> (Err e, w\<lparr>w_faults := faults\<rparr>)
      | None # faults \<Rightarrow> f (w\<lparr>w_faults := faults\<rparr>))"

definition on_files :: "(files \<Rightarrow> (io_error, files) outcome) \<Rightarrow> ('b, io_error, unit) io" where
  "on_files f = syscall (\<lambda>w.
     case f (w_files w) of
       Ok fs \<Rightarrow> (Ok (), w\<lparr>w_files := fs\<rparr>) | Err e \<Rightarrow> (Err e, w) | Panic \<Rightarrow> (Panic, w) | UB \<Rightarrow> (UB, w))"

definition create_dir :: "path \<Rightarrow> ('b, io_error, unit) io" where
  "create_dir p = on_files (add_node p DirNode)"

definition create_dir_all :: "path \<Rightarrow> ('b, io_error, unit) io" where
  "create_dir_all p = on_files (add_missing_dirs (map (\<lambda>k. take (Suc k) p) [0..<length p]))"

definition canonicalize :: "path \<Rightarrow> ('b, io_error, path) io" where
  "canonicalize p = syscall (\<lambda>w.
     (if node_at (w_files w) p = None then Err NotFound else Ok p, w))"

definition remove_dir :: "path \<Rightarrow> ('b, io_error, unit) io" where
  "remove_dir p = on_files (\<lambda>fs.
     if node_at fs p = None then Err NotFound
     else if is_empty_dir fs p then Ok (remove_below p fs) else Err DirectoryNotEmpty)"

definition remove_dir_all :: "path \<Rightarrow> ('b, io_error, unit) io" where
  "remove_dir_all p = on_files (\<lambda>fs.
     case node_at fs p of None \<Rightarrow> Err NotFound
     | Some DirNode \<Rightarrow> Ok (remove_below p fs) | Some _ \<Rightarrow> Err NotADirectory)"

definition create_new_file :: "path \<Rightarrow> ('b, io_error, unit) io" where
  "create_new_file p = on_files (add_node p (FileNode []))"

definition write_all :: "path \<Rightarrow> bytes \<Rightarrow> ('b, io_error, unit) io" where
  "write_all p bs = on_files (\<lambda>fs. Ok (set_content p bs fs))"

definition symlink :: "str \<Rightarrow> path \<Rightarrow> ('b, io_error, unit) io" where
  "symlink target p = on_files (add_node p (LinkNode target))"

definition rename :: "path \<Rightarrow> path \<Rightarrow> ('b, io_error, unit) io" where
  "rename p q = on_files (move_dir p q)"

text \<open>\<open>let _ = op;\<close> and \<open>op.map_err(f)?\<close>\<close>

definition io_ignore :: "('b, io_error, 'a) io \<Rightarrow> 'b world \<Rightarrow> 'b world" where
  "io_ignore m w = snd (m w)"

fun outcome_map_err :: "('e \<Rightarrow> 'f) \<Rightarrow> ('e, 'a) outcome \<Rightarrow> ('f, 'a) outcome" where
  "outcome_map_err f (Ok x) = Ok x"
| "outcome_map_err f (Err e) = Err (f e)"
| "outcome_map_err f Panic = Panic"
| "outcome_map_err f UB = UB"

definition io_map_err :: "('e \<Rightarrow> 'f) \<Rightarrow> ('b, 'e, 'a) io \<Rightarrow> ('b, 'f, 'a) io" where
  "io_map_err f m w = (case m w of (r, w') \<Rightarrow> (outcome_map_err f r, w'))"

section \<open>Lemmas\<close>

lemma node_at_Nil [simp]: "node_at fs [] = Some DirNode"
  by (simp add: node_at_def)

lemma node_at_Cons [simp]: "p \<noteq> [] \<Longrightarrow> node_at ((p, n) # fs) q = (if q = p then Some n else node_at fs q)"
  by (simp add: node_at_def)

lemma node_at_remove_below:
  "p \<noteq> [] \<Longrightarrow> node_at (remove_below p fs) q = (if prefix p q then None else node_at fs q)"
  by (induction fs) (auto simp: node_at_def remove_below_def)

lemma node_at_set_content:
  "node_at (set_content p bs fs) q =
     (if q = p \<and> p \<noteq> [] \<and> node_at fs p \<noteq> None then Some (FileNode bs) else node_at fs q)"
  by (induction fs) (auto simp: node_at_def set_content_def)

text \<open>Nothing exists at or below a path.\<close>

definition absent :: "files \<Rightarrow> path \<Rightarrow> bool" where
  "absent fs p \<longleftrightarrow> (\<forall>x. prefix p x \<longrightarrow> node_at fs x = None)"

lemma map_of_move_below:
  assumes "\<forall>x \<in> fst ` set fs. \<not> prefix q x" "\<not> prefix p q" "\<not> prefix q p"
  shows "map_of (move_below p q fs) x =
    (if prefix q x then map_of fs (p @ drop (length q) x) else if prefix p x then None else map_of fs x)"
  using assms(1)
proof (induction fs)
  case (Cons a fs)
  obtain y n where a: "a = (y, n)" by (cases a)
  show ?case
  proof (cases "prefix p y")
    case True
    then obtain z where y: "y = p @ z" by (auto simp: prefix_def)
    then show ?thesis
      using Cons assms(2,3) a by (auto simp: move_below_def prefix_def)
  next
    case False
    then have "\<not> prefix q y" "y \<noteq> p @ drop (length q) x"
      using Cons.prems a by auto
    then show ?thesis
      using False Cons a by (auto simp: move_below_def)
  qed
qed (simp add: move_below_def)

lemma absent_keys: "p \<noteq> [] \<Longrightarrow> absent fs p \<longleftrightarrow> (\<forall>x \<in> fst ` set fs. \<not> prefix p x)"
proof
  assume "p \<noteq> []" "absent fs p"
  then show "\<forall>x \<in> fst ` set fs. \<not> prefix p x"
    unfolding absent_def node_at_def by (metis map_of_eq_None_iff prefix_Nil)
next
  assume "p \<noteq> []" "\<forall>x \<in> fst ` set fs. \<not> prefix p x"
  then show "absent fs p"
    unfolding absent_def node_at_def by (metis map_of_eq_None_iff prefix_Nil)
qed

lemma node_at_move_below:
  assumes "absent fs q" "\<not> prefix p q" "\<not> prefix q p"
  shows "node_at (move_below p q fs) x =
    (if prefix q x then node_at fs (p @ drop (length q) x) else if prefix p x then None else node_at fs x)"
proof -
  have "p \<noteq> []" "q \<noteq> []" using assms(2,3) by auto
  then show ?thesis
    using map_of_move_below assms absent_keys by (auto simp: node_at_def)
qed

lemma absent_remove_below [simp]: "p \<noteq> [] \<Longrightarrow> absent (remove_below p fs) p"
  by (simp add: absent_def node_at_remove_below)

lemma on_files_Ok_iff:
  "on_files f w = (Ok u, w') \<longleftrightarrow>
     (\<exists>faults fs. (w_faults w = [] \<and> faults = [] \<or> w_faults w = None # faults)
        \<and> f (w_files w) = Ok fs \<and> w' = w\<lparr>w_faults := faults, w_files := fs\<rparr>)"
  by (auto simp: on_files_def syscall_def split: list.splits option.splits outcome.splits)

lemma on_files_Err:
  assumes "on_files f w = (Err e, w')"
  shows "\<exists>faults. suffix faults (w_faults w) \<and> w' = w\<lparr>w_faults := faults\<rparr>"
proof (cases "w_faults w")
  case Nil
  then show ?thesis
    using assms by (auto simp: on_files_def syscall_def split: outcome.splits intro: exI [of _ "[]"])
next
  case (Cons a faults)
  then show ?thesis
    using assms by (intro exI [of _ faults])
      (auto simp: on_files_def syscall_def suffix_def split: outcome.splits option.splits)
qed

end
