(* ===== verification/Stream_Name.thy ===== *)
theory Stream_Name
  imports Rust_Strings
begin

text \<open>
  Stream names of the event system (\<open>event-system/src/stream_name.rs\<close>). A name becomes a directory
  below the event system's root and a prefix of policy directives, so validation has to keep it a
  single, proper path component. \<open>validate_stream_name\<close> works on the bytes of the UTF-8 encoding; the
  lemmas relate it to the characters of the name.
\<close>

datatype StreamNameValidationError = Empty | ReservedDirectoryName | InvalidCharacter

datatype StreamName = StreamName (as_str: str)

definition VALID_SPECIAL_CHARACTERS :: str where
  "VALID_SPECIAL_CHARACTERS = str_lit ''.-:_''"

fun find_special :: "u8 \<Rightarrow> str \<Rightarrow> bool" where
  "find_special byte [] = False"
| "find_special byte (ch # rest) = (if unat byte = ch then True else find_special byte rest)"

definition is_valid_special_character :: "u8 \<Rightarrow> bool" where
  "is_valid_special_character byte = find_special byte VALID_SPECIAL_CHARACTERS"

definition is_ascii_alphanumeric :: "u8 \<Rightarrow> bool" where
  "is_ascii_alphanumeric b \<longleftrightarrow>
     0x30 \<le> b \<and> b \<le> 0x39 \<or> 0x41 \<le> b \<and> b \<le> 0x5A \<or> 0x61 \<le> b \<and> b \<le> 0x7A"

fun validate_bytes :: "bytes \<Rightarrow> (StreamNameValidationError, unit) outcome" where
  "validate_bytes [] = Ok ()"
| "validate_bytes (byte # rest) =
     (if \<not> (is_ascii_alphanumeric byte \<or> is_valid_special_character byte) then Err InvalidCharacter
      else validate_bytes rest)"

definition validate_stream_name :: "str \<Rightarrow> (StreamNameValidationError, unit) outcome" where
  "validate_stream_name stream_name =
     (let stream_name_bytes = as_bytes stream_name in
      if stream_name_bytes = [] then Err Empty
      else if stream_name_bytes = [0x2E] \<or> stream_name_bytes = [0x2E, 0x2E]
      then Err ReservedDirectoryName
      else validate_bytes stream_name_bytes)"

definition StreamName_try_new :: "str \<Rightarrow> (StreamNameValidationError, StreamName) outcome" where
  "StreamName_try_new name = r_bind (validate_stream_name name) (\<lambda>_. Ok (StreamName name))"

text \<open>The body of the macro \<open>stream_name!\<close>, evaluated at compile time: it panics on a bad name.\<close>

definition stream_name_macro :: "str \<Rightarrow> (StreamNameValidationError, StreamName) outcome" where
  "stream_name_macro name =
     (case validate_stream_name name of Ok u \<Rightarrow> Ok (StreamName name) | _ \<Rightarrow> Panic)"

section \<open>Characters of a valid name\<close>

definition name_char :: "nat \<Rightarrow> bool" where
  "name_char c \<longleftrightarrow> 48 \<le> c \<and> c \<le> 57 \<or> 65 \<le> c \<and> c \<le> 90 \<or> 97 \<le> c \<and> c \<le> 122
     \<or> c \<in> {45, 46, 58, 95}"

definition valid_name :: "str \<Rightarrow> bool" where
  "valid_name s \<longleftrightarrow> s \<noteq> [] \<and> s \<noteq> str_lit ''.'' \<and> s \<noteq> str_lit ''..'' \<and> list_all name_char s"

definition name_byte :: "u8 \<Rightarrow> bool" where
  "name_byte b \<longleftrightarrow> is_ascii_alphanumeric b \<or> is_valid_special_character b"

lemma validate_bytes_eq:
  "validate_bytes bs = (if list_all name_byte bs then Ok () else Err InvalidCharacter)"
  by (induction bs) (auto simp: name_byte_def)

lemma name_byte_char: "name_byte b \<longleftrightarrow> name_char (unat b)"
  by (auto simp: name_byte_def name_char_def is_ascii_alphanumeric_def is_valid_special_character_def
      VALID_SPECIAL_CHARACTERS_def str_lit_def word_le_nat_alt)

lemma name_bytes_utf8: "list_all name_byte (utf8_char c) \<longleftrightarrow> name_char c"
proof (cases "c < 0x80")
  case True
  then show ?thesis
    by (simp add: utf8_char_ascii name_byte_char unat_of_nat_u8)
next
  case False
  then obtain bs where "utf8_char c = bs @ [of_nat (0x80 + c mod 64)]"
    using utf8_char_high [of c] by auto
  moreover have "\<not> name_char c" using False by (auto simp: name_char_def)
  moreover have "\<not> name_byte (of_nat (0x80 + c mod 64))"
    unfolding name_byte_char unat_continuation by (simp add: name_char_def)
  ultimately show ?thesis by (simp only: list_all_append list.pred_inject) simp
qed

lemma name_bytes_as_bytes: "list_all name_byte (as_bytes s) \<longleftrightarrow> list_all name_char s"
  by (induction s) (auto simp: name_bytes_utf8)

lemma as_bytes_ascii: "list_all (\<lambda>b. unat b < 0x80) (as_bytes s) \<Longrightarrow> map unat (as_bytes s) = s"
proof (induction s)
  case (Cons c s)
  have "c < 0x80"
  proof (rule ccontr)
    assume "\<not> c < 0x80"
    then obtain bs where "utf8_char c = bs @ [of_nat (0x80 + c mod 64)]"
      using utf8_char_high [of c] by auto
    with Cons.prems show False
      by (simp only: as_bytes_simps list_all_append list.pred_inject unat_continuation) simp
  qed
  with Cons show ?case by (simp add: utf8_char_ascii unat_of_nat_u8)
qed simp

lemma as_bytes_dot: "as_bytes s = [0x2E] \<longleftrightarrow> s = str_lit ''.''"
  using as_bytes_ascii [of s] by (auto simp: str_lit_def utf8_char_ascii)

lemma as_bytes_dots: "as_bytes s = [0x2E, 0x2E] \<longleftrightarrow> s = str_lit ''..''"
  using as_bytes_ascii [of s] by (auto simp: str_lit_def utf8_char_ascii)

lemma validate_stream_name_eq:
  "validate_stream_name s =
     (if s = [] then Err Empty
      else if s = str_lit ''.'' \<or> s = str_lit ''..'' then Err ReservedDirectoryName
      else if list_all name_char s then Ok () else Err InvalidCharacter)"
  by (simp add: validate_stream_name_def as_bytes_dot as_bytes_dots validate_bytes_eq
      name_bytes_as_bytes)

lemma StreamName_try_new_iff: "StreamName_try_new s = Ok n \<longleftrightarrow> valid_name s \<and> n = StreamName s"
  by (auto simp: StreamName_try_new_def validate_stream_name_eq valid_name_def)

lemma name_char_plain:
  assumes "name_char c"
  shows "c \<noteq> 0" "c \<noteq> 0x2F" "c \<noteq> 0x2C" "c \<noteq> 0x3D" "\<not> is_whitespace c"
  using assms by (auto simp: name_char_def is_whitespace_def)

text \<open>
  C25. Validation decides the documented rules on the characters of a name. \<open>try_new\<close> accepts a name iff it
  is not empty, not \<open>.\<close> or \<open>..\<close>, and consists of ASCII letters, digits and the four special characters; the
  error is the first rule that fails, and the accepted name is the input. So no accepted name contains
  a path separator, a NUL, a comma, an equals sign or white space: it is one proper path component and
  one policy prefix. The macro \<open>stream_name!\<close> agrees, panicking where \<open>try_new\<close> returns an error.
\<close>

theorem stream_name_validation:
  "StreamName_try_new s =
     (if s = [] then Err Empty
      else if s = str_lit ''.'' \<or> s = str_lit ''..'' then Err ReservedDirectoryName
      else if list_all name_char s then Ok (StreamName s) else Err InvalidCharacter)
   \<and> stream_name_macro s = (if is_ok (StreamName_try_new s) then Ok (StreamName s) else Panic)
   \<and> (is_ok (StreamName_try_new s) \<longrightarrow> as_str (StreamName s) = s \<and> s \<noteq> []
        \<and> set s \<inter> {0, 0x2F, 0x2C, 0x3D} = {} \<and> (\<forall>c \<in> set s. \<not> is_whitespace c))"
proof -
  have "set s \<inter> {0, 0x2F, 0x2C, 0x3D} = {} \<and> (\<forall>c \<in> set s. \<not> is_whitespace c)" if "list_all name_char s"
  proof -
    have "c \<notin> {0, 0x2F, 0x2C, 0x3D} \<and> \<not> is_whitespace c" if "c \<in> set s" for c
      using \<open>list_all name_char s\<close> that name_char_plain [of c] by (simp add: list_all_iff)
    then show ?thesis by blast
  qed
  then show ?thesis
    by (auto simp: StreamName_try_new_def stream_name_macro_def validate_stream_name_eq)
qed

theorem stream_name_validation_witness:
  "StreamName_try_new (str_lit ''slot.events:v1'') = Ok (StreamName (str_lit ''slot.events:v1''))
   \<and> set (str_lit ''slot.events:v1'') \<inter> {0, 0x2F, 0x2C, 0x3D} = {}
   \<and> StreamName_try_new (str_lit ''slot/events'') = Err InvalidCharacter"
proof -
  have a: "StreamName_try_new (str_lit ''slot.events:v1'') = Ok (StreamName (str_lit ''slot.events:v1''))"
    using stream_name_validation [of "str_lit ''slot.events:v1''"]
    by (simp add: str_lit_def name_char_def)
  moreover have "is_ok (StreamName_try_new (str_lit ''slot.events:v1''))"
    unfolding a by simp
  then have "set (str_lit ''slot.events:v1'') \<inter> {0, 0x2F, 0x2C, 0x3D} = {}"
    using stream_name_validation [of "str_lit ''slot.events:v1''"] by blast
  moreover have "StreamName_try_new (str_lit ''slot/events'') = Err InvalidCharacter"
    using stream_name_validation [of "str_lit ''slot/events''"]
    by (simp add: str_lit_def name_char_def)
  ultimately show ?thesis by blast
qed

end
