(* ===== verification/Event_Directory.thy ===== *)
theory Event_Directory
  imports File_System Stream_Name
begin

text \<open>
  The publishing side of the event-system directory (\<open>event-system/src/backend/linux.rs\<close>): the directory
  layout, the staging directory with its clean-up on drop, the sealed memory file of a queue, and
  \<open>StreamQueue::create\<close>, which stages the schema and the queue link and publishes both by one rename.

  The queue library is a parameter: \<open>shaq\<close> collects the operations the crate calls on a broadcast queue
  of type \<open>'b\<close> with producer lanes of type \<open>'p\<close>. So is the serialized schema of the event type.
\<close>

datatype shaq_error = ShaqError nat

datatype wincode_error = WincodeError nat

datatype CreateStreamError =
    FailedToSerializeSchema wincode_error
  | FileSystem io_error
  | StreamNameAlreadyInUse
  | Queue shaq_error
  | OsRngFailure io_error

record StreamConfig =
  capacity :: usize
  publisher_slots :: usize
  subscriber_slots :: usize

record ('b, 'p) shaq =
  create_with_identifier :: "StreamConfig \<Rightarrow> u64 \<Rightarrow> (shaq_error, 'b) outcome"
  queue_identifier :: "'b \<Rightarrow> u64"
  broadcast_producer :: "'b \<Rightarrow> ('p \<times> 'b) option"
  drop_producer :: "'p \<Rightarrow> 'b \<Rightarrow> 'b"
  try_reserve_write :: "'p \<Rightarrow> 'b \<Rightarrow> bool \<times> 'b"
  try_reserve_write_batch :: "'p \<Rightarrow> nat \<Rightarrow> 'b \<Rightarrow> bool \<times> 'b"
  publish_guard :: "'p \<Rightarrow> bytes list \<Rightarrow> 'b \<Rightarrow> 'b"
  drop_guard :: "'p \<Rightarrow> 'b \<Rightarrow> 'b"

section \<open>Names\<close>

definition QUEUE_FILE_NAME_PREFIX :: str where "QUEUE_FILE_NAME_PREFIX = str_lit ''queue-''"

definition SCHEMA_FILE_NAME :: str where "SCHEMA_FILE_NAME = str_lit ''schema''"

definition STAGING_DIRECTORY_NAME :: str where "STAGING_DIRECTORY_NAME = str_lit ''tmp''"

definition STREAMS_DIRECTORY_NAME :: str where "STREAMS_DIRECTORY_NAME = str_lit ''event-streams''"

text \<open>\<open>F_SEAL_SEAL\<close>, \<open>F_SEAL_SHRINK\<close> and \<open>F_SEAL_GROW\<close> are the bits 1, 2 and 4.\<close>

definition REQUIRED_SEALS :: u32 where "REQUIRED_SEALS = 0x7"

section \<open>The directory of an event system\<close>

definition EventSystemDirectory_create :: "path \<Rightarrow> ('b, io_error, path) io" where
  "EventSystemDirectory_create path0 =
     p_bind (create_dir_all path0) (\<lambda>_.
     p_bind (canonicalize path0) (\<lambda>path.
     p_bind (create_dir (path @ [STAGING_DIRECTORY_NAME])) (\<lambda>_ w.
     case create_dir (path @ [STREAMS_DIRECTORY_NAME]) w of
       (Err error, w') \<Rightarrow> (Err error, io_ignore (remove_dir (path @ [STAGING_DIRECTORY_NAME])) w')
     | (Ok u, w') \<Rightarrow> (Ok path, w') | (Panic, w') \<Rightarrow> (Panic, w') | (UB, w') \<Rightarrow> (UB, w'))))"

definition EventSystemDirectory_drop :: "path \<Rightarrow> 'b world \<Rightarrow> 'b world" where
  "EventSystemDirectory_drop path w =
     io_ignore (remove_dir_all (path @ [STREAMS_DIRECTORY_NAME]))
       (io_ignore (remove_dir_all (path @ [STAGING_DIRECTORY_NAME])) w)"

section \<open>The staging directory\<close>

record StagingDirectory =
  sd_path :: path
  sd_cleanup :: bool

definition StagingDirectory_new :: "path \<Rightarrow> ('b, io_error, StagingDirectory) io" where
  "StagingDirectory_new path =
     p_bind (create_dir path) (\<lambda>_. p_return \<lparr>sd_path = path, sd_cleanup = True\<rparr>)"

definition StagingDirectory_drop :: "StagingDirectory \<Rightarrow> 'b world \<Rightarrow> 'b world" where
  "StagingDirectory_drop self w =
     (if sd_cleanup self then io_ignore (remove_dir_all (sd_path self)) w else w)"

text \<open>\<open>publish\<close> consumes the directory: it is dropped when the call returns, on both paths.\<close>

definition StagingDirectory_publish :: "StagingDirectory \<Rightarrow> path \<Rightarrow> ('b, io_error, unit) io" where
  "StagingDirectory_publish self destination w =
     (case rename (sd_path self) destination w of
        (Ok u, w') \<Rightarrow> (Ok (), StagingDirectory_drop (self\<lparr>sd_cleanup := False\<rparr>) w')
      | (r, w') \<Rightarrow> (r, StagingDirectory_drop self w'))"

section \<open>The queue\<close>

definition fresh_fd :: "(nat \<times> nat) list \<Rightarrow> nat" where
  "fresh_fd fds = hd (filter (\<lambda>n. n \<notin> set (map fst fds)) [0..<Suc (length fds)])"

definition memfd_create :: "('b, io_error, nat \<times> nat) io" where
  "memfd_create = syscall (\<lambda>w.
     let fd = fresh_fd (w_fds w); obj = w_next_mem w in
     (Ok (fd, obj), w\<lparr>w_fds := (fd, obj) # w_fds w,
        w_mem := (w_mem w)(obj \<mapsto> \<lparr>mem_seals = 0, mem_queue = None\<rparr>), w_next_mem := Suc obj\<rparr>))"

definition close_fd :: "nat \<Rightarrow> 'b world \<Rightarrow> 'b world" where
  "close_fd fd w = w\<lparr>w_fds := filter (\<lambda>(n, obj). n \<noteq> fd) (w_fds w)\<rparr>"

definition store_queue :: "nat \<Rightarrow> 'b \<Rightarrow> 'b world \<Rightarrow> 'b world" where
  "store_queue obj b w =
     w\<lparr>w_mem := (w_mem w)(obj := map_option (\<lambda>m. m\<lparr>mem_queue := Some b\<rparr>) (w_mem w obj))\<rparr>"

definition add_seals :: "nat \<Rightarrow> u32 \<Rightarrow> ('b, io_error, unit) io" where
  "add_seals obj seals = syscall (\<lambda>w.
     (Ok (), w\<lparr>w_mem := (w_mem w)(obj := map_option (\<lambda>m. m\<lparr>mem_seals := or (mem_seals m) seals\<rparr>)
        (w_mem w obj))\<rparr>))"

definition getrandom_u64 :: "('b, io_error, u64) io" where
  "getrandom_u64 = syscall (\<lambda>w.
     (Ok (case w_random w of [] \<Rightarrow> 0 | r # rs \<Rightarrow> r), w\<lparr>w_random := tl (w_random w)\<rparr>))"

text \<open>A local \<open>File\<close> closes its descriptor when the function returns early.\<close>

definition closing :: "nat \<Rightarrow> ('b, 'e, 'a) io \<Rightarrow> ('b, 'e, 'a) io" where
  "closing fd m w = (case m w of (Ok x, w') \<Rightarrow> (Ok x, w') | (r, w') \<Rightarrow> (r, close_fd fd w'))"

definition create_sealed_queue ::
    "('b, 'p) shaq \<Rightarrow> StreamConfig \<Rightarrow> u64 \<Rightarrow> ('b, CreateStreamError, nat \<times> nat) io" where
  "create_sealed_queue sh stream_config identifier =
     p_bind (io_map_err FileSystem memfd_create) (\<lambda>(queue_fd, obj).
     closing queue_fd (
       p_bind (p_lift (outcome_map_err Queue (create_with_identifier sh stream_config identifier)))
         (\<lambda>broadcast.
       p_bind (p_modify (store_queue obj broadcast)) (\<lambda>_.
       p_bind (io_map_err FileSystem (add_seals obj REQUIRED_SEALS)) (\<lambda>_.
       p_return (obj, queue_fd))))))"

record StreamQueue =
  sq_broadcast :: nat
  sq_event_stream_directory :: path
  sq_queue_file :: nat

definition proc_fd_path :: "nat \<Rightarrow> nat \<Rightarrow> str" where
  "proc_fd_path process_id queue_fd =
     str_lit ''/proc/'' @ fmt_nat process_id @ str_lit ''/fd/'' @ fmt_nat queue_fd"

definition queue_file_name :: "u64 \<Rightarrow> str" where
  "queue_file_name identifier = QUEUE_FILE_NAME_PREFIX @ fmt_nat (unat identifier)"

text \<open>A local \<open>StagingDirectory\<close> is dropped when the function returns early.\<close>

definition with_staging ::
    "StagingDirectory \<Rightarrow> ('b, 'e, 'a) io \<Rightarrow> ('b, 'e, 'a) io" where
  "with_staging sd m w =
     (case m w of (Ok x, w') \<Rightarrow> (Ok x, w') | (r, w') \<Rightarrow> (r, StagingDirectory_drop sd w'))"

text \<open>
  What happens between the creation of the staging directory and its publication. The descriptor of the schema file
  is closed when the function returns, on every path, and is not tracked.
\<close>

definition stage_queue ::
    "('b, 'p) shaq \<Rightarrow> (wincode_error, bytes) outcome \<Rightarrow> StreamConfig \<Rightarrow> path
      \<Rightarrow> ('b, CreateStreamError, nat \<times> nat) io" where
  "stage_queue sh schema stream_config staging =
     (let schema_file_path = staging @ [SCHEMA_FILE_NAME] in
      p_bind (io_map_err FileSystem (create_new_file schema_file_path)) (\<lambda>_.
      p_bind (p_lift (outcome_map_err FailedToSerializeSchema schema)) (\<lambda>encoded_schema.
      p_bind (io_map_err FileSystem (write_all schema_file_path encoded_schema)) (\<lambda>_.
      p_bind (io_map_err OsRngFailure getrandom_u64) (\<lambda>identifier.
      p_bind (create_sealed_queue sh stream_config identifier) (\<lambda>(obj, queue_fd).
      closing queue_fd (
        p_bind p_get (\<lambda>w.
        p_bind (io_map_err FileSystem
          (symlink (proc_fd_path (w_pid w) queue_fd) (staging @ [queue_file_name identifier]))) (\<lambda>_.
        p_return (obj, queue_fd))))))))))"

definition StreamQueue_create ::
    "('b, 'p) shaq \<Rightarrow> (wincode_error, bytes) outcome \<Rightarrow> path \<Rightarrow> StreamName \<Rightarrow> StreamConfig
      \<Rightarrow> ('b, CreateStreamError, StreamQueue) io" where
  "StreamQueue_create sh schema base stream_name stream_config =
     (let event_stream_directory = base @ [STREAMS_DIRECTORY_NAME, as_str stream_name];
          staging_directory = base @ [STAGING_DIRECTORY_NAME, as_str stream_name] in
      p_bind (io_map_err FileSystem (StagingDirectory_new staging_directory)) (\<lambda>temporary.
      p_bind (with_staging temporary (stage_queue sh schema stream_config (sd_path temporary)))
        (\<lambda>(obj, queue_fd).
      p_bind (closing queue_fd
          (io_map_err FileSystem (StagingDirectory_publish temporary event_stream_directory))) (\<lambda>_.
      p_return \<lparr>sq_broadcast = obj, sq_event_stream_directory = event_stream_directory,
                sq_queue_file = queue_fd\<rparr>))))"

definition StreamQueue_drop :: "StreamQueue \<Rightarrow> 'b world \<Rightarrow> 'b world" where
  "StreamQueue_drop self w =
     close_fd (sq_queue_file self) (io_ignore (remove_dir_all (sq_event_stream_directory self)) w)"

section \<open>What a call leaves alone\<close>

text \<open>
  \<open>framed P m\<close>: whatever the outcome, \<open>m\<close> changes no file outside the paths \<open>P\<close>, keeps the process id and the
  memory files that exist, makes new ones under the next numbers, opens no descriptor that it does not close when it fails, and consumes faults
  from the front.
\<close>

definition frame :: "(path \<Rightarrow> bool) \<Rightarrow> 'b world \<Rightarrow> 'b world \<Rightarrow> bool" where
  "frame P w w' \<longleftrightarrow> (\<forall>x. \<not> P x \<longrightarrow> node_at (w_files w') x = node_at (w_files w) x)
     \<and> suffix (w_faults w') (w_faults w) \<and> w_pid w' = w_pid w
     \<and> w_next_mem w \<le> w_next_mem w' \<and> (\<forall>obj < w_next_mem w. w_mem w' obj = w_mem w obj)
     \<and> (\<forall>obj \<ge> w_next_mem w'. w_mem w' obj = w_mem w obj)"

definition framed :: "(path \<Rightarrow> bool) \<Rightarrow> ('b, 'e, 'a) io \<Rightarrow> bool" where
  "framed p m \<longleftrightarrow> (\<forall>w r w'. m w = (r, w') \<longrightarrow> frame p w w')"

lemma frame_refl: "frame p w w"
  by (simp add: frame_def)

lemma frame_trans: "frame p w w' \<Longrightarrow> frame p w' w'' \<Longrightarrow> frame p w w''"
  unfolding frame_def by (auto intro: suffix_order.trans)

lemma framedD: "framed p m \<Longrightarrow> m w = (r, w') \<Longrightarrow> frame p w w'"
  by (simp add: framed_def)

lemma framed_bind: "framed p m \<Longrightarrow> (\<And>x. framed p (f x)) \<Longrightarrow> framed p (p_bind m f)"
  unfolding framed_def p_bind_def
  by (auto split: prod.splits outcome.splits) (meson frame_trans)

lemma framed_return: "framed p (p_return x)" "framed p (p_lift r)" "framed p p_get"
  by (simp_all add: framed_def comp_unfold frame_refl)

lemma framed_map_err: "framed p m \<Longrightarrow> framed p (io_map_err f m)"
  unfolding framed_def io_map_err_def by (auto split: prod.splits)

lemma frame_close_fd [simp]: "frame p w (close_fd fd w') = frame p w w'"
  by (simp add: frame_def close_fd_def)

lemma framed_closing: "framed p m \<Longrightarrow> framed p (closing fd m)"
  unfolding framed_def closing_def by (auto split: prod.splits outcome.splits)

lemma frame_faults: "w_faults w = f # faults \<Longrightarrow> frame p w (w\<lparr>w_faults := faults\<rparr>)"
  by (auto simp: frame_def suffix_def)

lemma framed_syscall: "framed p m \<Longrightarrow> framed p (syscall m)"
  unfolding framed_def syscall_def
  by (auto split: list.splits option.splits intro: frame_faults frame_trans [OF frame_faults])

lemma framed_on_files:
  assumes "\<And>fs fs'. f fs = Ok fs' \<Longrightarrow> \<forall>x. \<not> p x \<longrightarrow> node_at fs' x = node_at fs x"
  shows "framed p (on_files f)"
  unfolding on_files_def
  by (rule framed_syscall)
    (auto simp: framed_def frame_refl frame_def dest: assms split: outcome.splits)

lemma add_node_outside:
  "add_node q n fs = Ok fs' \<Longrightarrow> p q \<Longrightarrow> \<not> p x \<Longrightarrow> node_at fs' x = node_at fs x"
  by (cases "q = []") (auto simp: add_node_def r_bind_Ok_iff split: if_splits)

lemma framed_files:
  assumes "p q"
  shows "framed p (create_dir q)" "framed p (create_new_file q)" "framed p (symlink s q)"
    "framed p (write_all q bs)"
  unfolding create_dir_def create_new_file_def symlink_def write_all_def
  using assms by (auto intro!: framed_on_files dest: add_node_outside [of _ _ _ _ p]
      simp: node_at_set_content)

lemma framed_remove_dir_all:
  assumes "q \<noteq> []" "\<And>x. prefix q x \<Longrightarrow> p x"
  shows "framed p (remove_dir_all q)"
  unfolding remove_dir_all_def
  using assms by (auto intro!: framed_on_files simp: node_at_remove_below
      split: option.splits node.splits)

lemma framed_getrandom: "framed p getrandom_u64"
  unfolding getrandom_u64_def by (rule framed_syscall) (simp add: framed_def frame_def)

lemma fresh_fd: "fresh_fd fds \<notin> fst ` set fds"
proof -
  let ?free = "filter (\<lambda>n. n \<notin> set (map fst fds)) [0..<Suc (length fds)]"
  have "\<not> {0..<Suc (length fds)} \<subseteq> fst ` set fds"
  proof
    assume "{0..<Suc (length fds)} \<subseteq> fst ` set fds"
    then have "card {0..<Suc (length fds)} \<le> card (fst ` set fds)" by (intro card_mono) simp
    also have "\<dots> \<le> length fds"
      using card_image_le [of "set fds" fst] card_length [of fds] by simp
    finally show False by simp
  qed
  then obtain n where "n < Suc (length fds)" "n \<notin> fst ` set fds"
    by (metis atLeastLessThan_iff subsetI)
  then have "n \<in> set ?free" by (simp only: set_filter set_upt set_map) simp
  then have "?free \<noteq> []" by (metis empty_iff empty_set)
  then have "hd ?free \<in> set ?free" by (rule hd_in_set)
  then show ?thesis
    unfolding fresh_fd_def by (simp only: set_filter set_map mem_Collect_eq) blast
qed

lemma close_fresh [simp]: "filter (\<lambda>(n, obj). n \<noteq> fresh_fd fds) fds = fds"
  using fresh_fd [of fds] by (intro filter_True) force

section \<open>Creating a queue\<close>

lemma w_faults_same: "w_faults w = fs \<Longrightarrow> w\<lparr>w_faults := fs\<rparr> = w"
  by auto

lemma syscall_Ok_iff:
  "syscall m w = (Ok x, w') \<longleftrightarrow>
     (\<exists>faults. (w_faults w = [] \<and> faults = [] \<or> w_faults w = None # faults)
        \<and> m (w\<lparr>w_faults := faults\<rparr>) = (Ok x, w'))"
  by (cases "w_faults w") (auto simp: syscall_def w_faults_same split: option.splits)

lemma io_map_err_Ok_iff: "io_map_err f m w = (Ok x, w') \<longleftrightarrow> m w = (Ok x, w')"
  by (cases "fst (m w)") (auto simp: io_map_err_def split: prod.splits)

lemma closing_Ok_iff: "closing fd m w = (Ok x, w') \<longleftrightarrow> m w = (Ok x, w')"
  by (auto simp: closing_def split: prod.splits outcome.splits)

lemma with_staging_Ok_iff: "with_staging sd m w = (Ok x, w') \<longleftrightarrow> m w = (Ok x, w')"
  by (auto simp: with_staging_def split: prod.splits outcome.splits)

lemmas io_Ok_iffs = p_bind_Ok_iff io_map_err_Ok_iff closing_Ok_iff with_staging_Ok_iff

lemma create_sealed_queue_Ok:
  assumes "create_sealed_queue sh cfg i w = (Ok (obj, fd), w')"
  shows "\<exists>b. create_with_identifier sh cfg i = Ok b \<and> suffix (w_faults w') (w_faults w)
    \<and> obj = w_next_mem w \<and> fd = fresh_fd (w_fds w)
    \<and> w' = w\<lparr>w_faults := w_faults w', w_fds := (fd, obj) # w_fds w,
           w_mem := (w_mem w)(obj \<mapsto> \<lparr>mem_seals = REQUIRED_SEALS, mem_queue = Some b\<rparr>),
           w_next_mem := Suc obj\<rparr>"
proof -
  obtain b where b: "create_with_identifier sh cfg i = Ok b"
    using assms by (cases "create_with_identifier sh cfg i")
      (auto simp: create_sealed_queue_def io_Ok_iffs split: prod.splits)
  show ?thesis
    using assms
    by (auto simp: create_sealed_queue_def io_Ok_iffs b memfd_create_def add_seals_def Let_def
        syscall_Ok_iff store_queue_def suffix_def)
qed

lemma create_sealed_queue_frame: "framed p (create_sealed_queue sh cfg i)"
  unfolding framed_def create_sealed_queue_def memfd_create_def add_seals_def
  by (cases "create_with_identifier sh cfg i")
    (auto simp: p_bind_def io_map_err_def syscall_def closing_def comp_unfold store_queue_def
      close_fd_def frame_def suffix_def Let_def split: list.splits option.splits prod.splits)

lemma create_sealed_queue_fds:
  assumes "create_sealed_queue sh cfg i w = (Err e, w')"
  shows "w_fds w' = w_fds w"
  using assms unfolding create_sealed_queue_def memfd_create_def add_seals_def
  by (cases "create_with_identifier sh cfg i")
    (auto simp: p_bind_def io_map_err_def syscall_def closing_def comp_unfold store_queue_def
      close_fd_def Let_def split: list.splits option.splits prod.splits)

lemma add_node_Ok: "add_node p n fs = Ok fs' \<Longrightarrow> fs' = (p, n) # fs \<and> node_at fs p = None"
  by (auto simp: add_node_def r_bind_Ok_iff split: if_splits)

lemma create_node_Ok:
  assumes "on_files (add_node p n) w = (Ok u, w')"
  shows "w' = w\<lparr>w_faults := w_faults w', w_files := (p, n) # w_files w\<rparr>"
    "suffix (w_faults w') (w_faults w)" "node_at (w_files w) p = None"
  using assms by (auto simp: on_files_Ok_iff suffix_def dest: add_node_Ok)

lemma getrandom_Ok:
  assumes "getrandom_u64 w = (Ok i, w')"
  shows "\<exists>rs. w' = w\<lparr>w_faults := w_faults w', w_random := rs\<rparr>" "suffix (w_faults w') (w_faults w)"
  using assms by (auto simp: getrandom_u64_def syscall_Ok_iff suffix_def)

lemma write_all_Ok:
  assumes "write_all p bs w = (Ok u, w')"
  shows "w' = w\<lparr>w_faults := w_faults w', w_files := set_content p bs (w_files w)\<rparr>"
    "suffix (w_faults w') (w_faults w)"
  using assms by (auto simp: write_all_def on_files_Ok_iff suffix_def)

lemma queue_file_name_schema: "queue_file_name i \<noteq> SCHEMA_FILE_NAME"
  by (simp add: queue_file_name_def QUEUE_FILE_NAME_PREFIX_def SCHEMA_FILE_NAME_def str_lit_def)

lemma stage_queue_Ok:
  assumes "stage_queue sh schema cfg staging w = (Ok (obj, fd), w')"
  shows "\<exists>enc i b. schema = Ok enc \<and> create_with_identifier sh cfg i = Ok b
    \<and> obj = w_next_mem w \<and> fd = fresh_fd (w_fds w) \<and> w_fds w' = (fd, obj) # w_fds w
    \<and> w_mem w' = (w_mem w)(obj \<mapsto> \<lparr>mem_seals = REQUIRED_SEALS, mem_queue = Some b\<rparr>)
    \<and> w_next_mem w' = Suc obj \<and> w_pid w' = w_pid w
    \<and> (\<forall>x. node_at (w_files w') x =
         (if x = staging @ [SCHEMA_FILE_NAME] then Some (FileNode enc)
          else if x = staging @ [queue_file_name i] then Some (LinkNode (proc_fd_path (w_pid w) fd))
          else node_at (w_files w) x))"
proof -
  let ?s = "staging @ [SCHEMA_FILE_NAME]"
  from assms obtain w1 enc w2 i w3 w4 where
    a: "create_new_file ?s w = (Ok (), w1)" "schema = Ok enc" "write_all ?s enc w1 = (Ok (), w2)"
      "getrandom_u64 w2 = (Ok i, w3)" "create_sealed_queue sh cfg i w3 = (Ok (obj, fd), w4)"
      "symlink (proc_fd_path (w_pid w4) fd) (staging @ [queue_file_name i]) w4 = (Ok (), w')"
    by (cases schema) (auto simp: stage_queue_def Let_def io_Ok_iffs)
  note w1 = create_node_Ok(1) [OF a(1) [unfolded create_new_file_def]]
  note w2 = write_all_Ok(1) [OF a(3)]
  obtain rs where w3: "w3 = w2\<lparr>w_faults := w_faults w3, w_random := rs\<rparr>"
    using getrandom_Ok(1) [OF a(4)] by blast
  obtain b where b: "create_with_identifier sh cfg i = Ok b" "obj = w_next_mem w3" "fd = fresh_fd (w_fds w3)"
    and w4: "w4 = w3\<lparr>w_faults := w_faults w4, w_fds := (fd, obj) # w_fds w3,
           w_mem := (w_mem w3)(obj \<mapsto> \<lparr>mem_seals = REQUIRED_SEALS, mem_queue = Some b\<rparr>),
           w_next_mem := Suc obj\<rparr>"
    using create_sealed_queue_Ok [OF a(5)] by blast
  note w' = create_node_Ok(1) [OF a(6) [unfolded symlink_def]]
  have files: "w_files w' = (staging @ [queue_file_name i], LinkNode (proc_fd_path (w_pid w) fd))
      # set_content ?s enc ((?s, FileNode []) # w_files w)"
    by (subst w', subst w4, subst w3, subst w2, subst w1)
      (simp, subst w4, subst w3, subst w2, subst w1, simp)
  have rest: "w_fds w' = (fd, obj) # w_fds w" "w_next_mem w' = Suc obj" "w_pid w' = w_pid w"
    "w_mem w' = (w_mem w)(obj \<mapsto> \<lparr>mem_seals = REQUIRED_SEALS, mem_queue = Some b\<rparr>)"
    by (subst w', subst w4, subst w3, subst w2, subst w1, simp)+
  have "w_next_mem w3 = w_next_mem w" "w_fds w3 = w_fds w"
    by (subst w3, subst w2, subst w1, simp)+
  with b rest show ?thesis
    unfolding files using a(2) queue_file_name_schema
    by (intro exI [of _ enc] exI [of _ i] exI [of _ b]) (auto simp: node_at_set_content)
qed

lemma stage_queue_framed: "framed (strict_prefix staging) (stage_queue sh schema cfg staging)"
  unfolding stage_queue_def Let_def
  by (intro framed_bind framed_map_err framed_closing framed_return framed_getrandom framed_files
      create_sealed_queue_frame) (auto intro!: framed_bind framed_map_err framed_closing framed_return
        framed_files simp: strict_prefix_def split: prod.splits)

text \<open>Descriptors: a call that opens none, and a call that leaves none open when it fails.\<close>

definition keeps_fds :: "('b, 'e, 'a) io \<Rightarrow> bool" where
  "keeps_fds m \<longleftrightarrow> (\<forall>w r w'. m w = (r, w') \<longrightarrow> w_fds w' = w_fds w)"

definition no_leak :: "('b, 'e, 'a) io \<Rightarrow> bool" where
  "no_leak m \<longleftrightarrow> (\<forall>w e w'. m w = (Err e, w') \<longrightarrow> w_fds w' = w_fds w)"

lemma keeps_fds_no_leak: "keeps_fds m \<Longrightarrow> no_leak m"
  by (simp add: keeps_fds_def no_leak_def)

lemma keeps_fds_bind: "keeps_fds m \<Longrightarrow> (\<And>x. keeps_fds (f x)) \<Longrightarrow> keeps_fds (p_bind m f)"
  unfolding keeps_fds_def p_bind_def by (auto split: prod.splits outcome.splits)

lemma no_leak_bind: "keeps_fds m \<Longrightarrow> (\<And>x. no_leak (f x)) \<Longrightarrow> no_leak (p_bind m f)"
  unfolding keeps_fds_def no_leak_def p_bind_def by (auto split: prod.splits outcome.splits)

lemma keeps_fds_basic:
  "keeps_fds (p_return x)" "keeps_fds (p_lift r)" "keeps_fds p_get" "keeps_fds getrandom_u64"
  "keeps_fds (on_files g)"
  by (auto simp: keeps_fds_def comp_unfold getrandom_u64_def on_files_def syscall_def
      split: list.splits option.splits outcome.splits)

lemma keeps_fds_map_err: "keeps_fds m \<Longrightarrow> keeps_fds (io_map_err f m)"
  by (auto simp: keeps_fds_def io_map_err_def split: prod.splits)

lemma sealed_queue_no_leak:
  assumes "\<And>obj fd. keeps_fds (g obj fd)"
  shows "no_leak (p_bind (create_sealed_queue sh cfg i) (\<lambda>(obj, fd). closing fd (g obj fd)))"
  unfolding no_leak_def
proof (intro allI impI)
  fix w e w'
  assume r: "p_bind (create_sealed_queue sh cfg i) (\<lambda>(obj, fd). closing fd (g obj fd)) w = (Err e, w')"
  show "w_fds w' = w_fds w"
  proof (cases "create_sealed_queue sh cfg i w")
    case (Pair res w1)
    show ?thesis
    proof (cases res)
      case (Ok objfd)
      obtain obj fd where objfd: "objfd = (obj, fd)" by (cases objfd)
      obtain w2 where g: "g obj fd w1 = (Err e, w2)" and w': "w' = close_fd fd w2"
        using r Pair Ok objfd by (auto simp: p_bind_def closing_def split: prod.splits outcome.splits)
      obtain b where fd: "fd = fresh_fd (w_fds w)" and w1: "w1 = w\<lparr>w_faults := w_faults w1,
          w_fds := (fd, obj) # w_fds w,
          w_mem := (w_mem w)(obj \<mapsto> \<lparr>mem_seals = REQUIRED_SEALS, mem_queue = Some b\<rparr>),
          w_next_mem := Suc obj\<rparr>"
        using create_sealed_queue_Ok [of sh cfg i w obj fd w1] Pair Ok objfd by blast
      have "w_fds w1 = (fd, obj) # w_fds w" by (subst w1) simp
      moreover note fd
      moreover have "w_fds w2 = w_fds w1"
        using assms [of obj fd] g unfolding keeps_fds_def by blast
      ultimately show ?thesis by (simp add: w' close_fd_def)
    qed (use r Pair create_sealed_queue_fds [of sh cfg i w] in \<open>auto simp: p_bind_def\<close>)
  qed
qed

lemma stage_queue_no_leak: "no_leak (stage_queue sh schema cfg staging)"
  unfolding stage_queue_def Let_def create_new_file_def write_all_def symlink_def
  by (intro no_leak_bind sealed_queue_no_leak keeps_fds_bind keeps_fds_basic keeps_fds_map_err)

section \<open>Publication\<close>

text \<open>The tree below a published stream directory.\<close>

definition published_tree :: "bytes \<Rightarrow> u64 \<Rightarrow> str \<Rightarrow> path \<Rightarrow> node option" where
  "published_tree enc i target y =
     (if y = [] then Some DirNode
      else if y = [SCHEMA_FILE_NAME] then Some (FileNode enc)
      else if y = [queue_file_name i] then Some (LinkNode target) else None)"

definition stream_dir :: "path \<Rightarrow> StreamName \<Rightarrow> path" where
  "stream_dir base n = base @ [STREAMS_DIRECTORY_NAME, as_str n]"

definition staging_dir :: "path \<Rightarrow> StreamName \<Rightarrow> path" where
  "staging_dir base n = base @ [STAGING_DIRECTORY_NAME, as_str n]"

lemma dirs_disjoint [simp]:
  "\<not> prefix (stream_dir base n) (staging_dir base m)" "\<not> prefix (staging_dir base n) (stream_dir base m)"
  "stream_dir base n \<noteq> []" "staging_dir base n \<noteq> []"
  by (simp_all add: stream_dir_def staging_dir_def STREAMS_DIRECTORY_NAME_def STAGING_DIRECTORY_NAME_def
      str_lit_def)

lemma dirs_incomparable:
  "prefix (stream_dir base n) x \<Longrightarrow> \<not> prefix (staging_dir base m) x"
  by (metis dirs_disjoint(1,2) prefix_same_cases)

lemma StreamQueue_create_dirs:
  "StreamQueue_create sh schema base n cfg =
     p_bind (io_map_err FileSystem (StagingDirectory_new (staging_dir base n))) (\<lambda>temporary.
     p_bind (with_staging temporary (stage_queue sh schema cfg (sd_path temporary))) (\<lambda>(obj, queue_fd).
     p_bind (closing queue_fd
         (io_map_err FileSystem (StagingDirectory_publish temporary (stream_dir base n)))) (\<lambda>_.
     p_return \<lparr>sq_broadcast = obj, sq_event_stream_directory = stream_dir base n,
               sq_queue_file = queue_fd\<rparr>)))"
  by (simp add: StreamQueue_create_def Let_def stream_dir_def staging_dir_def)

lemma StagingDirectory_new_Ok:
  assumes "StagingDirectory_new p w = (Ok sd, w')"
  shows "sd = \<lparr>sd_path = p, sd_cleanup = True\<rparr>" "create_dir p w = (Ok (), w')"
    "w' = w\<lparr>w_faults := w_faults w', w_files := (p, DirNode) # w_files w\<rparr>"
  using assms create_node_Ok(1) [of p DirNode w "()" w']
  by (auto simp: StagingDirectory_new_def p_bind_Ok_iff create_dir_def)

lemma publish_Ok:
  assumes "StagingDirectory_publish sd q w = (Ok u, w')"
  shows "rename (sd_path sd) q w = (Ok (), w')"
  using assms by (auto simp: StagingDirectory_publish_def StagingDirectory_drop_def
      split: prod.splits outcome.splits)

lemma rename_Ok:
  assumes "rename p q w = (Ok u, w')" "node_at (w_files w) q = None"
  shows "w' = w\<lparr>w_faults := w_faults w', w_files := move_below p q (w_files w)\<rparr>"
  using assms by (auto simp: rename_def on_files_Ok_iff move_dir_def r_bind_Ok_iff split: if_splits)

text \<open>Moving the staged directory makes it the published one.\<close>

lemma move_staged:
  assumes absent: "absent fs (staging_dir base n)" "absent fs (stream_dir base n)"
    and f2: "\<forall>x. node_at fs2 x = (if x = staging_dir base n @ [SCHEMA_FILE_NAME] then Some (FileNode enc)
        else if x = staging_dir base n @ [queue_file_name i] then Some (LinkNode target)
        else node_at ((staging_dir base n, DirNode) # fs) x)"
  shows "absent fs2 (stream_dir base n)"
    "node_at (move_below (staging_dir base n) (stream_dir base n) fs2) x =
       (if prefix (stream_dir base n) x then published_tree enc i target (drop (length (stream_dir base n)) x) else node_at fs x)"
proof -
  let ?s = "staging_dir base n" and ?d = "stream_dir base n"
  have below: "\<not> prefix ?d (?s @ z)" for z
    by (metis append_prefixD dirs_incomparable prefixI)
  have "node_at fs2 x = None" if "prefix ?d x" for x
  proof -
    have "x \<noteq> ?s @ [SCHEMA_FILE_NAME]" "x \<noteq> ?s @ [queue_file_name i]" "x \<noteq> ?s"
      using that below below [of "[]"] by (metis append_Nil2)+
    then show ?thesis using absent(2) that f2 by (simp add: absent_def)
  qed
  then show d2: "absent fs2 ?d" by (simp add: absent_def)
  have "node_at (move_below ?s ?d fs2) x = (if prefix ?d x then node_at fs2 (?s @ drop (length ?d) x)
      else if prefix ?s x then None else node_at fs2 x)"
    by (simp add: node_at_move_below [OF d2])
  moreover have "node_at fs (?s @ z) = None" for z using absent(1) by (simp add: absent_def)
  moreover have "node_at fs x = None" if "prefix ?s x" using absent(1) that by (simp add: absent_def)
  ultimately show "node_at (move_below ?s ?d fs2) x =
      (if prefix ?d x then published_tree enc i target (drop (length ?d) x) else node_at fs x)"
    by (auto simp: f2 published_tree_def)
qed

lemma StreamQueue_create_Ok:
  assumes create: "StreamQueue_create sh schema base n cfg w = (Ok q, w')"
    and absent: "absent (w_files w) (staging_dir base n)" "absent (w_files w) (stream_dir base n)"
  shows "\<exists>enc i b. schema = Ok enc \<and> create_with_identifier sh cfg i = Ok b
    \<and> sq_event_stream_directory q = stream_dir base n
    \<and> sq_broadcast q = w_next_mem w \<and> sq_queue_file q = fresh_fd (w_fds w)
    \<and> w_fds w' = (sq_queue_file q, sq_broadcast q) # w_fds w
    \<and> w_mem w' = (w_mem w)(sq_broadcast q \<mapsto> \<lparr>mem_seals = REQUIRED_SEALS, mem_queue = Some b\<rparr>)
    \<and> w_next_mem w' = Suc (w_next_mem w) \<and> w_pid w' = w_pid w
    \<and> (\<forall>x. node_at (w_files w') x =
         (if prefix (stream_dir base n) x
          then published_tree enc i (proc_fd_path (w_pid w) (sq_queue_file q))
                 (drop (length (stream_dir base n)) x)
          else node_at (w_files w) x))"
proof -
  let ?s = "staging_dir base n" and ?d = "stream_dir base n"
  from create obtain sd w1 obj fd w2 where
    new: "StagingDirectory_new ?s w = (Ok sd, w1)"
    and stage: "stage_queue sh schema cfg (sd_path sd) w1 = (Ok (obj, fd), w2)"
    and pub: "StagingDirectory_publish sd ?d w2 = (Ok (), w')"
    and q: "q = \<lparr>sq_broadcast = obj, sq_event_stream_directory = ?d, sq_queue_file = fd\<rparr>"
    by (auto simp: StreamQueue_create_dirs io_Ok_iffs)
  note sd = StagingDirectory_new_Ok(1) [OF new] and w1 = StagingDirectory_new_Ok(3) [OF new]
  have f1: "w_files w1 = (?s, DirNode) # w_files w" "w_fds w1 = w_fds w" "w_mem w1 = w_mem w"
    "w_next_mem w1 = w_next_mem w" "w_pid w1 = w_pid w"
    by (subst w1, simp)+
  obtain enc i b where
    st: "schema = Ok enc" "create_with_identifier sh cfg i = Ok b" "obj = w_next_mem w"
      "fd = fresh_fd (w_fds w)" "w_fds w2 = (fd, obj) # w_fds w"
      "w_mem w2 = (w_mem w)(obj \<mapsto> \<lparr>mem_seals = REQUIRED_SEALS, mem_queue = Some b\<rparr>)"
      "w_next_mem w2 = Suc obj" "w_pid w2 = w_pid w"
    and f2: "\<forall>x. node_at (w_files w2) x =
         (if x = ?s @ [SCHEMA_FILE_NAME] then Some (FileNode enc)
          else if x = ?s @ [queue_file_name i] then Some (LinkNode (proc_fd_path (w_pid w) fd))
          else node_at ((?s, DirNode) # w_files w) x)"
    using stage_queue_Ok [OF stage] f1 sd by auto
  note moved = move_staged [OF absent f2]
  have "node_at (w_files w2) ?d = None" using moved(1) by (simp add: absent_def)
  with rename_Ok [OF publish_Ok [OF pub]] sd
  have w': "w' = w2\<lparr>w_faults := w_faults w', w_files := move_below ?s ?d (w_files w2)\<rparr>" by simp
  have "node_at (w_files w') x =
      (if prefix ?d x then published_tree enc i (proc_fd_path (w_pid w) fd) (drop (length ?d) x)
       else node_at (w_files w) x)" for x
    by (subst w') (simp add: moved(2))
  moreover have "w_fds w' = w_fds w2" "w_mem w' = w_mem w2" "w_next_mem w' = w_next_mem w2" "w_pid w' = w_pid w2"
    by (subst w', simp)+
  ultimately show ?thesis using st q by auto
qed

lemma on_files_total:
  assumes "on_files f w = (r, w')" "f (w_files w) = Ok fs"
  shows "r = Ok () \<and> w_files w' = fs \<or> (\<exists>e. w_faults w = Some e # w_faults w')"
  using assms by (auto simp: on_files_def syscall_def split: list.splits option.splits)

text \<open>Dropping a staging directory removes it, unless the removal itself fails.\<close>

lemma staging_drop:
  assumes "node_at (w_files w) p = Some DirNode" "p \<noteq> []"
  shows "absent (w_files (StagingDirectory_drop \<lparr>sd_path = p, sd_cleanup = True\<rparr> w)) p
    \<or> (\<exists>e. w_faults w = Some e # w_faults (StagingDirectory_drop \<lparr>sd_path = p, sd_cleanup = True\<rparr> w))"
proof -
  let ?f = "\<lambda>fs. case node_at fs p of None \<Rightarrow> Err NotFound
     | Some DirNode \<Rightarrow> Ok (remove_below p fs) | Some _ \<Rightarrow> Err NotADirectory"
  have f: "?f (w_files w) = Ok (remove_below p (w_files w))" using assms by simp
  obtain r w' where r: "on_files ?f w = (r, w')" by fastforce
  have "absent (w_files w') p \<or> (\<exists>e. w_faults w = Some e # w_faults w')"
    using on_files_total [OF r f] assms(2) by auto
  then show ?thesis
    using r by (simp add: StagingDirectory_drop_def io_ignore_def remove_dir_all_def)
qed

lemma frame_staging_drop:
  "sd_path sd \<noteq> [] \<Longrightarrow> frame (prefix (sd_path sd)) w (StagingDirectory_drop sd w)"
  using framed_remove_dir_all [of "sd_path sd" "prefix (sd_path sd)"]
  by (cases "remove_dir_all (sd_path sd) w")
    (auto simp: StagingDirectory_drop_def io_ignore_def framed_def frame_refl)

lemma staging_drop_fds: "w_fds (StagingDirectory_drop sd w) = w_fds w"
  by (simp add: StagingDirectory_drop_def io_ignore_def remove_dir_all_def on_files_def syscall_def
      split: list.splits option.splits outcome.splits)

lemma frame_weaken: "frame P w w' \<Longrightarrow> (\<And>x. P x \<Longrightarrow> Q x) \<Longrightarrow> frame Q w w'"
  by (auto simp: frame_def)

definition removal_failed :: "'b world \<Rightarrow> 'b world \<Rightarrow> bool" where
  "removal_failed w w' \<longleftrightarrow> (\<exists>pre e. w_faults w = pre @ Some e # w_faults w')"

lemma removal_failedI: "suffix (Some e # w_faults w') (w_faults w) \<Longrightarrow> removal_failed w w'"
  by (auto simp: removal_failed_def suffix_def)

lemma stage_queue_Err:
  assumes stage: "with_staging \<lparr>sd_path = p, sd_cleanup = True\<rparr> (stage_queue sh schema cfg p) w1 = (Err e, w')"
    and w1: "node_at (w_files w1) p = Some DirNode" "p \<noteq> []"
  shows "frame (prefix p) w1 w'" "w_fds w' = w_fds w1"
    "absent (w_files w') p \<or> removal_failed w1 w'"
proof -
  let ?sd = "\<lparr>sd_path = p, sd_cleanup = True\<rparr>"
  obtain w2 where w2: "stage_queue sh schema cfg p w1 = (Err e, w2)" and w': "w' = StagingDirectory_drop ?sd w2"
    using stage by (auto simp: with_staging_def split: prod.splits outcome.splits)
  have fr: "frame (strict_prefix p) w1 w2" using stage_queue_framed w2 by (rule framedD)
  then have "node_at (w_files w2) p = Some DirNode" using w1 by (simp add: frame_def)
  from staging_drop [OF this w1(2)] fr
  show "absent (w_files w') p \<or> removal_failed w1 w'"
    unfolding w' by (auto simp: frame_def intro: removal_failedI)
  show "frame (prefix p) w1 w'"
    unfolding w' using frame_staging_drop [of ?sd w2] w1(2)
    by (auto intro: frame_trans [OF frame_weaken [OF fr]])
  show "w_fds w' = w_fds w1"
    using stage_queue_no_leak [of sh schema cfg p] w2 unfolding no_leak_def w' staging_drop_fds by blast
qed

lemma publish_Err:
  assumes pub: "StagingDirectory_publish \<lparr>sd_path = p, sd_cleanup = True\<rparr> d w2 = (Err e, w')"
    and w2: "node_at (w_files w2) p = Some DirNode" "p \<noteq> []"
  shows "frame (prefix p) w2 w'" "w_fds w' = w_fds w2" "absent (w_files w') p \<or> removal_failed w2 w'"
proof -
  let ?sd = "\<lparr>sd_path = p, sd_cleanup = True\<rparr>"
  obtain w3 where w3: "rename p d w2 = (Err e, w3)" and w': "w' = StagingDirectory_drop ?sd w3"
    using pub by (auto simp: StagingDirectory_publish_def split: prod.splits outcome.splits)
  obtain faults where "suffix faults (w_faults w2)" and f: "w3 = w2\<lparr>w_faults := faults\<rparr>"
    using on_files_Err w3 unfolding rename_def by blast
  then have fr: "frame (prefix p) w2 w3" by (simp add: f frame_def)
  show "frame (prefix p) w2 w'"
    unfolding w' using frame_staging_drop [of ?sd w3] w2(2) by (auto intro: frame_trans [OF fr])
  have "node_at (w_files w3) p = Some DirNode" using w2 by (simp add: f)
  from staging_drop [OF this w2(2)] fr show "absent (w_files w') p \<or> removal_failed w2 w'"
    unfolding w' by (auto simp: frame_def intro: removal_failedI)
  show "w_fds w' = w_fds w2" by (simp add: w' staging_drop_fds f)
qed

lemma removal_failed_suffix:
  "removal_failed w1 w' \<Longrightarrow> suffix (w_faults w1) (w_faults w) \<Longrightarrow> removal_failed w w'"
  by (auto simp: removal_failed_def suffix_def)

lemma p_bind_Err_iff:
  "p_bind m f s = (Err e, s'') \<longleftrightarrow>
     m s = (Err e, s'') \<or> (\<exists>x s'. m s = (Ok x, s') \<and> f x s' = (Err e, s''))"
  by (auto simp: p_bind_def split: prod.splits outcome.splits)

lemma io_map_err_Err_iff: "io_map_err f m w = (Err e, w') \<longleftrightarrow> (\<exists>e'. m w = (Err e', w') \<and> e = f e')"
  by (cases "fst (m w)") (auto simp: io_map_err_def split: prod.splits)

lemma closing_Err_iff: "closing fd m w = (Err e, w') \<longleftrightarrow> (\<exists>w1. m w = (Err e, w1) \<and> w' = close_fd fd w1)"
  by (auto simp: closing_def split: prod.splits outcome.splits)

lemma p_return_not_Err [simp]: "p_return x s \<noteq> (Err e, s')"
  by (simp add: p_return_def)

lemmas io_Err_iffs = p_bind_Err_iff io_map_err_Err_iff closing_Err_iff

lemma create_dir_Ok_facts:
  assumes "create_dir p w = (Ok u, w1)" "p \<noteq> []"
  shows "node_at (w_files w1) p = Some DirNode" "w_fds w1 = w_fds w" "frame (prefix p) w w1"
proof -
  have w1: "w1 = w\<lparr>w_faults := w_faults w1, w_files := (p, DirNode) # w_files w\<rparr>"
    using create_node_Ok(1) assms(1) unfolding create_dir_def .
  show "node_at (w_files w1) p = Some DirNode" by (subst w1) (simp add: assms(2))
  show "w_fds w1 = w_fds w" by (subst w1) simp
  show "frame (prefix p) w w1" using framedD [OF framed_files(1) assms(1)] by simp
qed

lemma StreamQueue_create_Err:
  assumes create: "StreamQueue_create sh schema base n cfg w = (Err e, w')"
    and absent: "absent (w_files w) (staging_dir base n)"
  shows "frame (prefix (staging_dir base n)) w w' \<and> w_fds w' = w_fds w
    \<and> (absent (w_files w') (staging_dir base n) \<or> removal_failed w w')"
proof -
  let ?s = "staging_dir base n" and ?d = "stream_dir base n"
  let ?sd = "\<lparr>sd_path = ?s, sd_cleanup = True\<rparr>"
  consider (new) e' where "create_dir ?s w = (Err e', w')"
    | (stage) w1 where "create_dir ?s w = (Ok (), w1)" "with_staging ?sd (stage_queue sh schema cfg ?s) w1 = (Err e, w')"
    | (pub) w1 obj fd w2 w3 e' where "create_dir ?s w = (Ok (), w1)"
        "stage_queue sh schema cfg ?s w1 = (Ok (obj, fd), w2)"
        "StagingDirectory_publish ?sd ?d w2 = (Err e', w3)" "w' = close_fd fd w3"
    using create unfolding StreamQueue_create_dirs StagingDirectory_new_def
    by (simp add: io_Err_iffs io_Ok_iffs split: prod.splits) blast
  then show ?thesis
  proof cases
    case new
    then obtain faults where "suffix faults (w_faults w)" "w' = w\<lparr>w_faults := faults\<rparr>"
      using on_files_Err unfolding create_dir_def by blast
    then show ?thesis using absent by (simp add: frame_def)
  next
    case stage
    note w1 = create_dir_Ok_facts [OF stage(1) dirs_disjoint(4)]
    then have "suffix (w_faults w1) (w_faults w)" by (simp add: frame_def)
    moreover
    note stage_queue_Err [OF stage(2) w1(1)]
    ultimately show ?thesis
      using w1 by (auto intro: frame_trans removal_failed_suffix)
  next
    case pub
    note w1 = create_dir_Ok_facts [OF pub(1) dirs_disjoint(4)]
    have fr: "frame (strict_prefix ?s) w1 w2" using stage_queue_framed pub(2) by (rule framedD)
    then have w2: "node_at (w_files w2) ?s = Some DirNode" "frame (prefix ?s) w w2"
      using w1 by (auto simp: frame_def intro: frame_trans [OF w1(3) frame_weaken [OF fr]])
    obtain i enc b where "w_fds w2 = (fd, obj) # w_fds w" "fd = fresh_fd (w_fds w)"
      using stage_queue_Ok [OF pub(2)] w1(2) by auto
    moreover note p = publish_Err [OF pub(3) w2(1)]
    ultimately have "w_fds w' = w_fds w" by (simp add: pub(4) close_fd_def)
    moreover have "frame (prefix ?s) w w'"
      using p(1) by (auto simp: pub(4) intro: frame_trans [OF w2(2)])
    moreover have "absent (w_files w') ?s \<or> removal_failed w w'"
      using p(3) w2(2) by (auto simp: pub(4) close_fd_def frame_def removal_failed_def suffix_def)
    ultimately show ?thesis by blast
  qed
qed

section \<open>Memory files\<close>

text \<open>Whatever happens to the files, creating a queue adds at most new memory files.\<close>

lemma framed_any_files: "framed (\<lambda>_. True) (on_files f)"
  by (rule framed_on_files) simp

lemma frame_any_files: "frame (\<lambda>_. True) w (snd (on_files f w))"
  using framed_any_files unfolding framed_def by (metis prod.collapse)

lemma frame_drop_staging:
  "frame (\<lambda>_. True) w w' \<Longrightarrow> frame (\<lambda>_. True) w (StagingDirectory_drop sd w')"
  by (simp add: StagingDirectory_drop_def io_ignore_def remove_dir_all_def
      frame_trans [OF _ frame_any_files])

lemma framed_with_staging: "framed (\<lambda>_. True) m \<Longrightarrow> framed (\<lambda>_. True) (with_staging sd m)"
  unfolding framed_def with_staging_def
  by (auto split: prod.splits outcome.splits intro: frame_drop_staging)

lemma framed_publish: "framed (\<lambda>_. True) (StagingDirectory_publish sd d)"
proof -
  have "frame (\<lambda>_. True) w w'" if "rename (sd_path sd) d w = (r, w')" for w r w'
    using frame_any_files [of w "move_dir (sd_path sd) d"] that by (simp add: rename_def)
  then show ?thesis
    unfolding framed_def StagingDirectory_publish_def
    by (auto split: prod.splits outcome.splits intro: frame_drop_staging)
qed

lemma StreamQueue_create_framed: "framed (\<lambda>_. True) (StreamQueue_create sh schema base n cfg)"
proof -
  have stage: "framed (\<lambda>_. True) (stage_queue sh schema cfg p)" for p
    using stage_queue_framed unfolding framed_def by (metis frame_weaken)
  show ?thesis
    unfolding StreamQueue_create_dirs StagingDirectory_new_def create_dir_def
    by (intro framed_bind framed_map_err framed_any_files framed_return framed_with_staging stage)
      (auto intro!: framed_bind framed_closing framed_map_err framed_publish framed_return
        split: prod.splits)
qed

lemma StreamQueue_create_mem:
  assumes "StreamQueue_create sh schema base n cfg w = (Ok q, w')"
  shows "\<exists>i b. create_with_identifier sh cfg i = Ok b \<and> sq_broadcast q = w_next_mem w
    \<and> w_mem w' = (w_mem w)(w_next_mem w \<mapsto> \<lparr>mem_seals = REQUIRED_SEALS, mem_queue = Some b\<rparr>)
    \<and> w_next_mem w' = Suc (w_next_mem w)"
proof -
  from assms obtain sd w1 obj fd w2 where
    new: "StagingDirectory_new (staging_dir base n) w = (Ok sd, w1)"
    and stage: "stage_queue sh schema cfg (sd_path sd) w1 = (Ok (obj, fd), w2)"
    and pub: "StagingDirectory_publish sd (stream_dir base n) w2 = (Ok (), w')"
    and q: "sq_broadcast q = obj"
    by (auto simp: StreamQueue_create_dirs io_Ok_iffs)
  note w1 = StagingDirectory_new_Ok(3) [OF new]
  have "w_mem w1 = w_mem w" "w_next_mem w1 = w_next_mem w" by (subst w1, simp)+
  moreover have "w_mem w' = w_mem w2" "w_next_mem w' = w_next_mem w2"
    using publish_Ok [OF pub] by (auto simp: rename_def on_files_Ok_iff)
  moreover obtain i b where "create_with_identifier sh cfg i = Ok b" "obj = w_next_mem w1"
      "w_mem w2 = (w_mem w1)(obj \<mapsto> \<lparr>mem_seals = REQUIRED_SEALS, mem_queue = Some b\<rparr>)"
      "w_next_mem w2 = Suc obj"
    using stage_queue_Ok [OF stage] by blast
  ultimately show ?thesis using q by (intro exI [of _ i] exI [of _ b]) simp
qed

lemma StreamQueue_drop_mem [simp]:
  "w_mem (StreamQueue_drop q w) = w_mem w" "w_next_mem (StreamQueue_drop q w) = w_next_mem w"
  by (simp_all add: StreamQueue_drop_def close_fd_def io_ignore_def remove_dir_all_def on_files_def
      syscall_def split: list.splits option.splits outcome.splits)

section \<open>An instance\<close>

text \<open>A queue that logs what is published, and a world, for concrete runs.\<close>

record ring =
  ring_id :: u64
  ring_capacity :: nat
  ring_slots :: nat
  ring_lanes :: "nat list"
  ring_log :: "bytes list"

definition ring_shaq :: "(ring, nat) shaq" where
  "ring_shaq =
     \<lparr>create_with_identifier = (\<lambda>cfg i. if capacity cfg = 0 then Err (ShaqError 0)
        else Ok \<lparr>ring_id = i, ring_capacity = capacity cfg, ring_slots = publisher_slots cfg,
                 ring_lanes = [], ring_log = []\<rparr>),
      queue_identifier = ring_id,
      broadcast_producer = (\<lambda>b. case filter (\<lambda>l. l \<notin> set (ring_lanes b)) [0..<ring_slots b] of
          [] \<Rightarrow> None | l # _ \<Rightarrow> Some (l, b\<lparr>ring_lanes := l # ring_lanes b\<rparr>)),
      drop_producer = (\<lambda>l b. b\<lparr>ring_lanes := removeAll l (ring_lanes b)\<rparr>),
      try_reserve_write = (\<lambda>l b. (1 \<le> ring_capacity b, b)),
      try_reserve_write_batch = (\<lambda>l n b. (n \<le> ring_capacity b, b)),
      publish_guard = (\<lambda>l ms b. b\<lparr>ring_log := ring_log b @ ms\<rparr>),
      drop_guard = (\<lambda>l b. b)\<rparr>"

definition example_base :: path where "example_base = [str_lit ''run'']"

definition example_name :: StreamName where "example_name = StreamName (str_lit ''slots'')"

definition example_config :: StreamConfig where
  "example_config = \<lparr>capacity = 2, publisher_slots = 1, subscriber_slots = 1\<rparr>"

definition example_world :: "io_error option list \<Rightarrow> ring world" where
  "example_world faults =
     \<lparr>w_files = [(example_base, DirNode), (example_base @ [STAGING_DIRECTORY_NAME], DirNode),
                 (example_base @ [STREAMS_DIRECTORY_NAME], DirNode)],
      w_faults = faults, w_random = [7], w_pid = 1, w_fds = [], w_mem = Map.empty, w_next_mem = 0\<rparr>"

lemmas example_defs = example_world_def example_base_def example_name_def example_config_def
  STAGING_DIRECTORY_NAME_def STREAMS_DIRECTORY_NAME_def SCHEMA_FILE_NAME_def QUEUE_FILE_NAME_PREFIX_def
  str_lit_def

lemma example_absent:
  "absent (w_files (example_world faults)) (staging_dir example_base example_name)"
  "absent (w_files (example_world faults)) (stream_dir example_base example_name)"
  by (simp_all add: absent_keys staging_dir_def stream_dir_def example_defs)

lemmas create_run_defs = StreamQueue_create_def StagingDirectory_new_def p_bind_def io_map_err_def
  create_dir_def on_files_def syscall_def add_node_def parent_is_dir_def node_at_def comp_unfold
  with_staging_def stage_queue_def create_new_file_def write_all_def set_content_def getrandom_u64_def
  create_sealed_queue_def memfd_create_def fresh_fd_def closing_def ring_shaq_def store_queue_def
  add_seals_def symlink_def queue_file_name_def proc_fd_path_def fmt_nat.simps
  StagingDirectory_publish_def rename_def move_dir_def StagingDirectory_drop_def Let_def
  io_ignore_def remove_dir_all_def close_fd_def

lemma example_create:
  "\<exists>q w'. StreamQueue_create ring_shaq (Ok [1, 2]) example_base example_name example_config
     (example_world []) = (Ok q, w')"
  by (simp add: create_run_defs example_defs)

lemma example_create_fault:
  "\<exists>e w'. StreamQueue_create ring_shaq (Ok [1, 2]) example_base example_name example_config
     (example_world [None, None, Some (OtherIo 28)]) = (Err e, w')"
  by (simp add: create_run_defs example_defs)

section \<open>Claims\<close>

text \<open>
  C20. A published stream is complete. When \<open>StreamQueue::create\<close> succeeds, the stream's directory below
  \<open>event-streams\<close> holds exactly the serialized schema and a link named after the queue's identifier, no
  other path of the file system changed (in particular nothing is left below \<open>tmp\<close>), and the link
  resolves, through the descriptor it names, to a memory file with all required seals that holds the
  queue created with that identifier.
\<close>

theorem create_publishes:
  assumes "StreamQueue_create sh schema base n cfg w = (Ok q, w')"
    and "absent (w_files w) (staging_dir base n)" "absent (w_files w) (stream_dir base n)"
  shows "\<exists>enc i b. schema = Ok enc \<and> create_with_identifier sh cfg i = Ok b
    \<and> (\<forall>x. node_at (w_files w') x =
         (if prefix (stream_dir base n) x
          then published_tree enc i (proc_fd_path (w_pid w') (sq_queue_file q))
                 (drop (length (stream_dir base n)) x)
          else node_at (w_files w) x))
    \<and> map_of (w_fds w') (sq_queue_file q) = Some (sq_broadcast q)
    \<and> w_mem w' (sq_broadcast q) = Some \<lparr>mem_seals = REQUIRED_SEALS, mem_queue = Some b\<rparr>"
  using StreamQueue_create_Ok [OF assms] by auto

theorem create_publishes_witness:
  "\<exists>q w' i. StreamQueue_create ring_shaq (Ok [1, 2]) example_base example_name example_config
      (example_world []) = (Ok q, w')
    \<and> node_at (w_files w') (stream_dir example_base example_name @ [SCHEMA_FILE_NAME]) = Some (FileNode [1, 2])
    \<and> node_at (w_files w') (stream_dir example_base example_name @ [queue_file_name i])
        = Some (LinkNode (proc_fd_path (w_pid w') (sq_queue_file q)))"
proof -
  obtain q w' where r: "StreamQueue_create ring_shaq (Ok [1, 2]) example_base example_name example_config
      (example_world []) = (Ok q, w')"
    using example_create by blast
  from create_publishes [OF r example_absent] obtain enc i b where "Ok [1, 2] = (Ok enc :: (wincode_error, bytes) outcome)"
    and tree: "\<And>x. node_at (w_files w') x =
         (if prefix (stream_dir example_base example_name) x
          then published_tree enc i (proc_fd_path (w_pid w') (sq_queue_file q))
                 (drop (length (stream_dir example_base example_name)) x)
          else node_at (w_files (example_world [])) x)"
    by blast
  then show ?thesis
    using r queue_file_name_schema
    by (intro exI [of _ q] exI [of _ w'] exI [of _ i]) (simp add: tree published_tree_def)
qed



end
