(* ===== verification/Stream_Policy.thy ===== *)
theory Stream_Policy
  imports Stream_Name "HOL-Library.Multiset"
begin

text \<open>
  Stream policies (\<open>event-system/src/stream_policy.rs\<close>): the parser of policy strings and the lookup of the
  rule for a stream. The abstract meaning of a policy is a map from prefixes to rules that always has
  an entry for the empty prefix, the default rule; every directive updates one entry. The parser is
  shown to implement that map and the lookup to use its longest matching prefix.
\<close>

definition DIRECTIVE_DELIMITER :: nat where "DIRECTIVE_DELIMITER = 0x2C"

definition PREFIX_RULE_ASSIGNMENT :: nat where "PREFIX_RULE_ASSIGNMENT = 0x3D"

definition ON :: str where "ON = str_lit ''on''"

definition OFF :: str where "OFF = str_lit ''off''"

datatype ParseStreamFilterError = InvalidStreamRuleValue str

type_synonym 'a policy_result = "(ParseStreamFilterError, 'a) outcome"

section \<open>Rules\<close>

datatype StreamRule = On | Off

definition StreamRule_default :: StreamRule where "StreamRule_default = Off"

definition StreamRule_from_str :: "str \<Rightarrow> StreamRule policy_result" where
  "StreamRule_from_str v =
     (if eq_ignore_ascii_case v ON then Ok On
      else if eq_ignore_ascii_case v OFF then Ok Off
      else Err (InvalidStreamRuleValue v))"

definition StreamRule_fmt :: "StreamRule \<Rightarrow> str" where
  "StreamRule_fmt r = (case r of On \<Rightarrow> ON | Off \<Rightarrow> OFF)"

record PrefixStreamRule =
  psr_prefix :: str
  psr_stream_state :: StreamRule

definition PrefixStreamRule_from_str :: "str \<Rightarrow> PrefixStreamRule policy_result" where
  "PrefixStreamRule_from_str input =
     (let (prefix0, rule_value0) =
        (case split_once PREFIX_RULE_ASSIGNMENT input of Some pr \<Rightarrow> pr | None \<Rightarrow> (input, []));
        rule_value = trim rule_value0 in
      r_bind (if rule_value = [] then Ok On else StreamRule_from_str rule_value) (\<lambda>stream_state.
      Ok \<lparr>psr_prefix = trim prefix0, psr_stream_state = stream_state\<rparr>))"

section \<open>Policies\<close>

record StreamPolicy =
  default_rule :: StreamRule
  prefix_rules_sorted_by_length :: "PrefixStreamRule list"

definition StreamPolicy_default :: StreamPolicy where
  "StreamPolicy_default =
     \<lparr>default_rule = StreamRule_default, prefix_rules_sorted_by_length = []\<rparr>"

definition stream_rule :: "StreamPolicy \<Rightarrow> StreamName \<Rightarrow> StreamRule" where
  "stream_rule self stream_name =
     (let best_match = map_option psr_stream_state
        (find (\<lambda>r. prefix (psr_prefix r) (as_str stream_name))
           (rev (prefix_rules_sorted_by_length self))) in
      case best_match of Some r \<Rightarrow> r | None \<Rightarrow> default_rule self)"

text \<open>The first rule with the same prefix is overwritten, or the rule is appended.\<close>

fun put_rule :: "PrefixStreamRule \<Rightarrow> PrefixStreamRule list \<Rightarrow> PrefixStreamRule list" where
  "put_rule prefix_rule [] = [prefix_rule]"
| "put_rule prefix_rule (rule # rules) =
     (if psr_prefix rule = psr_prefix prefix_rule then prefix_rule # rules
      else rule # put_rule prefix_rule rules)"

text \<open>The loop over the trimmed directives.\<close>

fun policy_loop ::
    "str list \<Rightarrow> StreamRule \<Rightarrow> PrefixStreamRule list
      \<Rightarrow> (StreamRule \<times> PrefixStreamRule list) policy_result" where
  "policy_loop [] dflt prefix_rules = Ok (dflt, prefix_rules)"
| "policy_loop (directive # directives) dflt prefix_rules =
     (if directive = [] then policy_loop directives dflt prefix_rules
      else case StreamRule_from_str directive of
        Ok parsed_default_rule \<Rightarrow> policy_loop directives parsed_default_rule prefix_rules
      | _ \<Rightarrow> r_bind (PrefixStreamRule_from_str directive) (\<lambda>prefix_rule.
          if psr_prefix prefix_rule = []
          then policy_loop directives (psr_stream_state prefix_rule) prefix_rules
          else policy_loop directives dflt (put_rule prefix_rule prefix_rules)))"

definition rule_sort_key :: "PrefixStreamRule \<Rightarrow> usize \<times> str" where
  "rule_sort_key r = (str_len (psr_prefix r), psr_prefix r)"

definition StreamPolicy_from_str :: "str \<Rightarrow> StreamPolicy policy_result" where
  "StreamPolicy_from_str input =
     (if trim input = [] then Ok StreamPolicy_default
      else r_bind (policy_loop (map trim (str_split DIRECTIVE_DELIMITER input)) StreamRule_default [])
        (\<lambda>(dflt, prefix_rules).
        Ok \<lparr>default_rule = dflt,
            prefix_rules_sorted_by_length = sort_key rule_sort_key prefix_rules\<rparr>))"

section \<open>The meaning of a policy string\<close>

text \<open>
  The documentation of \<open>StreamPolicy\<close>, independent of the parsers: a rule is the word \<open>on\<close> or \<open>off\<close> in any
  ASCII case. A directive that is a rule names the empty prefix, whose rule is the default. Any other
  directive names the prefix before its first equals sign, with the rule after it; without a sign, or with
  nothing after it, the prefix is enabled. Anything else after the sign is an error. Directives are separated
  by commas, white space around prefixes, rules and directives does not count, and the last directive for a
  prefix is used.
\<close>

definition rule_named :: "str \<Rightarrow> StreamRule option" where
  "rule_named w =
     (if map to_ascii_lowercase w = str_lit ''on'' then Some On
      else if map to_ascii_lowercase w = str_lit ''off'' then Some Off
      else None)"

definition directive_meaning :: "str \<Rightarrow> (str \<times> StreamRule) policy_result" where
  "directive_meaning d =
     (case rule_named d of
        Some r \<Rightarrow> Ok ([], r)
      | None \<Rightarrow>
          let named = trim (takeWhile (\<lambda>c. c \<noteq> 0x3D) d); word = trim (drop 1 (dropWhile (\<lambda>c. c \<noteq> 0x3D) d)) in
          if word = [] then Ok (named, On)
          else case rule_named word of
            Some r \<Rightarrow> Ok (named, r)
          | None \<Rightarrow> Err (InvalidStreamRuleValue word))"

fun directives_meaning ::
    "str list \<Rightarrow> (str \<rightharpoonup> StreamRule) \<Rightarrow> (str \<rightharpoonup> StreamRule) policy_result" where
  "directives_meaning [] m = Ok m"
| "directives_meaning (d # ds) m =
     (if d = [] then directives_meaning ds m
      else r_bind (directive_meaning d) (\<lambda>(p, r). directives_meaning ds (m(p \<mapsto> r))))"

definition policy_meaning :: "str \<Rightarrow> (str \<rightharpoonup> StreamRule) policy_result" where
  "policy_meaning input = directives_meaning (map trim (str_split 0x2C input)) [[] \<mapsto> Off]"

definition rules_map :: "PrefixStreamRule list \<Rightarrow> (str \<rightharpoonup> StreamRule)" where
  "rules_map rs = map_of (map (\<lambda>r. (psr_prefix r, psr_stream_state r)) rs)"

definition default_map :: "StreamRule \<Rightarrow> PrefixStreamRule list \<Rightarrow> (str \<rightharpoonup> StreamRule)" where
  "default_map d rs = (rules_map rs)([] \<mapsto> d)"

definition policy_map :: "StreamPolicy \<Rightarrow> (str \<rightharpoonup> StreamRule)" where
  "policy_map p = default_map (default_rule p) (prefix_rules_sorted_by_length p)"

text \<open>Prefixes that a directive can name, and policies in canonical form.\<close>

definition ok_prefix :: "str \<Rightarrow> bool" where
  "ok_prefix p \<longleftrightarrow> p \<noteq> [] \<and> trimmed p \<and> DIRECTIVE_DELIMITER \<notin> set p \<and> PREFIX_RULE_ASSIGNMENT \<notin> set p"

definition ok_rules :: "PrefixStreamRule list \<Rightarrow> bool" where
  "ok_rules rs \<longleftrightarrow> distinct (map psr_prefix rs) \<and> (\<forall>r \<in> set rs. ok_prefix (psr_prefix r))"

definition wf_policy :: "StreamPolicy \<Rightarrow> bool" where
  "wf_policy p \<longleftrightarrow> ok_rules (prefix_rules_sorted_by_length p)
     \<and> sorted (map rule_sort_key (prefix_rules_sorted_by_length p))"

section \<open>Lemmas\<close>

lemma rules_map_simps [simp]:
  "rules_map [] = Map.empty"
  "rules_map (r # rs) = (rules_map rs)(psr_prefix r \<mapsto> psr_stream_state r)"
  by (simp_all add: rules_map_def)

lemma dom_rules_map: "dom (rules_map rs) = psr_prefix ` set rs"
  by (auto simp: rules_map_def dom_map_of_conv_image_fst image_image)

lemma put_rule_prefixes: "psr_prefix ` set (put_rule r rs) = insert (psr_prefix r) (psr_prefix ` set rs)"
  by (induction rs) auto

lemma put_rule_map:
  "rules_map (put_rule r rs) = (rules_map rs)(psr_prefix r \<mapsto> psr_stream_state r)"
  by (induction rs) (auto simp: fun_upd_twist)

lemma put_rule_distinct: "distinct (map psr_prefix rs) \<Longrightarrow> distinct (map psr_prefix (put_rule r rs))"
proof (induction rs)
  case (Cons x rs)
  then show ?case
    using put_rule_prefixes [of r rs] by auto
qed simp

lemma ok_rules_put:
  assumes "ok_rules rs" "ok_prefix (psr_prefix r)"
  shows "ok_rules (put_rule r rs)"
proof -
  have "\<forall>p \<in> psr_prefix ` set (put_rule r rs). ok_prefix p"
    using assms unfolding put_rule_prefixes ok_rules_def by auto
  then show ?thesis
    using assms put_rule_distinct unfolding ok_rules_def by auto
qed

lemma PrefixStreamRule_from_str_ok:
  assumes "PrefixStreamRule_from_str d = Ok r" "DIRECTIVE_DELIMITER \<notin> set d" "psr_prefix r \<noteq> []"
  shows "ok_prefix (psr_prefix r)"
proof -
  obtain p v where split: "(case split_once PREFIX_RULE_ASSIGNMENT d of Some pr \<Rightarrow> pr | None \<Rightarrow> (d, [])) = (p, v)"
    by fastforce
  then have p: "set p \<subseteq> set d" "PREFIX_RULE_ASSIGNMENT \<notin> set p"
    by (auto split: option.splits simp: split_once_Some)
  have "psr_prefix r = trim p"
    using assms(1) split by (auto simp: PrefixStreamRule_from_str_def Let_def split: prod.splits
        elim: r_bind.elims)
  then show ?thesis
    using assms(2,3) p set_trim [of p] trimmed_trim by (auto simp: ok_prefix_def)
qed

section \<open>The parser implements the meaning\<close>

lemma StreamRule_from_str_named:
  "StreamRule_from_str w =
     (case rule_named w of Some r \<Rightarrow> Ok r | None \<Rightarrow> Err (InvalidStreamRuleValue w))"
proof -
  have "map to_ascii_lowercase ON = str_lit ''on''" "map to_ascii_lowercase OFF = str_lit ''off''"
    by (simp_all add: ON_def OFF_def str_lit_def to_ascii_lowercase_def)
  then show ?thesis by (simp add: StreamRule_from_str_def rule_named_def eq_ignore_ascii_case_def)
qed

lemma PrefixStreamRule_from_str_named:
  assumes "rule_named d = None"
  shows "r_bind (PrefixStreamRule_from_str d) (\<lambda>r. Ok (psr_prefix r, psr_stream_state r)) = directive_meaning d"
  using assms
  by (auto simp: PrefixStreamRule_from_str_def directive_meaning_def split_once_takeWhile StreamRule_from_str_named
      PREFIX_RULE_ASSIGNMENT_def Let_def split: option.splits)

lemma directive_meaning_parsers:
  "directive_meaning d =
     (if is_ok (StreamRule_from_str d)
      then r_bind (StreamRule_from_str d) (\<lambda>r. Ok ([], r))
      else r_bind (PrefixStreamRule_from_str d) (\<lambda>r. Ok (psr_prefix r, psr_stream_state r)))"
proof (cases "rule_named d")
  case None
  then show ?thesis by (simp add: StreamRule_from_str_named PrefixStreamRule_from_str_named)
next
  case (Some r)
  then show ?thesis by (simp add: StreamRule_from_str_named directive_meaning_def)
qed

lemma StreamRule_from_str_cases:
  obtains r where "StreamRule_from_str d = Ok r" | e where "StreamRule_from_str d = Err e"
  by (cases "eq_ignore_ascii_case d ON"; cases "eq_ignore_ascii_case d OFF")
    (auto simp: StreamRule_from_str_def)

lemma default_map_default: "(default_map d rs)([] \<mapsto> d') = default_map d' rs"
  by (rule ext) (simp add: default_map_def)

lemma default_map_put:
  "psr_prefix r \<noteq> [] \<Longrightarrow>
   (default_map d rs)(psr_prefix r \<mapsto> psr_stream_state r) = default_map d (put_rule r rs)"
  by (rule ext) (simp add: default_map_def put_rule_map)

lemma policy_loop_meaning:
  "r_bind (policy_loop ds dflt rs) (\<lambda>(dflt', rs'). Ok (default_map dflt' rs'))
     = directives_meaning ds (default_map dflt rs)"
proof (induction ds arbitrary: dflt rs)
  case (Cons d ds)
  show ?case
  proof (cases "d = []")
    case False
    show ?thesis
    proof (cases rule: StreamRule_from_str_cases [of d])
      case 1
      then show ?thesis using False Cons.IH by (simp add: directive_meaning_parsers default_map_default)
    next
      case 2
      then show ?thesis
        using False Cons.IH
        by (cases "PrefixStreamRule_from_str d")
          (auto simp: directive_meaning_parsers default_map_default default_map_put)
    qed
  qed (use Cons.IH in simp)
qed simp

lemma policy_loop_ok:
  assumes "policy_loop ds dflt rs = Ok (dflt', rs')" "ok_rules rs"
    and "\<forall>d \<in> set ds. DIRECTIVE_DELIMITER \<notin> set d"
  shows "ok_rules rs'"
  using assms
proof (induction ds arbitrary: dflt rs)
  case (Cons d ds)
  show ?case
  proof (cases "d = []")
    case True
    then show ?thesis using Cons by simp
  next
    case False
    show ?thesis
    proof (cases rule: StreamRule_from_str_cases [of d])
      case 1
      then show ?thesis using False Cons by auto
    next
      case 2
      then obtain r where r: "PrefixStreamRule_from_str d = Ok r"
        using False Cons.prems(1) by (auto elim: r_bind.elims)
      then show ?thesis
        using False 2 Cons PrefixStreamRule_from_str_ok [OF r] ok_rules_put
        by (auto split: if_splits)
    qed
  qed
qed simp

lemma rule_pair_inj: "inj (\<lambda>r::PrefixStreamRule. (psr_prefix r, psr_stream_state r))"
  by (rule injI) simp

lemma rules_map_eq_iff:
  assumes "distinct (map psr_prefix rs)" "distinct (map psr_prefix rs')"
  shows "rules_map rs = rules_map rs' \<longleftrightarrow> set rs = set rs'"
proof -
  have "rules_map rs = rules_map rs' \<longleftrightarrow>
        set (map (\<lambda>r. (psr_prefix r, psr_stream_state r)) rs)
          = set (map (\<lambda>r. (psr_prefix r, psr_stream_state r)) rs')"
    unfolding rules_map_def using assms by (intro map_of_inject_set) (simp_all add: comp_def)
  also have "\<dots> \<longleftrightarrow> set rs = set rs'"
    using rule_pair_inj by (simp add: inj_image_eq_iff)
  finally show ?thesis .
qed

lemma ok_rules_sort [simp]: "ok_rules (sort_key rule_sort_key rs) = ok_rules rs"
proof -
  have "mset (map psr_prefix (sort_key rule_sort_key rs)) = mset (map psr_prefix rs)"
    by (simp only: mset_map mset_sort)
  from mset_eq_imp_distinct_iff [OF this] show ?thesis
    by (simp add: ok_rules_def)
qed

lemma StreamPolicy_from_str_wf:
  assumes "StreamPolicy_from_str input = Ok p"
  shows "wf_policy p"
proof (cases "trim input = []")
  case True
  then show ?thesis
    using assms by (auto simp: StreamPolicy_from_str_def StreamPolicy_default_def wf_policy_def ok_rules_def)
next
  case False
  then obtain d rs where
    "policy_loop (map trim (str_split DIRECTIVE_DELIMITER input)) StreamRule_default [] = Ok (d, rs)"
    and p: "p = \<lparr>default_rule = d, prefix_rules_sorted_by_length = sort_key rule_sort_key rs\<rparr>"
    using assms by (auto simp: StreamPolicy_from_str_def elim!: r_bind.elims)
  moreover have "ok_rules []" by (simp add: ok_rules_def)
  moreover have "\<forall>d \<in> set (map trim (str_split DIRECTIVE_DELIMITER input)). DIRECTIVE_DELIMITER \<notin> set d"
    using set_trim str_split_parts by fastforce
  ultimately have "ok_rules rs" using policy_loop_ok by blast
  then show ?thesis by (simp add: p wf_policy_def)
qed

lemma trim_Nil_iff: "trim s = [] \<longleftrightarrow> (\<forall>c \<in> set s. is_whitespace c)"
proof
  assume "trim s = []"
  then have "\<forall>c \<in> set (dropWhile is_whitespace s). is_whitespace c"
    by (simp add: trim_def)
  then have "dropWhile is_whitespace s = []"
    by (metis hd_dropWhile list.set_sel(1))
  then show "\<forall>c \<in> set s. is_whitespace c" by simp
qed (auto simp: trim_def dest: set_dropWhileD)

lemma policy_meaning_split:
  "policy_meaning input = directives_meaning (map trim (str_split DIRECTIVE_DELIMITER input)) [[] \<mapsto> Off]"
  by (simp add: policy_meaning_def DIRECTIVE_DELIMITER_def)

lemma blank_policy: "trim input = [] \<Longrightarrow> policy_meaning input = Ok [[] \<mapsto> Off]"
proof -
  assume blank: "trim input = []"
  then have "\<forall>c \<in> set input. is_whitespace c" by (simp add: trim_Nil_iff)
  moreover have "\<not> is_whitespace DIRECTIVE_DELIMITER"
    by (simp add: is_whitespace_def DIRECTIVE_DELIMITER_def)
  ultimately have "DIRECTIVE_DELIMITER \<notin> set input" by metis
  then show ?thesis by (simp add: policy_meaning_split str_split_no_delimiter blank)
qed

lemma default_map_sort:
  assumes "ok_rules rs"
  shows "default_map d (sort_key rule_sort_key rs) = default_map d rs"
proof -
  have "ok_rules (sort_key rule_sort_key rs)" using assms by simp
  then have "rules_map (sort_key rule_sort_key rs) = rules_map rs"
    using assms by (subst rules_map_eq_iff) (simp_all add: ok_rules_def)
  then show ?thesis by (simp add: default_map_def)
qed

lemma policy_map_meaning:
  "r_bind (StreamPolicy_from_str input) (\<lambda>p. Ok (policy_map p)) = policy_meaning input"
proof (cases "trim input = []")
  case True
  then show ?thesis
    by (simp add: blank_policy StreamPolicy_from_str_def StreamPolicy_default_def policy_map_def
        default_map_def StreamRule_default_def)
next
  case False
  let ?ds = "map trim (str_split DIRECTIVE_DELIMITER input)"
  have init: "default_map StreamRule_default [] = [[] \<mapsto> Off]"
    by (simp add: default_map_def StreamRule_default_def)
  have plain: "\<forall>d \<in> set ?ds. DIRECTIVE_DELIMITER \<notin> set d"
    using set_trim str_split_parts by fastforce
  show ?thesis
  proof (cases "policy_loop ?ds StreamRule_default []")
    case (Ok dr)
    obtain d rs where dr: "dr = (d, rs)" by (cases dr)
    with Ok have "ok_rules rs"
      using policy_loop_ok [OF _ _ plain] by (auto simp: ok_rules_def)
    then show ?thesis
      using Ok dr False policy_loop_meaning [of ?ds StreamRule_default "[]", unfolded init]
      by (simp add: StreamPolicy_from_str_def policy_map_def default_map_sort policy_meaning_split)
  qed (use False policy_loop_meaning [of ?ds StreamRule_default "[]", unfolded init] in
      \<open>simp_all add: StreamPolicy_from_str_def policy_meaning_split\<close>)
qed

section \<open>The lookup\<close>

lemma find_rev_sorted:
  assumes "find P (rev rs) = Some r" "sorted (map k rs)" "x \<in> set rs" "P x"
  shows "k x \<le> k r"
  using assms
proof (induction rs rule: rev_induct)
  case (snoc y ys)
  then show ?case by (cases "P y") (auto simp: sorted_append)
qed simp

lemma find_rev_SomeD: "find P (rev rs) = Some r \<Longrightarrow> r \<in> set rs \<and> P r"
  by (metis find_Some_iff nth_mem set_rev)

lemma rules_map_mem:
  assumes "distinct (map psr_prefix rs)" "r \<in> set rs"
  shows "rules_map rs (psr_prefix r) = Some (psr_stream_state r)"
  using assms by (induction rs) (auto, metis image_eqI)

lemma wf_policy_rule:
  assumes "wf_policy p" "r \<in> set (prefix_rules_sorted_by_length p)"
  shows "psr_prefix r \<noteq> []" "policy_map p (psr_prefix r) = Some (psr_stream_state r)"
  using assms rules_map_mem [of "prefix_rules_sorted_by_length p" r]
  by (auto simp: wf_policy_def ok_rules_def ok_prefix_def policy_map_def default_map_def)

lemma policy_map_cases:
  assumes "policy_map p q = Some s"
  obtains "q = []" "s = default_rule p"
  | r where "r \<in> set (prefix_rules_sorted_by_length p)" "q = psr_prefix r"
  using assms dom_rules_map [of "prefix_rules_sorted_by_length p"]
  by (cases "q = []") (auto simp: policy_map_def default_map_def dom_def set_eq_iff)

lemma stream_rule_longest:
  assumes wf: "wf_policy p"
  shows "\<exists>q. policy_map p q = Some (stream_rule p n) \<and> prefix q (as_str n)
    \<and> (\<forall>q' s. policy_map p q' = Some s \<and> prefix q' (as_str n) \<longrightarrow> length q' \<le> length q)"
proof (cases "find (\<lambda>r. prefix (psr_prefix r) (as_str n)) (rev (prefix_rules_sorted_by_length p))")
  case None
  then have none: "\<not> prefix (psr_prefix r) (as_str n)" if "r \<in> set (prefix_rules_sorted_by_length p)" for r
    using that by (simp add: find_None_iff)
  have "policy_map p [] = Some (stream_rule p n)"
    using None by (simp add: policy_map_def default_map_def stream_rule_def)
  moreover have "q' = []" if "policy_map p q' = Some s" "prefix q' (as_str n)" for q' s
    using that none by (auto elim: policy_map_cases)
  ultimately show ?thesis by (intro exI [of _ "[]"]) auto
next
  case (Some r)
  then have r: "r \<in> set (prefix_rules_sorted_by_length p)" "prefix (psr_prefix r) (as_str n)"
    using find_rev_SomeD by fastforce+
  have rule: "stream_rule p n = psr_stream_state r"
    using Some by (simp add: stream_rule_def)
  have "length q' \<le> length (psr_prefix r)" if q': "policy_map p q' = Some s" "prefix q' (as_str n)" for q' s
    using q'(1)
  proof (cases rule: policy_map_cases)
    case (2 r')
    then have "rule_sort_key r' \<le> rule_sort_key r"
      using wf q'(2) by (intro find_rev_sorted [OF Some]) (simp_all add: wf_policy_def)
    then have "str_len (psr_prefix r') \<le> str_len (psr_prefix r)"
      by (auto simp: rule_sort_key_def)
    then show ?thesis using 2 prefix_str_len_le q'(2) r(2) by blast
  qed simp
  then show ?thesis
    using wf_policy_rule [OF wf r(1)] r(2) rule by (intro exI [of _ "psr_prefix r"]) auto
qed

section \<open>Claims\<close>

text \<open>
  C18. The parser implements the documented meaning of a policy string. Reading the comma-separated
  directives in order into a map from prefixes to rules (\<open>on\<close> and \<open>off\<close> in any case; a bare rule or an
  empty prefix sets the entry of the empty prefix, initially \<open>off\<close>; any other bare directive and a prefix
  with nothing after the equals sign are enabled; a later directive for a prefix replaces an earlier one),
  the policy that \<open>from_str\<close> returns represents exactly that map, and \<open>from_str\<close> fails exactly when the
  text after the equals sign of a directive is no rule, with the text of the first such directive.
\<close>

theorem policy_parser_refines:
  "r_bind (StreamPolicy_from_str input) (\<lambda>p. Ok (policy_map p)) = policy_meaning input"
  by (rule policy_map_meaning)

text \<open>
  C19. The longest matching prefix determines the rule. For a parsed policy and any stream name, the rule
  that \<open>stream_rule\<close> returns is the one the policy string gives to some prefix of the name, and no prefix
  of the name that the policy string mentions is longer.
\<close>

theorem longest_prefix_wins:
  assumes "StreamPolicy_from_str input = Ok p"
  shows "\<exists>m q. policy_meaning input = Ok m \<and> m q = Some (stream_rule p n) \<and> prefix q (as_str n)
    \<and> (\<forall>q' s. m q' = Some s \<and> prefix q' (as_str n) \<longrightarrow> length q' \<le> length q)"
  using stream_rule_longest [OF StreamPolicy_from_str_wf [OF assms], of n]
    policy_map_meaning [of input] assms
  by (intro exI [of _ "policy_map p"]) simp

definition example_policy :: StreamPolicy where
  "example_policy = \<lparr>default_rule = Off, prefix_rules_sorted_by_length =
     [\<lparr>psr_prefix = str_lit ''network.'', psr_stream_state = On\<rparr>,
      \<lparr>psr_prefix = str_lit ''network.repair'', psr_stream_state = Off\<rparr>]\<rparr>"

lemma example_policy_parse:
  "StreamPolicy_from_str (str_lit ''off,network.repair=on, network.=on ,,network.repair=OFF'') = Ok example_policy"
  by (simp add: StreamPolicy_from_str_def trim_def str_lit_def is_whitespace_def DIRECTIVE_DELIMITER_def
      PREFIX_RULE_ASSIGNMENT_def PrefixStreamRule_from_str_def StreamRule_from_str_def
      eq_ignore_ascii_case_def ON_def OFF_def to_ascii_lowercase_def StreamRule_default_def
      rule_sort_key_def str_len_def utf8_char_def example_policy_def less_eq_prod_def)

lemma example_policy_rules:
  "stream_rule example_policy (StreamName (str_lit ''network.gossip'')) = On"
  "stream_rule example_policy (StreamName (str_lit ''network.repair.requests'')) = Off"
  by (simp_all add: example_policy_def stream_rule_def str_lit_def)

lemma example_policy_documented:
  "StreamPolicy_from_str (str_lit ''off,network.=on,network.repair=off'') = Ok example_policy"
  by (simp add: StreamPolicy_from_str_def trim_def str_lit_def is_whitespace_def DIRECTIVE_DELIMITER_def
      PREFIX_RULE_ASSIGNMENT_def PrefixStreamRule_from_str_def StreamRule_from_str_def
      eq_ignore_ascii_case_def ON_def OFF_def to_ascii_lowercase_def StreamRule_default_def
      rule_sort_key_def str_len_def utf8_char_def example_policy_def less_eq_prod_def)

lemma example_policy_meaning:
  "policy_meaning (str_lit ''off,network.=on,network.repair=off'')
     = Ok [[] \<mapsto> Off, str_lit ''network.'' \<mapsto> On, str_lit ''network.repair'' \<mapsto> Off]"
  by (simp add: policy_meaning_def trim_def str_lit_def is_whitespace_def directive_meaning_def rule_named_def
      to_ascii_lowercase_def Let_def)

theorem policy_parser_refines_witness:
  "\<exists>p. StreamPolicy_from_str (str_lit ''off,network.=on,network.repair=off'') = Ok p
     \<and> policy_map p = [[] \<mapsto> Off, str_lit ''network.'' \<mapsto> On, str_lit ''network.repair'' \<mapsto> Off]"
  using policy_parser_refines [of "str_lit ''off,network.=on,network.repair=off''"]
  by (simp add: example_policy_documented example_policy_meaning)

theorem longest_prefix_wins_witness:
  "\<exists>m q. policy_meaning (str_lit ''off,network.repair=on, network.=on ,,network.repair=OFF'') = Ok m
    \<and> m q = Some Off \<and> prefix q (str_lit ''network.repair.requests'')
    \<and> (\<forall>q' s. m q' = Some s \<and> prefix q' (str_lit ''network.repair.requests'') \<longrightarrow> length q' \<le> length q)"
  using longest_prefix_wins [OF example_policy_parse, of "StreamName (str_lit ''network.repair.requests'')"]
  unfolding example_policy_rules(2) StreamName.sel .

section \<open>Canonical form\<close>

lemma default_map_rules: "[] \<notin> psr_prefix ` set rs \<Longrightarrow> rules_map rs = (default_map d rs)([] := None)"
  using dom_rules_map [of rs] by (intro ext) (auto simp: default_map_def dom_def)

lemma wf_policy_eq:
  assumes p: "wf_policy p" and q: "wf_policy q" and m: "policy_map p = policy_map q"
  shows "p = q"
proof -
  let ?ps = "prefix_rules_sorted_by_length p" and ?qs = "prefix_rules_sorted_by_length q"
  have ne: "[] \<notin> psr_prefix ` set ?ps" "[] \<notin> psr_prefix ` set ?qs"
    using p q by (auto simp: wf_policy_def ok_rules_def ok_prefix_def)
  have dist: "distinct (map psr_prefix ?ps)" "distinct (map psr_prefix ?qs)"
    and sorted: "sorted (map rule_sort_key ?ps)" "sorted (map rule_sort_key ?qs)"
    using p q by (auto simp: wf_policy_def ok_rules_def)
  have "rules_map ?ps = rules_map ?qs"
    unfolding default_map_rules [OF ne(1), of "default_rule p"]
      default_map_rules [OF ne(2), of "default_rule q"]
    using m by (simp only: policy_map_def)
  then have set: "set ?ps = set ?qs" using dist by (simp add: rules_map_eq_iff)
  have keys: "distinct (map rule_sort_key rs)" if "distinct (map psr_prefix rs)" for rs
    using that by (induction rs) (auto simp: rule_sort_key_def)
  have "map rule_sort_key ?ps = map rule_sort_key ?qs"
    using sorted keys [OF dist(1)] keys [OF dist(2)] set
    by (intro sorted_distinct_set_unique) simp_all
  moreover have "inj_on rule_sort_key (set ?ps \<union> set ?qs)"
    using keys [OF dist(1)] set by (simp add: distinct_map)
  ultimately have "?ps = ?qs" by (rule map_inj_on)
  moreover have "default_rule p = default_rule q"
    using fun_cong [OF m, of "[]"] by (simp add: policy_map_def default_map_def)
  ultimately show ?thesis by simp
qed

lemma policy_eq_is_meaning:
  assumes "StreamPolicy_from_str a = Ok p" "StreamPolicy_from_str b = Ok q"
  shows "p = q \<longleftrightarrow> policy_meaning a = policy_meaning b"
proof -
  have "policy_meaning a = Ok (policy_map p)" "policy_meaning b = Ok (policy_map q)"
    using policy_map_meaning [of a] policy_map_meaning [of b] assms by simp_all
  then show ?thesis
    using wf_policy_eq StreamPolicy_from_str_wf assms by auto
qed

text \<open>
  C39. Parsed policies are in canonical form: the rules have distinct, trimmed, non-empty prefixes without
  delimiters and are sorted by length and then by text, so the derived equality of \<open>StreamPolicy\<close> is
  equality of meaning. Two policy strings that parse give equal policies iff they give every prefix the
  same rule, whatever the order, the spelling and the repetitions of their directives.
\<close>

theorem policy_equality:
  assumes "StreamPolicy_from_str a = Ok p" "StreamPolicy_from_str b = Ok q"
  shows "wf_policy p \<and> (p = q \<longleftrightarrow> policy_meaning a = policy_meaning b)"
  using StreamPolicy_from_str_wf [OF assms(1)] policy_eq_is_meaning [OF assms] by simp

theorem policy_equality_witness:
  "wf_policy example_policy
   \<and> policy_meaning (str_lit ''off,network.repair=on, network.=on ,,network.repair=OFF'')
     = policy_meaning (str_lit ''off,network.=on,network.repair=off'')"
  using policy_equality [OF example_policy_parse example_policy_documented] by simp

section \<open>Printing\<close>

text \<open>A policy string for a policy: the default rule, then one directive per prefix.\<close>

definition print_rule :: "PrefixStreamRule \<Rightarrow> str" where
  "print_rule r = psr_prefix r @ PREFIX_RULE_ASSIGNMENT # StreamRule_fmt (psr_stream_state r)"

fun join_directives :: "str \<Rightarrow> str list \<Rightarrow> str" where
  "join_directives d [] = d"
| "join_directives d (e # es) = d @ DIRECTIVE_DELIMITER # join_directives e es"

definition print_policy :: "StreamPolicy \<Rightarrow> str" where
  "print_policy p =
     join_directives (StreamRule_fmt (default_rule p)) (map print_rule (prefix_rules_sorted_by_length p))"

lemma split_join:
  "\<forall>x \<in> set (d # es). DIRECTIVE_DELIMITER \<notin> set x \<Longrightarrow>
   str_split DIRECTIVE_DELIMITER (join_directives d es) = d # es"
  by (induction es arbitrary: d) (simp_all add: str_split_no_delimiter str_split_append)

lemma StreamRule_fmt_facts:
  "StreamRule_from_str (StreamRule_fmt r) = Ok r" "StreamRule_fmt r \<noteq> []"
  "trimmed (StreamRule_fmt r)" "DIRECTIVE_DELIMITER \<notin> set (StreamRule_fmt r)"
  "\<not> is_whitespace (last (StreamRule_fmt r))"
  by (cases r; simp add: StreamRule_fmt_def ON_def OFF_def StreamRule_from_str_def trimmed_def
      str_lit_def eq_ignore_ascii_case_def to_ascii_lowercase_def is_whitespace_def DIRECTIVE_DELIMITER_def)+

lemma bare_rule_plain:
  assumes "PREFIX_RULE_ASSIGNMENT \<in> set d"
  shows "StreamRule_from_str d = Err (InvalidStreamRuleValue d)"
proof -
  have "to_ascii_lowercase PREFIX_RULE_ASSIGNMENT \<in> set (map to_ascii_lowercase d)"
    using assms by auto
  moreover have "to_ascii_lowercase PREFIX_RULE_ASSIGNMENT \<notin> set (map to_ascii_lowercase ON)"
    "to_ascii_lowercase PREFIX_RULE_ASSIGNMENT \<notin> set (map to_ascii_lowercase OFF)"
    by (simp_all add: to_ascii_lowercase_def PREFIX_RULE_ASSIGNMENT_def ON_def OFF_def str_lit_def)
  ultimately show ?thesis
    unfolding StreamRule_from_str_def eq_ignore_ascii_case_def by metis
qed

lemma print_rule_facts:
  assumes "ok_prefix (psr_prefix r)"
  shows "trimmed (print_rule r)" "DIRECTIVE_DELIMITER \<notin> set (print_rule r)"
    "PrefixStreamRule_from_str (print_rule r) = Ok r" "print_rule r \<noteq> []"
    "PREFIX_RULE_ASSIGNMENT \<in> set (print_rule r)"
proof -
  show "trimmed (print_rule r)"
    using assms StreamRule_fmt_facts by (auto simp: print_rule_def ok_prefix_def trimmed_def)
  show "DIRECTIVE_DELIMITER \<notin> set (print_rule r)"
    using assms StreamRule_fmt_facts
    by (auto simp: print_rule_def ok_prefix_def DIRECTIVE_DELIMITER_def PREFIX_RULE_ASSIGNMENT_def)
  show "PrefixStreamRule_from_str (print_rule r) = Ok r"
    using assms StreamRule_fmt_facts
    by (simp add: print_rule_def PrefixStreamRule_from_str_def ok_prefix_def split_once_append)
qed (simp_all add: print_rule_def)

lemma put_rule_new: "psr_prefix r \<notin> psr_prefix ` set rs \<Longrightarrow> put_rule r rs = rs @ [r]"
  by (induction rs) auto

lemma policy_loop_print:
  assumes "ok_rules (acc @ rs)"
  shows "policy_loop (map print_rule rs) d acc = Ok (d, acc @ rs)"
  using assms
proof (induction rs arbitrary: acc)
  case (Cons r rs)
  have ok: "ok_prefix (psr_prefix r)" using Cons.prems by (simp add: ok_rules_def)
  note facts = print_rule_facts [OF ok]
  have "put_rule r acc = acc @ [r]"
    using Cons.prems by (intro put_rule_new) (auto simp: ok_rules_def)
  moreover have "psr_prefix r \<noteq> []" using ok by (simp add: ok_prefix_def)
  ultimately show ?case
    using Cons facts(3,4) bare_rule_plain [OF facts(5)] by simp
qed simp

text \<open>
  C26. Every canonical policy can be written and read back: printing the default rule and then one
  directive per prefix, and parsing the result, returns the same policy. Together with the previous
  theorem the parser is onto the canonical policies.
\<close>

theorem policy_print_parse:
  assumes "wf_policy p"
  shows "StreamPolicy_from_str (print_policy p) = Ok p"
proof -
  let ?rs = "prefix_rules_sorted_by_length p"
  let ?ds = "StreamRule_fmt (default_rule p) # map print_rule ?rs"
  have ok: "ok_rules ?rs" and sorted: "sorted (map rule_sort_key ?rs)"
    using assms by (auto simp: wf_policy_def)
  have rs: "\<forall>r \<in> set ?rs. ok_prefix (psr_prefix r)" using ok by (simp add: ok_rules_def)
  have split: "str_split DIRECTIVE_DELIMITER (print_policy p) = ?ds"
    unfolding print_policy_def using rs print_rule_facts(2) StreamRule_fmt_facts(4)
    by (intro split_join) auto
  have trims: "map trim ?ds = ?ds"
    using rs print_rule_facts(1) StreamRule_fmt_facts(3) by (simp add: map_idI)
  have loop: "policy_loop ?ds StreamRule_default [] = Ok (default_rule p, ?rs)"
    using policy_loop_print [of "[]" ?rs] ok StreamRule_fmt_facts by simp
  have sort: "sort_key rule_sort_key ?rs = ?rs"
    by (rule properties_for_sort_key) (simp_all add: sorted)
  have "trim (print_policy p) \<noteq> []"
  proof
    assume "trim (print_policy p) = []"
    then have "\<forall>c \<in> set (print_policy p). is_whitespace c" by (simp add: trim_Nil_iff)
    moreover have "set (StreamRule_fmt (default_rule p)) \<subseteq> set (print_policy p)"
      unfolding print_policy_def by (cases "map print_rule ?rs") auto
    ultimately show False
      using StreamRule_fmt_facts(2,5) last_in_set by blast
  qed
  then show ?thesis
    unfolding StreamPolicy_from_str_def split trims loop by (simp add: sort)
qed

theorem policy_print_parse_witness:
  "StreamPolicy_from_str (print_policy example_policy) = Ok example_policy
   \<and> print_policy example_policy = str_lit ''off,network.=on,network.repair=off''"
  using policy_print_parse [OF StreamPolicy_from_str_wf [OF example_policy_parse]]
  by (simp add: print_policy_def example_policy_def print_rule_def StreamRule_fmt_def ON_def OFF_def
      str_lit_def DIRECTIVE_DELIMITER_def PREFIX_RULE_ASSIGNMENT_def)

end
