(* ===== verification/Publisher_Interface.thy ===== *)
theory Publisher_Interface
  imports Prelude "HOL-Library.Sublist"
begin

text \<open>
  The interface of a publisher, which the Linux backend, the stub and the public type share
  (\<open>event-system/src/publisher.rs\<close>, \<open>backend/linux/publisher.rs\<close>, \<open>backend/stub.rs\<close>): asking whether it is enabled
  and publishing a batch, what these calls may do to the messages of the queues, and what follows for every
  sequence of calls.
\<close>

datatype 'ev call = IsEnabled | PublishBatch "'ev list"

text \<open>A sequence of calls, with the batches whose publication was reported to have succeeded.\<close>

fun publisher_calls ::
    "('s \<Rightarrow> bool \<times> 's) \<Rightarrow> ('ev list \<Rightarrow> 's \<Rightarrow> ('e, unit) outcome \<times> 's) \<Rightarrow> 'ev call list \<Rightarrow> 's \<Rightarrow> 's \<times> 'ev list list" where
  "publisher_calls is_enabled publish_batch [] s = (s, [])"
| "publisher_calls is_enabled publish_batch (IsEnabled # cs) s =
     publisher_calls is_enabled publish_batch cs (snd (is_enabled s))"
| "publisher_calls is_enabled publish_batch (PublishBatch events # cs) s =
     (case publish_batch events s of (r, s') \<Rightarrow>
        map_prod id (\<lambda>succeeded. if r = Ok () then events # succeeded else succeeded)
          (publisher_calls is_enabled publish_batch cs s'))"

text \<open>Encoded batches appended to one queue.\<close>

definition batch_sent ::
    "('ev list \<Rightarrow> ('x, bytes list) outcome) \<Rightarrow> 'ev list \<Rightarrow> (nat \<rightharpoonup> bytes list) \<Rightarrow> (nat \<rightharpoonup> bytes list) \<Rightarrow> bool" where
  "batch_sent encode events log log' \<longleftrightarrow>
     (\<exists>obj cells msgs. encode events = Ok cells \<and> log obj = Some msgs \<and> log' = log(obj \<mapsto> msgs @ cells))"

locale event_publisher =
  fixes is_enabled :: "'s \<Rightarrow> bool \<times> 's"
    and publish_batch :: "'ev list \<Rightarrow> 's \<Rightarrow> ('e, unit) outcome \<times> 's"
    and encode :: "'ev list \<Rightarrow> ('x, bytes list) outcome"
    and inv :: "'s \<Rightarrow> bool"
    and log :: "'s \<Rightarrow> nat \<rightharpoonup> bytes list"
  assumes is_enabled_quiet: "inv s \<Longrightarrow> is_enabled s = (b, s') \<Longrightarrow> inv s' \<and> log s' = log s"
    and publish_batch_whole: "inv s \<Longrightarrow> publish_batch events s = (r, s') \<Longrightarrow>
      inv s' \<and> (log s' = log s \<or> r = Ok () \<and> batch_sent encode events (log s) (log s'))"
    and disabled_discards: "inv s \<Longrightarrow> is_enabled s = (False, s') \<Longrightarrow> publish_batch events s' = (r, s'') \<Longrightarrow>
      r = Ok () \<and> log s'' = log s"
    and enabled_sends: "inv s \<Longrightarrow> is_enabled s = (True, s') \<Longrightarrow> publish_batch events s' = (Ok (), s'') \<Longrightarrow>
      events \<noteq> [] \<Longrightarrow> batch_sent encode events (log s) (log s'')"
begin

lemma calls_append:
  assumes "inv s" "publisher_calls is_enabled publish_batch cs s = (s', succeeded)"
  shows "inv s' \<and> (\<forall>obj msgs. log s obj = Some msgs \<longrightarrow>
    (\<exists>sent cells. subseq sent succeeded \<and> list_all2 (\<lambda>events c. encode events = Ok c) sent cells
       \<and> log s' obj = Some (msgs @ concat cells)))"
  using assms
proof (induction cs arbitrary: s succeeded)
  case Nil
  then show ?case by (auto intro!: exI [of _ "[]"])
next
  case (Cons c cs)
  show ?case
  proof (cases c)
    case IsEnabled
    have "inv (snd (is_enabled s))" "log (snd (is_enabled s)) = log s"
      using is_enabled_quiet [OF Cons.prems(1), of "fst (is_enabled s)" "snd (is_enabled s)"] by simp_all
    then show ?thesis using Cons.IH [of "snd (is_enabled s)"] Cons.prems(2) IsEnabled by simp
  next
    case (PublishBatch events)
    obtain r t where b: "publish_batch events s = (r, t)" by fastforce
    then obtain rest where run: "publisher_calls is_enabled publish_batch cs t = (s', rest)"
      and succ: "succeeded = (if r = Ok () then events # rest else rest)"
      using Cons.prems(2) PublishBatch by (cases "publisher_calls is_enabled publish_batch cs t") auto
    note t = publish_batch_whole [OF Cons.prems(1) b]
    note IH = Cons.IH [OF conjunct1 [OF t] run]
    have "\<exists>sent cells. subseq sent succeeded \<and> list_all2 (\<lambda>events c. encode events = Ok c) sent cells
       \<and> log s' obj = Some (msgs @ concat cells)" if old: "log s obj = Some msgs" for obj msgs
    proof (cases "log t obj = log s obj")
      case True
      then obtain sent cells where "subseq sent rest" "list_all2 (\<lambda>events c. encode events = Ok c) sent cells"
          "log s' obj = Some (msgs @ concat cells)"
        using IH old by metis
      then show ?thesis using succ by (intro exI [of _ sent] exI [of _ cells]) auto
    next
      case False
      then have "r = Ok ()" "batch_sent encode events (log s) (log t)" using t by auto
      then obtain c where c: "encode events = Ok c" "log t obj = Some (msgs @ c)"
        using False old by (auto simp: batch_sent_def split: if_splits)
      with IH obtain sent cells where "subseq sent rest" "list_all2 (\<lambda>events c. encode events = Ok c) sent cells"
          "log s' obj = Some ((msgs @ c) @ concat cells)"
        by metis
      then show ?thesis using succ c(1) \<open>r = Ok ()\<close>
        by (intro exI [of _ "events # sent"] exI [of _ "c # cells"]) simp
    qed
    then show ?thesis using IH by blast
  qed
qed

lemma calls_contract:
  assumes "inv s" "publisher_calls is_enabled publish_batch cs s = (s', succeeded)"
    and "is_enabled s' = (b, t)" "publish_batch events t = (r, t')"
  shows "log t = log s' \<and> inv t' \<and> (\<not> b \<longrightarrow> r = Ok () \<and> log t' = log s')
    \<and> (r \<noteq> Ok () \<longrightarrow> b \<and> log t' = log s')
    \<and> (b \<and> r = Ok () \<and> events \<noteq> [] \<longrightarrow> batch_sent encode events (log s') (log t'))"
proof -
  have s': "inv s'" using calls_append [OF assms(1,2)] by blast
  note t = is_enabled_quiet [OF s' assms(3)]
  note t' = publish_batch_whole [OF conjunct1 [OF t] assms(4)]
  show ?thesis
    using t t' disabled_discards [OF s' _ assms(4)] enabled_sends [OF s', of t events t'] assms(3,4)
    by (cases b) auto
qed

end

end
