(* ===== verification/Event_Stream.thy ===== *)
theory Event_Stream
  imports Event_Directory Stream_Policy Publisher_Interface
begin

text \<open>
  Event streams and their publishers (\<open>event-system/src/backend/linux.rs\<close> and
  \<open>backend/linux/publisher.rs\<close>). A stream has a queue only while its rule is on; every change of the queue
  increments the generation, and a publisher that sees another generation than its own replaces its
  producer. The operations here are the calls as one thread makes them; their interleaving is the
  subject of a theory of its own.
\<close>

section \<open>Streams\<close>

record EventStream =
  es_queue_generation :: u64
  es_stream_name :: StreamName
  es_stream_config :: StreamConfig
  es_queue :: "StreamQueue option"
  es_remaining_publisher_slots :: usize
  es_event_system_directory :: path

definition EventStream_new :: "path \<Rightarrow> StreamName \<Rightarrow> StreamConfig \<Rightarrow> EventStream" where
  "EventStream_new event_system_directory stream_name stream_config =
     \<lparr>es_queue_generation = 0, es_stream_name = stream_name, es_stream_config = stream_config,
      es_queue = None, es_remaining_publisher_slots = publisher_slots stream_config,
      es_event_system_directory = event_system_directory\<rparr>"

definition bump_generation :: "EventStream \<Rightarrow> EventStream" where
  "bump_generation self = self\<lparr>es_queue_generation := es_queue_generation self + 1\<rparr>"

definition apply_stream_rule ::
    "('b, 'p) shaq \<Rightarrow> (wincode_error, bytes) outcome \<Rightarrow> StreamRule
      \<Rightarrow> (EventStream \<times> 'b world, CreateStreamError, unit) comp" where
  "apply_stream_rule sh schema rule = (\<lambda>(self, w).
     case (rule, es_queue self) of
       (On, None) \<Rightarrow>
         (case StreamQueue_create sh schema (es_event_system_directory self) (es_stream_name self)
                 (es_stream_config self) w of
            (Ok q, w') \<Rightarrow> (Ok (), (bump_generation (self\<lparr>es_queue := Some q\<rparr>), w'))
          | (Err e, w') \<Rightarrow> (Err e, (self, w'))
          | (Panic, w') \<Rightarrow> (Panic, (self, w'))
          | (UB, w') \<Rightarrow> (UB, (self, w')))
     | (Off, Some q) \<Rightarrow> (Ok (), (bump_generation (self\<lparr>es_queue := None\<rparr>), StreamQueue_drop q w))
     | (On, Some _) \<Rightarrow> (Ok (), (self, w))
     | (Off, None) \<Rightarrow> (Ok (), (self, w)))"

text \<open>Dropping a stream drops its queue, which removes the queue's directory.\<close>

definition EventStream_drop :: "EventStream \<Rightarrow> 'b world \<Rightarrow> 'b world" where
  "EventStream_drop self w = (case es_queue self of None \<Rightarrow> w | Some q \<Rightarrow> StreamQueue_drop q w)"

section \<open>Producers\<close>

definition queue_of :: "'b world \<Rightarrow> nat \<Rightarrow> 'b option" where
  "queue_of w obj = Option.bind (w_mem w obj) mem_queue"

definition create_producer ::
    "('b, 'p) shaq \<Rightarrow> EventStream \<Rightarrow> 'b world \<Rightarrow> (nat \<times> 'p) option \<times> 'b world" where
  "create_producer sh self w =
     (case es_queue self of
        None \<Rightarrow> (None, w)
      | Some q \<Rightarrow>
          (case Option.bind (queue_of w (sq_broadcast q)) (broadcast_producer sh) of
             None \<Rightarrow> (None, w)
           | Some (p, b) \<Rightarrow> (Some (sq_broadcast q, p), store_queue (sq_broadcast q) b w)))"

definition release_producer :: "('b, 'p) shaq \<Rightarrow> (nat \<times> 'p) option \<Rightarrow> 'b world \<Rightarrow> 'b world" where
  "release_producer sh producer w =
     (case producer of
        None \<Rightarrow> w
      | Some (obj, p) \<Rightarrow>
          (case queue_of w obj of None \<Rightarrow> w | Some b \<Rightarrow> store_queue obj (drop_producer sh p b) w))"

section \<open>Publishers\<close>

datatype PublishError = Serialization wincode_error | FailedToSend

record 'p Publisher =
  pub_queue_generation :: u64
  pub_producer :: "(nat \<times> 'p) option"

definition usize_checked_dec :: "usize \<Rightarrow> usize option" where
  "usize_checked_dec n = usize_checked_sub n 1"

definition try_create_publisher ::
    "('b, 'p) shaq \<Rightarrow> EventStream \<Rightarrow> 'b world \<Rightarrow> 'p Publisher option \<times> EventStream \<times> 'b world" where
  "try_create_publisher sh stream w =
     (case usize_checked_dec (es_remaining_publisher_slots stream) of
        None \<Rightarrow> (None, stream, w)
      | Some n \<Rightarrow>
          let stream' = stream\<lparr>es_remaining_publisher_slots := n\<rparr>;
              (producer, w') = create_producer sh stream' w in
          (Some \<lparr>pub_queue_generation = es_queue_generation stream', pub_producer = producer\<rparr>, stream', w'))"

definition usize_saturating_add :: "usize \<Rightarrow> usize \<Rightarrow> usize" where
  "usize_saturating_add a b = min (a + b) USIZE_MAX"

definition Publisher_drop ::
    "('b, 'p) shaq \<Rightarrow> 'p Publisher \<Rightarrow> EventStream \<Rightarrow> 'b world \<Rightarrow> EventStream \<times> 'b world" where
  "Publisher_drop sh self stream w =
     (let w' = release_producer sh (pub_producer self) w in
      (stream\<lparr>es_remaining_publisher_slots :=
         usize_saturating_add (es_remaining_publisher_slots stream) 1\<rparr>, w'))"

definition replace_producer ::
    "('b, 'p) shaq \<Rightarrow> EventStream \<Rightarrow> 'p Publisher \<Rightarrow> 'b world \<Rightarrow> 'p Publisher \<times> 'b world" where
  "replace_producer sh stream self w =
     (let w1 = release_producer sh (pub_producer self) w;
          self1 = self\<lparr>pub_producer := None, pub_queue_generation := es_queue_generation stream\<rparr>;
          (producer, w2) = create_producer sh stream w1 in
      (self1\<lparr>pub_producer := producer\<rparr>, w2))"

definition Publisher_producer ::
    "('b, 'p) shaq \<Rightarrow> EventStream \<Rightarrow> 'p Publisher \<Rightarrow> 'b world \<Rightarrow> 'p Publisher \<times> 'b world" where
  "Publisher_producer sh stream self w =
     (if es_queue_generation stream \<noteq> pub_queue_generation self then replace_producer sh stream self w
      else (self, w))"

definition Publisher_is_enabled ::
    "('b, 'p) shaq \<Rightarrow> EventStream \<Rightarrow> 'p Publisher \<Rightarrow> 'b world \<Rightarrow> bool \<times> 'p Publisher \<times> 'b world" where
  "Publisher_is_enabled sh stream self w =
     (let (self', w') = Publisher_producer sh stream self w in (pub_producer self' \<noteq> None, self', w'))"

text \<open>
  A reserved write is either published with its cells or dropped. The cells are filled in order and the
  first event that does not serialize ends the call.
\<close>

fun serialize_all ::
    "('ev \<Rightarrow> (wincode_error, bytes) outcome) \<Rightarrow> 'ev list \<Rightarrow> (PublishError, bytes list) outcome" where
  "serialize_all serialize_into [] = Ok []"
| "serialize_all serialize_into (event # events) =
     r_bind (outcome_map_err Serialization (serialize_into event)) (\<lambda>cell.
     r_bind (serialize_all serialize_into events) (\<lambda>cells. Ok (cell # cells)))"

definition write_events ::
    "('b, 'p) shaq \<Rightarrow> ('p \<Rightarrow> 'b \<Rightarrow> bool \<times> 'b) \<Rightarrow> ('ev \<Rightarrow> (wincode_error, bytes) outcome) \<Rightarrow> nat \<times> 'p
      \<Rightarrow> 'ev list \<Rightarrow> ('b world, PublishError, unit) comp" where
  "write_events sh reserve serialize_into producer events w =
     (case producer of (obj, p) \<Rightarrow>
        (case queue_of w obj of
           None \<Rightarrow> (Err FailedToSend, w)
         | Some b \<Rightarrow>
             (case reserve p b of
                (False, b') \<Rightarrow> (Err FailedToSend, store_queue obj b' w)
              | (True, b') \<Rightarrow>
                  (case serialize_all serialize_into events of
                     Ok cells \<Rightarrow> (Ok (), store_queue obj (publish_guard sh p cells b') w)
                   | Err e \<Rightarrow> (Err e, store_queue obj (drop_guard sh p b') w)
                   | Panic \<Rightarrow> (Panic, w) | UB \<Rightarrow> (UB, w)))))"

definition publish ::
    "('b, 'p) shaq \<Rightarrow> ('ev \<Rightarrow> (wincode_error, bytes) outcome) \<Rightarrow> EventStream \<Rightarrow> 'ev
      \<Rightarrow> ('p Publisher \<times> 'b world, PublishError, unit) comp" where
  "publish sh serialize_into stream event = (\<lambda>(self, w).
     let (self', w') = Publisher_producer sh stream self w in
     case pub_producer self' of
       None \<Rightarrow> (Ok (), (self', w'))
     | Some producer \<Rightarrow>
         (case write_events sh (try_reserve_write sh) serialize_into producer [event] w' of
            (r, w'') \<Rightarrow> (r, (self', w''))))"

definition publish_batch ::
    "('b, 'p) shaq \<Rightarrow> ('ev \<Rightarrow> (wincode_error, bytes) outcome) \<Rightarrow> EventStream \<Rightarrow> 'ev list
      \<Rightarrow> ('p Publisher \<times> 'b world, PublishError, unit) comp" where
  "publish_batch sh serialize_into stream events = (\<lambda>(self, w).
     if length events = 0 then (Ok (), (self, w))
     else
       let (self', w') = Publisher_producer sh stream self w in
       case pub_producer self' of
         None \<Rightarrow> (Ok (), (self', w'))
       | Some producer \<Rightarrow>
           (case write_events sh (\<lambda>p. try_reserve_write_batch sh p (length events)) serialize_into producer
                   events w' of
              (r, w'') \<Rightarrow> (r, (self', w''))))"

section \<open>Publishing\<close>

text \<open>
  What the crate relies on of the queue library: an observation of a queue, such as its messages, changes
  only when a reserved write is published, which adds its cells to it.
\<close>

definition queue_view_laws :: "('b, 'p) shaq \<Rightarrow> ('p \<Rightarrow> bytes list \<Rightarrow> 'v \<Rightarrow> 'v) \<Rightarrow> ('b \<Rightarrow> 'v) \<Rightarrow> bool" where
  "queue_view_laws sh add log \<longleftrightarrow>
     (\<forall>b p b'. broadcast_producer sh b = Some (p, b') \<longrightarrow> log b' = log b)
     \<and> (\<forall>p b. log (drop_producer sh p b) = log b)
     \<and> (\<forall>p b. log (snd (try_reserve_write sh p b)) = log b)
     \<and> (\<forall>p n b. log (snd (try_reserve_write_batch sh p n b)) = log b)
     \<and> (\<forall>p b. log (drop_guard sh p b) = log b)
     \<and> (\<forall>p cells b. log (publish_guard sh p cells b) = add p cells (log b))"

text \<open>The messages of a queue: publishing appends the cells.\<close>

definition queue_log_laws :: "('b, 'p) shaq \<Rightarrow> ('b \<Rightarrow> bytes list) \<Rightarrow> bool" where
  "queue_log_laws sh log \<longleftrightarrow> queue_view_laws sh (\<lambda>p cells msgs. msgs @ cells) log"

definition log_at :: "('b \<Rightarrow> 'v) \<Rightarrow> 'b world \<Rightarrow> nat \<Rightarrow> 'v option" where
  "log_at log w obj = map_option log (queue_of w obj)"

text \<open>A publisher of the current generation has no producer on any other queue.\<close>

definition attached :: "EventStream \<Rightarrow> 'p Publisher \<Rightarrow> bool" where
  "attached stream pub \<longleftrightarrow>
     (pub_queue_generation pub = es_queue_generation stream \<longrightarrow>
       (\<forall>obj p. pub_producer pub = Some (obj, p) \<longrightarrow> map_option sq_broadcast (es_queue stream) = Some obj))"

lemma queue_of_store [simp]:
  "queue_of (store_queue obj b w) x = (if x = obj \<and> w_mem w obj \<noteq> None then Some b else queue_of w x)"
  by (auto simp: queue_of_def store_queue_def)

lemma queue_of_mem: "queue_of w obj = Some b \<Longrightarrow> w_mem w obj \<noteq> None"
  by (auto simp: queue_of_def bind_eq_Some_conv)

lemma log_at_store:
  "queue_of w obj = Some b \<Longrightarrow>
   log_at log (store_queue obj b' w) x = (if x = obj then Some (log b') else log_at log w x)"
  by (auto simp: log_at_def dest: queue_of_mem)

lemma log_at_same:
  "queue_of w obj = Some b \<Longrightarrow> log b' = log b \<Longrightarrow> log_at log (store_queue obj b' w) = log_at log w"
  by (rule ext) (auto simp: log_at_def dest: queue_of_mem)

lemma create_producer_log:
  assumes "queue_view_laws sh add log" "create_producer sh stream w = (pr, w')"
  shows "log_at log w' = log_at log w"
    and "pr = Some (obj, p) \<Longrightarrow> map_option sq_broadcast (es_queue stream) = Some obj"
  using assms by (auto simp: create_producer_def queue_view_laws_def bind_eq_Some_conv log_at_same
      split: option.splits prod.splits)

lemma release_producer_log:
  "queue_view_laws sh add log \<Longrightarrow> log_at log (release_producer sh pr w) = log_at log w"
  by (auto simp: release_producer_def queue_view_laws_def log_at_same split: option.splits)

lemma Publisher_producer_log:
  assumes laws: "queue_view_laws sh add log" and "attached stream pub"
    and "Publisher_producer sh stream pub w = (pub', w')"
  shows "log_at log w' = log_at log w" "attached stream pub'"
    "pub_queue_generation pub' = es_queue_generation stream"
proof -
  show "log_at log w' = log_at log w"
    using assms(3) create_producer_log(1) [OF laws] release_producer_log [OF laws]
    by (auto simp: Publisher_producer_def replace_producer_def Let_def split: if_splits prod.splits)
  show "attached stream pub'"
    using assms(2,3) create_producer_log(2) [OF laws]
    by (auto simp: Publisher_producer_def replace_producer_def Let_def attached_def
        split: if_splits prod.splits)
  show "pub_queue_generation pub' = es_queue_generation stream"
    using assms(3) by (auto simp: Publisher_producer_def replace_producer_def Let_def
        split: if_splits prod.splits)
qed

lemma write_events_log:
  assumes laws: "queue_view_laws sh add log" and reserve: "\<And>b. log (snd (reserve p b)) = log b"
    and "write_events sh reserve serialize_into (obj, p) events w = (r, w')"
  shows "x \<noteq> obj \<Longrightarrow> log_at log w' x = log_at log w x"
    "r \<noteq> Ok () \<Longrightarrow> log_at log w' = log_at log w"
    "r = Ok () \<Longrightarrow> \<exists>cells msgs. serialize_all serialize_into events = Ok cells
       \<and> log_at log w obj = Some msgs \<and> log_at log w' obj = Some (add p cells msgs)"
proof -
  show "log_at log w' x = log_at log w x" if "x \<noteq> obj"
    using assms(3) that
    by (auto simp: write_events_def log_at_store split: option.splits prod.splits bool.splits outcome.splits)
  have res: "log b' = log b" if "reserve p b = (c, b')" for b c b'
    using reserve [of b] that by simp
  show "log_at log w' = log_at log w" if "r \<noteq> Ok ()"
    using assms(3) that laws res
    by (auto simp: write_events_def queue_view_laws_def intro!: log_at_same
        split: option.splits prod.splits bool.splits outcome.splits)
  show "\<exists>cells msgs. serialize_all serialize_into events = Ok cells
       \<and> log_at log w obj = Some msgs \<and> log_at log w' obj = Some (add p cells msgs)" if "r = Ok ()"
  proof (cases "queue_of w obj")
    case (Some b)
    then show ?thesis
      using assms(3) that laws res [of b]
      by (auto simp: write_events_def queue_view_laws_def log_at_store log_at_def
          split: prod.splits bool.splits outcome.splits dest: queue_of_mem)
  qed (use assms(3) that in \<open>auto simp: write_events_def\<close>)
qed

lemma publish_batch_cases:
  assumes "queue_view_laws sh add log" "attached stream pub"
    and r: "publish_batch sh serialize_into stream events (pub, w) = (r, (pub', w'))"
  shows "attached stream pub'"
    "events = [] \<or> pub_producer pub' = None \<Longrightarrow> events = [] \<and> r = Ok () \<and> pub' = pub \<and> w' = w
       \<or> pub_producer pub' = None \<and> r = Ok () \<and> log_at log w' = log_at log w"
    "events \<noteq> [] \<Longrightarrow> pub_producer pub' = Some (obj, p) \<Longrightarrow>
       map_option sq_broadcast (es_queue stream) = Some obj
       \<and> (\<forall>x. x \<noteq> obj \<longrightarrow> log_at log w' x = log_at log w x)
       \<and> (r \<noteq> Ok () \<longrightarrow> log_at log w' = log_at log w)
       \<and> (r = Ok () \<longrightarrow> (\<exists>cells msgs. serialize_all serialize_into events = Ok cells
            \<and> log_at log w obj = Some msgs \<and> log_at log w' obj = Some (add p cells msgs)))"
proof -
  obtain pub1 w1 where p: "Publisher_producer sh stream pub w = (pub1, w1)" by fastforce
  note pp = Publisher_producer_log [OF assms(1,2) p]
  have pub': "pub' = (if events = [] then pub else pub1)"
    using r p by (auto simp: publish_batch_def split: option.splits prod.splits)
  then show "attached stream pub'" using pp(2) assms(2) by simp
  show "events = [] \<and> r = Ok () \<and> pub' = pub \<and> w' = w
       \<or> pub_producer pub' = None \<and> r = Ok () \<and> log_at log w' = log_at log w"
    if "events = [] \<or> pub_producer pub' = None"
    using that r p pub' pp(1) by (auto simp: publish_batch_def split: if_splits)
  assume e: "events \<noteq> []" "pub_producer pub' = Some (obj, p)"
  with pub' pp(2,3) have "map_option sq_broadcast (es_queue stream) = Some obj"
    by (simp add: attached_def)
  moreover have w: "write_events sh (\<lambda>p. try_reserve_write_batch sh p (length events)) serialize_into (obj, p)
      events w1 = (r, w')"
    using r p e pub' by (auto simp: publish_batch_def split: prod.splits)
  moreover have "\<And>b. log (snd (try_reserve_write_batch sh p (length events) b)) = log b"
    using assms(1) by (simp add: queue_view_laws_def)
  ultimately show "map_option sq_broadcast (es_queue stream) = Some obj
       \<and> (\<forall>x. x \<noteq> obj \<longrightarrow> log_at log w' x = log_at log w x)
       \<and> (r \<noteq> Ok () \<longrightarrow> log_at log w' = log_at log w)
       \<and> (r = Ok () \<longrightarrow> (\<exists>cells msgs. serialize_all serialize_into events = Ok cells
            \<and> log_at log w obj = Some msgs \<and> log_at log w' obj = Some (add p cells msgs)))"
    using write_events_log [OF assms(1) _ w] pp(1) by simp
qed

text \<open>The Linux publisher keeps the contract of publishers, on the messages that the queue library keeps.\<close>

lemma publish_batch_step:
  assumes "queue_log_laws sh log" "attached stream pub"
    and "publish_batch sh serialize_into stream events (pub, w) = (r, (pub', w'))"
  shows "attached stream pub'"
    "log_at log w' = log_at log w \<or> r = Ok () \<and> batch_sent (serialize_all serialize_into) events (log_at log w) (log_at log w')"
    "events \<noteq> [] \<Longrightarrow> r = Ok () \<Longrightarrow> pub_producer pub' \<noteq> None \<Longrightarrow>
       batch_sent (serialize_all serialize_into) events (log_at log w) (log_at log w')"
proof -
  note cases = publish_batch_cases [OF assms(1) [unfolded queue_log_laws_def] assms(2,3)]
  show "attached stream pub'" by (rule cases(1))
  show sent: "batch_sent (serialize_all serialize_into) events (log_at log w) (log_at log w')"
    if ne: "events \<noteq> []" and ok: "r = Ok ()" and on: "pub_producer pub' \<noteq> None"
  proof -
    obtain obj p where p: "pub_producer pub' = Some (obj, p)" using on by auto
    from cases(3) [OF ne p] ok obtain cells msgs where
      "serialize_all serialize_into events = Ok cells" "log_at log w obj = Some msgs"
      "log_at log w' = (log_at log w)(obj \<mapsto> msgs @ cells)"
      by (auto simp: fun_eq_iff)
    then show ?thesis unfolding batch_sent_def by blast
  qed
  show "log_at log w' = log_at log w \<or> r = Ok () \<and> batch_sent (serialize_all serialize_into) events (log_at log w) (log_at log w')"
  proof (cases "events = [] \<or> pub_producer pub' = None")
    case True
    then show ?thesis using cases(2) by auto
  next
    case False
    then obtain obj p where p: "pub_producer pub' = Some (obj, p)" by auto
    then show ?thesis using cases(3) [OF _ p] sent False by (cases "r = Ok ()") auto
  qed
qed

lemma publish_batch_after_is_enabled:
  assumes "Publisher_is_enabled sh stream pub w = (b, pub', w')" "pub_queue_generation pub' = es_queue_generation stream"
    and "publish_batch sh serialize_into stream events (pub', w') = (r, (pub'', w''))"
  shows "pub'' = pub'" "b \<longleftrightarrow> pub_producer pub' \<noteq> None" "\<not> b \<Longrightarrow> r = Ok () \<and> w'' = w'"
proof -
  have again: "Publisher_producer sh stream pub' w' = (pub', w')" using assms(2) by (simp add: Publisher_producer_def)
  show b: "b \<longleftrightarrow> pub_producer pub' \<noteq> None" using assms(1) by (auto simp: Publisher_is_enabled_def split: prod.splits)
  show "pub'' = pub'"
    using assms(3) again by (auto simp: publish_batch_def split: if_splits option.splits prod.splits)
  show "r = Ok () \<and> w'' = w'" if "\<not> b"
    using assms(3) again b that by (auto simp: publish_batch_def split: if_splits option.splits prod.splits)
qed

interpretation linux_publisher: event_publisher "\<lambda>(pub, w). Publisher_is_enabled sh stream pub w"
    "publish_batch sh serialize_into stream" "serialize_all serialize_into"
    "\<lambda>(pub, w). queue_log_laws sh log \<and> attached stream pub" "\<lambda>(pub, w). log_at log w"
proof unfold_locales
  have en: "log_at log w' = log_at log w \<and> attached stream pub' \<and> pub_queue_generation pub' = es_queue_generation stream"
    if "queue_log_laws sh log" "attached stream pub" "Publisher_is_enabled sh stream pub w = (b, pub', w')"
    for pub w b pub' w'
  proof -
    have "Publisher_producer sh stream pub w = (pub', w')"
      using that(3) by (auto simp: Publisher_is_enabled_def split: prod.splits)
    from Publisher_producer_log [OF that(1) [unfolded queue_log_laws_def] that(2) this] show ?thesis by blast
  qed
  fix s s' s'' :: "'a Publisher \<times> 'b world" and events r b
  obtain pub w pub' w' pub'' w'' where t: "s = (pub, w)" "s' = (pub', w')" "s'' = (pub'', w'')"
    by (cases s; cases s'; cases s'') auto
  assume s: "case s of (pub, w) \<Rightarrow> queue_log_laws sh log \<and> attached stream pub"
  show "(case s' of (pub, w) \<Rightarrow> queue_log_laws sh log \<and> attached stream pub)
      \<and> (case s' of (pub, w) \<Rightarrow> log_at log w) = (case s of (pub, w) \<Rightarrow> log_at log w)"
    if "(case s of (pub, w) \<Rightarrow> Publisher_is_enabled sh stream pub w) = (b, s')"
    using en [of pub w b pub' w'] s that unfolding t by simp
  show "(case s' of (pub, w) \<Rightarrow> queue_log_laws sh log \<and> attached stream pub)
      \<and> ((case s' of (pub, w) \<Rightarrow> log_at log w) = (case s of (pub, w) \<Rightarrow> log_at log w)
         \<or> r = Ok () \<and> batch_sent (serialize_all serialize_into) events (case s of (pub, w) \<Rightarrow> log_at log w)
               (case s' of (pub, w) \<Rightarrow> log_at log w))"
    if "publish_batch sh serialize_into stream events s = (r, s')"
    using publish_batch_step(1,2) [of sh log stream pub serialize_into events w r pub' w'] s that
    unfolding t by simp
  show "r = Ok () \<and> (case s'' of (pub, w) \<Rightarrow> log_at log w) = (case s of (pub, w) \<Rightarrow> log_at log w)"
    if "(case s of (pub, w) \<Rightarrow> Publisher_is_enabled sh stream pub w) = (False, s')"
      "publish_batch sh serialize_into stream events s' = (r, s'')"
    using publish_batch_after_is_enabled(3) [of sh stream pub w False pub' w' serialize_into events r pub'' w'']
      en [of pub w False pub' w'] s that unfolding t by simp
  show "batch_sent (serialize_all serialize_into) events (case s of (pub, w) \<Rightarrow> log_at log w)
      (case s'' of (pub, w) \<Rightarrow> log_at log w)"
    if "(case s of (pub, w) \<Rightarrow> Publisher_is_enabled sh stream pub w) = (True, s')"
      "publish_batch sh serialize_into stream events s' = (Ok (), s'')" "events \<noteq> []"
    using publish_batch_after_is_enabled(1,2) [of sh stream pub w True pub' w' serialize_into events "Ok ()" pub'' w'']
      publish_batch_step(3) [of sh log stream pub' serialize_into events w' "Ok ()" pub'' w'']
      en [of pub w True pub' w'] s that unfolding t by simp
qed

text \<open>
  C24. A batch is sent whole or not at all, and only to the stream's current queue. From an attached
  publisher, \<open>publish_batch\<close> never changes the messages of any queue but the current one; when it returns an
  error no message of any queue changed; when it returns success with a producer, every event serialized
  and the current queue got exactly the encodings of the batch, in order, at its end; and when the stream
  is disabled it returns success and sends nothing. The publisher stays attached.
\<close>

theorem publish_batch_atomic:
  assumes "queue_log_laws sh log" "attached stream pub"
    and "publish_batch sh serialize_into stream events (pub, w) = (r, (pub', w'))"
  shows "attached stream pub'
    \<and> (\<forall>x. map_option sq_broadcast (es_queue stream) \<noteq> Some x \<longrightarrow> log_at log w' x = log_at log w x)
    \<and> (r \<noteq> Ok () \<longrightarrow> log_at log w' = log_at log w)
    \<and> (r = Ok () \<and> events \<noteq> [] \<and> pub_producer pub' \<noteq> None \<longrightarrow>
        (\<exists>obj cells msgs. map_option sq_broadcast (es_queue stream) = Some obj
          \<and> serialize_all serialize_into events = Ok cells
          \<and> log_at log w obj = Some msgs \<and> log_at log w' obj = Some (msgs @ cells)))
    \<and> (es_queue stream = None \<and> events \<noteq> [] \<longrightarrow> r = Ok () \<and> log_at log w' = log_at log w)"
proof (cases "events = [] \<or> pub_producer pub' = None")
  case True
  then show ?thesis using publish_batch_cases(1,2) [OF assms(1) [unfolded queue_log_laws_def] assms(2,3)] by auto
next
  case False
  then obtain obj p where "events \<noteq> []" "pub_producer pub' = Some (obj, p)" by auto
  then show ?thesis
    using publish_batch_cases(1) [OF assms(1) [unfolded queue_log_laws_def] assms(2,3)] publish_batch_cases(3) [OF assms(1) [unfolded queue_log_laws_def] assms(2,3), of obj p] by auto
qed

lemma ring_log_laws: "queue_log_laws ring_shaq ring_log"
  by (auto simp: queue_log_laws_def queue_view_laws_def ring_shaq_def split: list.splits)

definition example_queue_world :: "ring world" where
  "example_queue_world = (example_world [])\<lparr>w_mem := [0 \<mapsto> \<lparr>mem_seals = REQUIRED_SEALS, mem_queue =
     Some \<lparr>ring_id = 7, ring_capacity = 2, ring_slots = 1, ring_lanes = [], ring_log = [[9]]\<rparr>\<rparr>]\<rparr>"

definition example_stream :: EventStream where
  "example_stream = (EventStream_new example_base example_name example_config)
     \<lparr>es_queue := Some \<lparr>sq_broadcast = 0, sq_event_stream_directory = [], sq_queue_file = 0\<rparr>,
      es_queue_generation := 1\<rparr>"

text \<open>An event of this example serializes when it is shorter than three bytes.\<close>

definition example_serialize :: "bytes \<Rightarrow> (wincode_error, bytes) outcome" where
  "example_serialize ev = (if length ev < 3 then Ok ev else Err (WincodeError 0))"

lemmas publish_run_defs = publish_batch_def Publisher_producer_def replace_producer_def
  release_producer_def create_producer_def example_stream_def EventStream_new_def example_queue_world_def
  example_world_def queue_of_def ring_shaq_def store_queue_def write_events_def example_serialize_def Let_def

lemma example_publish:
  "\<exists>pub' w'. publish_batch ring_shaq example_serialize example_stream [[1], [2, 3]]
     (\<lparr>pub_queue_generation = 0, pub_producer = None\<rparr>, example_queue_world) = (Ok (), (pub', w'))
     \<and> pub_producer pub' \<noteq> None"
  by (simp add: publish_run_defs)

lemma example_publish_fails:
  "\<exists>pub' w'. publish_batch ring_shaq example_serialize example_stream [[1], [2, 3, 4]]
     (\<lparr>pub_queue_generation = 0, pub_producer = None\<rparr>, example_queue_world)
     = (Err (Serialization (WincodeError 0)), (pub', w'))"
  by (simp add: publish_run_defs)

lemma example_attached: "attached example_stream \<lparr>pub_queue_generation = 0, pub_producer = (None :: (nat \<times> nat) option)\<rparr>"
  by (simp add: attached_def)

theorem publish_batch_atomic_witness:
  "(\<exists>pub' w' msgs. publish_batch ring_shaq example_serialize example_stream [[1], [2, 3]]
      (\<lparr>pub_queue_generation = 0, pub_producer = None\<rparr>, example_queue_world) = (Ok (), (pub', w'))
      \<and> log_at ring_log w' 0 = Some (msgs @ [[1], [2, 3]]))
   \<and> (\<exists>pub' w'. publish_batch ring_shaq example_serialize example_stream [[1], [2, 3, 4]]
      (\<lparr>pub_queue_generation = 0, pub_producer = None\<rparr>, example_queue_world)
        = (Err (Serialization (WincodeError 0)), (pub', w'))
      \<and> log_at ring_log w' = log_at ring_log example_queue_world)"
proof
  obtain pub' w' where r: "publish_batch ring_shaq example_serialize example_stream [[1], [2, 3]]
     (\<lparr>pub_queue_generation = 0, pub_producer = None\<rparr>, example_queue_world) = (Ok (), (pub', w'))"
    and p: "pub_producer pub' \<noteq> None"
    using example_publish by blast
  have "serialize_all example_serialize [[1], [2, 3]] = Ok [[1], [2, 3]]"
    by (simp add: example_serialize_def)
  moreover have "map_option sq_broadcast (es_queue example_stream) = Some 0"
    by (simp add: example_stream_def EventStream_new_def)
  ultimately have "\<exists>msgs. log_at ring_log w' 0 = Some (msgs @ [[1], [2, 3]])"
    using publish_batch_atomic [OF ring_log_laws example_attached r] p by auto
  with r show "\<exists>pub' w' msgs. publish_batch ring_shaq example_serialize example_stream [[1], [2, 3]]
      (\<lparr>pub_queue_generation = 0, pub_producer = None\<rparr>, example_queue_world) = (Ok (), (pub', w'))
      \<and> log_at ring_log w' 0 = Some (msgs @ [[1], [2, 3]])"
    by blast
next
  obtain pub' w' where r: "publish_batch ring_shaq example_serialize example_stream [[1], [2, 3, 4]]
     (\<lparr>pub_queue_generation = 0, pub_producer = None\<rparr>, example_queue_world)
     = (Err (Serialization (WincodeError 0)), (pub', w'))"
    using example_publish_fails by blast
  then show "\<exists>pub' w'. publish_batch ring_shaq example_serialize example_stream [[1], [2, 3, 4]]
      (\<lparr>pub_queue_generation = 0, pub_producer = None\<rparr>, example_queue_world)
        = (Err (Serialization (WincodeError 0)), (pub', w'))
      \<and> log_at ring_log w' = log_at ring_log example_queue_world"
    using publish_batch_atomic [OF ring_log_laws example_attached r] by blast
qed

end
