(* ===== verification/Event_Concurrency.thy ===== *)
theory Event_Concurrency
  imports Event_Stream
begin

text \<open>
  Interleavings of the publishers of one stream with policy changes and with each other
  (\<open>event-system/src/backend/linux.rs\<close>, \<open>backend/linux/publisher.rs\<close>). A step is one critical section of the
  stream's lock, or one piece of a call between two of them:
  \<open>replace_producer\<close> and the drop of a publisher release the old producer first and take the lock later, so
  other threads run in between. A publisher reads the generation without the lock; a stale read makes it
  publish on its old queue once more, so a publisher may write whatever the current generation is.
  Events are numbered here, with an arbitrary function for their encodings.

  The state keeps, besides what the program has, the queue of every past generation.
\<close>

section \<open>Steps\<close>

datatype 'p thread =
    Ready "'p Publisher"
  | Replacing "'p Publisher"
  | Dropping

record ('b, 'p) cstate =
  c_stream :: EventStream
  c_world :: "'b world"
  c_pubs :: "nat \<rightharpoonup> 'p thread"
  c_history :: "nat option list"

definition start_replace ::
    "('b, 'p) shaq \<Rightarrow> 'p Publisher \<Rightarrow> 'b world \<Rightarrow> 'p Publisher \<times> 'b world" where
  "start_replace sh self w = (self\<lparr>pub_producer := None\<rparr>, release_producer sh (pub_producer self) w)"

definition finish_replace ::
    "('b, 'p) shaq \<Rightarrow> EventStream \<Rightarrow> 'p Publisher \<Rightarrow> 'b world \<Rightarrow> 'p Publisher \<times> 'b world" where
  "finish_replace sh stream self w =
     (let (producer, w') = create_producer sh stream w in
      (self\<lparr>pub_queue_generation := es_queue_generation stream, pub_producer := producer\<rparr>, w'))"

definition finish_drop :: "EventStream \<Rightarrow> EventStream" where
  "finish_drop stream = stream\<lparr>es_remaining_publisher_slots :=
     usize_saturating_add (es_remaining_publisher_slots stream) 1\<rparr>"

text \<open>The sections are those of the calls.\<close>

lemma replace_producer_sections:
  "replace_producer sh stream self w =
     (let (self1, w1) = start_replace sh self w in finish_replace sh stream self1 w1)"
  by (simp add: replace_producer_def start_replace_def finish_replace_def Let_def split: prod.splits)

lemma Publisher_drop_sections:
  "Publisher_drop sh self stream w = (finish_drop stream, release_producer sh (pub_producer self) w)"
  by (simp add: Publisher_drop_def finish_drop_def)

definition record_queue :: "EventStream \<Rightarrow> EventStream \<Rightarrow> nat option list \<Rightarrow> nat option list" where
  "record_queue stream stream' hist =
     (if es_queue_generation stream' = es_queue_generation stream then hist
      else hist @ [map_option sq_broadcast (es_queue stream')])"

inductive cstep ::
    "('b, 'p) shaq \<Rightarrow> (wincode_error, bytes) outcome \<Rightarrow> ('b, 'p) cstate \<Rightarrow> ('b, 'p) cstate \<Rightarrow> bool"
    for sh schema where
  policy:
    "apply_stream_rule sh schema rule (c_stream s, c_world s) = (r, (stream', w')) \<Longrightarrow>
     cstep sh schema s (s\<lparr>c_stream := stream', c_world := w',
       c_history := record_queue (c_stream s) stream' (c_history s)\<rparr>)"
| create:
    "try_create_publisher sh (c_stream s) (c_world s) = (Some pub, stream', w') \<Longrightarrow> c_pubs s i = None \<Longrightarrow>
     cstep sh schema s (s\<lparr>c_stream := stream', c_world := w', c_pubs := (c_pubs s)(i \<mapsto> Ready pub)\<rparr>)"
| start_replace:
    "c_pubs s i = Some (Ready pub) \<Longrightarrow> es_queue_generation (c_stream s) \<noteq> pub_queue_generation pub \<Longrightarrow>
     start_replace sh pub (c_world s) = (pub', w') \<Longrightarrow>
     cstep sh schema s (s\<lparr>c_world := w', c_pubs := (c_pubs s)(i \<mapsto> Replacing pub')\<rparr>)"
| finish_replace:
    "c_pubs s i = Some (Replacing pub) \<Longrightarrow> finish_replace sh (c_stream s) pub (c_world s) = (pub', w') \<Longrightarrow>
     cstep sh schema s (s\<lparr>c_world := w', c_pubs := (c_pubs s)(i \<mapsto> Ready pub')\<rparr>)"
| write_queue:
    "c_pubs s i = Some (Ready pub) \<Longrightarrow> pub_producer pub = Some producer \<Longrightarrow>
     reserve = try_reserve_write sh \<or> reserve = (\<lambda>p. try_reserve_write_batch sh p n) \<Longrightarrow>
     write_events sh reserve (serialize_into :: nat \<Rightarrow> (wincode_error, bytes) outcome) producer events
       (c_world s) = (r, w') \<Longrightarrow>
     cstep sh schema s (s\<lparr>c_world := w'\<rparr>)"
| start_drop:
    "c_pubs s i = Some (Ready pub) \<Longrightarrow>
     cstep sh schema s (s\<lparr>c_world := release_producer sh (pub_producer pub) (c_world s),
       c_pubs := (c_pubs s)(i \<mapsto> Dropping)\<rparr>)"
| finish_drop:
    "c_pubs s i = Some Dropping \<Longrightarrow>
     cstep sh schema s (s\<lparr>c_stream := finish_drop (c_stream s), c_pubs := (c_pubs s)(i := None)\<rparr>)"

inductive creachable ::
    "('b, 'p) shaq \<Rightarrow> (wincode_error, bytes) outcome \<Rightarrow> path \<Rightarrow> StreamName \<Rightarrow> StreamConfig
      \<Rightarrow> ('b, 'p) cstate \<Rightarrow> bool" for sh schema base name cfg where
  init: "creachable sh schema base name cfg
     \<lparr>c_stream = EventStream_new base name cfg, c_world = w, c_pubs = Map.empty, c_history = [None]\<rparr>"
| step: "creachable sh schema base name cfg s \<Longrightarrow> cstep sh schema s s' \<Longrightarrow> creachable sh schema base name cfg s'"

section \<open>The invariant\<close>

text \<open>
  What the crate relies on of the queue library: a new queue has as many producer lanes as it was
  configured with and none is held; a producer is given a lane that nobody holds whenever one is free;
  dropping it frees that lane; writing does not change who holds what.
\<close>

definition queue_lane_laws :: "('b, 'p) shaq \<Rightarrow> ('b \<Rightarrow> 'p set) \<Rightarrow> ('b \<Rightarrow> nat) \<Rightarrow> bool" where
  "queue_lane_laws sh held slots \<longleftrightarrow>
     (\<forall>cfg i b. create_with_identifier sh cfg i = Ok b \<longrightarrow> held b = {} \<and> slots b = publisher_slots cfg)
     \<and> (\<forall>b. finite (held b) \<and> card (held b) < slots b \<longrightarrow> broadcast_producer sh b \<noteq> None)
     \<and> (\<forall>b p b'. broadcast_producer sh b = Some (p, b') \<longrightarrow>
          p \<notin> held b \<and> held b' = insert p (held b) \<and> slots b' = slots b)
     \<and> (\<forall>p b. held (drop_producer sh p b) = held b - {p} \<and> slots (drop_producer sh p b) = slots b)
     \<and> (\<forall>p b. held (snd (try_reserve_write sh p b)) = held b \<and> slots (snd (try_reserve_write sh p b)) = slots b)
     \<and> (\<forall>p n b. held (snd (try_reserve_write_batch sh p n b)) = held b
          \<and> slots (snd (try_reserve_write_batch sh p n b)) = slots b)
     \<and> (\<forall>p b. held (drop_guard sh p b) = held b \<and> slots (drop_guard sh p b) = slots b)
     \<and> (\<forall>p cells b. held (publish_guard sh p cells b) = held b \<and> slots (publish_guard sh p cells b) = slots b)"

lemma queue_lane_lawsD:
  assumes "queue_lane_laws sh held slots"
  shows "create_with_identifier sh cfg i = Ok b \<Longrightarrow> held b = {} \<and> slots b = publisher_slots cfg"
    and "finite (held b) \<Longrightarrow> card (held b) < slots b \<Longrightarrow> broadcast_producer sh b \<noteq> None"
    and "broadcast_producer sh b = Some (p, b') \<Longrightarrow>
      p \<notin> held b \<and> held b' = insert p (held b) \<and> slots b' = slots b"
  using assms unfolding queue_lane_laws_def by simp_all

definition holds :: "(nat \<rightharpoonup> 'p thread) \<Rightarrow> nat \<Rightarrow> nat \<Rightarrow> 'p \<Rightarrow> bool" where
  "holds pubs i obj p \<longleftrightarrow> (\<exists>pub. pubs i = Some (Ready pub) \<and> pub_producer pub = Some (obj, p))"

text \<open>Every queue of the history is alive, and its lanes are those that the publishers hold.\<close>

definition lanes_ok ::
    "('b \<Rightarrow> 'p set) \<Rightarrow> ('b \<Rightarrow> nat) \<Rightarrow> nat \<Rightarrow> 'b world \<Rightarrow> (nat \<rightharpoonup> 'p thread) \<Rightarrow> nat option list \<Rightarrow> bool" where
  "lanes_ok held slots n w pubs hist \<longleftrightarrow>
     (\<forall>obj. Some obj \<in> set hist \<longrightarrow> obj < w_next_mem w
        \<and> (\<exists>b. queue_of w obj = Some b \<and> slots b = n \<and> held b = {p. \<exists>i. holds pubs i obj p}))
     \<and> (\<forall>i i' obj p. holds pubs i obj p \<and> holds pubs i' obj p \<longrightarrow> i = i')"

definition pubs_ok :: "(nat \<rightharpoonup> 'p thread) \<Rightarrow> nat option list \<Rightarrow> bool" where
  "pubs_ok pubs hist \<longleftrightarrow> finite (dom pubs)
     \<and> (\<forall>i pub. pubs i = Some (Ready pub) \<longrightarrow>
          (\<exists>k < length hist. pub_queue_generation pub = of_nat k \<and> map_option fst (pub_producer pub) = hist ! k))
     \<and> (\<forall>i pub. pubs i = Some (Replacing pub) \<longrightarrow> pub_producer pub = None)"

definition stream_ok :: "StreamConfig \<Rightarrow> EventStream \<Rightarrow> nat option list \<Rightarrow> bool" where
  "stream_ok cfg stream hist \<longleftrightarrow> es_stream_config stream = cfg \<and> hist \<noteq> []
     \<and> last hist = map_option sq_broadcast (es_queue stream)
     \<and> es_queue_generation stream = of_nat (length hist - 1)"

definition cinv ::
    "('b \<Rightarrow> 'p set) \<Rightarrow> ('b \<Rightarrow> nat) \<Rightarrow> StreamConfig \<Rightarrow> ('b, 'p) cstate \<Rightarrow> bool" where
  "cinv held slots cfg s \<longleftrightarrow>
     stream_ok cfg (c_stream s) (c_history s) \<and> pubs_ok (c_pubs s) (c_history s)
     \<and> lanes_ok held slots (publisher_slots cfg) (c_world s) (c_pubs s) (c_history s)
     \<and> es_remaining_publisher_slots (c_stream s) + card (dom (c_pubs s)) = publisher_slots cfg"

lemma cinvD:
  assumes "cinv held slots cfg s"
  shows "stream_ok cfg (c_stream s) (c_history s)" "pubs_ok (c_pubs s) (c_history s)"
    "lanes_ok held slots (publisher_slots cfg) (c_world s) (c_pubs s) (c_history s)"
    "es_remaining_publisher_slots (c_stream s) + card (dom (c_pubs s)) = publisher_slots cfg"
  using assms by (simp_all add: cinv_def)

section \<open>Lanes\<close>

lemma holds_upd [simp]:
  "holds (pubs(i \<mapsto> t)) j obj p \<longleftrightarrow>
     (if j = i then (\<exists>pub. t = Ready pub \<and> pub_producer pub = Some (obj, p)) else holds pubs j obj p)"
  "holds (pubs(i := None)) j obj p \<longleftrightarrow> j \<noteq> i \<and> holds pubs j obj p"
  by (auto simp: holds_def)

lemma holds_dom: "holds pubs i obj p \<Longrightarrow> i \<in> dom pubs"
  by (auto simp: holds_def)

lemma lanes_unique:
  "lanes_ok held slots n w pubs hist \<Longrightarrow> holds pubs i obj p \<Longrightarrow> holds pubs j obj p \<Longrightarrow> i = j"
  unfolding lanes_ok_def by blast

lemma lanes_bound:
  assumes "lanes_ok held slots n w pubs hist" "Some obj \<in> set hist" "queue_of w obj = Some b"
    and "finite A" "\<And>i p. holds pubs i obj p \<Longrightarrow> i \<in> A"
  shows "finite (held b) \<and> card (held b) \<le> card A"
proof -
  obtain b' where "queue_of w obj = Some b'" "held b' = {p. \<exists>i. holds pubs i obj p}"
    using assms(1,2) unfolding lanes_ok_def by blast
  with assms(3) have held: "held b = {p. \<exists>i. holds pubs i obj p}" by simp
  define f where "f p = (SOME i. holds pubs i obj p)" for p
  have f: "holds pubs (f p) obj p" if "p \<in> held b" for p
    using that someI_ex unfolding f_def held by fast
  have "p = p'" if "p \<in> held b" "p' \<in> held b" "f p = f p'" for p p'
    using f [OF that(1)] f [OF that(2)] that(3) by (auto simp: holds_def)
  then have inj: "inj_on f (held b)" by (rule inj_onI)
  have "f ` held b \<subseteq> A" using f assms(5) by blast
  then show ?thesis
    using inj assms(4) card_inj_on_le inj_on_finite by metis
qed

lemma store_queue_next [simp]: "w_next_mem (store_queue obj b w) = w_next_mem w"
  by (simp add: store_queue_def)

lemma release_producer_next [simp]: "w_next_mem (release_producer sh pr w) = w_next_mem w"
  by (simp add: release_producer_def split: option.splits prod.splits)

text \<open>Changing one queue in a way that fits the change of who holds its lanes.\<close>

lemma lanes_ok_store:
  assumes ok: "lanes_ok held slots n w pubs hist" and obj: "Some obj \<in> set hist" "queue_of w obj = Some b"
    and b': "slots b' = slots b" "held b' = {p. \<exists>i. holds pubs' i obj p}"
    and others: "\<And>x i p. x \<noteq> obj \<Longrightarrow> holds pubs' i x p \<longleftrightarrow> holds pubs i x p"
    and unique: "\<And>i i' p. holds pubs' i obj p \<Longrightarrow> holds pubs' i' obj p \<Longrightarrow> i = i'"
  shows "lanes_ok held slots n (store_queue obj b' w) pubs' hist"
proof -
  have mem: "w_mem w obj \<noteq> None" using obj(2) by (rule queue_of_mem)
  have "\<exists>c. queue_of (store_queue obj b' w) x = Some c \<and> slots c = n \<and> held c = {p. \<exists>i. holds pubs' i x p}"
    if "Some x \<in> set hist" for x
  proof (cases "x = obj")
    case True
    have "slots b = n" using ok obj unfolding lanes_ok_def by fastforce
    then show ?thesis using True mem b' by simp
  next
    case False
    then show ?thesis using ok that others unfolding lanes_ok_def by simp
  qed
  moreover have "i = i'" if "holds pubs' i x p" "holds pubs' i' x p" for x i i' p
  proof (cases "x = obj")
    case True
    then show ?thesis using unique that by blast
  next
    case False
    then show ?thesis using ok that others unfolding lanes_ok_def by blast
  qed
  ultimately show ?thesis using ok unfolding lanes_ok_def store_queue_next by blast
qed

lemma lanes_ok_same:
  "lanes_ok held slots n w pubs hist \<Longrightarrow> (\<And>i x p. holds pubs' i x p \<longleftrightarrow> holds pubs i x p) \<Longrightarrow>
   lanes_ok held slots n w pubs' hist"
  by (simp add: lanes_ok_def)

definition idle :: "'p thread \<Rightarrow> bool" where
  "idle t \<longleftrightarrow> (\<forall>pub. t = Ready pub \<longrightarrow> pub_producer pub = None)"

lemma idle_simps [simp]: "idle (Replacing pub)" "idle Dropping" "idle (Ready pub) \<longleftrightarrow> pub_producer pub = None"
  by (auto simp: idle_def)

lemma holds_idle: "idle t \<Longrightarrow> holds (pubs(i \<mapsto> t)) j obj p \<longleftrightarrow> j \<noteq> i \<and> holds pubs j obj p"
  by (auto simp: idle_def holds_def)

lemma lanes_release:
  assumes laws: "queue_lane_laws sh held slots" and ok: "lanes_ok held slots n w pubs hist"
    and pub: "pubs i = Some (Ready pub)" "map_option fst (pub_producer pub) \<in> set hist" and t: "idle t"
  shows "lanes_ok held slots n (release_producer sh (pub_producer pub) w) (pubs(i \<mapsto> t)) hist"
proof (cases "pub_producer pub")
  case None
  then have "holds (pubs(i \<mapsto> t)) j x p \<longleftrightarrow> holds pubs j x p" for j x p
    using pub(1) t by (auto simp: holds_idle) (simp add: holds_def)
  then show ?thesis using ok None by (simp add: release_producer_def lanes_ok_same)
next
  case (Some op)
  obtain obj p where op: "op = (obj, p)" by (cases op)
  have hist: "Some obj \<in> set hist" using pub(2) Some op by simp
  then obtain b where b: "queue_of w obj = Some b" "held b = {p. \<exists>i. holds pubs i obj p}"
    using ok unfolding lanes_ok_def by blast
  have i: "holds pubs i x p' \<longleftrightarrow> x = obj \<and> p' = p" for x p'
    using pub(1) Some op by (auto simp: holds_def)
  have uniq: "j = i" if "holds pubs j obj p" for j
    using ok that i unfolding lanes_ok_def by blast
  have held: "held b - {p} = {p'. \<exists>j. j \<noteq> i \<and> holds pubs j obj p'}"
  proof (intro set_eqI iffI)
    show "x \<in> {p'. \<exists>j. j \<noteq> i \<and> holds pubs j obj p'}" if "x \<in> held b - {p}" for x
    proof -
      from that obtain j where j: "holds pubs j obj x" "x \<noteq> p" unfolding b(2) by blast
      then have "j \<noteq> i" using i [of obj x] by metis
      with j show ?thesis by blast
    qed
    show "x \<in> held b - {p}" if "x \<in> {p'. \<exists>j. j \<noteq> i \<and> holds pubs j obj p'}" for x
      using that uniq unfolding b(2) by blast
  qed
  have "lanes_ok held slots n (store_queue obj (drop_producer sh p b) w) (pubs(i \<mapsto> t)) hist"
  proof (rule lanes_ok_store [OF ok hist b(1)])
    show "slots (drop_producer sh p b) = slots b" using laws by (simp add: queue_lane_laws_def)
    show "held (drop_producer sh p b) = {p'. \<exists>j. holds (pubs(i \<mapsto> t)) j obj p'}"
      using laws held by (simp only: holds_idle [OF t] queue_lane_laws_def)
    show "holds (pubs(i \<mapsto> t)) j x p' \<longleftrightarrow> holds pubs j x p'" if "x \<noteq> obj" for x j p'
      using that i by (auto simp only: holds_idle [OF t])
    show "j = j'" if "holds (pubs(i \<mapsto> t)) j obj p'" "holds (pubs(i \<mapsto> t)) j' obj p'" for j j' p'
      using that ok unfolding lanes_ok_def holds_idle [OF t] by blast
  qed
  then show ?thesis using Some op b(1) by (simp add: release_producer_def)
qed

lemma lanes_acquire:
  assumes laws: "queue_lane_laws sh held slots" and ok: "lanes_ok held slots n w pubs hist"
    and hist: "last hist = map_option sq_broadcast (es_queue stream)" "hist \<noteq> []"
    and i: "\<And>x p. \<not> holds pubs i x p" and room: "finite (dom pubs)" "card (dom pubs - {i}) < n"
    and create: "create_producer sh stream w = (pr, w')" and pub: "pub_producer pub = pr"
  shows "map_option fst pr = last hist" "lanes_ok held slots n w' (pubs(i \<mapsto> Ready pub)) hist"
proof -
  have "map_option fst pr = last hist \<and> lanes_ok held slots n w' (pubs(i \<mapsto> Ready pub)) hist"
  proof (cases "es_queue stream")
    case None
    then have "pr = None" "w' = w" using create by (simp_all add: create_producer_def)
    moreover have "lanes_ok held slots n w (pubs(i \<mapsto> Ready pub)) hist"
      using i pub \<open>pr = None\<close> by (intro lanes_ok_same [OF ok]) auto
    ultimately show ?thesis using hist None by simp
  next
    case (Some q)
    let ?obj = "sq_broadcast q"
    have mem: "Some ?obj \<in> set hist" using hist Some last_in_set [of hist] by simp
    then obtain b where b: "queue_of w ?obj = Some b" "slots b = n" "held b = {p. \<exists>i. holds pubs i ?obj p}"
      using ok unfolding lanes_ok_def by blast
    have inside: "j \<in> dom pubs - {i}" if "holds pubs j ?obj p" for j p
    proof -
      have "j \<noteq> i" using that i [of ?obj p] by metis
      then show ?thesis using holds_dom [OF that] by simp
    qed
    have "finite (held b) \<and> card (held b) \<le> card (dom pubs - {i})"
      by (rule lanes_bound [OF ok mem b(1)]) (simp add: room(1), rule inside)
    then have "finite (held b) \<and> card (held b) < slots b" using room(2) b(2) by simp
    then obtain p b' where p: "broadcast_producer sh b = Some (p, b')"
      using queue_lane_lawsD(2) [OF laws, of b] by auto
    then have b': "p \<notin> held b" "held b' = insert p (held b)" "slots b' = slots b"
      using queue_lane_lawsD(3) [OF laws] by blast+
    have pr: "pr = Some (?obj, p)" and w': "w' = store_queue ?obj b' w"
      using create Some b(1) p by (auto simp: create_producer_def)
    have free: "\<not> holds pubs j ?obj p" for j using b'(1) b(3) by blast
    have new: "holds (pubs(i \<mapsto> Ready pub)) j x p' \<longleftrightarrow> j = i \<and> x = ?obj \<and> p' = p \<or> holds pubs j x p'" for j x p'
      using i pub pr by auto
    have "lanes_ok held slots n (store_queue ?obj b' w) (pubs(i \<mapsto> Ready pub)) hist"
    proof (rule lanes_ok_store [OF ok mem b(1) b'(3)])
      show "held b' = {p'. \<exists>j. holds (pubs(i \<mapsto> Ready pub)) j ?obj p'}"
        unfolding new b'(2) b(3) by auto
      show "holds (pubs(i \<mapsto> Ready pub)) j x p' \<longleftrightarrow> holds pubs j x p'" if "x \<noteq> ?obj" for x j p'
        unfolding new using that by simp
      show "j = j'" if "holds (pubs(i \<mapsto> Ready pub)) j ?obj p'" "holds (pubs(i \<mapsto> Ready pub)) j' ?obj p'" for j j' p'
        using that free lanes_unique [OF ok] unfolding new by metis
    qed
    then show ?thesis using hist Some pr w' by simp
  qed
  then show "map_option fst pr = last hist" "lanes_ok held slots n w' (pubs(i \<mapsto> Ready pub)) hist" by blast+
qed

lemma lanes_write:
  assumes laws: "queue_lane_laws sh held slots" and ok: "lanes_ok held slots n w pubs hist"
    and reserve: "reserve = try_reserve_write sh \<or> reserve = (\<lambda>p. try_reserve_write_batch sh p m)"
    and "write_events sh reserve serialize_into producer events w = (r, w')"
    and obj: "Some (fst producer) \<in> set hist"
  shows "lanes_ok held slots n w' pubs hist"
proof -
  obtain obj p where op: "producer = (obj, p)" by (cases producer)
  obtain b where b: "queue_of w obj = Some b" "held b = {p. \<exists>i. holds pubs i obj p}"
    using ok obj op unfolding lanes_ok_def by auto
  have store: "lanes_ok held slots n (store_queue obj b' w) pubs hist"
    if "held b' = held b" "slots b' = slots b" for b'
    by (rule lanes_ok_store [OF ok _ b(1)])
      (use that obj op b ok in \<open>simp_all add: lanes_ok_def\<close>, blast)
  have res: "held b' = held b \<and> slots b' = slots b" if "reserve p b = (c, b')" for c b'
    using reserve laws that unfolding queue_lane_laws_def by (metis snd_conv)
  show ?thesis
  proof (cases "w' = w")
    case False
    then obtain c b1 b' where "reserve p b = (c, b1)" "w' = store_queue obj b' w"
      "b' = b1 \<or> (\<exists>cells. b' = publish_guard sh p cells b1) \<or> b' = drop_guard sh p b1"
      using assms(4) op b(1) by (auto simp: write_events_def split: prod.splits bool.splits outcome.splits)
    moreover have "held b' = held b1 \<and> slots b' = slots b1"
      using calculation(3) laws unfolding queue_lane_laws_def by metis
    ultimately show ?thesis using store res by metis
  qed (use ok in simp)
qed

text \<open>A policy change keeps every queue of the history and may add one that nobody holds.\<close>

lemma lanes_frame:
  assumes ok: "lanes_ok held slots n w pubs hist"
    and "w_next_mem w \<le> w_next_mem w'" "\<And>obj. obj < w_next_mem w \<Longrightarrow> w_mem w' obj = w_mem w obj"
  shows "lanes_ok held slots n w' pubs hist"
proof -
  have "obj < w_next_mem w' \<and> queue_of w' obj = queue_of w obj" if "Some obj \<in> set hist" for obj
  proof -
    have "obj < w_next_mem w" using ok that unfolding lanes_ok_def by blast
    then show ?thesis using assms(2,3) by (simp add: queue_of_def)
  qed
  then show ?thesis using ok unfolding lanes_ok_def by simp
qed

lemma lanes_ok_None: "lanes_ok held slots n w pubs (hist @ [None]) \<longleftrightarrow> lanes_ok held slots n w pubs hist"
  by (simp add: lanes_ok_def)

lemma pubs_ok_history:
  assumes "pubs_ok pubs hist" "pubs i = Some (Ready pub)"
  shows "map_option fst (pub_producer pub) \<in> set hist"
  using assms unfolding pubs_ok_def by (metis nth_mem)

lemma holds_history:
  assumes "pubs_ok pubs hist" "holds pubs i obj p"
  shows "Some obj \<in> set hist"
  using assms pubs_ok_history unfolding holds_def by fastforce

lemma lanes_new_queue:
  assumes ok: "lanes_ok held slots n w pubs hist" and pubs: "pubs_ok pubs hist"
    and b: "held b = {}" "slots b = n"
    and w': "w_mem w' = (w_mem w)(w_next_mem w \<mapsto> \<lparr>mem_seals = s, mem_queue = Some b\<rparr>)"
      "w_next_mem w' = Suc (w_next_mem w)"
  shows "lanes_ok held slots n w' pubs (hist @ [Some (w_next_mem w)])"
proof -
  have old: "lanes_ok held slots n w' pubs hist" by (rule lanes_frame [OF ok]) (simp_all add: w')
  have "\<not> holds pubs i (w_next_mem w) p" for i p
    using holds_history [OF pubs] ok unfolding lanes_ok_def by blast
  then have "held b = {p. \<exists>i. holds pubs i (w_next_mem w) p}" using b(1) by simp
  moreover have "queue_of w' (w_next_mem w) = Some b" by (simp add: queue_of_def w')
  ultimately show ?thesis using old b(2) w'(2) unfolding lanes_ok_def by auto
qed

section \<open>Every step keeps the invariant\<close>

lemma pubs_ok_append: "pubs_ok pubs hist \<Longrightarrow> pubs_ok pubs (hist @ [q])"
  unfolding pubs_ok_def by (auto simp: nth_append) (metis less_SucI)

lemma apply_stream_rule_cases:
  assumes "apply_stream_rule sh schema rule (stream, w) = (r, (stream', w'))"
  obtains (same) "stream' = stream" "w_next_mem w \<le> w_next_mem w'"
      "\<And>obj. obj < w_next_mem w \<Longrightarrow> w_mem w' obj = w_mem w obj"
  | (on) q where "stream' = bump_generation (stream\<lparr>es_queue := Some q\<rparr>)"
      "StreamQueue_create sh schema (es_event_system_directory stream) (es_stream_name stream)
         (es_stream_config stream) w = (Ok q, w')"
  | (off) q where "stream' = bump_generation (stream\<lparr>es_queue := None\<rparr>)" "w' = StreamQueue_drop q w"
proof (cases "es_queue stream")
  case None
  show thesis
  proof (cases rule)
    case On
    obtain rc wc where c: "StreamQueue_create sh schema (es_event_system_directory stream)
        (es_stream_name stream) (es_stream_config stream) w = (rc, wc)" by fastforce
    have "frame (\<lambda>_. True) w wc" using framedD [OF StreamQueue_create_framed c] .
    then have "w_next_mem w \<le> w_next_mem wc" "\<And>obj. obj < w_next_mem w \<Longrightarrow> w_mem wc obj = w_mem w obj"
      by (simp_all add: frame_def)
    then show thesis
      using assms None On c same on by (cases rc) (auto simp: apply_stream_rule_def)
  qed (use assms None same in \<open>auto simp: apply_stream_rule_def\<close>)
next
  case (Some q)
  then show thesis using assms same off by (cases rule) (auto simp: apply_stream_rule_def)
qed

lemma stream_ok_bump:
  assumes "stream_ok cfg stream hist" "es_stream_config stream' = cfg"
    and "es_queue_generation stream' = es_queue_generation stream + 1"
  shows "stream_ok cfg stream' (record_queue stream stream' hist)"
    and "record_queue stream stream' hist = hist @ [map_option sq_broadcast (es_queue stream')]"
proof -
  show rec: "record_queue stream stream' hist = hist @ [map_option sq_broadcast (es_queue stream')]"
    using assms(3) by (simp add: record_queue_def)
  have "Suc (length hist - 1) = length hist" using assms(1) by (auto simp: stream_ok_def)
  then have "(of_nat (length hist - 1) :: u64) + 1 = of_nat (length hist)" by (metis of_nat_Suc add.commute)
  then show "stream_ok cfg stream' (record_queue stream stream' hist)"
    using assms rec by (simp add: stream_ok_def)
qed

lemma cinv_policy:
  assumes laws: "queue_lane_laws sh held slots" and inv: "cinv held slots cfg s"
    and change: "apply_stream_rule sh schema rule (c_stream s, c_world s) = (r, (stream', w'))"
  shows "cinv held slots cfg (s\<lparr>c_stream := stream', c_world := w',
    c_history := record_queue (c_stream s) stream' (c_history s)\<rparr>)"
proof -
  let ?st = "c_stream s" and ?h = "c_history s"
  note ok = cinvD [OF inv]
  have cfg: "es_stream_config ?st = cfg" using ok(1) by (simp add: stream_ok_def)
  show ?thesis
    using change
  proof (cases rule: apply_stream_rule_cases)
    case same
    then have "lanes_ok held slots (publisher_slots cfg) w' (c_pubs s) ?h" using lanes_frame [OF ok(3)] by blast
    then show ?thesis using ok same(1) by (simp add: cinv_def record_queue_def)
  next
    case (on q)
    note so = stream_ok_bump [OF ok(1), of stream']
    have *: "es_stream_config stream' = cfg" "es_queue_generation stream' = es_queue_generation ?st + 1"
      "es_queue stream' = Some q" "es_remaining_publisher_slots stream' = es_remaining_publisher_slots ?st"
      using on(1) cfg by (simp_all add: bump_generation_def)
    from StreamQueue_create_mem [OF on(2)] obtain i b where
      b: "create_with_identifier sh cfg i = Ok b" "sq_broadcast q = w_next_mem (c_world s)"
        "w_mem w' = (w_mem (c_world s))
           (w_next_mem (c_world s) \<mapsto> \<lparr>mem_seals = REQUIRED_SEALS, mem_queue = Some b\<rparr>)"
        "w_next_mem w' = Suc (w_next_mem (c_world s))"
      unfolding cfg by blast
    have "lanes_ok held slots (publisher_slots cfg) w' (c_pubs s) (?h @ [Some (w_next_mem (c_world s))])"
      by (rule lanes_new_queue [OF ok(3,2) _ _ b(3,4)]) (use queue_lane_lawsD(1) [OF laws b(1)] in simp_all)
    then show ?thesis using so * ok b(2) pubs_ok_append by (simp add: cinv_def)
  next
    case (off q)
    note so = stream_ok_bump [OF ok(1), of stream']
    have *: "es_stream_config stream' = cfg" "es_queue_generation stream' = es_queue_generation ?st + 1"
      "es_queue stream' = None" "es_remaining_publisher_slots stream' = es_remaining_publisher_slots ?st"
      using off(1) cfg by (simp_all add: bump_generation_def)
    have "lanes_ok held slots (publisher_slots cfg) w' (c_pubs s) ?h"
      by (rule lanes_frame [OF ok(3)]) (simp_all add: off(2))
    then show ?thesis using so * ok pubs_ok_append by (simp add: cinv_def lanes_ok_None)
  qed
qed

lemma pubs_ok_upd:
  assumes "pubs_ok pubs hist"
  shows "k < length hist \<Longrightarrow> pub_queue_generation pub = of_nat k \<Longrightarrow>
      map_option fst (pub_producer pub) = hist ! k \<Longrightarrow> pubs_ok (pubs(i \<mapsto> Ready pub)) hist"
    and "pub_producer pub = None \<Longrightarrow> pubs_ok (pubs(i \<mapsto> Replacing pub)) hist"
    and "pubs_ok (pubs(i \<mapsto> Dropping)) hist" "pubs_ok (pubs(i := None)) hist"
  using assms unfolding pubs_ok_def by auto

lemma pubs_ok_current:
  assumes "pubs_ok pubs hist" "stream_ok cfg stream hist"
    and "pub_queue_generation pub = es_queue_generation stream" "map_option fst (pub_producer pub) = last hist"
  shows "pubs_ok (pubs(i \<mapsto> Ready pub)) hist"
proof (rule pubs_ok_upd(1) [OF assms(1)])
  show "length hist - 1 < length hist" "pub_queue_generation pub = of_nat (length hist - 1)"
    "map_option fst (pub_producer pub) = hist ! (length hist - 1)"
    using assms by (auto simp: stream_ok_def last_conv_nth)
qed

text \<open>
  A publisher that holds no lane leaves one free for itself, so the producer it asks for is on the
  current queue, or is absent because the stream has none.
\<close>

lemma cinv_acquire:
  assumes laws: "queue_lane_laws sh held slots" and so: "stream_ok cfg stream hist" and po: "pubs_ok pubs hist"
    and lo: "lanes_ok held slots (publisher_slots cfg) w pubs hist"
    and i: "\<And>x p. \<not> holds pubs i x p" and room: "card (dom pubs - {i}) < publisher_slots cfg"
    and create: "create_producer sh stream w = (pr, w')"
    and pub: "pub_queue_generation pub = es_queue_generation stream" "pub_producer pub = pr"
  shows "pubs_ok (pubs(i \<mapsto> Ready pub)) hist
    \<and> lanes_ok held slots (publisher_slots cfg) w' (pubs(i \<mapsto> Ready pub)) hist"
proof -
  have hist: "last hist = map_option sq_broadcast (es_queue stream)" "hist \<noteq> []"
    using so by (simp_all add: stream_ok_def)
  have fin: "finite (dom pubs)" using po by (simp add: pubs_ok_def)
  note acq = lanes_acquire [OF laws lo hist i fin room create pub(2)]
  show ?thesis using pubs_ok_current [OF po so pub(1)] acq pub(2) by simp
qed

lemma cinv_create:
  assumes laws: "queue_lane_laws sh held slots" and inv: "cinv held slots cfg s"
    and create: "try_create_publisher sh (c_stream s) (c_world s) = (Some pub, stream', w')"
    and i: "c_pubs s i = None"
  shows "cinv held slots cfg (s\<lparr>c_stream := stream', c_world := w', c_pubs := (c_pubs s)(i \<mapsto> Ready pub)\<rparr>)"
proof -
  note ok = cinvD [OF inv]
  obtain m where m: "es_remaining_publisher_slots (c_stream s) = Suc m"
    and stream': "stream' = (c_stream s)\<lparr>es_remaining_publisher_slots := m\<rparr>"
    and pr: "create_producer sh stream' (c_world s) = (pub_producer pub, w')"
    and gen: "pub_queue_generation pub = es_queue_generation stream'"
    using create by (auto simp: try_create_publisher_def usize_checked_dec_def usize_checked_sub_def Let_def
        split: option.splits prod.splits if_splits dest!: not_less_eq_eq [THEN iffD1] Suc_le_D)
  have so: "stream_ok cfg stream' (c_history s)" using ok(1) stream' by (simp add: stream_ok_def)
  have fin: "finite (dom (c_pubs s))" using ok(2) by (simp add: pubs_ok_def)
  have dom: "dom (c_pubs s) - {i} = dom (c_pubs s)" "i \<notin> dom (c_pubs s)" using i by auto
  have "card (dom (c_pubs s) - {i}) < publisher_slots cfg" using ok(4) m dom(1) by simp
  moreover have "\<not> holds (c_pubs s) i x p" for x p using i by (simp add: holds_def)
  ultimately have "pubs_ok ((c_pubs s)(i \<mapsto> Ready pub)) (c_history s)
    \<and> lanes_ok held slots (publisher_slots cfg) w' ((c_pubs s)(i \<mapsto> Ready pub)) (c_history s)"
    using cinv_acquire [OF laws so ok(2,3) _ _ pr gen refl] by blast
  then show ?thesis using so ok(4) m stream' dom(2) fin by (simp add: cinv_def)
qed

lemma cinv_finish_replace:
  assumes laws: "queue_lane_laws sh held slots" and inv: "cinv held slots cfg s"
    and i: "c_pubs s i = Some (Replacing pub)"
    and fin_rep: "finish_replace sh (c_stream s) pub (c_world s) = (pub', w')"
  shows "cinv held slots cfg (s\<lparr>c_world := w', c_pubs := (c_pubs s)(i \<mapsto> Ready pub')\<rparr>)"
proof -
  note ok = cinvD [OF inv]
  have pr: "create_producer sh (c_stream s) (c_world s) = (pub_producer pub', w')"
    and gen: "pub_queue_generation pub' = es_queue_generation (c_stream s)"
    using fin_rep by (auto simp: finish_replace_def split: prod.splits)
  have fin: "finite (dom (c_pubs s))" using ok(2) by (simp add: pubs_ok_def)
  have dom: "i \<in> dom (c_pubs s)" using i by auto
  then have "card (dom (c_pubs s) - {i}) < publisher_slots cfg"
    using ok(4) card_Diff1_less [OF fin dom] by linarith
  moreover have "\<not> holds (c_pubs s) i x p" for x p using i by (simp add: holds_def)
  ultimately have "pubs_ok ((c_pubs s)(i \<mapsto> Ready pub')) (c_history s)
    \<and> lanes_ok held slots (publisher_slots cfg) w' ((c_pubs s)(i \<mapsto> Ready pub')) (c_history s)"
    using cinv_acquire [OF laws ok(1-3) _ _ pr gen refl] by blast
  then show ?thesis using ok dom by (simp add: cinv_def insert_absorb)
qed

lemma cinv_release:
  assumes laws: "queue_lane_laws sh held slots" and inv: "cinv held slots cfg s"
    and i: "c_pubs s i = Some (Ready pub)"
    and t: "t = Dropping \<or> t = Replacing (pub\<lparr>pub_producer := None\<rparr>)"
  shows "cinv held slots cfg (s\<lparr>c_world := release_producer sh (pub_producer pub) (c_world s),
    c_pubs := (c_pubs s)(i \<mapsto> t)\<rparr>)"
proof -
  note ok = cinvD [OF inv]
  have "idle t" using t by auto
  from lanes_release [OF laws ok(3) i pubs_ok_history [OF ok(2) i] this]
  have "lanes_ok held slots (publisher_slots cfg) (release_producer sh (pub_producer pub) (c_world s))
    ((c_pubs s)(i \<mapsto> t)) (c_history s)" .
  moreover have "pubs_ok ((c_pubs s)(i \<mapsto> t)) (c_history s)"
    using t pubs_ok_upd(2,3) [OF ok(2)] by auto
  moreover have "i \<in> dom (c_pubs s)" using i by auto
  ultimately show ?thesis using ok by (simp add: cinv_def insert_absorb)
qed

lemma cinv_finish_drop:
  assumes inv: "cinv held slots cfg s" and i: "c_pubs s i = Some Dropping"
    and bound: "publisher_slots cfg \<le> USIZE_MAX"
  shows "cinv held slots cfg (s\<lparr>c_stream := finish_drop (c_stream s), c_pubs := (c_pubs s)(i := None)\<rparr>)"
proof -
  note ok = cinvD [OF inv]
  have fin: "finite (dom (c_pubs s))" using ok(2) by (simp add: pubs_ok_def)
  have "i \<in> dom (c_pubs s)" using i by auto
  with fin have card: "card (dom (c_pubs s)) = Suc (card (dom (c_pubs s) - {i}))"
    by (metis card.remove)
  have "holds ((c_pubs s)(i := None)) j x p \<longleftrightarrow> holds (c_pubs s) j x p" for j x p
    using i by (auto simp: holds_def)
  from lanes_ok_same [OF ok(3) this]
  have "lanes_ok held slots (publisher_slots cfg) (c_world s) ((c_pubs s)(i := None)) (c_history s)" .
  then show ?thesis
    using ok pubs_ok_upd(4) [OF ok(2)] card bound
    by (simp add: cinv_def stream_ok_def finish_drop_def usize_saturating_add_def)
qed

lemma cinv_write:
  assumes laws: "queue_lane_laws sh held slots" and inv: "cinv held slots cfg s"
    and i: "c_pubs s i = Some (Ready pub)" "pub_producer pub = Some producer"
    and reserve: "reserve = try_reserve_write sh \<or> reserve = (\<lambda>p. try_reserve_write_batch sh p n)"
    and "write_events sh reserve serialize_into producer events (c_world s) = (r, w')"
  shows "cinv held slots cfg (s\<lparr>c_world := w'\<rparr>)"
proof -
  note ok = cinvD [OF inv]
  have "Some (fst producer) \<in> set (c_history s)" using pubs_ok_history [OF ok(2) i(1)] i(2) by simp
  from lanes_write [OF laws ok(3) reserve assms(6) this]
  show ?thesis using ok by (simp add: cinv_def)
qed

lemma cstep_cinv:
  assumes laws: "queue_lane_laws sh held slots" and bound: "publisher_slots cfg \<le> USIZE_MAX"
    and "cstep sh schema s s'" "cinv held slots cfg s"
  shows "cinv held slots cfg s'"
  using assms(3,4)
proof (induction rule: cstep.induct)
  case (start_replace s i pub pub' w')
  then show ?case
    using cinv_release [OF laws, of cfg s i pub "Replacing pub'"] by (simp add: start_replace_def)
next
  case (policy rule s r stream' w')
  then show ?case by (intro cinv_policy [OF laws])
next
  case (create s pub stream' w' i)
  then show ?case by (intro cinv_create [OF laws])
next
  case (finish_replace s i pub pub' w')
  then show ?case by (intro cinv_finish_replace [OF laws])
next
  case (write_queue s i pub producer reserve n serialize_into events r w')
  then show ?case by (intro cinv_write [OF laws])
next
  case (start_drop s i pub)
  then show ?case by (intro cinv_release [OF laws]) simp_all
next
  case (finish_drop s i)
  then show ?case by (intro cinv_finish_drop [OF _ _ bound])
qed

lemma cinv_init:
  "cinv held slots cfg
     \<lparr>c_stream = EventStream_new base name cfg, c_world = w, c_pubs = Map.empty, c_history = [None]\<rparr>"
  by (simp add: cinv_def stream_ok_def pubs_ok_def lanes_ok_def holds_def EventStream_new_def)

lemma creachable_cinv:
  assumes "queue_lane_laws sh held slots" "publisher_slots cfg \<le> USIZE_MAX"
    and "creachable sh schema base name cfg s"
  shows "cinv held slots cfg s"
  using assms(3) by induction (use cinv_init cstep_cinv [OF assms(1,2)] in blast)+

section \<open>What every interleaving keeps\<close>

text \<open>
  C30. However publishers and policy changes interleave, the slots of a stream are neither lost nor
  duplicated: the remaining slots and the publishers alive (those replacing their producer and those whose
  drop has not finished included) always add up to the configured number, so there are never more
  publishers than slots, and a publisher can be created exactly when there are fewer.
\<close>

theorem publisher_slots_exact:
  assumes "queue_lane_laws sh held slots" "publisher_slots cfg \<le> USIZE_MAX"
    and "creachable sh schema base name cfg s"
  shows "es_remaining_publisher_slots (c_stream s) + card (dom (c_pubs s)) = publisher_slots cfg
    \<and> (fst (try_create_publisher sh (c_stream s) (c_world s)) \<noteq> None
      \<longleftrightarrow> card (dom (c_pubs s)) < publisher_slots cfg)"
proof -
  have "es_remaining_publisher_slots (c_stream s) + card (dom (c_pubs s)) = publisher_slots cfg"
    using cinvD(4) [OF creachable_cinv [OF assms]] .
  moreover have "fst (try_create_publisher sh (c_stream s) (c_world s)) \<noteq> None
      \<longleftrightarrow> 0 < es_remaining_publisher_slots (c_stream s)"
    by (auto simp: try_create_publisher_def usize_checked_dec_def usize_checked_sub_def Let_def
        split: option.splits prod.splits)
  ultimately show ?thesis by linarith
qed

lemma generation_index:
  assumes "(of_nat j :: u64) = of_nat k" "j < 2 ^ 64" "k < 2 ^ 64"
  shows "j = k"
  using arg_cong [OF assms(1), of unat] assms(2,3) by (simp add: unat_of_nat take_bit_nat_eq_self)

text \<open>
  C29. However publishers and policy changes interleave, a publisher that has seen the current generation
  has a producer exactly when the stream has a queue, and it is a producer on that queue: a publisher never
  misses a lane because slow publishers still hold lanes, since those are on other queues or fewer than the
  slots. And no two publishers share a lane. (The generation is a 64-bit counter; the statement is for
  histories in which it has not wrapped.)
\<close>

theorem producer_tracks_queue:
  assumes "queue_lane_laws sh held slots" "publisher_slots cfg \<le> USIZE_MAX"
    and "creachable sh schema base name cfg s" "length (c_history s) \<le> 2 ^ 64"
    and "c_pubs s i = Some (Ready pub)"
  shows "(pub_queue_generation pub = es_queue_generation (c_stream s) \<longrightarrow>
      map_option fst (pub_producer pub) = map_option sq_broadcast (es_queue (c_stream s)))
    \<and> (\<forall>j pub'. c_pubs s j = Some (Ready pub') \<and> pub_producer pub' = pub_producer pub
        \<and> pub_producer pub \<noteq> None \<longrightarrow> j = i)"
proof -
  note ok = cinvD [OF creachable_cinv [OF assms(1-3)]]
  obtain k where k: "k < length (c_history s)" "pub_queue_generation pub = of_nat k"
    "map_option fst (pub_producer pub) = c_history s ! k"
    using ok(2) assms(5) unfolding pubs_ok_def by blast
  have "k = length (c_history s) - 1" if "pub_queue_generation pub = es_queue_generation (c_stream s)"
    using that k(1,2) ok(1) assms(4) by (intro generation_index) (auto simp: stream_ok_def)
  moreover have "j = i" if "c_pubs s j = Some (Ready pub')" "pub_producer pub' = pub_producer pub"
    "pub_producer pub = Some op" for j pub' op
    using that assms(5) by (intro lanes_unique [OF ok(3), of _ "fst op" "snd op"]) (auto simp: holds_def)
  ultimately show ?thesis using k(3) ok(1) by (auto simp: stream_ok_def last_conv_nth)
qed

section \<open>A run\<close>

lemma ring_lane_laws: "queue_lane_laws ring_shaq (\<lambda>b. set (ring_lanes b)) ring_slots"
proof -
  have "filter (\<lambda>l. l \<notin> set (ring_lanes b)) [0..<ring_slots b] \<noteq> []"
    if "card (set (ring_lanes b)) < ring_slots b" for b
  proof
    assume "filter (\<lambda>l. l \<notin> set (ring_lanes b)) [0..<ring_slots b] = []"
    then have "{0..<ring_slots b} \<subseteq> set (ring_lanes b)" by (auto simp: filter_empty_conv)
    then have "ring_slots b \<le> card (set (ring_lanes b))" using card_mono [OF finite_set] by fastforce
    with that show False by simp
  qed
  moreover have "l \<notin> set (ring_lanes b)"
    if "filter (\<lambda>l. l \<notin> set (ring_lanes b)) [0..<ring_slots b] = l # ls" for b l ls
    using Cons_eq_filterD [OF that [symmetric]] by blast
  ultimately show ?thesis
    unfolding queue_lane_laws_def ring_shaq_def by (auto split: list.splits)
qed

text \<open>The stream is enabled, then a publisher is created.\<close>

lemma example_reachable:
  "\<exists>s pub. creachable ring_shaq (Ok [1, 2]) example_base example_name example_config s
     \<and> c_pubs s = [0 \<mapsto> Ready pub] \<and> pub_queue_generation pub = es_queue_generation (c_stream s)
     \<and> es_queue (c_stream s) \<noteq> None \<and> length (c_history s) = 2"
proof -
  let ?init = "\<lparr>c_stream = EventStream_new example_base example_name example_config,
    c_world = example_world [], c_pubs = Map.empty, c_history = [None]\<rparr> :: (ring, nat) cstate"
  obtain q w where create: "StreamQueue_create ring_shaq (Ok [1, 2]) example_base example_name example_config
    (example_world []) = (Ok q, w)" using example_create by blast
  define stream where
    "stream = bump_generation ((EventStream_new example_base example_name example_config)\<lparr>es_queue := Some q\<rparr>)"
  have on: "apply_stream_rule ring_shaq (Ok [1, 2]) On (c_stream ?init, c_world ?init) = (Ok (), (stream, w))"
    using create by (simp add: apply_stream_rule_def EventStream_new_def stream_def)
  let ?s1 = "?init\<lparr>c_stream := stream, c_world := w,
    c_history := record_queue (c_stream ?init) stream (c_history ?init)\<rparr>"
  have s1: "creachable ring_shaq (Ok [1, 2]) example_base example_name example_config ?s1"
    by (rule creachable.step [OF creachable.init cstep.policy [OF on]])
  let ?stream = "stream\<lparr>es_remaining_publisher_slots := 0\<rparr>"
  obtain pr w' where "create_producer ring_shaq ?stream w = (pr, w')" by fastforce
  moreover have "es_remaining_publisher_slots stream = 1"
    by (simp add: stream_def bump_generation_def EventStream_new_def example_config_def)
  ultimately obtain pub stream' where pub: "try_create_publisher ring_shaq stream w = (Some pub, stream', w')"
    "stream' = ?stream" "pub_queue_generation pub = es_queue_generation stream'"
    by (simp add: try_create_publisher_def usize_checked_dec_def usize_checked_sub_def)
  have "creachable ring_shaq (Ok [1, 2]) example_base example_name example_config
    (?s1\<lparr>c_stream := stream', c_world := w', c_pubs := [0 \<mapsto> Ready pub]\<rparr>)"
    using creachable.step [OF s1 cstep.create [of ring_shaq ?s1 pub stream' w' 0]] pub(1) by simp
  moreover have "length (record_queue (c_stream ?init) stream [None]) = 2" "es_queue stream' \<noteq> None"
    by (simp_all add: record_queue_def stream_def bump_generation_def EventStream_new_def pub(2))
  ultimately show ?thesis
    using pub(3) by (intro exI [of _ "?s1\<lparr>c_stream := stream', c_world := w', c_pubs := [0 \<mapsto> Ready pub]\<rparr>"]) auto
qed

lemma example_slots: "publisher_slots example_config \<le> USIZE_MAX" "publisher_slots example_config = 1"
  by (simp_all add: example_config_def)

theorem publisher_slots_exact_witness:
  "\<exists>s. creachable ring_shaq (Ok [1, 2]) example_base example_name example_config s \<and> dom (c_pubs s) = {0}
     \<and> es_remaining_publisher_slots (c_stream s) = 0
     \<and> fst (try_create_publisher ring_shaq (c_stream s) (c_world s)) = None"
proof -
  obtain s pub where s: "creachable ring_shaq (Ok [1, 2]) example_base example_name example_config s"
    "c_pubs s = [0 \<mapsto> Ready pub]" using example_reachable by blast
  note exact = publisher_slots_exact [OF ring_lane_laws example_slots(1) s(1)]
  show ?thesis
    using exact s example_slots(2) by (intro exI [of _ s]) auto
qed

theorem producer_tracks_queue_witness:
  "\<exists>s pub. creachable ring_shaq (Ok [1, 2]) example_base example_name example_config s
     \<and> c_pubs s 0 = Some (Ready pub) \<and> pub_producer pub \<noteq> None
     \<and> map_option fst (pub_producer pub) = map_option sq_broadcast (es_queue (c_stream s))"
proof -
  obtain s pub where s: "creachable ring_shaq (Ok [1, 2]) example_base example_name example_config s"
    "c_pubs s = [0 \<mapsto> Ready pub]" "pub_queue_generation pub = es_queue_generation (c_stream s)"
    "es_queue (c_stream s) \<noteq> None" "length (c_history s) = 2"
    using example_reachable by blast
  have "map_option fst (pub_producer pub) = map_option sq_broadcast (es_queue (c_stream s))"
    using producer_tracks_queue [OF ring_lane_laws example_slots(1) s(1), of 0 pub] s by simp
  with s show ?thesis by (intro exI [of _ s] exI [of _ pub]) auto
qed

end
