(* ===== verification/Stream_Policy_Manager.thy ===== *)
theory Stream_Policy_Manager
  imports Event_Stream
begin

text \<open>
  The policy manager of an event system (\<open>event-system/src/backend/linux/stream_policy.rs\<close>). It keeps weak
  references to the streams, which are shared by reference counting; a stream is reached through a trait
  object, here the record of its methods. The locale states what the manager relies on of a stream, and
  its lemmas hold for every such stream.
\<close>

section \<open>Shared streams\<close>

text \<open>
  An allocation keeps the number of strong references and the value, which is dropped with the last of
  them. Addresses are not reused while weak references exist, and are never reused here.
\<close>

record ('s, 'w) arcs =
  arc_cells :: "nat \<rightharpoonup> nat \<times> 's"
  arc_next :: nat
  arc_world :: 'w

definition arc_new :: "'s \<Rightarrow> ('s, 'w) arcs \<Rightarrow> nat \<times> ('s, 'w) arcs" where
  "arc_new v h =
     (arc_next h, h\<lparr>arc_cells := (arc_cells h)(arc_next h \<mapsto> (1, v)), arc_next := Suc (arc_next h)\<rparr>)"

definition strong_count :: "('s, 'w) arcs \<Rightarrow> nat \<Rightarrow> nat" where
  "strong_count h a = (case arc_cells h a of None \<Rightarrow> 0 | Some (n, _) \<Rightarrow> n)"

definition upgrade :: "('s, 'w) arcs \<Rightarrow> nat \<Rightarrow> 's option" where
  "upgrade h a = (case arc_cells h a of None \<Rightarrow> None | Some (n, s) \<Rightarrow> if n = 0 then None else Some s)"

definition arc_clone :: "nat \<Rightarrow> ('s, 'w) arcs \<Rightarrow> ('s, 'w) arcs" where
  "arc_clone a h = h\<lparr>arc_cells := (arc_cells h)(a := map_option (map_prod Suc id) (arc_cells h a))\<rparr>"

definition arc_set :: "nat \<Rightarrow> 's \<Rightarrow> 'w \<Rightarrow> ('s, 'w) arcs \<Rightarrow> ('s, 'w) arcs" where
  "arc_set a s w h =
     h\<lparr>arc_cells := (arc_cells h)(a := map_option (map_prod id (\<lambda>_. s)) (arc_cells h a)), arc_world := w\<rparr>"

definition arc_drop :: "('s \<Rightarrow> 'w \<Rightarrow> 'w) \<Rightarrow> nat \<Rightarrow> ('s, 'w) arcs \<Rightarrow> ('s, 'w) arcs" where
  "arc_drop dropped a h =
     (case arc_cells h a of
        None \<Rightarrow> h
      | Some (n, s) \<Rightarrow>
          if n \<le> 1 then h\<lparr>arc_cells := (arc_cells h)(a := None), arc_world := dropped s (arc_world h)\<rparr>
          else h\<lparr>arc_cells := (arc_cells h)(a \<mapsto> (n - 1, s))\<rparr>)"

section \<open>The manager\<close>

record ('s, 'w) PolicyControlledStream =
  pcs_stream_name :: "'s \<Rightarrow> StreamName"
  pcs_apply_stream_rule :: "StreamRule \<Rightarrow> ('s \<times> 'w, CreateStreamError, unit) comp"
  pcs_drop :: "'s \<Rightarrow> 'w \<Rightarrow> 'w"

record StreamPolicyManager =
  spm_streams :: "nat list"
  spm_stream_policy :: StreamPolicy

definition StreamPolicyManager_default :: StreamPolicyManager where
  "StreamPolicyManager_default = \<lparr>spm_streams = [], spm_stream_policy = StreamPolicy_default\<rparr>"

definition prune_dead_streams :: "('s, 'w) arcs \<Rightarrow> StreamPolicyManager \<Rightarrow> StreamPolicyManager" where
  "prune_dead_streams h self = self\<lparr>spm_streams := filter (\<lambda>a. 0 < strong_count h a) (spm_streams self)\<rparr>"

text \<open>Applying the rules of a policy; the result of each is ignored, a panic is not.\<close>

fun apply_rules ::
    "('s, 'w) PolicyControlledStream \<Rightarrow> StreamPolicy \<Rightarrow> nat list
      \<Rightarrow> (('s, 'w) arcs, CreateStreamError, unit) comp" where
  "apply_rules tr policy [] h = (Ok (), h)"
| "apply_rules tr policy (a # as) h =
     (case upgrade h a of
        None \<Rightarrow> apply_rules tr policy as h
      | Some s \<Rightarrow>
          (case pcs_apply_stream_rule tr (stream_rule policy (pcs_stream_name tr s)) (s, arc_world h) of
             (r, (s', w')) \<Rightarrow>
               (case r of
                  Panic \<Rightarrow> (Panic, arc_set a s' w' h)
                | UB \<Rightarrow> (UB, arc_set a s' w' h)
                | _ \<Rightarrow> apply_rules tr policy as (arc_set a s' w' h))))"

definition set_stream_policy ::
    "('s, 'w) PolicyControlledStream \<Rightarrow> StreamPolicy
      \<Rightarrow> (StreamPolicyManager \<times> ('s, 'w) arcs, CreateStreamError, unit) comp" where
  "set_stream_policy tr new_stream_policy = (\<lambda>(self, h).
     let self1 = (prune_dead_streams h self)\<lparr>spm_stream_policy := new_stream_policy\<rparr>;
         (r, h') = apply_rules tr (spm_stream_policy self1) (spm_streams self1) h in
     (r, (self1, h')))"

definition name_in_use ::
    "('s, 'w) PolicyControlledStream \<Rightarrow> ('s, 'w) arcs \<Rightarrow> nat list \<Rightarrow> StreamName \<Rightarrow> bool" where
  "name_in_use tr h streams n =
     list_ex (\<lambda>a. case upgrade h a of None \<Rightarrow> False | Some s \<Rightarrow> pcs_stream_name tr s = n) streams"

text \<open>The registered reference is the argument of the call, which is dropped when it returns.\<close>

definition register_new_stream ::
    "('s, 'w) PolicyControlledStream \<Rightarrow> nat
      \<Rightarrow> (StreamPolicyManager \<times> ('s, 'w) arcs, CreateStreamError, unit) comp" where
  "register_new_stream tr stream = (\<lambda>(self, h).
     let self1 = prune_dead_streams h self in
     case upgrade h stream of
       None \<Rightarrow> (UB, (self1, h))
     | Some s \<Rightarrow>
         if name_in_use tr h (spm_streams self1) (pcs_stream_name tr s)
         then (Err StreamNameAlreadyInUse, (self1, arc_drop (pcs_drop tr) stream h))
         else
           (case pcs_apply_stream_rule tr (stream_rule (spm_stream_policy self1) (pcs_stream_name tr s))
                   (s, arc_world h) of
              (Ok u, (s', w')) \<Rightarrow>
                (Ok (), (self1\<lparr>spm_streams := spm_streams self1 @ [stream]\<rparr>,
                   arc_drop (pcs_drop tr) stream (arc_set stream s' w' h)))
            | (r, (s', w')) \<Rightarrow> (r, (self1, arc_drop (pcs_drop tr) stream (arc_set stream s' w' h)))))"

section \<open>Lemmas on shared streams\<close>

definition live :: "('s, 'w) arcs \<Rightarrow> nat \<rightharpoonup> 's" where
  "live h a = map_option snd (arc_cells h a)"

definition arcs_ok :: "('s, 'w) arcs \<Rightarrow> bool" where
  "arcs_ok h \<longleftrightarrow> (\<forall>a n s. arc_cells h a = Some (n, s) \<longrightarrow> 0 < n \<and> a < arc_next h)"

lemma upgrade_live: "arcs_ok h \<Longrightarrow> upgrade h a = live h a"
  by (auto simp: upgrade_def live_def arcs_ok_def split: option.splits)

lemma strong_count_live: "arcs_ok h \<Longrightarrow> 0 < strong_count h a \<longleftrightarrow> live h a \<noteq> None"
  by (auto simp: strong_count_def live_def arcs_ok_def split: option.splits)

lemma arcs_ok_fresh: "arcs_ok h \<Longrightarrow> live h (arc_next h) = None \<and> strong_count h (arc_next h) = 0"
  by (cases "arc_cells h (arc_next h)") (auto simp: arcs_ok_def live_def strong_count_def)

lemma arc_set_simps [simp]:
  "live (arc_set a s w h) = (if live h a = None then live h else (live h)(a \<mapsto> s))"
  "strong_count (arc_set a s w h) = strong_count h"
  "arc_world (arc_set a s w h) = w" "arc_next (arc_set a s w h) = arc_next h"
  "arcs_ok (arc_set a s w h) \<longleftrightarrow> arcs_ok h"
  by (auto simp: arc_set_def live_def strong_count_def arcs_ok_def fun_eq_iff split: option.splits)

lemma arc_new_simps:
  assumes "arc_new v h = (a, h')"
  shows "a = arc_next h" "live h' = (live h)(a \<mapsto> v)" "strong_count h' = (strong_count h)(a := 1)"
    "arc_world h' = arc_world h" "arc_next h' = Suc (arc_next h)" "arcs_ok h \<Longrightarrow> arcs_ok h'"
  using assms by (auto simp: arc_new_def live_def strong_count_def arcs_ok_def fun_eq_iff less_Suc_eq
      split: if_split_asm) blast

lemma arc_clone_simps:
  assumes "live h a \<noteq> None"
  shows "live (arc_clone a h) = live h"
    "strong_count (arc_clone a h) = (strong_count h)(a := Suc (strong_count h a))"
    "arc_world (arc_clone a h) = arc_world h" "arc_next (arc_clone a h) = arc_next h"
    "arcs_ok h \<Longrightarrow> arcs_ok (arc_clone a h)"
  using assms by (auto simp: arc_clone_def live_def strong_count_def arcs_ok_def fun_eq_iff option.map_comp o_def
      split: option.splits)

lemma arc_drop_simps:
  assumes "live h a = Some s"
  shows "strong_count (arc_drop dropped a h) = (strong_count h)(a := strong_count h a - 1)"
    "1 < strong_count h a \<Longrightarrow> live (arc_drop dropped a h) = live h"
    "1 < strong_count h a \<Longrightarrow> arc_world (arc_drop dropped a h) = arc_world h"
    "strong_count h a \<le> 1 \<Longrightarrow> live (arc_drop dropped a h) = (live h)(a := None)"
    "strong_count h a \<le> 1 \<Longrightarrow> arc_world (arc_drop dropped a h) = dropped s (arc_world h)"
    "arc_next (arc_drop dropped a h) = arc_next h"
    "arcs_ok h \<Longrightarrow> arcs_ok (arc_drop dropped a h)"
  using assms by (auto simp: arc_drop_def live_def strong_count_def arcs_ok_def fun_eq_iff split: option.splits)

section \<open>The contract of a stream\<close>

text \<open>
  A stream keeps its name, a rule that was applied is followed, and only switching on can fail, which
  leaves the stream off.
\<close>

locale policy_controlled =
  fixes tr :: "('s, 'w) PolicyControlledStream" and enabled :: "'s \<Rightarrow> bool"
  assumes name_kept: "pcs_apply_stream_rule tr rule (s, w) = (r, (s', w')) \<Longrightarrow>
      pcs_stream_name tr s' = pcs_stream_name tr s"
    and applied: "pcs_apply_stream_rule tr rule (s, w) = (Ok u, (s', w')) \<Longrightarrow> enabled s' \<longleftrightarrow> rule = On"
    and failed: "pcs_apply_stream_rule tr rule (s, w) = (Err e, (s', w')) \<Longrightarrow> rule = On \<and> \<not> enabled s'"
begin

definition follows :: "StreamPolicy \<Rightarrow> 's \<Rightarrow> bool" where
  "follows policy s \<longleftrightarrow> (enabled s \<longrightarrow> stream_rule policy (pcs_stream_name tr s) = On)"

definition names :: "('s, 'w) arcs \<Rightarrow> nat \<rightharpoonup> StreamName" where
  "names h a = map_option (pcs_stream_name tr) (live h a)"

lemma rule_follows:
  assumes "pcs_apply_stream_rule tr (stream_rule policy (pcs_stream_name tr s)) (s, w) = (r, (s', w'))"
    and "r \<noteq> Panic" "r \<noteq> UB"
  shows "follows policy s'" "pcs_stream_name tr s' = pcs_stream_name tr s"
proof -
  show name: "pcs_stream_name tr s' = pcs_stream_name tr s" using name_kept [OF assms(1)] .
  show "follows policy s'"
    using assms applied failed by (cases r) (auto simp: follows_def name)
qed

lemma apply_rules_Ok:
  assumes "apply_rules tr policy as h = (Ok u, h')" "arcs_ok h"
  shows "arcs_ok h' \<and> strong_count h' = strong_count h \<and> arc_next h' = arc_next h \<and> names h' = names h
    \<and> (\<forall>a. a \<notin> set as \<longrightarrow> live h' a = live h a)
    \<and> (\<forall>a s. a \<in> set as \<longrightarrow> live h' a = Some s \<longrightarrow> follows policy s)"
  using assms
proof (induction as arbitrary: h)
  case (Cons a as)
  show ?case
  proof (cases "live h a")
    case None
    then have "apply_rules tr policy as h = (Ok u, h')" using Cons.prems by (simp add: upgrade_live)
    from Cons.IH [OF this Cons.prems(2)]
    have IH: "arcs_ok h' \<and> strong_count h' = strong_count h \<and> arc_next h' = arc_next h \<and> names h' = names h
      \<and> (\<forall>a. a \<notin> set as \<longrightarrow> live h' a = live h a)
      \<and> (\<forall>a s. a \<in> set as \<longrightarrow> live h' a = Some s \<longrightarrow> follows policy s)" .
    then have "names h' a = names h a" by simp
    then have "live h' a = None" using None by (simp add: names_def)
    then show ?thesis using IH by auto
  next
    case (Some s)
    obtain r s' w' where r: "pcs_apply_stream_rule tr (stream_rule policy (pcs_stream_name tr s))
      (s, arc_world h) = (r, (s', w'))" by (metis prod.collapse)
    have ok: "r \<noteq> Panic" "r \<noteq> UB" using Cons.prems Some r by (auto simp: upgrade_live)
    let ?h = "arc_set a s' w' h"
    have "apply_rules tr policy as ?h = (Ok u, h')"
      using Cons.prems Some r ok by (cases r) (auto simp: upgrade_live)
    from Cons.IH [OF this] Cons.prems(2)
    have IH: "arcs_ok h' \<and> strong_count h' = strong_count h \<and> arc_next h' = arc_next h \<and> names h' = names ?h
      \<and> (\<forall>x. x \<notin> set as \<longrightarrow> live h' x = live ?h x)
      \<and> (\<forall>x s. x \<in> set as \<longrightarrow> live h' x = Some s \<longrightarrow> follows policy s)" by simp
    have live: "live ?h = (live h)(a \<mapsto> s')" using Some by simp
    have "names ?h = names h"
      using rule_follows(2) [OF r ok] Some by (auto simp: names_def fun_eq_iff)
    moreover have "follows policy s'" using rule_follows(1) [OF r ok] .
    moreover have "follows policy t" if "live h' a = Some t" for t
      using that IH calculation(2) unfolding live by (cases "a \<in> set as") auto
    ultimately show ?thesis using IH unfolding live by simp
  qed
qed auto

end

context policy_controlled
begin

text \<open>No two live registered streams have the same name.\<close>

definition distinct_names :: "StreamPolicyManager \<Rightarrow> ('s, 'w) arcs \<Rightarrow> bool" where
  "distinct_names m h \<longleftrightarrow>
     (\<forall>a b n. a \<in> set (spm_streams m) \<and> b \<in> set (spm_streams m) \<and> names h a = Some n \<and> names h b = Some n
        \<longrightarrow> a = b)"

lemma prune_live:
  "arcs_ok h \<Longrightarrow> prune_dead_streams h m = m\<lparr>spm_streams := filter (\<lambda>a. live h a \<noteq> None) (spm_streams m)\<rparr>"
  by (simp add: prune_dead_streams_def strong_count_live del: not_None_eq)

lemma set_stream_policy_Ok:
  assumes "set_stream_policy tr policy (m, h) = (Ok u, (m', h'))" "arcs_ok h"
  shows "arcs_ok h'" "strong_count h' = strong_count h" "arc_next h' = arc_next h" "names h' = names h"
    "m' = \<lparr>spm_streams = filter (\<lambda>a. live h a \<noteq> None) (spm_streams m), spm_stream_policy = policy\<rparr>"
    "a \<in> set (spm_streams m) \<Longrightarrow> live h' a = Some s \<Longrightarrow> follows policy s"
    "a \<notin> set (spm_streams m) \<Longrightarrow> live h' a = live h a"
    "distinct_names m h \<Longrightarrow> distinct_names m' h'"
proof -
  show m': "m' = \<lparr>spm_streams = filter (\<lambda>a. live h a \<noteq> None) (spm_streams m), spm_stream_policy = policy\<rparr>"
    using assms by (auto simp: set_stream_policy_def prune_live Let_def split: prod.splits)
  have r: "apply_rules tr policy (spm_streams m') h = (Ok u, h')"
    using assms by (auto simp: set_stream_policy_def prune_live Let_def split: prod.splits)
  note ok = apply_rules_Ok [OF r assms(2)]
  show "arcs_ok h'" "strong_count h' = strong_count h" "arc_next h' = arc_next h" "names h' = names h"
    using ok by blast+
  show "live h' a = live h a" if "a \<notin> set (spm_streams m)"
    using that ok m' by simp
  show "follows policy s" if "a \<in> set (spm_streams m)" "live h' a = Some s"
  proof -
    have "names h a \<noteq> None" using ok that(2) by (metis names_def option.map_disc_iff option.distinct(1))
    then have "a \<in> set (spm_streams m')" using that(1) m' by (auto simp: names_def)
    then show ?thesis using ok that(2) by blast
  qed
  show "distinct_names m' h'" if "distinct_names m h"
    using that ok m' by (simp add: distinct_names_def)
qed

lemma name_in_use_iff:
  "arcs_ok h \<Longrightarrow> name_in_use tr h as n \<longleftrightarrow> (\<exists>a\<in>set as. names h a = Some n)"
  by (auto simp: name_in_use_def list_ex_iff upgrade_live names_def split: option.splits)

lemma register_cases:
  assumes reg: "register_new_stream tr a (m, h) = (r, (m', h'))" and ok: "arcs_ok h"
    and a: "live h a = Some s" "1 < strong_count h a"
  obtains (in_use) "r = Err StreamNameAlreadyInUse" "\<exists>b\<in>set (spm_streams m). names h b = Some (pcs_stream_name tr s)"
      "h' = arc_drop (pcs_drop tr) a h" "m' = prune_dead_streams h m"
  | (applied) s' w' where "\<forall>b\<in>set (spm_streams m). names h b \<noteq> Some (pcs_stream_name tr s)"
      "pcs_apply_stream_rule tr (stream_rule (spm_stream_policy m) (pcs_stream_name tr s)) (s, arc_world h)
         = (r, (s', w'))"
      "h' = arc_drop (pcs_drop tr) a (arc_set a s' w' h)"
      "m' = (let m1 = prune_dead_streams h m in
         if r = Ok () then m1\<lparr>spm_streams := spm_streams m1 @ [a]\<rparr> else m1)"
proof -
  let ?m = "prune_dead_streams h m"
  have mem: "(\<exists>b\<in>set (spm_streams ?m). names h b = Some n) \<longleftrightarrow> (\<exists>b\<in>set (spm_streams m). names h b = Some n)" for n
    using ok by (auto simp: prune_live names_def)
  have policy: "spm_stream_policy ?m = spm_stream_policy m" by (simp add: prune_dead_streams_def)
  show thesis
  proof (cases "name_in_use tr h (spm_streams ?m) (pcs_stream_name tr s)")
    case True
    then show thesis
      using reg ok a in_use mem by (simp add: register_new_stream_def upgrade_live Let_def name_in_use_iff)
  next
    case False
    obtain x s' w' where x: "pcs_apply_stream_rule tr
      (stream_rule (spm_stream_policy m) (pcs_stream_name tr s)) (s, arc_world h) = (x, (s', w'))"
      by (metis prod.collapse)
    then have "r = x" "h' = arc_drop (pcs_drop tr) a (arc_set a s' w' h)"
      "m' = (if r = Ok () then ?m\<lparr>spm_streams := spm_streams ?m @ [a]\<rparr> else ?m)"
      using reg ok a(1) False policy
      by (auto simp: register_new_stream_def upgrade_live Let_def split: outcome.splits)
    then show thesis
      using applied x False mem ok by (simp add: name_in_use_iff Let_def)
  qed
qed

lemma register_Ok:
  assumes reg: "register_new_stream tr a (m, h) = (Ok (), (m', h'))" and ok: "arcs_ok h"
    and a: "live h a = Some s" "1 < strong_count h a" "a \<notin> set (spm_streams m)"
  obtains s' where "live h' = (live h)(a \<mapsto> s')" "pcs_stream_name tr s' = pcs_stream_name tr s"
    "enabled s' \<longleftrightarrow> stream_rule (spm_stream_policy m) (pcs_stream_name tr s') = On"
    "m' = m\<lparr>spm_streams := filter (\<lambda>a. live h a \<noteq> None) (spm_streams m) @ [a]\<rparr>"
    "strong_count h' = (strong_count h)(a := strong_count h a - 1)" "arcs_ok h'" "arc_next h' = arc_next h"
    "distinct_names m h \<Longrightarrow> distinct_names m' h'"
  using reg ok a(1,2)
proof (cases rule: register_cases)
  case (applied s' w')
  let ?h = "arc_set a s' w' h"
  have live: "live ?h a = Some s'" "live ?h = (live h)(a \<mapsto> s')" using a(1) by simp_all
  note name = name_kept [OF applied(2)]
  have h': "live h' = (live h)(a \<mapsto> s')" "strong_count h' = (strong_count h)(a := strong_count h a - 1)"
    "arcs_ok h'" "arc_next h' = arc_next h"
    using arc_drop_simps [OF live(1)] a(2) ok live(2) unfolding applied(3) by simp_all
  have m': "m' = m\<lparr>spm_streams := filter (\<lambda>a. live h a \<noteq> None) (spm_streams m) @ [a]\<rparr>"
    using applied(4) ok by (simp add: prune_live Let_def)
  have "names h' = names h"
    using h'(1) a(1) name by (auto simp: names_def fun_eq_iff)
  moreover have "names h a = Some (pcs_stream_name tr s)" using a(1) by (simp add: names_def)
  ultimately have "distinct_names m' h'" if "distinct_names m h"
    using that applied(1) unfolding distinct_names_def m' by auto
  then show thesis
    using that [OF h'(1) name _ m' h'(2-4)] policy_controlled_axioms name
      policy_controlled.applied [OF policy_controlled_axioms applied(2)] by simp
qed simp

end

text \<open>
  Streams whose queues live in a world with an invariant of its own, which applying a rule keeps; a stream
  that is creatable can always be switched on. After a policy was set, each such stream follows it exactly.
\<close>

locale policy_world = policy_controlled tr enabled
  for tr :: "('s, 'w) PolicyControlledStream" and enabled :: "'s \<Rightarrow> bool" +
  fixes inv :: "(nat \<rightharpoonup> 's) \<Rightarrow> 'w \<Rightarrow> bool" and creatable :: "'s \<Rightarrow> bool"
  assumes rule_inv: "inv lv w \<Longrightarrow> lv a = Some s \<Longrightarrow> pcs_apply_stream_rule tr rule (s, w) = (r, (s', w')) \<Longrightarrow>
      r \<noteq> Panic \<Longrightarrow> r \<noteq> UB \<Longrightarrow> inv (lv(a \<mapsto> s')) w'"
    and rule_works: "inv lv w \<Longrightarrow> lv a = Some s \<Longrightarrow> creatable s \<Longrightarrow>
      pcs_apply_stream_rule tr rule (s, w) = (r, (s', w')) \<Longrightarrow> r = Ok ()"
    and creatable_kept: "pcs_apply_stream_rule tr rule (s, w) = (r, (s', w')) \<Longrightarrow> creatable s' \<longleftrightarrow> creatable s"
begin

definition obeys :: "StreamPolicy \<Rightarrow> 's \<Rightarrow> bool" where
  "obeys policy s \<longleftrightarrow> follows policy s
     \<and> (creatable s \<and> stream_rule policy (pcs_stream_name tr s) = On \<longrightarrow> enabled s)"

lemma rule_obeys:
  assumes "inv lv w" "lv a = Some s"
    and r: "pcs_apply_stream_rule tr (stream_rule policy (pcs_stream_name tr s)) (s, w) = (r, (s', w'))"
    and ok: "r \<noteq> Panic" "r \<noteq> UB"
  shows "obeys policy s'"
  using rule_follows [OF r ok] rule_works [OF assms(1,2) _ r] creatable_kept [OF r] applied
    r by (auto simp: obeys_def)

lemma apply_rules_obeys:
  assumes "apply_rules tr policy as h = (Ok u, h')" "arcs_ok h" "inv (live h) (arc_world h)"
  shows "inv (live h') (arc_world h') \<and> (\<forall>a s. a \<in> set as \<longrightarrow> live h' a = Some s \<longrightarrow> obeys policy s)"
  using assms
proof (induction as arbitrary: h)
  case (Cons a as)
  show ?case
  proof (cases "live h a")
    case None
    then have rest: "apply_rules tr policy as h = (Ok u, h')" using Cons.prems by (simp add: upgrade_live)
    have "names h' a = names h a" using apply_rules_Ok [OF rest Cons.prems(2)] by simp
    then have "live h' a = None" using None by (simp add: names_def)
    then show ?thesis using Cons.IH [OF rest Cons.prems(2,3)] by auto
  next
    case (Some s)
    obtain r s' w' where r: "pcs_apply_stream_rule tr (stream_rule policy (pcs_stream_name tr s))
      (s, arc_world h) = (r, (s', w'))" by (metis prod.collapse)
    have ok: "r \<noteq> Panic" "r \<noteq> UB" using Cons.prems Some r by (auto simp: upgrade_live)
    let ?h = "arc_set a s' w' h"
    have live: "live ?h = (live h)(a \<mapsto> s')" "arcs_ok ?h" using Some Cons.prems(2) by simp_all
    have rest: "apply_rules tr policy as ?h = (Ok u, h')"
      using Cons.prems Some r ok by (cases r) (auto simp: upgrade_live)
    have "inv (live ?h) (arc_world ?h)"
      using rule_inv [OF Cons.prems(3) Some r ok] unfolding live by simp
    note IH = Cons.IH [OF rest live(2) this]
    have "obeys policy t" if t: "live h' a = Some t" for t
    proof (cases "a \<in> set as")
      case False
      then have "live h' a = live ?h a" using apply_rules_Ok [OF rest live(2)] by blast
      then show ?thesis using t rule_obeys [OF Cons.prems(3) Some r ok] unfolding live by simp
    qed (use IH t in blast)
    then show ?thesis using IH by auto
  qed
qed auto

lemma set_stream_policy_obeys:
  assumes "set_stream_policy tr policy (m, h) = (Ok u, (m', h'))" "arcs_ok h" "inv (live h) (arc_world h)"
  shows "inv (live h') (arc_world h')"
    "a \<in> set (spm_streams m) \<Longrightarrow> live h' a = Some s \<Longrightarrow> obeys policy s"
proof -
  have m': "m' = \<lparr>spm_streams = filter (\<lambda>a. live h a \<noteq> None) (spm_streams m), spm_stream_policy = policy\<rparr>"
    by (rule set_stream_policy_Ok(5) [OF assms(1,2)])
  have r: "apply_rules tr policy (spm_streams m') h = (Ok u, h')"
    using assms by (auto simp: set_stream_policy_def prune_live Let_def split: prod.splits)
  note rules = apply_rules_obeys [OF r assms(2,3)]
  show "inv (live h') (arc_world h')" using rules by blast
  show "obeys policy s" if "a \<in> set (spm_streams m)" "live h' a = Some s"
  proof -
    have "names h' a = names h a" using set_stream_policy_Ok(4) [OF assms(1,2)] by simp
    then have "live h a \<noteq> None" using that(2) by (cases "live h a") (simp_all add: names_def)
    then show ?thesis using rules that m' by auto
  qed
qed

lemma register_obeys:
  assumes reg: "register_new_stream tr a (m, h) = (r, (m', h'))" and ok: "arcs_ok h"
    and a: "live h a = Some s" "1 < strong_count h a"
    and inv: "inv (live h) (arc_world h) \<or> (\<exists>b\<in>set (spm_streams m). names h b = Some (pcs_stream_name tr s))"
    and r: "r \<noteq> Panic" "r \<noteq> UB"
  obtains s' where "live h' = (live h)(a \<mapsto> s')" "pcs_stream_name tr s' = pcs_stream_name tr s"
    "strong_count h' = (strong_count h)(a := strong_count h a - 1)" "arcs_ok h'" "arc_next h' = arc_next h"
    "r = Ok () \<Longrightarrow> inv (live h') (arc_world h') \<and> obeys (spm_stream_policy m) s'"
    "r \<noteq> Ok () \<Longrightarrow> (s' = s \<and> arc_world h' = arc_world h)
       \<or> inv (live h') (arc_world h') \<and> \<not> enabled s'"
    "spm_stream_policy m' = spm_stream_policy m"
    "set (spm_streams m') = {b \<in> set (spm_streams m). live h b \<noteq> None} \<union> (if r = Ok () then {a} else {})"
  using reg ok a
proof (cases rule: register_cases)
  case in_use
  then show ?thesis
    using that [of s] arc_drop_simps [OF a(1)] a ok by (simp add: fun_upd_idem prune_live)
next
  case (applied s' w')
  let ?h = "arc_set a s' w' h"
  have live: "live ?h a = Some s'" "live ?h = (live h)(a \<mapsto> s')" using a(1) by simp_all
  have h': "live h' = (live h)(a \<mapsto> s')" "strong_count h' = (strong_count h)(a := strong_count h a - 1)"
    "arcs_ok h'" "arc_next h' = arc_next h" "arc_world h' = w'"
    using arc_drop_simps [OF live(1)] a(2) ok live(2) unfolding applied(3) by simp_all
  have i: "inv (live h) (arc_world h)" using inv applied(1) by blast
  have "inv (live h') (arc_world h')" using rule_inv [OF i a(1) applied(2) r] h' by simp
  moreover have "obeys (spm_stream_policy m) s'" using rule_obeys [OF i a(1) applied(2) r] .
  moreover have "\<not> enabled s'" if "r \<noteq> Ok ()"
    using applied(2) that r failed by (cases r) auto
  moreover have "spm_stream_policy m' = spm_stream_policy m"
    "set (spm_streams m') = {b \<in> set (spm_streams m). live h b \<noteq> None} \<union> (if r = Ok () then {a} else {})"
    using ok by (auto simp: applied(4) prune_live Let_def)
  ultimately show ?thesis
    using that [OF h'(1) name_kept [OF applied(2)] h'(2-4)] by blast
qed

end

end
