(* ===== verification/Event_Subscriber.thy ===== *)
theory Event_Subscriber
  imports Event_Directory
begin

text \<open>
  The subscribing side of the event-system directory (\<open>event-system/src/backend/linux/subscriber.rs\<close> and the
  connection functions of \<open>event-system/src/subscriber.rs\<close>): finding the published streams, checking the
  queue file, and connecting. Joining a queue, claiming a consumer and decoding a schema are parameters.
  Directory entries are UTF-8 here, so the error for other names does not arise.
\<close>

datatype CreateAvailableStreamError =
    IoError io_error
  | QueueIdentifierMismatch u64 u64
  | SchemaDeserializationFailed wincode_error
  | StreamNameIsNotUtf8Encoded
  | StreamNameIsNotValid StreamNameValidationError
  | InvalidQueueIdentifier
  | QueueIsNotSealed
  | QueueFileIsNotPublished
  | JoiningBroadcastFailed shaq_error

type_synonym 'a av_result = "(CreateAvailableStreamError, 'a) outcome"

definition ok_or :: "'e \<Rightarrow> 'a option \<Rightarrow> ('e, 'a) outcome" where
  "ok_or e x = (case x of Some v \<Rightarrow> Ok v | None \<Rightarrow> Err e)"

text \<open>
  Opening a file for reading and writing. A link is followed: a path below \<open>/proc\<close> names an open
  descriptor of the publishing process at the time of the call. The result is the memory file, or
  nothing for an ordinary file, which has no seals.
\<close>

definition resolve_proc :: "'b world \<Rightarrow> str \<Rightarrow> nat option" where
  "resolve_proc w target =
     map_option snd (find (\<lambda>(fd, obj). proc_fd_path (w_pid w) fd = target) (w_fds w))"

definition openat_rdwr :: "'b world \<Rightarrow> path \<Rightarrow> (io_error, nat option) outcome" where
  "openat_rdwr w p =
     (case node_at (w_files w) p of
        None \<Rightarrow> Err NotFound
      | Some DirNode \<Rightarrow> Err (OtherIo 21)
      | Some (FileNode bs) \<Rightarrow> Ok None
      | Some (LinkNode target) \<Rightarrow>
          (case resolve_proc w target of None \<Rightarrow> Err NotFound | Some obj \<Rightarrow> Ok (Some obj)))"

text \<open>\<open>F_GET_SEALS\<close> fails on a file that is not a memory file.\<close>

definition get_seals :: "'b world \<Rightarrow> nat option \<Rightarrow> u32 option" where
  "get_seals w f = (case f of None \<Rightarrow> None | Some obj \<Rightarrow> map_option mem_seals (w_mem w obj))"

definition open_queue ::
    "('b, 'p) shaq \<Rightarrow> ('b option \<Rightarrow> (shaq_error, unit) outcome) \<Rightarrow> 'b world \<Rightarrow> path \<Rightarrow> nat av_result" where
  "open_queue sh join_untyped w stream_directory =
     r_bind (ok_or QueueFileIsNotPublished
       (find (prefix QUEUE_FILE_NAME_PREFIX) (dir_entries (w_files w) stream_directory))) (\<lambda>queue_file_entry.
     r_bind (ok_or InvalidQueueIdentifier
       (Option.bind (strip_prefix queue_file_entry QUEUE_FILE_NAME_PREFIX) parse_u64))
       (\<lambda>expected_broadcast_identifier.
     r_bind (outcome_map_err IoError (openat_rdwr w (stream_directory @ [queue_file_entry]))) (\<lambda>queue_file.
     case get_seals w queue_file of
       None \<Rightarrow> Err QueueIsNotSealed
     | Some queue_file_seals \<Rightarrow>
         if and queue_file_seals REQUIRED_SEALS \<noteq> REQUIRED_SEALS then Err QueueIsNotSealed
         else let obj = the queue_file; b = Option.bind (w_mem w obj) mem_queue in
           r_bind (outcome_map_err JoiningBroadcastFailed (join_untyped b)) (\<lambda>_.
           let actual_broadcast_identifier = (case b of Some q \<Rightarrow> queue_identifier sh q | None \<Rightarrow> 0) in
           if expected_broadcast_identifier \<noteq> actual_broadcast_identifier
           then Err (QueueIdentifierMismatch expected_broadcast_identifier actual_broadcast_identifier)
           else Ok obj))))"

definition read_schema ::
    "(bytes \<Rightarrow> (wincode_error, 's) outcome) \<Rightarrow> 'b world \<Rightarrow> path \<Rightarrow> 's av_result" where
  "read_schema deserialize w stream_directory =
     (case node_at (w_files w) (stream_directory @ [SCHEMA_FILE_NAME]) of
        Some (FileNode encoded_schema) \<Rightarrow>
          outcome_map_err SchemaDeserializationFailed (deserialize encoded_schema)
      | Some DirNode \<Rightarrow> Err (IoError (OtherIo 21))
      | _ \<Rightarrow> Err (IoError NotFound))"

record 's AvailableStream =
  av_stream_name :: StreamName
  av_schema :: 's
  av_broadcast_handle :: nat

definition AvailableStream_try_new ::
    "('b, 'p) shaq \<Rightarrow> ('b option \<Rightarrow> (shaq_error, unit) outcome) \<Rightarrow> (bytes \<Rightarrow> (wincode_error, 's) outcome)
      \<Rightarrow> 'b world \<Rightarrow> path \<Rightarrow> str \<Rightarrow> 's AvailableStream av_result" where
  "AvailableStream_try_new sh join_untyped deserialize w streams_directory file_name =
     r_bind (outcome_map_err StreamNameIsNotValid (StreamName_try_new file_name)) (\<lambda>stream_name.
     let stream_directory = streams_directory @ [file_name] in
     if node_at (w_files w) stream_directory \<noteq> Some DirNode then Err (IoError NotADirectory)
     else
       r_bind (read_schema deserialize w stream_directory) (\<lambda>schema.
       r_bind (open_queue sh join_untyped w stream_directory) (\<lambda>broadcast_handle.
       Ok \<lparr>av_stream_name = stream_name, av_schema = schema, av_broadcast_handle = broadcast_handle\<rparr>)))"

fun ok_values :: "('e, 'a) outcome list \<Rightarrow> 'a list" where
  "ok_values [] = []"
| "ok_values (Ok x # rs) = x # ok_values rs"
| "ok_values (r # rs) = ok_values rs"

definition available_streams ::
    "('b, 'p) shaq \<Rightarrow> ('b option \<Rightarrow> (shaq_error, unit) outcome) \<Rightarrow> (bytes \<Rightarrow> (wincode_error, 's) outcome)
      \<Rightarrow> 'b world \<Rightarrow> path \<Rightarrow> 's AvailableStream list" where
  "available_streams sh join_untyped deserialize w event_system_directory =
     (let streams_directory = event_system_directory @ [STREAMS_DIRECTORY_NAME] in
      if node_at (w_files w) streams_directory \<noteq> Some DirNode then []
      else ok_values (map (AvailableStream_try_new sh join_untyped deserialize w streams_directory)
             (dir_entries (w_files w) streams_directory)))"

section \<open>Connecting\<close>

datatype TryConnectError = SubscriberSlotsExhausted

datatype 's TryConnectTypedError = SchemaMismatch 's 's | Connection TryConnectError

record ('s, 'c) Subscriber =
  sub_slice_consumer :: "nat \<times> 'c"
  sub_stream_name :: StreamName
  sub_schema :: 's

text \<open>Claiming a consumer changes the queue, which is in the shared memory; the consumer keeps the queue mapped.\<close>

definition try_connect ::
    "('b \<Rightarrow> ('c \<times> 'b) option) \<Rightarrow> 's AvailableStream \<Rightarrow> ('b, TryConnectError, ('s, 'c) Subscriber) io" where
  "try_connect slice_consumer self w =
     (case Option.bind (Option.bind (w_mem w (av_broadcast_handle self)) mem_queue) slice_consumer of
        None \<Rightarrow> (Err SubscriberSlotsExhausted, w)
      | Some (c, b) \<Rightarrow>
          (Ok \<lparr>sub_slice_consumer = (av_broadcast_handle self, c), sub_stream_name = av_stream_name self, sub_schema = av_schema self\<rparr>,
           store_queue (av_broadcast_handle self) b w))"

definition try_connect_typed ::
    "('b \<Rightarrow> ('c \<times> 'b) option) \<Rightarrow> 's \<Rightarrow> 's AvailableStream
      \<Rightarrow> ('b, 's TryConnectTypedError, ('s, 'c) Subscriber) io" where
  "try_connect_typed slice_consumer expected_schema self w =
     (let actual_schema = av_schema self in
      if expected_schema \<noteq> actual_schema then (Err (SchemaMismatch expected_schema actual_schema), w)
      else io_map_err Connection (try_connect slice_consumer self) w)"

section \<open>Lemmas\<close>

lemma mem_dir_entries: "c \<in> set (dir_entries fs p) \<longleftrightarrow> node_at fs (p @ [c]) \<noteq> None"
proof -
  have "c \<in> set (dir_entries fs p) \<longleftrightarrow> (\<exists>q n. (q, n) \<in> set fs \<and> q \<noteq> [] \<and> butlast q = p \<and> last q = c)"
    by (auto simp: dir_entries_def)
  also have "\<dots> \<longleftrightarrow> (\<exists>n. (p @ [c], n) \<in> set fs)"
    by (metis append_butlast_last_id butlast_snoc last_snoc snoc_eq_iff_butlast)
  also have "\<dots> \<longleftrightarrow> map_of fs (p @ [c]) \<noteq> None"
    unfolding map_of_eq_None_iff by force
  finally show ?thesis by (simp add: node_at_def)
qed

lemma find_unique:
  assumes "x \<in> set xs" "P x" "\<And>y. y \<in> set xs \<Longrightarrow> P y \<Longrightarrow> y = x"
  shows "find P xs = Some x"
proof -
  have "find P xs \<noteq> None" using assms(1,2) by (auto simp: find_None_iff)
  then obtain y where y: "find P xs = Some y" by blast
  then have "y \<in> set xs" "P y" by (auto simp: find_Some_iff)
  with y assms(3) show ?thesis by blast
qed

lemma proc_fd_path_inject [simp]: "proc_fd_path p m = proc_fd_path p n \<longleftrightarrow> m = n"
  using fmt_nat_inject by (auto simp: proc_fd_path_def)

lemma resolve_proc_eq:
  "resolve_proc w (proc_fd_path (w_pid w) fd) = map_of (w_fds w) fd"
proof -
  have "map_option snd (find (\<lambda>(n, obj). proc_fd_path p n = proc_fd_path p fd) fds) = map_of fds fd" for p fds
    by (induction fds) auto
  then show ?thesis by (simp add: resolve_proc_def)
qed

lemma ok_values_mem: "Ok x \<in> set rs \<Longrightarrow> x \<in> set (ok_values rs)"
  by (induction rs rule: ok_values.induct) auto

lemma ok_or_Ok_iff [simp]: "ok_or e x = Ok y \<longleftrightarrow> x = Some y"
  by (cases x) (auto simp: ok_or_def)

lemma outcome_map_err_Ok_iff [simp]: "outcome_map_err f r = Ok y \<longleftrightarrow> r = Ok y"
  by (cases r) auto

text \<open>The queue library refuses a file that holds no queue.\<close>

definition join_checks :: "('b option \<Rightarrow> (shaq_error, unit) outcome) \<Rightarrow> bool" where
  "join_checks join_untyped \<longleftrightarrow> join_untyped None \<noteq> Ok ()"

text \<open>What the crate relies on when it reads back a queue it created.\<close>

definition queue_readable ::
    "('b, 'p) shaq \<Rightarrow> ('b option \<Rightarrow> (shaq_error, unit) outcome) \<Rightarrow> StreamConfig \<Rightarrow> bool" where
  "queue_readable sh join_untyped cfg \<longleftrightarrow>
     (\<forall>i b. create_with_identifier sh cfg i = Ok b \<longrightarrow>
        queue_identifier sh b = i \<and> join_untyped (Some b) = Ok ())"

section \<open>Claims\<close>

text \<open>
  C22. A subscriber never attaches to the wrong or an unsafe queue. Whatever the directory and the
  descriptors of the publisher look like (a stale link whose descriptor number was reused included), when
  \<open>open_queue\<close> returns a handle, the directory holds a file whose name carries the identifier of the queue
  behind that handle, and that queue lies in a memory file with all required seals.
\<close>

theorem open_queue_safe:
  assumes "open_queue sh join_untyped w dir = Ok obj" "join_checks join_untyped"
  shows "\<exists>name i m b. name \<in> set (dir_entries (w_files w) dir)
    \<and> Option.bind (strip_prefix name QUEUE_FILE_NAME_PREFIX) parse_u64 = Some i
    \<and> w_mem w obj = Some m \<and> and (mem_seals m) REQUIRED_SEALS = REQUIRED_SEALS
    \<and> mem_queue m = Some b \<and> queue_identifier sh b = i"
proof -
  from assms(1) obtain name i f where
    name: "find (prefix QUEUE_FILE_NAME_PREFIX) (dir_entries (w_files w) dir) = Some name"
    and i: "Option.bind (strip_prefix name QUEUE_FILE_NAME_PREFIX) parse_u64 = Some i"
    and rest: "(case get_seals w f of None \<Rightarrow> Err QueueIsNotSealed
      | Some queue_file_seals \<Rightarrow>
         if and queue_file_seals REQUIRED_SEALS \<noteq> REQUIRED_SEALS then Err QueueIsNotSealed
         else let obj = the f; b = Option.bind (w_mem w obj) mem_queue in
           r_bind (outcome_map_err JoiningBroadcastFailed (join_untyped b)) (\<lambda>_.
           let actual = (case b of Some q \<Rightarrow> queue_identifier sh q | None \<Rightarrow> 0) in
           if i \<noteq> actual then Err (QueueIdentifierMismatch i actual) else Ok obj)) = Ok obj"
    unfolding open_queue_def r_bind_Ok_iff ok_or_Ok_iff by blast
  obtain seals where seals: "get_seals w f = Some seals" "and seals REQUIRED_SEALS = REQUIRED_SEALS"
    using rest by (cases "get_seals w f") (auto split: if_split_asm)
  have join: "join_untyped (Option.bind (w_mem w (the f)) mem_queue) = Ok ()"
    and ident: "i = (case Option.bind (w_mem w (the f)) mem_queue of
        Some q \<Rightarrow> queue_identifier sh q | None \<Rightarrow> 0)"
    and obj: "obj = the f"
    using rest seals by (auto simp: r_bind_Ok_iff Let_def split: if_split_asm)
  from seals(1) obtain m where m: "f = Some obj" "w_mem w obj = Some m" "mem_seals m = seals"
    using obj by (auto simp: get_seals_def split: option.splits)
  with join assms(2) obtain b where "mem_queue m = Some b"
    by (cases "mem_queue m") (auto simp: join_checks_def)
  moreover have "name \<in> set (dir_entries (w_files w) dir)"
    using name by (metis find_Some_iff nth_mem)
  ultimately show ?thesis
    using i seals(2) m ident by auto
qed

text \<open>The example queue can be joined when there is one.\<close>

definition ring_join :: "ring option \<Rightarrow> (shaq_error, unit) outcome" where
  "ring_join b = (case b of None \<Rightarrow> Err (ShaqError 1) | Some _ \<Rightarrow> Ok ())"

lemma ring_laws: "join_checks ring_join" "queue_readable ring_shaq ring_join cfg"
  by (auto simp: join_checks_def queue_readable_def ring_join_def ring_shaq_def split: if_splits)

lemma example_name_valid: "valid_name (as_str example_name)"
  by (simp add: valid_name_def example_name_def str_lit_def name_char_def)

lemma published_entries:
  assumes "\<And>x. prefix d x \<Longrightarrow> node_at fs x = published_tree enc i target (drop (length d) x)"
  shows "set (dir_entries fs d) = {SCHEMA_FILE_NAME, queue_file_name i}"
    "find (prefix QUEUE_FILE_NAME_PREFIX) (dir_entries fs d) = Some (queue_file_name i)"
proof -
  show set: "set (dir_entries fs d) = {SCHEMA_FILE_NAME, queue_file_name i}"
    by (auto simp: mem_dir_entries assms published_tree_def split: if_splits)
  have "prefix QUEUE_FILE_NAME_PREFIX (queue_file_name i)" "\<not> prefix QUEUE_FILE_NAME_PREFIX SCHEMA_FILE_NAME"
    by (simp_all add: queue_file_name_def QUEUE_FILE_NAME_PREFIX_def SCHEMA_FILE_NAME_def str_lit_def)
  then show "find (prefix QUEUE_FILE_NAME_PREFIX) (dir_entries fs d) = Some (queue_file_name i)"
    unfolding set_eq_iff by (intro find_unique) (auto simp: set)
qed

lemma queue_file_name_parse:
  "Option.bind (strip_prefix (queue_file_name i) QUEUE_FILE_NAME_PREFIX) parse_u64 = Some i"
  by (simp add: queue_file_name_def parse_fmt_u64)

lemma created_stream_found:
  assumes create: "StreamQueue_create sh (Ok enc) base n cfg w = (Ok q, w')"
    and absent: "absent (w_files w) (staging_dir base n)" "absent (w_files w) (stream_dir base n)"
    and laws: "queue_readable sh join_untyped cfg" "deserialize enc = Ok s" "valid_name (as_str n)"
  shows "AvailableStream_try_new sh join_untyped deserialize w' (base @ [STREAMS_DIRECTORY_NAME]) (as_str n)
    = Ok \<lparr>av_stream_name = n, av_schema = s, av_broadcast_handle = sq_broadcast q\<rparr>"
proof -
  let ?d = "stream_dir base n"
  obtain i b where b: "create_with_identifier sh cfg i = Ok b"
    and fds: "w_fds w' = (sq_queue_file q, sq_broadcast q) # w_fds w"
    and mem: "w_mem w' = (w_mem w)(sq_broadcast q \<mapsto> \<lparr>mem_seals = REQUIRED_SEALS, mem_queue = Some b\<rparr>)"
    and pid: "w_pid w' = w_pid w"
    and tree: "\<forall>x. node_at (w_files w') x =
         (if prefix ?d x then published_tree enc i (proc_fd_path (w_pid w) (sq_queue_file q)) (drop (length ?d) x)
          else node_at (w_files w) x)"
    using StreamQueue_create_Ok [OF create absent] by auto
  have d: "(base @ [STREAMS_DIRECTORY_NAME]) @ [as_str n] = ?d" by (simp add: stream_dir_def)
  have entry: "find (prefix QUEUE_FILE_NAME_PREFIX) (dir_entries (w_files w') ?d) = Some (queue_file_name i)"
    using tree by (intro published_entries(2)) auto
  have opened: "openat_rdwr w' (?d @ [queue_file_name i]) = Ok (Some (sq_broadcast q))"
    using tree queue_file_name_schema resolve_proc_eq [of w' "sq_queue_file q"] fds pid
    by (simp add: openat_rdwr_def published_tree_def)
  have queue: "open_queue sh join_untyped w' ?d = Ok (sq_broadcast q)"
    using laws(1) b mem
    by (simp add: open_queue_def entry opened queue_file_name_parse get_seals_def queue_readable_def ok_or_def)
  have schema: "read_schema deserialize w' ?d = Ok s"
    using tree laws(2) by (simp add: read_schema_def published_tree_def)
  have "StreamName_try_new (as_str n) = Ok n" using laws(3) by (simp add: StreamName_try_new_iff)
  moreover have "node_at (w_files w') ?d = Some DirNode" using tree by (simp add: published_tree_def)
  ultimately show ?thesis
    unfolding AvailableStream_try_new_def Let_def d using queue schema by simp
qed

text \<open>
  C23. Publisher and subscriber agree. After \<open>StreamQueue::create\<close> succeeded for a validated name, exploring
  the event-system directory finds the stream: its name, the schema that was serialized, and a handle on
  the very queue that was created. (A queue reports the identifier it was created with and can be
  joined, and a serialized schema decodes: the laws of the queue and serialization libraries.)
\<close>

theorem published_stream_available:
  assumes "StreamQueue_create sh (Ok enc) base n cfg w = (Ok q, w')"
    and "absent (w_files w) (staging_dir base n)" "absent (w_files w) (stream_dir base n)"
    and "queue_readable sh join_untyped cfg" "deserialize enc = Ok s" "valid_name (as_str n)"
    and "node_at (w_files w) (base @ [STREAMS_DIRECTORY_NAME]) = Some DirNode"
  shows "\<lparr>av_stream_name = n, av_schema = s, av_broadcast_handle = sq_broadcast q\<rparr>
    \<in> set (available_streams sh join_untyped deserialize w' base)"
proof -
  let ?ss = "base @ [STREAMS_DIRECTORY_NAME]"
  obtain i where tree: "\<forall>x. node_at (w_files w') x =
         (if prefix (stream_dir base n) x
          then published_tree enc i (proc_fd_path (w_pid w) (sq_queue_file q)) (drop (length (stream_dir base n)) x)
          else node_at (w_files w) x)"
    using StreamQueue_create_Ok [OF assms(1-3)] by auto
  have d: "?ss @ [as_str n] = stream_dir base n" by (simp add: stream_dir_def)
  then have entry: "as_str n \<in> set (dir_entries (w_files w') ?ss)"
    unfolding mem_dir_entries using tree by (simp add: published_tree_def)
  have "\<not> prefix (stream_dir base n) ?ss" by (simp add: stream_dir_def)
  then have "node_at (w_files w') ?ss = Some DirNode" using tree assms(7) by simp
  moreover have "Ok \<lparr>av_stream_name = n, av_schema = s, av_broadcast_handle = sq_broadcast q\<rparr>
      \<in> set (map (AvailableStream_try_new sh join_untyped deserialize w' ?ss) (dir_entries (w_files w') ?ss))"
    using entry created_stream_found [OF assms(1-4), of deserialize s] assms(5,6) by (metis image_eqI list.set_map)
  ultimately show ?thesis by (simp only: available_streams_def Let_def) (simp add: ok_values_mem)
qed

theorem published_stream_available_witness:
  "\<exists>q w'. StreamQueue_create ring_shaq (Ok [1, 2]) example_base example_name example_config
      (example_world []) = (Ok q, w')
    \<and> \<lparr>av_stream_name = example_name, av_schema = [1, 2], av_broadcast_handle = sq_broadcast q\<rparr>
        \<in> set (available_streams ring_shaq ring_join Ok w' example_base)"
proof -
  obtain q w' where r: "StreamQueue_create ring_shaq (Ok [1, 2]) example_base example_name example_config
      (example_world []) = (Ok q, w')"
    using example_create by blast
  have "node_at (w_files (example_world [])) (example_base @ [STREAMS_DIRECTORY_NAME]) = Some DirNode"
    by (simp add: example_defs node_at_def)
  from published_stream_available [OF r example_absent ring_laws(2), of Ok "[1, 2]"] example_name_valid this
  show ?thesis using r by auto
qed

theorem open_queue_safe_witness:
  "\<exists>w obj m b. open_queue ring_shaq ring_join w (stream_dir example_base example_name) = Ok obj
    \<and> w_mem w obj = Some m \<and> and (mem_seals m) REQUIRED_SEALS = REQUIRED_SEALS \<and> mem_queue m = Some (b :: ring)"
proof -
  obtain q w' where r: "StreamQueue_create ring_shaq (Ok [1, 2]) example_base example_name example_config
      (example_world []) = (Ok q, w')"
    using example_create by blast
  from created_stream_found [OF r example_absent ring_laws(2), of Ok "[1, 2]"] example_name_valid
  have "\<exists>obj. open_queue ring_shaq ring_join w' (stream_dir example_base example_name) = Ok obj"
    by (auto simp: AvailableStream_try_new_def r_bind_Ok_iff stream_dir_def Let_def split: if_split_asm)
  then obtain obj where "open_queue ring_shaq ring_join w' (stream_dir example_base example_name) = Ok obj" ..
  with open_queue_safe [OF this ring_laws(1)] show ?thesis by metis
qed

end
