(* ===== verification/Event_Layout.thy ===== *)
theory Event_Layout
  imports Event_Subscriber Event_Stream
begin

text \<open>
  What the directory of an event system looks like while its streams are switched on and off, when the
  operating system refuses no call (\<open>event-system/src/backend/linux.rs\<close>): exactly the enabled streams are
  published, nothing is staged, and every link resolves to the queue of its stream. Serialization and the
  queue library may still fail.
\<close>

section \<open>Calls that no fault stops\<close>

lemma syscall_quiet: "w_faults w = [] \<Longrightarrow> syscall f w = f w"
  by (simp add: syscall_def)

lemma add_node_quiet:
  assumes "w_faults w = []" "node_at (w_files w) p = Some DirNode" "node_at (w_files w) (p @ [c]) = None"
  shows "on_files (add_node (p @ [c]) nd) w = (Ok (), w\<lparr>w_files := (p @ [c], nd) # w_files w\<rparr>)"
  using assms by (simp add: on_files_def syscall_quiet add_node_def parent_is_dir_def)

definition queue_creatable :: "('b, 'p) shaq \<Rightarrow> StreamConfig \<Rightarrow> bool" where
  "queue_creatable sh cfg \<longleftrightarrow> (\<forall>i. \<exists>b. create_with_identifier sh cfg i = Ok b)"

lemma create_sealed_queue_quiet:
  assumes "w_faults w = []" "queue_creatable sh cfg"
  shows "\<exists>obj fd w'. create_sealed_queue sh cfg i w = (Ok (obj, fd), w') \<and> w_faults w' = []
    \<and> w_files w' = w_files w \<and> w_pid w' = w_pid w"
proof -
  obtain b where "create_with_identifier sh cfg i = Ok b" using assms(2) by (auto simp: queue_creatable_def)
  then show ?thesis
    using assms(1) by (simp add: create_sealed_queue_def p_bind_def io_map_err_def memfd_create_def
        closing_def comp_unfold add_seals_def store_queue_def syscall_quiet Let_def)
qed

lemma stage_queue_quiet:
  assumes w: "w_faults w = []" "node_at (w_files w) s = Some DirNode" "\<And>c. node_at (w_files w) (s @ [c]) = None"
    and good: "queue_creatable sh cfg"
  shows "\<exists>obj fd w'. stage_queue sh (Ok enc) cfg s w = (Ok (obj, fd), w') \<and> w_faults w' = []"
proof -
  let ?p = "s @ [SCHEMA_FILE_NAME]"
  define w1 where "w1 = w\<lparr>w_files := (?p, FileNode []) # w_files w\<rparr>"
  have 1: "create_new_file ?p w = (Ok (), w1)"
    using w by (simp add: create_new_file_def add_node_quiet w1_def)
  define w2 where "w2 = w1\<lparr>w_files := set_content ?p enc (w_files w1)\<rparr>"
  have 2: "write_all ?p enc w1 = (Ok (), w2)"
    using w by (simp add: write_all_def on_files_def syscall_quiet w1_def w2_def)
  obtain i w3 where 3: "getrandom_u64 w2 = (Ok i, w3)" "w_faults w3 = []" "w_files w3 = w_files w2"
    using w by (simp add: getrandom_u64_def syscall_quiet w1_def w2_def)
  obtain obj fd w4 where 4: "create_sealed_queue sh cfg i w3 = (Ok (obj, fd), w4)" "w_faults w4 = []"
      "w_files w4 = w_files w3"
    using create_sealed_queue_quiet [OF 3(2) good] by blast
  have f: "node_at (w_files w4) s = Some DirNode" "node_at (w_files w4) (s @ [queue_file_name i]) = None"
    using w queue_file_name_schema unfolding 4(3) 3(3) w2_def w1_def by (auto simp: node_at_set_content)
  have 5: "symlink t (s @ [queue_file_name i]) w4
      = (Ok (), w4\<lparr>w_files := (s @ [queue_file_name i], LinkNode t) # w_files w4\<rparr>)" for t
    unfolding symlink_def by (rule add_node_quiet [OF 4(2) f])
  show ?thesis
    by (simp add: stage_queue_def Let_def p_bind_def io_map_err_def 1 2 3(1) 4(1,2) 5 comp_unfold closing_def)
qed

lemma absent_node: "absent fs p \<Longrightarrow> node_at fs p = None" "absent fs p \<Longrightarrow> node_at fs (p @ xs) = None"
  by (simp_all add: absent_def)

lemma StreamQueue_create_quiet:
  assumes w: "w_faults w = []"
    and dirs: "node_at (w_files w) (base @ [STAGING_DIRECTORY_NAME]) = Some DirNode"
      "node_at (w_files w) (base @ [STREAMS_DIRECTORY_NAME]) = Some DirNode"
    and absent: "absent (w_files w) (staging_dir base n)" "absent (w_files w) (stream_dir base n)"
    and good: "queue_creatable sh cfg"
  shows "\<exists>q w'. StreamQueue_create sh (Ok enc) base n cfg w = (Ok q, w')"
proof -
  let ?s = "staging_dir base n" and ?d = "stream_dir base n"
  have s: "?s = (base @ [STAGING_DIRECTORY_NAME]) @ [as_str n]" and d: "butlast ?d = base @ [STREAMS_DIRECTORY_NAME]"
    by (simp_all add: staging_dir_def stream_dir_def butlast_append)
  define w1 where "w1 = w\<lparr>w_files := (?s, DirNode) # w_files w\<rparr>"
  have new: "StagingDirectory_new ?s w = (Ok \<lparr>sd_path = ?s, sd_cleanup = True\<rparr>, w1)"
    using add_node_quiet [OF w dirs(1), of "as_str n" DirNode] absent_node(1) [OF absent(1)]
    unfolding s [symmetric] w1_def by (simp add: StagingDirectory_new_def create_dir_def p_bind_def comp_unfold)
  have "node_at (w_files w1) ?s = Some DirNode" "\<And>c. node_at (w_files w1) (?s @ [c]) = None" "w_faults w1 = []"
    using absent_node(2) [OF absent(1)] w by (simp_all add: w1_def)
  from stage_queue_quiet [OF this(3,1,2) good] obtain obj fd w2 where
    stage: "stage_queue sh (Ok enc) cfg ?s w1 = (Ok (obj, fd), w2)" "w_faults w2 = []" by blast
  have f2: "node_at (w_files w2) x = node_at (w_files w1) x" if "\<not> strict_prefix ?s x" for x
    using framedD [OF stage_queue_framed stage(1)] that by (simp add: frame_def)
  have "node_at (w_files w2) ?s = Some DirNode" using f2 [of ?s] by (simp add: w1_def)
  moreover have "node_at (w_files w2) ?d = None"
  proof -
    have "?d \<noteq> ?s" using dirs_disjoint(1) [of base n n] by force
    moreover have "\<not> strict_prefix ?s ?d" by (simp add: strict_prefix_def)
    ultimately show ?thesis using f2 [of ?d] absent_node(1) [OF absent(2)] by (simp add: w1_def)
  qed
  moreover have "node_at (w_files w2) (butlast ?d) = Some DirNode"
    using f2 [of "butlast ?d"] dirs(2) unfolding d
    by (auto simp: w1_def staging_dir_def strict_prefix_def prefix_def)
  ultimately have "move_dir ?s ?d (w_files w2) = Ok (move_below ?s ?d (w_files w2))"
    by (simp add: move_dir_def parent_is_dir_def)
  then have "\<exists>w'. StagingDirectory_publish \<lparr>sd_path = ?s, sd_cleanup = True\<rparr> ?d w2 = (Ok (), w')"
    using stage(2) by (simp add: StagingDirectory_publish_def rename_def on_files_def syscall_quiet)
  then show ?thesis
    using new stage(1) by (auto simp: StreamQueue_create_dirs p_bind_def io_map_err_def with_staging_def
        closing_def comp_unfold)
qed

section \<open>The layout\<close>

text \<open>
  An enabled stream \<open>n\<close> with queue \<open>q\<close> and encoded schema \<open>enc\<close> is published: its directory holds the schema
  and a link that resolves to the queue, which can be joined under the identifier the link is named after.
\<close>

definition published ::
    "('b, 'p) shaq \<Rightarrow> ('b option \<Rightarrow> (shaq_error, unit) outcome) \<Rightarrow> path \<Rightarrow> StreamName \<Rightarrow> bytes \<Rightarrow> StreamQueue
      \<Rightarrow> 'b world \<Rightarrow> bool" where
  "published sh join_untyped base n enc q w \<longleftrightarrow>
     sq_event_stream_directory q = stream_dir base n \<and> sq_broadcast q < w_next_mem w
     \<and> map_of (w_fds w) (sq_queue_file q) = Some (sq_broadcast q)
     \<and> (\<exists>b. w_mem w (sq_broadcast q) = Some \<lparr>mem_seals = REQUIRED_SEALS, mem_queue = Some b\<rparr>
          \<and> join_untyped (Some b) = Ok ()
          \<and> (\<forall>x. prefix (stream_dir base n) x \<longrightarrow> node_at (w_files w) x =
               published_tree enc (queue_identifier sh b) (proc_fd_path (w_pid w) (sq_queue_file q))
                 (drop (length (stream_dir base n)) x)))"

definition layout ::
    "('b, 'p) shaq \<Rightarrow> ('b option \<Rightarrow> (shaq_error, unit) outcome) \<Rightarrow> path
      \<Rightarrow> (StreamName \<rightharpoonup> bytes \<times> StreamQueue) \<Rightarrow> 'b world \<Rightarrow> bool" where
  "layout sh join_untyped base E w \<longleftrightarrow>
     w_faults w = []
     \<and> node_at (w_files w) (base @ [STAGING_DIRECTORY_NAME]) = Some DirNode
     \<and> node_at (w_files w) (base @ [STREAMS_DIRECTORY_NAME]) = Some DirNode
     \<and> (\<forall>n. absent (w_files w) (staging_dir base n))
     \<and> (\<forall>n. case E n of None \<Rightarrow> absent (w_files w) (stream_dir base n)
                      | Some (enc, q) \<Rightarrow> published sh join_untyped base n enc q w)
     \<and> (\<forall>n m enc enc' q q'. E n = Some (enc, q) \<and> E m = Some (enc', q') \<and> sq_queue_file q = sq_queue_file q'
          \<longrightarrow> n = m)"

lemma layoutD:
  assumes "layout sh join_untyped base E w"
  shows "w_faults w = []" "node_at (w_files w) (base @ [STAGING_DIRECTORY_NAME]) = Some DirNode"
    "node_at (w_files w) (base @ [STREAMS_DIRECTORY_NAME]) = Some DirNode"
    "absent (w_files w) (staging_dir base n)"
    "case E n of None \<Rightarrow> absent (w_files w) (stream_dir base n)
       | Some (enc, q) \<Rightarrow> published sh join_untyped base n enc q w"
    "E n = Some (enc, q) \<Longrightarrow> E m = Some (enc', q') \<Longrightarrow> sq_queue_file q = sq_queue_file q' \<Longrightarrow> n = m"
  using assms unfolding layout_def by blast+

lemma stream_dir_prefix_inject: "prefix (stream_dir base n) x \<Longrightarrow> prefix (stream_dir base m) x \<Longrightarrow> n = m"
  by (auto simp: stream_dir_def prefix_def StreamName.expand)

lemma parents_outside:
  "\<not> prefix (stream_dir base n) (base @ [STAGING_DIRECTORY_NAME])"
  "\<not> prefix (stream_dir base n) (base @ [STREAMS_DIRECTORY_NAME])"
  by (simp_all add: stream_dir_def)

lemma published_mono:
  assumes "published sh join_untyped base n enc q w" "w_next_mem w \<le> w_next_mem w'" "w_pid w' = w_pid w"
    and "map_of (w_fds w') (sq_queue_file q) = map_of (w_fds w) (sq_queue_file q)"
    and "w_mem w' (sq_broadcast q) = w_mem w (sq_broadcast q)"
    and "\<And>x. prefix (stream_dir base n) x \<Longrightarrow> node_at (w_files w') x = node_at (w_files w) x"
  shows "published sh join_untyped base n enc q w'"
  using assms by (auto simp: published_def)

text \<open>Changing one stream's directory.\<close>

lemma layout_entry_kept:
  assumes lay: "layout sh join_untyped base E w"
    and w': "w_pid w' = w_pid w" "w_next_mem w \<le> w_next_mem w'"
      "\<And>x. prefix (stream_dir base m) x \<Longrightarrow> node_at (w_files w') x = node_at (w_files w) x"
      "\<And>enc q. E m = Some (enc, q) \<Longrightarrow> map_of (w_fds w') (sq_queue_file q) = map_of (w_fds w) (sq_queue_file q)
         \<and> w_mem w' (sq_broadcast q) = w_mem w (sq_broadcast q)"
  shows "case E m of None \<Rightarrow> absent (w_files w') (stream_dir base m)
    | Some (enc, q) \<Rightarrow> published sh join_untyped base m enc q w'"
proof -
  note old = layoutD(5) [OF lay, of m]
  have "published sh join_untyped base m enc q w'" if "E m = Some (enc, q)" for enc q
    by (rule published_mono [OF _ w'(2,1)]) (use old that w'(3) w'(4) [OF that] in auto)
  moreover have "absent (w_files w') (stream_dir base m)" if "E m = None"
    using old that w'(3) by (simp add: absent_def)
  ultimately show ?thesis by (simp split: option.splits)
qed

lemma queue_files_kept:
  assumes lay: "layout sh join_untyped base E w"
    and e: "\<And>enc q m enc' q'. e = Some (enc, q) \<Longrightarrow> m \<noteq> n \<Longrightarrow> E m = Some (enc', q') \<Longrightarrow> sq_queue_file q' \<noteq> sq_queue_file q"
    and ab: "(E(n := e)) a = Some (enc, q)" "(E(n := e)) b = Some (enc', q')" "sq_queue_file q = sq_queue_file q'"
  shows "a = b"
proof (cases "a = n \<or> b = n")
  case True
  then show ?thesis using ab e by (cases "a = n"; cases "b = n") (simp; metis)+
next
  case False
  then show ?thesis using ab layoutD(6) [OF lay, of a enc q b enc' q'] by simp
qed

lemma layout_change:
  assumes lay: "layout sh join_untyped base E w"
    and w': "w_faults w' = []" "w_pid w' = w_pid w" "w_next_mem w \<le> w_next_mem w'"
      "\<And>x. \<not> prefix (stream_dir base n) x \<Longrightarrow> node_at (w_files w') x = node_at (w_files w) x"
      "\<And>m enc q. m \<noteq> n \<Longrightarrow> E m = Some (enc, q) \<Longrightarrow> map_of (w_fds w') (sq_queue_file q) = map_of (w_fds w) (sq_queue_file q)
         \<and> w_mem w' (sq_broadcast q) = w_mem w (sq_broadcast q)"
    and e: "case e of None \<Rightarrow> absent (w_files w') (stream_dir base n)
              | Some (enc, q) \<Rightarrow> published sh join_untyped base n enc q w'
                  \<and> (\<forall>m enc' q'. m \<noteq> n \<and> E m = Some (enc', q') \<longrightarrow> sq_queue_file q' \<noteq> sq_queue_file q)"
  shows "layout sh join_untyped base (E(n := e)) w'"
proof -
  have staging: "absent (w_files w') (staging_dir base m)" for m
  proof -
    have "node_at (w_files w') x = node_at (w_files w) x" if "prefix (staging_dir base m) x" for x
      using that dirs_incomparable [of base n x m] by (intro w'(4)) blast
    then show ?thesis using layoutD(4) [OF lay, of m] by (simp add: absent_def)
  qed
  have entries: "case (E(n := e)) m of None \<Rightarrow> absent (w_files w') (stream_dir base m)
      | Some (enc, q) \<Rightarrow> published sh join_untyped base m enc q w'" for m
  proof (cases "m = n")
    case True
    then show ?thesis using e by (auto split: option.splits)
  next
    case False
    have "node_at (w_files w') x = node_at (w_files w) x" if "prefix (stream_dir base m) x" for x
      using that False stream_dir_prefix_inject w'(4) by blast
    then show ?thesis using layout_entry_kept [OF lay w'(2,3), of m] w'(5) [OF False] False by simp
  qed
  have dirs: "node_at (w_files w') (base @ [STAGING_DIRECTORY_NAME]) = Some DirNode"
    "node_at (w_files w') (base @ [STREAMS_DIRECTORY_NAME]) = Some DirNode"
    using layoutD(2,3) [OF lay] w'(4) parents_outside by simp_all
  have "a = b" if "(E(n := e)) a = Some (enc, q)" "(E(n := e)) b = Some (enc', q')" "sq_queue_file q = sq_queue_file q'"
    for a b enc enc' q q'
    by (rule queue_files_kept [OF lay _ that]) (use e in auto)
  then show ?thesis unfolding layout_def using w'(1) dirs staging entries by blast
qed
lemma layout_create:
  assumes lay: "layout sh join_untyped base E w" and n: "E n = None"
    and create: "StreamQueue_create sh schema base n cfg w = (Ok q, w')"
    and readable: "queue_readable sh join_untyped cfg"
  shows "\<exists>enc. schema = Ok enc \<and> layout sh join_untyped base (E(n \<mapsto> (enc, q))) w'"
proof -
  note absent = layoutD(4) [OF lay, of n] layoutD(5) [OF lay, of n, unfolded n option.case]
  obtain enc i b where ok: "schema = Ok enc" "create_with_identifier sh cfg i = Ok b"
    "sq_event_stream_directory q = stream_dir base n" "sq_queue_file q = fresh_fd (w_fds w)"
    "w_fds w' = (sq_queue_file q, sq_broadcast q) # w_fds w"
    "w_mem w' = (w_mem w)(sq_broadcast q \<mapsto> \<lparr>mem_seals = REQUIRED_SEALS, mem_queue = Some b\<rparr>)"
    "w_pid w' = w_pid w" "sq_broadcast q = w_next_mem w" "w_next_mem w' = Suc (w_next_mem w)"
    and tree: "\<forall>x. node_at (w_files w') x =
         (if prefix (stream_dir base n) x
          then published_tree enc i (proc_fd_path (w_pid w) (sq_queue_file q)) (drop (length (stream_dir base n)) x)
          else node_at (w_files w) x)"
    using StreamQueue_create_Ok [OF create absent] by auto
  have faults: "w_faults w' = []"
    using framedD [OF StreamQueue_create_framed create] layoutD(1) [OF lay] by (simp add: frame_def)
  have b: "queue_identifier sh b = i" "join_untyped (Some b) = Ok ()"
    using readable ok(2) by (auto simp: queue_readable_def)
  have fd: "sq_queue_file q' \<noteq> sq_queue_file q" if "E m = Some (enc', q')" for m enc' q'
  proof -
    have "map_of (w_fds w) (sq_queue_file q') = Some (sq_broadcast q')"
      using layoutD(5) [OF lay, of m] that by (simp add: published_def)
    then have "sq_queue_file q' \<in> fst ` set (w_fds w)" by (metis map_of_eq_None_iff option.distinct(1))
    then show ?thesis using fresh_fd [of "w_fds w"] ok(4) by metis
  qed
  have pub: "published sh join_untyped base n enc q w'"
    using ok b tree by (simp add: published_def)
  have "layout sh join_untyped base (E(n := Some (enc, q))) w'"
  proof (rule layout_change [OF lay faults ok(7)])
    show "w_next_mem w \<le> w_next_mem w'" using ok(9) by simp
    show "node_at (w_files w') x = node_at (w_files w) x" if "\<not> prefix (stream_dir base n) x" for x
      using that tree by simp
    show "map_of (w_fds w') (sq_queue_file q') = map_of (w_fds w) (sq_queue_file q')
      \<and> w_mem w' (sq_broadcast q') = w_mem w (sq_broadcast q')"
      if "m \<noteq> n" "E m = Some (enc', q')" for m enc' q'
    proof -
      have "sq_broadcast q' < w_next_mem w"
        using layoutD(5) [OF lay, of m] that(2) by (simp add: published_def)
      then show ?thesis using fd [OF that(2)] ok by simp
    qed
    show "case Some (enc, q) of None \<Rightarrow> absent (w_files w') (stream_dir base n)
        | Some (enc, q) \<Rightarrow> published sh join_untyped base n enc q w'
            \<and> (\<forall>m enc' q'. m \<noteq> n \<and> E m = Some (enc', q') \<longrightarrow> sq_queue_file q' \<noteq> sq_queue_file q)"
      using pub fd by (simp, blast)
  qed
  then show ?thesis using ok(1) by blast
qed

lemma layout_create_Err:
  assumes lay: "layout sh join_untyped base E w"
    and create: "StreamQueue_create sh schema base n cfg w = (Err e, w')"
  shows "layout sh join_untyped base E w'"
proof -
  have err: "frame (prefix (staging_dir base n)) w w'" "w_fds w' = w_fds w"
    "absent (w_files w') (staging_dir base n) \<or> removal_failed w w'"
    using StreamQueue_create_Err [OF create layoutD(4) [OF lay]] by blast+
  have w': "w_faults w' = []" "w_pid w' = w_pid w" "w_next_mem w \<le> w_next_mem w'"
    "\<And>obj. obj < w_next_mem w \<Longrightarrow> w_mem w' obj = w_mem w obj"
    "\<And>x. \<not> prefix (staging_dir base n) x \<Longrightarrow> node_at (w_files w') x = node_at (w_files w) x"
    using err(1) layoutD(1) [OF lay] by (auto simp: frame_def)
  have gone: "absent (w_files w') (staging_dir base n)"
    using err(3) layoutD(1) [OF lay] by (simp add: removal_failed_def)
  have same: "node_at (w_files w') x = node_at (w_files w) x" for x
  proof (cases "prefix (staging_dir base n) x")
    case True
    then show ?thesis using gone layoutD(4) [OF lay, of n] by (simp add: absent_def)
  qed (rule w'(5))
  have absent: "absent (w_files w') p \<longleftrightarrow> absent (w_files w) p" for p by (simp add: absent_def same)
  have pub: "published sh join_untyped base m enc q w'" if "published sh join_untyped base m enc q w" for m enc q
  proof (rule published_mono [OF that w'(3,2)])
    show "w_mem w' (sq_broadcast q) = w_mem w (sq_broadcast q)"
      using that w'(4) by (simp add: published_def)
  qed (simp_all add: err(2) same)
  have "case E m of None \<Rightarrow> absent (w_files w') (stream_dir base m)
       | Some (enc, q) \<Rightarrow> published sh join_untyped base m enc q w'" for m
    using layoutD(5) [OF lay, of m] pub absent by (auto split: option.splits)
  then show ?thesis
    using lay w'(1) unfolding layout_def absent same by blast
qed

lemma StreamQueue_drop_quiet:
  assumes "w_faults w = []" "node_at (w_files w) (sq_event_stream_directory q) = Some DirNode"
  shows "StreamQueue_drop q w = w\<lparr>w_files := remove_below (sq_event_stream_directory q) (w_files w),
    w_fds := filter (\<lambda>(n, obj). n \<noteq> sq_queue_file q) (w_fds w)\<rparr>"
  using assms by (simp add: StreamQueue_drop_def close_fd_def io_ignore_def remove_dir_all_def on_files_def
      syscall_quiet)

lemma map_of_filter_key: "map_of (filter (\<lambda>(n, x). n \<noteq> k) xs) j = (if j = k then None else map_of xs j)"
  by (induction xs) auto

lemma layout_drop:
  assumes lay: "layout sh join_untyped base E w" and n: "E n = Some (enc, q)"
  shows "layout sh join_untyped base (E(n := None)) (StreamQueue_drop q w)"
proof -
  have pub: "published sh join_untyped base n enc q w" using layoutD(5) [OF lay, of n] n by simp
  then have dir: "sq_event_stream_directory q = stream_dir base n"
    and tree: "node_at (w_files w) (stream_dir base n) = Some DirNode"
    by (auto simp: published_def published_tree_def)
  note drop = StreamQueue_drop_quiet [OF layoutD(1) [OF lay] tree [folded dir]]
  show ?thesis
  proof (rule layout_change [OF lay])
    show "node_at (w_files (StreamQueue_drop q w)) x = node_at (w_files w) x" if "\<not> prefix (stream_dir base n) x" for x
      using that by (simp add: drop dir node_at_remove_below)
    show "map_of (w_fds (StreamQueue_drop q w)) (sq_queue_file q') = map_of (w_fds w) (sq_queue_file q')
      \<and> w_mem (StreamQueue_drop q w) (sq_broadcast q') = w_mem w (sq_broadcast q')"
      if "m \<noteq> n" "E m = Some (enc', q')" for m enc' q'
      using layoutD(6) [OF lay that(2) n] that(1) by (auto simp: drop map_of_filter_key)
    show "case None of None \<Rightarrow> absent (w_files (StreamQueue_drop q w)) (stream_dir base n)
      | Some (enc, q') \<Rightarrow> published sh join_untyped base n enc q' (StreamQueue_drop q w)
          \<and> (\<forall>m enc' q''. m \<noteq> n \<and> E m = Some (enc', q'') \<longrightarrow> sq_queue_file q'' \<noteq> sq_queue_file q')"
      by (simp add: drop dir)
  qed (simp_all add: drop layoutD(1) [OF lay])
qed

section \<open>Publishers leave the layout alone\<close>

text \<open>
  What the crate relies on of the queue library: the operations of producers change neither the
  identifier of a queue nor that it can be joined.
\<close>

definition keeps_identity ::
    "('b, 'p) shaq \<Rightarrow> ('b option \<Rightarrow> (shaq_error, unit) outcome) \<Rightarrow> 'b \<Rightarrow> 'b \<Rightarrow> bool" where
  "keeps_identity sh join_untyped b b' \<longleftrightarrow> queue_identifier sh b' = queue_identifier sh b
     \<and> (join_untyped (Some b) = Ok () \<longrightarrow> join_untyped (Some b') = Ok ())"

definition queue_identity_laws ::
    "('b, 'p) shaq \<Rightarrow> ('b option \<Rightarrow> (shaq_error, unit) outcome) \<Rightarrow> bool" where
  "queue_identity_laws sh join_untyped \<longleftrightarrow>
     (\<forall>b p b'. broadcast_producer sh b = Some (p, b') \<longrightarrow> keeps_identity sh join_untyped b b')
     \<and> (\<forall>p b. keeps_identity sh join_untyped b (drop_producer sh p b))
     \<and> (\<forall>p b. keeps_identity sh join_untyped b (snd (try_reserve_write sh p b)))
     \<and> (\<forall>p n b. keeps_identity sh join_untyped b (snd (try_reserve_write_batch sh p n b)))
     \<and> (\<forall>p b. keeps_identity sh join_untyped b (drop_guard sh p b))
     \<and> (\<forall>p cells b. keeps_identity sh join_untyped b (publish_guard sh p cells b))"

lemma keeps_identity_refl [simp]: "keeps_identity sh join_untyped b b"
  by (simp add: keeps_identity_def)

lemma keeps_identity_trans:
  "keeps_identity sh join_untyped a b \<Longrightarrow> keeps_identity sh join_untyped b c \<Longrightarrow> keeps_identity sh join_untyped a c"
  by (simp add: keeps_identity_def)

lemma layout_store:
  assumes lay: "layout sh join_untyped base E w" and b: "queue_of w obj = Some b" "keeps_identity sh join_untyped b b'"
  shows "layout sh join_untyped base E (store_queue obj b' w)"
proof -
  have pub: "published sh join_untyped base n enc q (store_queue obj b' w)"
    if "published sh join_untyped base n enc q w" for n enc q
    using that b by (cases "sq_broadcast q = obj")
      (auto simp: published_def store_queue_def queue_of_def keeps_identity_def)
  have same: "w_files (store_queue obj b' w) = w_files w" "w_faults (store_queue obj b' w) = w_faults w"
    by (simp_all add: store_queue_def)
  have "case E m of None \<Rightarrow> absent (w_files w) (stream_dir base m)
       | Some (enc, q) \<Rightarrow> published sh join_untyped base m enc q (store_queue obj b' w)" for m
    using layoutD(5) [OF lay, of m] pub by (auto split: option.splits)
  then show ?thesis using lay unfolding layout_def same by blast
qed

lemma queue_identity_lawsD:
  assumes "queue_identity_laws sh join_untyped"
  shows "broadcast_producer sh b = Some (p, b') \<Longrightarrow> keeps_identity sh join_untyped b b'"
    "keeps_identity sh join_untyped b (drop_producer sh p b)"
    "try_reserve_write sh p b = (c, b') \<Longrightarrow> keeps_identity sh join_untyped b b'"
    "try_reserve_write_batch sh p n b = (c, b') \<Longrightarrow> keeps_identity sh join_untyped b b'"
    "keeps_identity sh join_untyped b (drop_guard sh p b)"
    "keeps_identity sh join_untyped b (publish_guard sh p cells b)"
  using assms unfolding queue_identity_laws_def by simp_all (metis snd_conv)+

lemma layout_create_producer:
  assumes "queue_identity_laws sh join_untyped" "layout sh join_untyped base E w"
    and "create_producer sh stream w = (pr, w')"
  shows "layout sh join_untyped base E w'"
  using assms(2,3) by (auto simp: create_producer_def bind_eq_Some_conv split: option.splits
      intro!: layout_store queue_identity_lawsD(1) [OF assms(1)])

lemma layout_release_producer:
  assumes "queue_identity_laws sh join_untyped" "layout sh join_untyped base E w"
  shows "layout sh join_untyped base E (release_producer sh pr w)"
  using assms(2) by (auto simp: release_producer_def split: option.splits
      intro!: layout_store queue_identity_lawsD(2) [OF assms(1)])

lemma layout_Publisher_producer:
  assumes "queue_identity_laws sh join_untyped" "layout sh join_untyped base E w"
    and "Publisher_producer sh stream pub w = (pub', w')"
  shows "layout sh join_untyped base E w'"
  using assms(2,3) by (auto simp: Publisher_producer_def replace_producer_def Let_def split: if_splits prod.splits
      intro: layout_create_producer [OF assms(1)] layout_release_producer [OF assms(1)])

lemma layout_write_events:
  assumes laws: "queue_identity_laws sh join_untyped" and lay: "layout sh join_untyped base E w"
    and reserve: "\<And>p b c b'. reserve p b = (c, b') \<Longrightarrow> keeps_identity sh join_untyped b b'"
    and "write_events sh reserve serialize_into producer events w = (r, w')"
  shows "layout sh join_untyped base E w'"
proof (cases "w' = w")
  case False
  obtain obj p where op: "producer = (obj, p)" by (cases producer)
  with False assms(4) obtain b where queue: "queue_of w obj = Some b"
    by (cases "queue_of w obj") (auto simp: write_events_def)
  obtain c b1 where res: "reserve p b = (c, b1)" by fastforce
  obtain b' where b': "w' = store_queue obj b' w"
    "b' = b1 \<or> (\<exists>cells. b' = publish_guard sh p cells b1) \<or> b' = drop_guard sh p b1"
  proof (cases c)
    case True
    then show thesis
      using assms(4) op queue res False that
      by (cases "serialize_all serialize_into events") (simp_all add: write_events_def, blast+)
  next
    case False
    then show thesis using assms(4) op queue res that [of b1] by (simp add: write_events_def)
  qed
  have "keeps_identity sh join_untyped b1 b'"
    using b'(2) queue_identity_lawsD(5,6) [OF laws] by auto
  then have "keeps_identity sh join_untyped b b'" by (rule keeps_identity_trans [OF reserve [OF res]])
  then show ?thesis using layout_store [OF lay queue] b'(1) by simp
qed (use lay in simp)

lemma layout_publish_batch:
  assumes laws: "queue_identity_laws sh join_untyped" and lay: "layout sh join_untyped base E w"
    and pub: "publish_batch sh serialize_into stream events (pub, w) = (r, (pub', w'))"
  shows "layout sh join_untyped base E w'"
proof -
  obtain pub1 w1 where p: "Publisher_producer sh stream pub w = (pub1, w1)" by fastforce
  have "layout sh join_untyped base E w1" using layout_Publisher_producer [OF laws lay p] .
  from layout_write_events [OF laws this queue_identity_lawsD(4) [OF laws]]
  show ?thesis
    using pub p lay \<open>layout sh join_untyped base E w1\<close>
    by (auto simp: publish_batch_def split: if_splits option.splits prod.splits)
qed

lemma layout_publish:
  assumes laws: "queue_identity_laws sh join_untyped" and lay: "layout sh join_untyped base E w"
    and pub: "publish sh serialize_into stream event (pub, w) = (r, (pub', w'))"
  shows "layout sh join_untyped base E w'"
proof -
  obtain pub1 w1 where p: "Publisher_producer sh stream pub w = (pub1, w1)" by fastforce
  have "layout sh join_untyped base E w1" using layout_Publisher_producer [OF laws lay p] .
  from layout_write_events [OF laws this queue_identity_lawsD(3) [OF laws]]
  show ?thesis
    using pub p \<open>layout sh join_untyped base E w1\<close>
    by (auto simp: publish_def split: if_splits option.splits prod.splits)
qed

section \<open>What a subscriber finds\<close>

lemma published_stream_found:
  assumes pub: "published sh join_untyped base n enc q w"
    and laws: "deserialize enc = Ok s" "valid_name (as_str n)"
  shows "AvailableStream_try_new sh join_untyped deserialize w (base @ [STREAMS_DIRECTORY_NAME]) (as_str n)
    = Ok \<lparr>av_stream_name = n, av_schema = s, av_broadcast_handle = sq_broadcast q\<rparr>"
proof -
  let ?d = "stream_dir base n"
  obtain b where b: "w_mem w (sq_broadcast q) = Some \<lparr>mem_seals = REQUIRED_SEALS, mem_queue = Some b\<rparr>"
    "join_untyped (Some b) = Ok ()"
    and tree: "\<And>x. prefix ?d x \<Longrightarrow> node_at (w_files w) x =
      published_tree enc (queue_identifier sh b) (proc_fd_path (w_pid w) (sq_queue_file q)) (drop (length ?d) x)"
    and fd: "map_of (w_fds w) (sq_queue_file q) = Some (sq_broadcast q)"
    using pub by (auto simp: published_def)
  let ?i = "queue_identifier sh b"
  have d: "(base @ [STREAMS_DIRECTORY_NAME]) @ [as_str n] = ?d" by (simp add: stream_dir_def)
  have entry: "find (prefix QUEUE_FILE_NAME_PREFIX) (dir_entries (w_files w) ?d) = Some (queue_file_name ?i)"
    using tree by (rule published_entries(2))
  have opened: "openat_rdwr w (?d @ [queue_file_name ?i]) = Ok (Some (sq_broadcast q))"
    using queue_file_name_schema resolve_proc_eq [of w "sq_queue_file q"] fd
    by (simp add: openat_rdwr_def published_tree_def tree)
  have queue: "open_queue sh join_untyped w ?d = Ok (sq_broadcast q)"
    using b by (simp add: open_queue_def entry opened queue_file_name_parse get_seals_def ok_or_def)
  have schema: "read_schema deserialize w ?d = Ok s"
    using laws(1) by (simp add: read_schema_def published_tree_def tree)
  have "StreamName_try_new (as_str n) = Ok n" using laws(2) by (simp add: StreamName_try_new_iff)
  moreover have "node_at (w_files w) ?d = Some DirNode" by (simp add: published_tree_def tree)
  ultimately show ?thesis
    unfolding AvailableStream_try_new_def Let_def d using queue schema by simp
qed

lemma ok_values_iff: "x \<in> set (ok_values rs) \<longleftrightarrow> Ok x \<in> set rs"
  by (induction rs rule: ok_values.induct) auto

lemma layout_available:
  assumes lay: "layout sh join_untyped base E w"
    and good: "\<And>n enc q. E n = Some (enc, q) \<Longrightarrow> valid_name (as_str n) \<and> deserialize enc = Ok (schema_of n)"
  shows "set (available_streams sh join_untyped deserialize w base)
    = {\<lparr>av_stream_name = n, av_schema = schema_of n, av_broadcast_handle = sq_broadcast q\<rparr> | n enc q. E n = Some (enc, q)}"
    (is "?A = ?B")
proof -
  let ?ss = "base @ [STREAMS_DIRECTORY_NAME]"
  have entry: "c \<in> set (dir_entries (w_files w) ?ss) \<longleftrightarrow> E (StreamName c) \<noteq> None" for c
  proof -
    have d: "?ss @ [c] = stream_dir base (StreamName c)" by (simp add: stream_dir_def)
    show ?thesis
      using layoutD(5) [OF lay, of "StreamName c"] absent_node(1)
      unfolding mem_dir_entries d by (auto simp: published_def published_tree_def split: option.splits)
  qed
  have found: "AvailableStream_try_new sh join_untyped deserialize w ?ss c
      = Ok \<lparr>av_stream_name = StreamName c, av_schema = schema_of (StreamName c), av_broadcast_handle = sq_broadcast q\<rparr>"
    if "E (StreamName c) = Some (enc, q)" for c enc q
    using published_stream_found [of sh join_untyped base "StreamName c" enc q w deserialize]
      layoutD(5) [OF lay, of "StreamName c"] good [OF that] that by simp
  have "?A = {x. \<exists>c \<in> set (dir_entries (w_files w) ?ss). AvailableStream_try_new sh join_untyped deserialize w ?ss c = Ok x}"
    using layoutD(3) [OF lay]
    by (simp only: available_streams_def Let_def) (force simp: ok_values_iff)
  also have "\<dots> = ?B"
  proof (intro set_eqI iffI)
    fix x
    assume "x \<in> {x. \<exists>c \<in> set (dir_entries (w_files w) ?ss).
      AvailableStream_try_new sh join_untyped deserialize w ?ss c = Ok x}"
    then show "x \<in> ?B" using entry found by fastforce
  next
    fix x
    assume "x \<in> ?B"
    then obtain n enc q where n: "E n = Some (enc, q)"
      "x = \<lparr>av_stream_name = n, av_schema = schema_of n, av_broadcast_handle = sq_broadcast q\<rparr>" by blast
    then have "E (StreamName (as_str n)) = Some (enc, q)" by simp
    from found [OF this] entry [of "as_str n"] n
    show "x \<in> {x. \<exists>c \<in> set (dir_entries (w_files w) ?ss).
      AvailableStream_try_new sh join_untyped deserialize w ?ss c = Ok x}" by auto
  qed
  finally show ?thesis .
qed

section \<open>The directory of an event system\<close>

text \<open>Every entry of the file tree is in a directory.\<close>

definition files_ok :: "files \<Rightarrow> bool" where
  "files_ok fs \<longleftrightarrow> (\<forall>p c. node_at fs (p @ [c]) \<noteq> None \<longrightarrow> node_at fs p = Some DirNode)"

lemma files_ok_absent:
  assumes "files_ok fs" "node_at fs p = None"
  shows "absent fs p"
proof -
  have "node_at fs (p @ xs) = None" for xs
  proof (induction xs rule: rev_induct)
    case (snoc c xs)
    then show ?case
      using assms(1) unfolding files_ok_def by (metis append.assoc option.distinct(1))
  qed (use assms(2) in simp)
  then show ?thesis by (auto simp: absent_def prefix_def)
qed

lemma files_ok_add:
  assumes "files_ok fs" "add_node p nd fs = Ok fs'"
  shows "files_ok fs'"
proof (cases "p = []")
  case False
  have fs': "fs' = (p, nd) # fs" "node_at fs p = None" using add_node_Ok [OF assms(2)] by simp_all
  have parent: "node_at fs (butlast p) = Some DirNode"
    using assms(2) by (auto simp: add_node_def r_bind_Ok_iff parent_is_dir_def split: option.splits node.splits)
  have "node_at fs' q = Some DirNode" if c: "node_at fs' (q @ [c]) \<noteq> None" for q c
  proof (cases "q @ [c] = p")
    case True
    then have "butlast p = q" "q \<noteq> p" by auto
    then show ?thesis using parent False by (simp add: fs')
  next
    case False
    then have "node_at fs q = Some DirNode"
      using c assms(1) \<open>p \<noteq> []\<close> unfolding fs'(1) files_ok_def by auto
    then show ?thesis using fs' \<open>p \<noteq> []\<close> by auto
  qed
  then show ?thesis by (simp add: files_ok_def)
qed (use assms add_node_Ok [OF assms(2)] in auto)

lemma files_ok_missing_dirs: "files_ok fs \<Longrightarrow> add_missing_dirs ps fs = Ok fs' \<Longrightarrow> files_ok fs'"
  by (induction ps arbitrary: fs) (auto simp: r_bind_Ok_iff split: if_splits dest: files_ok_add)

lemma layout_new:
  assumes w: "files_ok (w_files w)" "w_faults w = []"
    and create: "EventSystemDirectory_create path w = (Ok base, w')"
  shows "base = path \<and> layout sh join_untyped base Map.empty w'"
proof -
  let ?t = "path @ [STAGING_DIRECTORY_NAME]" and ?s = "path @ [STREAMS_DIRECTORY_NAME]"
  have ne: "?t \<noteq> ?s" by (simp add: STAGING_DIRECTORY_NAME_def STREAMS_DIRECTORY_NAME_def str_lit_def)
  obtain w1 p w2 w3 where
    1: "create_dir_all path w = (Ok (), w1)" and 2: "canonicalize path w1 = (Ok p, w2)"
    and 3: "create_dir (p @ [STAGING_DIRECTORY_NAME]) w2 = (Ok (), w3)"
    and last: "(case create_dir (p @ [STREAMS_DIRECTORY_NAME]) w3 of
       (Err error, w') \<Rightarrow> (Err error, io_ignore (remove_dir (p @ [STAGING_DIRECTORY_NAME])) w')
     | (Ok u, w') \<Rightarrow> (Ok p, w') | (Panic, w') \<Rightarrow> (Panic, w') | (UB, w') \<Rightarrow> (UB, w')) = (Ok base, w')"
    using create by (simp only: EventSystemDirectory_create_def p_bind_Ok_iff) auto
  have p: "p = path" using 2 by (auto simp: canonicalize_def syscall_Ok_iff split: if_splits)
  have 4: "create_dir ?s w3 = (Ok (), w')" and b: "base = path"
    using last unfolding p by (auto split: prod.splits outcome.splits)
  have q1: "w_faults w1 = []" "files_ok (w_files w1)"
    using 1 w by (auto simp: create_dir_all_def on_files_Ok_iff dest: files_ok_missing_dirs)
  have q2: "w2 = w1" using 2 q1(1) by (auto simp: canonicalize_def syscall_quiet split: if_splits)
  have q3: "w_files w3 = (?t, DirNode) # w_files w1" "w_faults w3 = []" "node_at (w_files w1) ?t = None"
    using 3 q1(1) q2 unfolding p by (auto simp: create_dir_def on_files_Ok_iff dest: add_node_Ok)
  have q4: "w_files w' = (?s, DirNode) # w_files w3" "w_faults w' = []" "node_at (w_files w3) ?s = None"
    using 4 q3(2) by (auto simp: create_dir_def on_files_Ok_iff dest: add_node_Ok)
  have absent: "absent (w_files w1) ?t" "absent (w_files w1) ?s"
    using files_ok_absent [OF q1(2)] q3 q4(3) ne by auto
  have "absent (w_files w') (staging_dir path n)" "absent (w_files w') (stream_dir path n)" for n
    using absent by (auto simp: absent_def staging_dir_def stream_dir_def q4(1) q3(1) prefix_def)
  then show ?thesis
    using ne q4(2) b by (auto simp: layout_def q4(1) q3(1))
qed

lemma layout_removed:
  assumes "layout sh join_untyped base E w"
  shows "absent (w_files (EventSystemDirectory_drop base w)) (base @ [STAGING_DIRECTORY_NAME])"
    "absent (w_files (EventSystemDirectory_drop base w)) (base @ [STREAMS_DIRECTORY_NAME])"
proof -
  let ?t = "base @ [STAGING_DIRECTORY_NAME]" and ?s = "base @ [STREAMS_DIRECTORY_NAME]"
  have "\<not> prefix ?t ?s" by (simp add: STAGING_DIRECTORY_NAME_def STREAMS_DIRECTORY_NAME_def str_lit_def)
  then have "w_files (EventSystemDirectory_drop base w) = remove_below ?s (remove_below ?t (w_files w))"
    using layoutD(1-3) [OF assms] by (simp add: EventSystemDirectory_drop_def io_ignore_def remove_dir_all_def
        on_files_def syscall_quiet node_at_remove_below)
  then show "absent (w_files (EventSystemDirectory_drop base w)) ?t"
    "absent (w_files (EventSystemDirectory_drop base w)) ?s"
    by (simp_all add: absent_def node_at_remove_below)
qed

end
