(* ===== verification/Event_System.thy ===== *)
theory Event_System
  imports Stream_Policy_Manager Event_Layout
begin

text \<open>
  The event system of the Linux backend (\<open>event-system/src/backend/linux.rs\<close>): the streams are shared by the
  factories and publishers that refer to them, the directory by the event system's handles and its streams.
  The properties hold in every state that handles, factories, publishers and policy changes can reach.
\<close>

section \<open>Streams as trait objects\<close>

text \<open>
  A stream of some event type, with the schema of that type as it serializes. The world of the streams is
  the operating system and the number of references to the event-system directory.
\<close>

record typed_stream =
  ts_schema :: "(wincode_error, bytes) outcome"
  ts_stream :: EventStream

definition directory_release :: "path \<Rightarrow> 'b world \<times> nat \<Rightarrow> 'b world \<times> nat" where
  "directory_release path = (\<lambda>(w, refs).
     if refs \<le> 1 then (EventSystemDirectory_drop path w, 0) else (w, refs - 1))"

definition stream_trait :: "('b, 'p) shaq \<Rightarrow> (typed_stream, 'b world \<times> nat) PolicyControlledStream" where
  "stream_trait sh =
     \<lparr>pcs_stream_name = (\<lambda>s. es_stream_name (ts_stream s)),
      pcs_apply_stream_rule = (\<lambda>rule (s, (w, refs)).
        case apply_stream_rule sh (ts_schema s) rule (ts_stream s, w) of
          (r, (stream', w')) \<Rightarrow> (r, (s\<lparr>ts_stream := stream'\<rparr>, (w', refs)))),
      pcs_drop = (\<lambda>s (w, refs).
        directory_release (es_event_system_directory (ts_stream s)) (EventStream_drop (ts_stream s) w, refs))\<rparr>"

section \<open>The event system on Linux\<close>

record 'b EventSystem =
  sys_event_system_directory :: path
  sys_stream_policy_manager :: StreamPolicyManager
  sys_streams :: "(typed_stream, 'b world \<times> nat) arcs"

definition EventSystem_new :: "path \<Rightarrow> ('b world, io_error, 'b EventSystem) comp" where
  "EventSystem_new event_system_directory =
     p_bind (EventSystemDirectory_create event_system_directory) (\<lambda>path w.
     (Ok \<lparr>sys_event_system_directory = path, sys_stream_policy_manager = StreamPolicyManager_default,
          sys_streams = \<lparr>arc_cells = Map.empty, arc_next = 0, arc_world = (w, 1)\<rparr>\<rparr>, w))"

text \<open>The result of \<open>create_stream\<close> is the reference that the new factory owns.\<close>

definition EventSystem_create_stream ::
    "('b, 'p) shaq \<Rightarrow> (wincode_error, bytes) outcome \<Rightarrow> StreamName \<Rightarrow> StreamConfig
      \<Rightarrow> ('b EventSystem, CreateStreamError, nat) comp" where
  "EventSystem_create_stream sh schema stream_name stream_config self =
     (let h0 = sys_streams self;
          h = h0\<lparr>arc_world := map_prod id Suc (arc_world h0)\<rparr>;
          (stream, h1) = arc_new \<lparr>ts_schema = schema,
            ts_stream = EventStream_new (sys_event_system_directory self) stream_name stream_config\<rparr> h;
          (r, (manager', h2)) =
            register_new_stream (stream_trait sh) stream (sys_stream_policy_manager self, arc_clone stream h1);
          self' = self\<lparr>sys_stream_policy_manager := manager', sys_streams := h2\<rparr>;
          dropped = self\<lparr>sys_stream_policy_manager := manager',
            sys_streams := arc_drop (pcs_drop (stream_trait sh)) stream h2\<rparr> in
      case r of
        Ok _ \<Rightarrow> (Ok stream, self')
      | Err e \<Rightarrow> (Err e, dropped) | Panic \<Rightarrow> (Panic, dropped) | UB \<Rightarrow> (UB, dropped))"

definition EventSystem_set_stream_policy ::
    "('b, 'p) shaq \<Rightarrow> StreamPolicy \<Rightarrow> ('b EventSystem, CreateStreamError, unit) comp" where
  "EventSystem_set_stream_policy sh new_stream_policy self =
     (let (r, (manager', h')) =
            set_stream_policy (stream_trait sh) new_stream_policy (sys_stream_policy_manager self, sys_streams self) in
      (r, self\<lparr>sys_stream_policy_manager := manager', sys_streams := h'\<rparr>))"

text \<open>Handles of the event system share everything; dropping one releases the directory.\<close>

definition EventSystem_clone :: "'b EventSystem \<Rightarrow> 'b EventSystem" where
  "EventSystem_clone self =
     self\<lparr>sys_streams := (sys_streams self)\<lparr>arc_world := map_prod id Suc (arc_world (sys_streams self))\<rparr>\<rparr>"

definition EventSystem_drop :: "'b EventSystem \<Rightarrow> 'b EventSystem" where
  "EventSystem_drop self =
     self\<lparr>sys_streams := (sys_streams self)
       \<lparr>arc_world := directory_release (sys_event_system_directory self) (arc_world (sys_streams self))\<rparr>\<rparr>"

definition PublisherFactory_clone :: "nat \<Rightarrow> 'b EventSystem \<Rightarrow> 'b EventSystem" where
  "PublisherFactory_clone stream self = self\<lparr>sys_streams := arc_clone stream (sys_streams self)\<rparr>"

definition PublisherFactory_drop :: "('b, 'p) shaq \<Rightarrow> nat \<Rightarrow> 'b EventSystem \<Rightarrow> 'b EventSystem" where
  "PublisherFactory_drop sh stream self =
     self\<lparr>sys_streams := arc_drop (pcs_drop (stream_trait sh)) stream (sys_streams self)\<rparr>"

text \<open>Access to a shared stream and the world.\<close>

definition with_stream ::
    "nat \<Rightarrow> (EventStream \<Rightarrow> 'b world \<Rightarrow> 'a \<times> EventStream \<times> 'b world) \<Rightarrow> 'a \<Rightarrow> 'b EventSystem \<Rightarrow> 'a \<times> 'b EventSystem" where
  "with_stream a f fallback self =
     (case upgrade (sys_streams self) a of
        None \<Rightarrow> (fallback, self)
      | Some s \<Rightarrow>
          let (w, refs) = arc_world (sys_streams self);
              (x, stream', w') = f (ts_stream s) w in
          (x, self\<lparr>sys_streams := arc_set a (s\<lparr>ts_stream := stream'\<rparr>) (w', refs) (sys_streams self)\<rparr>))"

definition PublisherFactory_try_create_publisher ::
    "('b, 'p) shaq \<Rightarrow> nat \<Rightarrow> 'b EventSystem \<Rightarrow> 'p Publisher option \<times> 'b EventSystem" where
  "PublisherFactory_try_create_publisher sh stream self =
     (case with_stream stream (try_create_publisher sh) None self of
        (None, self') \<Rightarrow> (None, self')
      | (Some publisher, self') \<Rightarrow> (Some publisher, PublisherFactory_clone stream self'))"

definition System_publish_batch ::
    "('b, 'p) shaq \<Rightarrow> ('ev \<Rightarrow> (wincode_error, bytes) outcome) \<Rightarrow> nat \<Rightarrow> 'p Publisher \<Rightarrow> 'ev list \<Rightarrow> 'b EventSystem
      \<Rightarrow> ((PublishError, unit) outcome \<times> 'p Publisher) \<times> 'b EventSystem" where
  "System_publish_batch sh serialize_into stream self events =
     with_stream stream (\<lambda>es w.
       case publish_batch sh serialize_into es events (self, w) of (r, (self', w')) \<Rightarrow> ((r, self'), es, w'))
       (UB, self)"

definition System_publish ::
    "('b, 'p) shaq \<Rightarrow> ('ev \<Rightarrow> (wincode_error, bytes) outcome) \<Rightarrow> nat \<Rightarrow> 'p Publisher \<Rightarrow> 'ev \<Rightarrow> 'b EventSystem
      \<Rightarrow> ((PublishError, unit) outcome \<times> 'p Publisher) \<times> 'b EventSystem" where
  "System_publish sh serialize_into stream self event =
     with_stream stream (\<lambda>es w.
       case publish sh serialize_into es event (self, w) of (r, (self', w')) \<Rightarrow> ((r, self'), es, w'))
       (UB, self)"

definition System_is_enabled ::
    "('b, 'p) shaq \<Rightarrow> nat \<Rightarrow> 'p Publisher \<Rightarrow> 'b EventSystem \<Rightarrow> (bool \<times> 'p Publisher) \<times> 'b EventSystem" where
  "System_is_enabled sh stream self =
     with_stream stream (\<lambda>es w.
       case Publisher_is_enabled sh es self w of (r, self', w') \<Rightarrow> ((r, self'), es, w')) (False, self)"

definition System_drop_publisher ::
    "('b, 'p) shaq \<Rightarrow> nat \<Rightarrow> 'p Publisher \<Rightarrow> 'b EventSystem \<Rightarrow> 'b EventSystem" where
  "System_drop_publisher sh stream self sys =
     PublisherFactory_drop sh stream
       (snd (with_stream stream (\<lambda>es w. ((), Publisher_drop sh self es w)) () sys))"

section \<open>The contract of the streams\<close>

definition stream_enabled :: "typed_stream \<Rightarrow> bool" where
  "stream_enabled s \<longleftrightarrow> es_queue (ts_stream s) \<noteq> None"

abbreviation stream_name_of :: "typed_stream \<Rightarrow> StreamName" where
  "stream_name_of s \<equiv> es_stream_name (ts_stream s)"

lemma trait_simps [simp]:
  "pcs_stream_name (stream_trait sh) = stream_name_of"
  "pcs_drop (stream_trait sh) s (w, refs) =
     directory_release (es_event_system_directory (ts_stream s)) (EventStream_drop (ts_stream s) w, refs)"
  by (simp_all add: stream_trait_def)

lemma trait_apply_iff:
  "pcs_apply_stream_rule (stream_trait sh) rule (s, (w, refs)) = (r, (s', (w', refs'))) \<longleftrightarrow>
     refs' = refs \<and> (\<exists>stream'. s' = s\<lparr>ts_stream := stream'\<rparr>
       \<and> apply_stream_rule sh (ts_schema s) rule (ts_stream s, w) = (r, (stream', w')))"
  by (auto simp: stream_trait_def split: prod.splits)

lemma apply_stream_rule_stream:
  assumes "apply_stream_rule sh schema rule (stream, w) = (r, (stream', w'))"
  shows "es_stream_name stream' = es_stream_name stream"
    "es_event_system_directory stream' = es_event_system_directory stream"
    "es_stream_config stream' = es_stream_config stream"
    "r = Ok () \<Longrightarrow> es_queue stream' \<noteq> None \<longleftrightarrow> rule = On"
    "r = Err e \<Longrightarrow> rule = On \<and> es_queue stream' = None"
  using assms by (auto simp: apply_stream_rule_def bump_generation_def
      split: StreamRule.splits option.splits outcome.splits prod.splits)

text \<open>What the directory must show for a stream, and for all of them.\<close>

definition entry_of :: "typed_stream \<Rightarrow> (bytes \<times> StreamQueue) option" where
  "entry_of s = (case (ts_schema s, es_queue (ts_stream s)) of (Ok enc, Some q) \<Rightarrow> Some (enc, q) | _ \<Rightarrow> None)"

definition represents :: "(StreamName \<rightharpoonup> bytes \<times> StreamQueue) \<Rightarrow> (nat \<rightharpoonup> typed_stream) \<Rightarrow> bool" where
  "represents E lv \<longleftrightarrow>
     (\<forall>a s. lv a = Some s \<longrightarrow> E (stream_name_of s) = entry_of s)
     \<and> (\<forall>n. (\<forall>a s. lv a = Some s \<longrightarrow> stream_name_of s \<noteq> n) \<longrightarrow> E n = None)"

definition names_unique :: "(nat \<rightharpoonup> typed_stream) \<Rightarrow> bool" where
  "names_unique lv \<longleftrightarrow> (\<forall>a b s t. lv a = Some s \<and> lv b = Some t \<and> stream_name_of s = stream_name_of t \<longrightarrow> a = b)"

definition queue_laws :: "('b, 'p) shaq \<Rightarrow> ('b option \<Rightarrow> (shaq_error, unit) outcome) \<Rightarrow> bool" where
  "queue_laws sh join_untyped \<longleftrightarrow> (\<forall>cfg. queue_readable sh join_untyped cfg) \<and> queue_identity_laws sh join_untyped"

definition streams_ok ::
    "('b, 'p) shaq \<Rightarrow> ('b option \<Rightarrow> (shaq_error, unit) outcome) \<Rightarrow> path \<Rightarrow> (nat \<rightharpoonup> typed_stream)
      \<Rightarrow> 'b world \<times> nat \<Rightarrow> bool" where
  "streams_ok sh join_untyped base lv wr \<longleftrightarrow>
     queue_laws sh join_untyped \<and> names_unique lv
     \<and> (\<forall>a s. lv a = Some s \<longrightarrow> es_event_system_directory (ts_stream s) = base \<and> valid_name (as_str (stream_name_of s))
          \<and> (stream_enabled s \<longrightarrow> entry_of s \<noteq> None))
     \<and> (\<exists>E. represents E lv \<and> layout sh join_untyped base E (fst wr))"

definition stream_creatable :: "('b, 'p) shaq \<Rightarrow> typed_stream \<Rightarrow> bool" where
  "stream_creatable sh s \<longleftrightarrow> (\<exists>enc. ts_schema s = Ok enc) \<and> queue_creatable sh (es_stream_config (ts_stream s))"

lemma represents_upd:
  assumes "represents E lv" "names_unique lv" "lv a = Some s" "stream_name_of s' = stream_name_of s"
  shows "represents (E(stream_name_of s := entry_of s')) (lv(a \<mapsto> s'))"
proof -
  have other: "stream_name_of t \<noteq> stream_name_of s" if "lv b = Some t" "b \<noteq> a" for b t
    using assms(2,3) that unfolding names_unique_def by metis
  have "E n = None" if "n \<noteq> stream_name_of s" "\<And>b t. b \<noteq> a \<Longrightarrow> lv b = Some t \<Longrightarrow> stream_name_of t \<noteq> n" for n
  proof -
    have "stream_name_of t \<noteq> n" if "lv b = Some t" for b t
      using that \<open>n \<noteq> stream_name_of s\<close> assms(3) \<open>\<And>b t. b \<noteq> a \<Longrightarrow> lv b = Some t \<Longrightarrow> stream_name_of t \<noteq> n\<close> by (cases "b = a") auto
    then show ?thesis using assms(1) unfolding represents_def by blast
  qed
  then show ?thesis
    using assms(1,3,4) other unfolding represents_def by auto
qed

lemma names_unique_upd:
  assumes "names_unique lv" "lv a = Some s" "stream_name_of s' = stream_name_of s"
  shows "names_unique (lv(a \<mapsto> s'))"
proof -
  have "b = a" if "lv b = Some t" "stream_name_of t = stream_name_of s" for b t
    using assms(1,2) that unfolding names_unique_def by metis
  then show ?thesis
    using assms(1,3) unfolding names_unique_def by (auto split: if_splits)
qed

lemma streams_okE:
  assumes "streams_ok sh join_untyped base lv wr"
  obtains E where "represents E lv" "layout sh join_untyped base E (fst wr)"
    "\<And>a s. lv a = Some s \<Longrightarrow> E (stream_name_of s) = entry_of s"
  using assms by (auto simp: streams_ok_def represents_def)

text \<open>A change of one stream that the layout follows.\<close>

lemma streams_ok_upd:
  assumes ok: "streams_ok sh join_untyped base lv (w, refs)" and a: "lv a = Some s"
    and s': "stream_name_of s' = stream_name_of s"
      "es_event_system_directory (ts_stream s') = es_event_system_directory (ts_stream s)"
      "stream_enabled s' \<Longrightarrow> entry_of s' \<noteq> None"
    and lay: "\<And>E. represents E lv \<Longrightarrow> layout sh join_untyped base E w \<Longrightarrow> E (stream_name_of s) = entry_of s \<Longrightarrow>
      layout sh join_untyped base (E(stream_name_of s := entry_of s')) w'"
  shows "streams_ok sh join_untyped base (lv(a \<mapsto> s')) (w', refs')"
proof -
  obtain E where E: "represents E lv" "layout sh join_untyped base E w"
    using ok by (auto simp: streams_ok_def)
  have u: "names_unique lv" using ok by (simp add: streams_ok_def)
  have "E (stream_name_of s) = entry_of s" using E(1) a by (simp add: represents_def)
  from lay [OF E this] represents_upd [OF E(1) u a s'(1)] names_unique_upd [OF u a s'(1)]
  show ?thesis using ok a s' unfolding streams_ok_def by auto
qed

lemma entry_of_Some: "entry_of s = Some (enc, q) \<longleftrightarrow> ts_schema s = Ok enc \<and> es_queue (ts_stream s) = Some q"
  by (auto simp: entry_of_def split: outcome.splits option.splits)

lemma entry_of_None: "es_queue (ts_stream s) = None \<Longrightarrow> entry_of s = None"
  by (auto simp: entry_of_def split: outcome.splits)

text \<open>What applying a rule can do.\<close>

lemma apply_stream_rule_heap_cases:
  assumes rule: "apply_stream_rule sh (ts_schema s) rule (ts_stream s, w) = (r, (stream', w'))" "r \<noteq> Panic" "r \<noteq> UB"
    and base: "es_event_system_directory (ts_stream s) = base" and entry: "es_queue (ts_stream s) \<noteq> None \<longrightarrow> entry_of s \<noteq> None"
  obtains (on) q where "es_queue (ts_stream s) = None" "es_queue stream' = Some q"
      "StreamQueue_create sh (ts_schema s) base (stream_name_of s) (es_stream_config (ts_stream s)) w = (Ok q, w')"
    | (fail) e where "es_queue (ts_stream s) = None" "stream' = ts_stream s"
      "StreamQueue_create sh (ts_schema s) base (stream_name_of s) (es_stream_config (ts_stream s)) w = (Err e, w')"
    | (off) enc q where "entry_of s = Some (enc, q)" "es_queue stream' = None" "w' = StreamQueue_drop q w"
    | (same) "stream' = ts_stream s" "w' = w"
  using rule entry unfolding base apply_stream_rule_def
  by (auto simp: base bump_generation_def entry_of_def split: StreamRule.splits option.splits outcome.splits prod.splits)

lemma rule_keeps_streams_ok:
  assumes ok: "streams_ok sh join_untyped base lv (w, refs)" and a: "lv a = Some s"
    and rule: "apply_stream_rule sh (ts_schema s) rule (ts_stream s, w) = (r, (stream', w'))"
    and r: "r \<noteq> Panic" "r \<noteq> UB"
  shows "streams_ok sh join_untyped base (lv(a \<mapsto> s\<lparr>ts_stream := stream'\<rparr>)) (w', refs)"
proof -
  let ?s = "ts_stream s" and ?n = "stream_name_of s"
  have base: "es_event_system_directory ?s = base" and entry: "es_queue ?s \<noteq> None \<longrightarrow> entry_of s \<noteq> None"
    and readable: "\<And>cfg. queue_readable sh join_untyped cfg"
    using ok a by (auto simp: streams_ok_def queue_laws_def stream_enabled_def)
  note stream' = apply_stream_rule_stream [OF rule]
  show ?thesis
  proof (cases rule: apply_stream_rule_heap_cases [OF rule r base entry, case_names on fail off same])
    case (on q)
    have ex: "\<exists>enc. ts_schema s = Ok enc \<and> layout sh join_untyped base (E(?n \<mapsto> (enc, q))) w'"
      if "layout sh join_untyped base E w" "E ?n = entry_of s" for E
      using layout_create [OF that(1) _ on(3) readable] that(2) entry_of_None [OF on(1)] by simp
    obtain enc where enc: "ts_schema s = Ok enc"
    proof (rule streams_okE [OF ok])
      fix E
      assume "layout sh join_untyped base E (fst (w, refs))" "\<And>a s. lv a = Some s \<Longrightarrow> E (stream_name_of s) = entry_of s"
      then show thesis using ex [of E] a that by auto
    qed
    have s': "entry_of (s\<lparr>ts_stream := stream'\<rparr>) = Some (enc, q)"
      using enc on(2) by (simp add: entry_of_def)
    show ?thesis
    proof (rule streams_ok_upd [OF ok a])
      show "layout sh join_untyped base (E(?n := entry_of (s\<lparr>ts_stream := stream'\<rparr>))) w'"
        if "represents E lv" "layout sh join_untyped base E w" "E ?n = entry_of s" for E
        using ex [OF that(2,3)] enc s' by simp
    qed (use stream' s' in simp_all)
  next
    case (fail e)
    have s': "entry_of (s\<lparr>ts_stream := stream'\<rparr>) = entry_of s" "s\<lparr>ts_stream := stream'\<rparr> = s"
      using fail(2) by simp_all
    show ?thesis
    proof (rule streams_ok_upd [OF ok a])
      show "layout sh join_untyped base (E(?n := entry_of (s\<lparr>ts_stream := stream'\<rparr>))) w'"
        if "represents E lv" "layout sh join_untyped base E w" "E ?n = entry_of s" for E
        using layout_create_Err [OF that(2) fail(3)] that(3) s'(1) by (simp add: fun_upd_idem)
    qed (use stream' fail entry in \<open>simp_all add: stream_enabled_def\<close>)
  next
    case (off enc q)
    show ?thesis
    proof (rule streams_ok_upd [OF ok a])
      show "layout sh join_untyped base (E(?n := entry_of (s\<lparr>ts_stream := stream'\<rparr>))) w'"
        if "represents E lv" "layout sh join_untyped base E w" "E ?n = entry_of s" for E
        using layout_drop [OF that(2), of ?n enc q] that(3) off entry_of_None [of "s\<lparr>ts_stream := stream'\<rparr>"] by simp
    qed (use stream' off in \<open>simp_all add: stream_enabled_def\<close>)
  next
    case same
    then have "s\<lparr>ts_stream := stream'\<rparr> = s" by simp
    then show ?thesis using ok a same by (simp add: fun_upd_idem)
  qed
qed

lemma rule_works_quiet:
  assumes ok: "streams_ok sh join_untyped base lv (w, refs)" and a: "lv a = Some s"
    and good: "stream_creatable sh s"
    and rule: "apply_stream_rule sh (ts_schema s) rule (ts_stream s, w) = (r, (stream', w'))"
  shows "r = Ok ()"
proof (cases "rule = On \<and> es_queue (ts_stream s) = None")
  case True
  obtain E where E: "represents E lv" "layout sh join_untyped base E w"
    using ok by (auto simp: streams_ok_def)
  have "E (stream_name_of s) = None"
    using E(1) a True entry_of_None [of s] by (simp add: represents_def)
  with layoutD(5) [OF E(2), of "stream_name_of s"]
  have absent: "absent (w_files w) (stream_dir base (stream_name_of s))" by simp
  obtain enc where enc: "ts_schema s = Ok enc" "queue_creatable sh (es_stream_config (ts_stream s))"
    using good by (auto simp: stream_creatable_def)
  have "es_event_system_directory (ts_stream s) = base" using ok a by (simp add: streams_ok_def)
  with StreamQueue_create_quiet [OF layoutD(1-4) [OF E(2)] absent enc(2), of enc]
  show ?thesis using rule True enc(1) by (auto simp: apply_stream_rule_def)
next
  case False
  then show ?thesis
    using rule by (cases rule; cases "es_queue (ts_stream s)") (auto simp: apply_stream_rule_def)
qed

interpretation system: policy_world "stream_trait sh" stream_enabled
  "\<lambda>lv wr. streams_ok sh join_untyped base lv wr \<and> snd wr = refs" "stream_creatable sh"
  for sh join_untyped base refs
proof (unfold_locales, goal_cases)
  case (1 rule s w r s' w')
  then show ?case by (cases w; cases w') (auto simp: trait_apply_iff dest: apply_stream_rule_stream(1))
next
  case (2 rule s w u s' w')
  then show ?case
    by (cases w; cases w') (auto simp: trait_apply_iff stream_enabled_def dest: apply_stream_rule_stream(4))
next
  case (3 rule s w e s' w')
  then show ?case
    by (cases w; cases w') (auto simp: trait_apply_iff stream_enabled_def dest: apply_stream_rule_stream(5))
next
  case (4 lv w a s rule r s' w')
  then show ?case by (cases w; cases w') (auto simp: trait_apply_iff intro: rule_keeps_streams_ok)
next
  case (5 lv w a s rule r s' w')
  then show ?case by (cases w; cases w') (auto simp: trait_apply_iff dest: rule_works_quiet)
next
  case (6 rule s w r s' w')
  then show ?case
    by (cases w; cases w') (auto simp: trait_apply_iff stream_creatable_def dest: apply_stream_rule_stream(3))
qed

section \<open>Runs of an event system\<close>

text \<open>The handles a program holds: factories and publishers, and clones of the event system itself.\<close>

datatype 'p handle = Factory (handle_addr: nat) | PublisherOf (handle_addr: nat) "'p Publisher"

record ('b, 'p) sstate =
  st_system :: "'b EventSystem"
  st_systems :: nat
  st_handles :: "'p handle list"

text \<open>The steps that publish nothing, and all steps; the events of a step are of some type, given by its serializer.\<close>

inductive astep :: "('b, 'p) shaq \<Rightarrow> ('b, 'p) sstate \<Rightarrow> ('b, 'p) sstate \<Rightarrow> bool" for sh where
  create_stream:
    "0 < st_systems s \<Longrightarrow> valid_name (as_str n) \<Longrightarrow>
     EventSystem_create_stream sh schema n cfg (st_system s) = (Ok a, sys') \<Longrightarrow>
     astep sh s (s\<lparr>st_system := sys', st_handles := Factory a # st_handles s\<rparr>)"
| create_stream_fails:
    "0 < st_systems s \<Longrightarrow> valid_name (as_str n) \<Longrightarrow>
     EventSystem_create_stream sh schema n cfg (st_system s) = (Err e, sys') \<Longrightarrow>
     astep sh s (s\<lparr>st_system := sys'\<rparr>)"
| set_policy:
    "0 < st_systems s \<Longrightarrow> EventSystem_set_stream_policy sh policy (st_system s) = (Ok (), sys') \<Longrightarrow>
     astep sh s (s\<lparr>st_system := sys'\<rparr>)"
| clone_system:
    "0 < st_systems s \<Longrightarrow>
     astep sh s (s\<lparr>st_system := EventSystem_clone (st_system s), st_systems := Suc (st_systems s)\<rparr>)"
| drop_system:
    "0 < st_systems s \<Longrightarrow>
     astep sh s (s\<lparr>st_system := EventSystem_drop (st_system s), st_systems := st_systems s - 1\<rparr>)"
| clone_factory:
    "Factory a \<in> set (st_handles s) \<Longrightarrow>
     astep sh s (s\<lparr>st_system := PublisherFactory_clone a (st_system s), st_handles := Factory a # st_handles s\<rparr>)"
| drop_factory:
    "st_handles s = xs @ Factory a # ys \<Longrightarrow>
     astep sh s (s\<lparr>st_system := PublisherFactory_drop sh a (st_system s), st_handles := xs @ ys\<rparr>)"
| create_publisher:
    "Factory a \<in> set (st_handles s) \<Longrightarrow>
     PublisherFactory_try_create_publisher sh a (st_system s) = (Some pub, sys') \<Longrightarrow>
     astep sh s (s\<lparr>st_system := sys', st_handles := PublisherOf a pub # st_handles s\<rparr>)"
| is_enabled:
    "st_handles s = xs @ PublisherOf a pub # ys \<Longrightarrow>
     System_is_enabled sh a pub (st_system s) = ((r', pub'), sys') \<Longrightarrow>
     astep sh s (s\<lparr>st_system := sys', st_handles := xs @ PublisherOf a pub' # ys\<rparr>)"
| drop_publisher:
    "st_handles s = xs @ PublisherOf a pub # ys \<Longrightarrow>
     astep sh s (s\<lparr>st_system := System_drop_publisher sh a pub (st_system s), st_handles := xs @ ys\<rparr>)"

inductive sstep :: "('b, 'p) shaq \<Rightarrow> ('b, 'p) sstate \<Rightarrow> ('b, 'p) sstate \<Rightarrow> bool" for sh where
  quiet: "astep sh s s' \<Longrightarrow> sstep sh s s'"
| publish:
    "st_handles s = xs @ PublisherOf a pub # ys \<Longrightarrow>
     System_publish sh (serialize_into :: nat \<Rightarrow> (wincode_error, bytes) outcome) a pub event (st_system s)
       = ((r, pub'), sys') \<Longrightarrow>
     sstep sh s (s\<lparr>st_system := sys', st_handles := xs @ PublisherOf a pub' # ys\<rparr>)"
| publish_batch:
    "st_handles s = xs @ PublisherOf a pub # ys \<Longrightarrow>
     System_publish_batch sh (serialize_into :: nat \<Rightarrow> (wincode_error, bytes) outcome) a pub events (st_system s)
       = ((r, pub'), sys') \<Longrightarrow>
     sstep sh s (s\<lparr>st_system := sys', st_handles := xs @ PublisherOf a pub' # ys\<rparr>)"

text \<open>
  Runs start with a new event system where the operating system refuses no call: the claims about reachable
  states are not about disks that fill up or directories that are removed by others.
\<close>

inductive sreachable :: "('b, 'p) shaq \<Rightarrow> path \<Rightarrow> ('b, 'p) sstate \<Rightarrow> bool" for sh path where
  init: "files_ok (w_files w) \<Longrightarrow> w_faults w = [] \<Longrightarrow> EventSystem_new path w = (Ok sys, w') \<Longrightarrow>
    sreachable sh path \<lparr>st_system = sys, st_systems = 1, st_handles = []\<rparr>"
| step: "sreachable sh path s \<Longrightarrow> sstep sh s s' \<Longrightarrow> sreachable sh path s'"

text \<open>A stream is on only if its rule is on, and is on if its rule is on and its queue can be created.\<close>

definition stream_obeys :: "('b, 'p) shaq \<Rightarrow> StreamPolicy \<Rightarrow> typed_stream \<Rightarrow> bool" where
  "stream_obeys sh policy s \<longleftrightarrow>
     (stream_enabled s \<longrightarrow> stream_rule policy (stream_name_of s) = On)
     \<and> (stream_creatable sh s \<and> stream_rule policy (stream_name_of s) = On \<longrightarrow> stream_enabled s)"

lemma stream_obeys_system:
  "policy_world.obeys (stream_trait sh) stream_enabled (stream_creatable sh) policy s \<longleftrightarrow> stream_obeys sh policy s"
  by (simp add: system.obeys_def system.follows_def stream_obeys_def)

definition handles_of :: "'p handle list \<Rightarrow> nat \<Rightarrow> nat" where
  "handles_of hs a = count_list (map handle_addr hs) a"

lemma handles_of_simps [simp]:
  "handles_of [] a = 0" "handles_of (x # hs) a = (if handle_addr x = a then Suc (handles_of hs a) else handles_of hs a)"
  "handles_of (xs @ ys) a = handles_of xs a + handles_of ys a"
  by (simp_all add: handles_of_def)

lemma handles_of_pos: "x \<in> set hs \<Longrightarrow> 0 < handles_of hs (handle_addr x)"
  by (induction hs) auto

text \<open>The invariant, on the parts of a state.\<close>

definition heap_ok ::
    "('b, 'p) shaq \<Rightarrow> ('b option \<Rightarrow> (shaq_error, unit) outcome) \<Rightarrow> path \<Rightarrow> StreamPolicyManager
      \<Rightarrow> (typed_stream, 'b world \<times> nat) arcs \<Rightarrow> nat \<Rightarrow> (nat \<Rightarrow> nat) \<Rightarrow> bool" where
  "heap_ok sh join_untyped base m h systems cnt \<longleftrightarrow>
     arcs_ok h \<and> finite (dom (live h)) \<and> strong_count h = cnt
     \<and> snd (arc_world h) = systems + card (dom (live h))
     \<and> (0 < snd (arc_world h) \<longrightarrow> streams_ok sh join_untyped base (live h) (arc_world h))
     \<and> (snd (arc_world h) = 0 \<longrightarrow> absent (w_files (fst (arc_world h))) (base @ [STAGING_DIRECTORY_NAME])
          \<and> absent (w_files (fst (arc_world h))) (base @ [STREAMS_DIRECTORY_NAME]))
     \<and> (0 < systems \<longrightarrow> (\<forall>a s. live h a = Some s \<longrightarrow>
          a \<in> set (spm_streams m) \<and> stream_obeys sh (spm_stream_policy m) s))"

definition system_ok ::
    "('b, 'p) shaq \<Rightarrow> ('b option \<Rightarrow> (shaq_error, unit) outcome) \<Rightarrow> path \<Rightarrow> ('b, 'p) sstate \<Rightarrow> bool" where
  "system_ok sh join_untyped base s \<longleftrightarrow>
     sys_event_system_directory (st_system s) = base
     \<and> heap_ok sh join_untyped base (sys_stream_policy_manager (st_system s)) (sys_streams (st_system s))
         (st_systems s) (handles_of (st_handles s))"

section \<open>Every step keeps the invariant\<close>

lemma heap_okD:
  assumes "heap_ok sh join_untyped base m h systems cnt"
  shows "arcs_ok h" "finite (dom (live h))" "strong_count h = cnt"
    "snd (arc_world h) = systems + card (dom (live h))"
    "0 < snd (arc_world h) \<Longrightarrow> streams_ok sh join_untyped base (live h) (arc_world h)"
    "0 < systems \<Longrightarrow> live h a = Some s \<Longrightarrow> a \<in> set (spm_streams m) \<and> stream_obeys sh (spm_stream_policy m) s"
    "0 < cnt a \<Longrightarrow> live h a \<noteq> None"
    "live h a = Some s \<Longrightarrow> 0 < snd (arc_world h)"
proof -
  show "arcs_ok h" "finite (dom (live h))" "strong_count h = cnt"
    "snd (arc_world h) = systems + card (dom (live h))"
    "0 < snd (arc_world h) \<Longrightarrow> streams_ok sh join_untyped base (live h) (arc_world h)"
    "0 < systems \<Longrightarrow> live h a = Some s \<Longrightarrow> a \<in> set (spm_streams m) \<and> stream_obeys sh (spm_stream_policy m) s"
    using assms by (simp_all add: heap_ok_def)
  show "live h a \<noteq> None" if "0 < cnt a"
    using assms that strong_count_live [of h a] by (auto simp: heap_ok_def)
  show "0 < snd (arc_world h)" if "live h a = Some s"
    using assms that by (auto simp: heap_ok_def card_gt_0_iff)
qed

lemma heap_okI:
  assumes "arcs_ok h" "finite (dom (live h))" "strong_count h = cnt"
    "snd (arc_world h) = systems + card (dom (live h))" "0 < snd (arc_world h)"
    "streams_ok sh join_untyped base (live h) (arc_world h)"
    "\<And>a s. 0 < systems \<Longrightarrow> live h a = Some s \<Longrightarrow> a \<in> set (spm_streams m) \<and> stream_obeys sh (spm_stream_policy m) s"
  shows "heap_ok sh join_untyped base m h systems cnt"
  using assms less_not_refl [of "0 :: nat"] unfolding heap_ok_def by metis

lemma heap_ok_clone:
  assumes ok: "heap_ok sh join_untyped base m h systems cnt" and a: "live h a \<noteq> None"
  shows "heap_ok sh join_untyped base m (arc_clone a h) systems (cnt(a := Suc (cnt a)))"
  using ok arc_clone_simps [OF a] heap_okD(3) [OF ok] unfolding heap_ok_def by simp

text \<open>Dropping a stream removes its queue, and with it the entry of its directory.\<close>

lemma streams_ok_remove:
  assumes ok: "streams_ok sh join_untyped base lv (w, refs)" and a: "lv a = Some s"
  shows "streams_ok sh join_untyped base (lv(a := None)) (EventStream_drop (ts_stream s) w, refs')"
proof -
  let ?n = "stream_name_of s"
  obtain E where E: "represents E lv" "layout sh join_untyped base E w" "E ?n = entry_of s"
    using streams_okE [OF ok] a by (metis fst_conv)
  have "layout sh join_untyped base (E(?n := None)) (EventStream_drop (ts_stream s) w)"
  proof (cases "es_queue (ts_stream s)")
    case None
    then show ?thesis using E entry_of_None [OF None] by (simp add: EventStream_drop_def fun_upd_idem)
  next
    case (Some q)
    have "entry_of s \<noteq> None" using ok a Some by (simp add: streams_ok_def stream_enabled_def)
    then obtain enc where "entry_of s = Some (enc, q)" using Some by (auto simp: entry_of_Some)
    then show ?thesis using layout_drop [OF E(2), of ?n] E(3) Some by (simp add: EventStream_drop_def)
  qed
  moreover have "represents (E(?n := None)) (lv(a := None))"
  proof -
    have other: "stream_name_of t \<noteq> ?n" if "lv b = Some t" "b \<noteq> a" for b t
      using ok a that unfolding streams_ok_def names_unique_def by metis
    have "E n = None" if n: "n \<noteq> ?n" "\<And>b t. b \<noteq> a \<Longrightarrow> lv b = Some t \<Longrightarrow> stream_name_of t \<noteq> n" for n
    proof -
      have "stream_name_of t \<noteq> n" if "lv b = Some t" for b t
        using that n a by (cases "b = a") auto
      then show ?thesis using E(1) unfolding represents_def by blast
    qed
    then show ?thesis using E(1) other unfolding represents_def by auto
  qed
  ultimately show ?thesis
    using ok unfolding streams_ok_def names_unique_def by (auto split: if_splits)
qed

lemma heap_ok_drop:
  assumes ok: "heap_ok sh join_untyped base m h systems cnt" and a: "live h a = Some s"
  shows "heap_ok sh join_untyped base m (arc_drop (pcs_drop (stream_trait sh)) a h) systems (cnt(a := cnt a - 1))"
proof -
  note parts = heap_okD [OF ok] and drop = arc_drop_simps [OF a, of "pcs_drop (stream_trait sh)"]
  obtain w refs where w: "arc_world h = (w, refs)" by (cases "arc_world h")
  have so: "streams_ok sh join_untyped base (live h) (w, refs)" and dir: "es_event_system_directory (ts_stream s) = base"
    using parts(5) parts(8) [OF a] a unfolding w by (auto simp: streams_ok_def)
  show ?thesis
  proof (cases "1 < strong_count h a")
    case True
    then show ?thesis using ok drop parts(1,3) unfolding heap_ok_def by simp
  next
    case False
    then have one: "strong_count h a \<le> 1" by simp
    let ?h = "arc_drop (pcs_drop (stream_trait sh)) a h" and ?w = "EventStream_drop (ts_stream s) w"
    have live: "live ?h = (live h)(a := None)"
      and world: "arc_world ?h = directory_release base (?w, refs)"
      using drop(4,5) [OF one] by (simp_all add: w dir)
    have card: "card (dom (live h)) = Suc (card (dom (live h) - {a}))" "finite (dom (live h) - {a})"
      using a parts(2) by (metis card.remove domI, simp)
    have dom: "dom (live ?h) = dom (live h) - {a}" by (simp add: live)
    have so': "streams_ok sh join_untyped base (live ?h) (?w, k)" for k
      unfolding live by (rule streams_ok_remove [OF so a])
    have refs: "refs = systems + card (dom (live h))" using parts(4) w by simp
    obtain E where lay: "layout sh join_untyped base E ?w" using so' unfolding streams_ok_def by auto
    have obeys: "b \<in> set (spm_streams m) \<and> stream_obeys sh (spm_stream_policy m) t"
      if "0 < systems" "live ?h b = Some t" for b t
      using that parts(6) [OF that(1), of b t] unfolding live by (auto split: if_splits)
    show ?thesis
    proof (cases "refs \<le> 1")
      case True
      then have "systems = 0" "card (dom (live h) - {a}) = 0" using refs card by simp_all
      moreover have "arc_world ?h = (EventSystemDirectory_drop base ?w, 0)"
        using world True by (simp add: directory_release_def)
      ultimately show ?thesis
        using drop(1,7) parts(1,3) card(2) layout_removed [OF lay] unfolding heap_ok_def dom by simp
    next
      case False
      then have "arc_world ?h = (?w, refs - 1)" using world by (simp add: directory_release_def)
      then show ?thesis
        using drop(1,7) parts(1,3) card so' obeys refs False unfolding heap_ok_def dom by auto
    qed
  qed
qed

text \<open>Publishers change the slots of their stream and the memory of queues, not the layout.\<close>

lemma heap_ok_use:
  assumes ok: "heap_ok sh join_untyped base m h systems cnt" and a: "live h a = Some s"
    and w: "arc_world h = (w, refs)"
    and stream': "es_stream_name stream' = es_stream_name (ts_stream s)"
      "es_event_system_directory stream' = es_event_system_directory (ts_stream s)"
      "es_stream_config stream' = es_stream_config (ts_stream s)" "es_queue stream' = es_queue (ts_stream s)"
    and lay: "\<And>E. layout sh join_untyped base E w \<Longrightarrow> layout sh join_untyped base E w'"
  shows "heap_ok sh join_untyped base m (arc_set a (s\<lparr>ts_stream := stream'\<rparr>) (w', refs) h) systems cnt"
proof -
  let ?s = "s\<lparr>ts_stream := stream'\<rparr>" let ?h = "arc_set a ?s (w', refs) h"
  note parts = heap_okD [OF ok]
  have so: "streams_ok sh join_untyped base (live h) (w, refs)" using parts(5) parts(8) [OF a] w by simp
  have live: "live ?h = (live h)(a \<mapsto> ?s)" "dom (live ?h) = dom (live h)" using a by auto
  have same: "entry_of ?s = entry_of s" "stream_enabled ?s = stream_enabled s"
    "stream_obeys sh p ?s = stream_obeys sh p s" for p
    using stream' by (simp_all add: entry_of_def stream_enabled_def stream_obeys_def stream_creatable_def)
  have "streams_ok sh join_untyped base (live ?h) (w', refs)"
    unfolding live(1)
  proof (rule streams_ok_upd [OF so a])
    show "layout sh join_untyped base (E(stream_name_of s := entry_of ?s)) w'"
      if "layout sh join_untyped base E w" "E (stream_name_of s) = entry_of s" for E
      using lay [OF that(1)] that(2) same(1) by (simp add: fun_upd_idem)
    show "entry_of ?s \<noteq> None" if "stream_enabled ?s"
      using that so a same by (simp add: streams_ok_def)
  qed (use stream' in simp_all)
  moreover have "b \<in> set (spm_streams m) \<and> stream_obeys sh (spm_stream_policy m) t"
    if "0 < systems" "live ?h b = Some t" for b t
    using that parts(6) [OF that(1)] same(3) a unfolding live(1) by (cases "b = a") auto
  ultimately show ?thesis
    using parts(1-4) parts(8) [OF a] w live(2) by (intro heap_okI) simp_all
qed

lemma heap_ok_policy:
  assumes ok: "heap_ok sh join_untyped base m h systems cnt" and systems: "0 < systems"
    and set: "set_stream_policy (stream_trait sh) policy (m, h) = (Ok u, (m', h'))"
  shows "heap_ok sh join_untyped base m' h' systems cnt"
proof -
  note parts = heap_okD [OF ok]
  have so: "streams_ok sh join_untyped base (live h) (arc_world h) \<and> snd (arc_world h) = snd (arc_world h)"
    using parts(4,5) systems by simp
  note man = system.set_stream_policy_Ok [OF set parts(1)]
  note inv = system.set_stream_policy_obeys [OF set parts(1) so]
  have "dom (policy_controlled.names (stream_trait sh) x) = dom (live x)" for x
    by (auto simp: system.names_def dom_def)
  with man(4) have dom: "dom (live h') = dom (live h)" by metis
  have "a \<in> set (spm_streams m') \<and> stream_obeys sh (spm_stream_policy m') s" if "live h' a = Some s" for a s
  proof -
    have old: "live h a \<noteq> None" using dom that by (metis domI domIff)
    then have "a \<in> set (spm_streams m)" using parts(6) [OF systems] by blast
    then show ?thesis using inv(2) [OF _ that] old stream_obeys_system by (auto simp: man(5))
  qed
  then show ?thesis using man(1-3) inv(1) parts(2-4) systems dom by (intro heap_okI) simp_all
qed

lemma heap_ok_systems:
  assumes ok: "heap_ok sh join_untyped base m h systems cnt" and systems: "0 < systems"
  shows "heap_ok sh join_untyped base m (h\<lparr>arc_world := map_prod id Suc (arc_world h)\<rparr>) (Suc systems) cnt"
    "heap_ok sh join_untyped base m (h\<lparr>arc_world := directory_release base (arc_world h)\<rparr>) (systems - 1) cnt"
proof -
  obtain w refs where w: "arc_world h = (w, refs)" by (cases "arc_world h")
  have keep: "live (h\<lparr>arc_world := x\<rparr>) = live h" "strong_count (h\<lparr>arc_world := x\<rparr>) = strong_count h"
    "arcs_ok (h\<lparr>arc_world := x\<rparr>) = arcs_ok h" for x
    by (simp_all add: live_def strong_count_def arcs_ok_def fun_eq_iff)
  note parts = heap_okD [OF ok]
  have so: "streams_ok sh join_untyped base (live h) (w, k)" for k
    using parts(4,5) systems by (simp add: w streams_ok_def)
  show "heap_ok sh join_untyped base m (h\<lparr>arc_world := map_prod id Suc (arc_world h)\<rparr>) (Suc systems) cnt"
    using ok so systems unfolding heap_ok_def keep w by simp
  obtain E where lay: "layout sh join_untyped base E w" using so unfolding streams_ok_def by auto
  show "heap_ok sh join_untyped base m (h\<lparr>arc_world := directory_release base (arc_world h)\<rparr>) (systems - 1) cnt"
  proof (cases "refs \<le> 1")
    case True
    then have "systems = 1" "card (dom (live h)) = 0" using parts(4) systems w by auto
    then show ?thesis
      using parts(1-3) True layout_removed [OF lay] unfolding heap_ok_def keep w by (simp add: directory_release_def)
  next
    case False
    then show ?thesis
      using ok so systems unfolding heap_ok_def keep w by (auto simp: directory_release_def)
  qed
qed

text \<open>A stream that was just allocated, under a name that no live stream has.\<close>

lemma streams_ok_add:
  assumes ok: "streams_ok sh join_untyped base lv (w, refs)" and a: "lv a = None"
    and new: "s = \<lparr>ts_schema = schema, ts_stream = EventStream_new base n cfg\<rparr>" "valid_name (as_str n)"
    and fresh: "\<And>b t. lv b = Some t \<Longrightarrow> stream_name_of t \<noteq> n"
  shows "streams_ok sh join_untyped base (lv(a \<mapsto> s)) (w, refs')"
proof -
  have s: "stream_name_of s = n" "es_queue (ts_stream s) = None" "es_event_system_directory (ts_stream s) = base"
    by (simp_all add: new EventStream_new_def)
  obtain E where E: "represents E lv" "layout sh join_untyped base E w"
    using streams_okE [OF ok] by (metis fst_conv)
  have En: "E n = None" using E(1) fresh unfolding represents_def by blast
  have "represents E (lv(a \<mapsto> s))"
    unfolding represents_def
  proof (intro conjI allI impI)
    show "E (stream_name_of t) = entry_of t" if "(lv(a \<mapsto> s)) b = Some t" for b t
      using that E(1) En s(1) entry_of_None [OF s(2)] unfolding represents_def by (cases "b = a") auto
    show "E k = None" if "\<forall>b t. (lv(a \<mapsto> s)) b = Some t \<longrightarrow> stream_name_of t \<noteq> k" for k
    proof -
      have "stream_name_of t \<noteq> k" if "lv b = Some t" for b t
      proof -
        have "(lv(a \<mapsto> s)) b = Some t" using that a by auto
        then show ?thesis using \<open>\<forall>b t. (lv(a \<mapsto> s)) b = Some t \<longrightarrow> stream_name_of t \<noteq> k\<close> by blast
      qed
      then show ?thesis using E(1) unfolding represents_def by blast
    qed
  qed
  moreover have "names_unique (lv(a \<mapsto> s))"
  proof -
    have "names_unique lv" using ok by (simp add: streams_ok_def)
    moreover have "stream_name_of t \<noteq> stream_name_of s" if "lv b = Some t" for b t
      using fresh [OF that] s(1) by simp
    ultimately show ?thesis unfolding names_unique_def by (auto split: if_splits) metis
  qed
  ultimately show ?thesis
    using ok E(2) s new(2) unfolding streams_ok_def stream_enabled_def by auto
qed

text \<open>A stream without a queue leaves no trace: when registering it failed, dropping it restores the heap.\<close>

lemma streams_ok_without:
  assumes "streams_ok sh join_untyped base lv (w, refs)" "lv a = Some s" "es_queue (ts_stream s) = None"
  shows "streams_ok sh join_untyped base (lv(a := None)) (w, refs') \<and> es_event_system_directory (ts_stream s) = base"
proof
  show "streams_ok sh join_untyped base (lv(a := None)) (w, refs')"
    using streams_ok_remove [OF assms(1,2), of refs'] assms(3) by (simp add: EventStream_drop_def)
  show "es_event_system_directory (ts_stream s) = base" using assms(1,2) unfolding streams_ok_def by blast
qed

lemma heap_ok_unregistered:
  assumes h: "live h = lv(a \<mapsto> s)" "strong_count h = cnt(a := 1)" "arcs_ok h" "arc_world h = (w, Suc refs)"
    and a: "lv a = None" "cnt a = 0"
    and s: "es_queue (ts_stream s) = None" "es_event_system_directory (ts_stream s) = base"
    and ok: "streams_ok sh join_untyped base lv (w, refs)" "refs = systems + card (dom lv)" "0 < systems" "finite (dom lv)"
    and policy: "\<And>b t. lv b = Some t \<Longrightarrow> b \<in> set (spm_streams m) \<and> stream_obeys sh (spm_stream_policy m) t"
  shows "heap_ok sh join_untyped base m (arc_drop (pcs_drop (stream_trait sh)) a h) systems cnt"
proof -
  let ?d = "arc_drop (pcs_drop (stream_trait sh)) a h"
  have l: "live h a = Some s" "strong_count h a \<le> 1" using h by simp_all
  note drop = arc_drop_simps [OF l(1), of "pcs_drop (stream_trait sh)"]
  have "live ?d = lv" using drop(4) [OF l(2)] a by (simp add: h fun_upd_idem)
  moreover have "strong_count ?d = cnt" using drop(1) h(2) a(2) by (auto simp: fun_eq_iff)
  moreover have "arc_world ?d = (w, refs)"
    using drop(5) [OF l(2)] h(4) s ok(2,3) by (simp add: EventStream_drop_def directory_release_def)
  ultimately show ?thesis using drop(7) h(3) ok policy by (intro heap_okI) simp_all
qed

text \<open>The heap after registering a new stream.\<close>

lemma heap_registered:
  assumes ok: "heap_ok sh join_untyped base m h systems cnt" and systems: "0 < systems"
    and s: "s = \<lparr>ts_schema = schema, ts_stream = EventStream_new base n cfg\<rparr>" "valid_name (as_str n)"
    and new: "arc_new s (h\<lparr>arc_world := map_prod id Suc (arc_world h)\<rparr>) = (a, h1)"
    and reg: "register_new_stream (stream_trait sh) a (m, arc_clone a h1) = (r, (m', h2))"
    and r: "r \<noteq> Panic" "r \<noteq> UB"
  obtains s' w refs where "live h a = None" "cnt a = 0" "arc_world h = (w, refs)" "arcs_ok h2"
    "live h2 = (live h)(a \<mapsto> s')" "strong_count h2 = cnt(a := 1)"
    "r = Ok () \<Longrightarrow> streams_ok sh join_untyped base (live h2) (arc_world h2) \<and> snd (arc_world h2) = Suc refs
      \<and> stream_obeys sh (spm_stream_policy m') s' \<and> a \<in> set (spm_streams m')"
    "r \<noteq> Ok () \<Longrightarrow> s' = s \<and> arc_world h2 = (w, Suc refs)
      \<or> streams_ok sh join_untyped base (live h2) (arc_world h2) \<and> snd (arc_world h2) = Suc refs \<and> \<not> stream_enabled s'"
    "\<And>b t. live h b = Some t \<Longrightarrow> b \<in> set (spm_streams m') \<and> stream_obeys sh (spm_stream_policy m') t"
proof -
  note parts = heap_okD [OF ok] and h0 = heap_okD [OF heap_ok_systems(1) [OF ok systems]]
  obtain w refs where w: "arc_world h = (w, refs)" by (cases "arc_world h")
  have refs: "refs = systems + card (dom (live h))" using parts(4) w by simp
  have live0: "live (h\<lparr>arc_world := map_prod id Suc (arc_world h)\<rparr>) = live h"
    "strong_count (h\<lparr>arc_world := map_prod id Suc (arc_world h)\<rparr>) = strong_count h"
    by (simp_all add: live_def strong_count_def fun_eq_iff)
  note h1 = arc_new_simps [OF new, unfolded live0]
  have a: "live h a = None" "cnt a = 0"
    using arcs_ok_fresh [OF h0(1), unfolded live0] parts(3) h1(1) by simp_all
  note clone = arc_clone_simps [of h1 a]
  let ?h = "arc_clone a h1"
  have h: "live ?h = (live h)(a \<mapsto> s)" "strong_count ?h = cnt(a := 2)" "arcs_ok ?h" "arc_world ?h = (w, Suc refs)"
    using clone h1 h0(1) parts(3) by (simp_all add: w numeral_2_eq_2)
  have la: "live ?h a = Some s" "1 < strong_count ?h a" using h by simp_all
  have name: "stream_name_of s = n" by (simp add: s EventStream_new_def)
  have so: "streams_ok sh join_untyped base (live h) (w, refs)" using parts(4,5) systems w by simp
  have "(streams_ok sh join_untyped base (live ?h) (arc_world ?h) \<and> snd (arc_world ?h) = Suc refs)
    \<or> (\<exists>b\<in>set (spm_streams m). policy_controlled.names (stream_trait sh) ?h b = Some (pcs_stream_name (stream_trait sh) s))"
  proof (cases "\<exists>b t. live h b = Some t \<and> stream_name_of t = n")
    case True
    then obtain b t where b: "live h b = Some t" "stream_name_of t = n" by blast
    then have "b \<noteq> a" "b \<in> set (spm_streams m)" using a parts(6) [OF systems] by auto
    then show ?thesis using b name h(1) by (intro disjI2 bexI [of _ b]) (auto simp: system.names_def)
  next
    case False
    then show ?thesis using streams_ok_add [OF so a(1) s] h(1,4) by auto
  qed
  note reg_obeys = system.register_obeys [OF reg h(3) la this r, unfolded trait_simps stream_obeys_system]
  obtain s' where s': "live h2 = (live ?h)(a \<mapsto> s')" "stream_name_of s' = stream_name_of s"
      "strong_count h2 = (strong_count ?h)(a := strong_count ?h a - 1)" "arcs_ok h2"
    and Ok: "r = Ok () \<Longrightarrow> streams_ok sh join_untyped base (live h2) (arc_world h2) \<and> snd (arc_world h2) = Suc refs
      \<and> stream_obeys sh (spm_stream_policy m) s'"
    and Err: "r \<noteq> Ok () \<Longrightarrow> s' = s \<and> arc_world h2 = arc_world ?h
      \<or> streams_ok sh join_untyped base (live h2) (arc_world h2) \<and> snd (arc_world h2) = Suc refs \<and> \<not> stream_enabled s'"
    and m': "spm_stream_policy m' = spm_stream_policy m"
      "set (spm_streams m') = {b \<in> set (spm_streams m). live ?h b \<noteq> None} \<union> (if r = Ok () then {a} else {})"
    by (rule reg_obeys) (rule that, blast+)
  have live2: "live h2 = (live h)(a \<mapsto> s')" "strong_count h2 = cnt(a := 1)" using s'(1,3) h by simp_all
  have old: "b \<in> set (spm_streams m') \<and> stream_obeys sh (spm_stream_policy m') t" if "live h b = Some t" for b t
    using parts(6) [OF systems that] that h(1) m' a by (cases "b = a") auto
  show thesis
    by (rule that [OF a w s'(4) live2 _ _ old]) (use Ok Err m' h(4) in auto)
qed

lemma heap_ok_create:
  assumes ok: "heap_ok sh join_untyped base m h systems cnt" and systems: "0 < systems"
    and s: "s = \<lparr>ts_schema = schema, ts_stream = EventStream_new base n cfg\<rparr>" "valid_name (as_str n)"
    and new: "arc_new s (h\<lparr>arc_world := map_prod id Suc (arc_world h)\<rparr>) = (a, h1)"
    and reg: "register_new_stream (stream_trait sh) a (m, arc_clone a h1) = (r, (m', h2))"
    and r: "r \<noteq> Panic" "r \<noteq> UB"
  shows "r = Ok () \<Longrightarrow> heap_ok sh join_untyped base m' h2 systems (cnt(a := Suc (cnt a)))"
    "r \<noteq> Ok () \<Longrightarrow> heap_ok sh join_untyped base m' (arc_drop (pcs_drop (stream_trait sh)) a h2) systems cnt"
proof -
  note parts = heap_okD [OF ok]
  obtain s' w refs where a: "live h a = None" "cnt a = 0" and w: "arc_world h = (w, refs)" and arcs: "arcs_ok h2"
    and live2: "live h2 = (live h)(a \<mapsto> s')" "strong_count h2 = cnt(a := 1)"
    and Ok: "r = Ok () \<Longrightarrow> streams_ok sh join_untyped base (live h2) (arc_world h2) \<and> snd (arc_world h2) = Suc refs
      \<and> stream_obeys sh (spm_stream_policy m') s' \<and> a \<in> set (spm_streams m')"
    and Err: "r \<noteq> Ok () \<Longrightarrow> s' = s \<and> arc_world h2 = (w, Suc refs)
      \<or> streams_ok sh join_untyped base (live h2) (arc_world h2) \<and> snd (arc_world h2) = Suc refs \<and> \<not> stream_enabled s'"
    and old: "\<And>b t. live h b = Some t \<Longrightarrow> b \<in> set (spm_streams m') \<and> stream_obeys sh (spm_stream_policy m') t"
    by (rule heap_registered [OF ok systems s new reg r]) (rule that)
  have refs: "refs = systems + card (dom (live h))" using parts(4) w by simp
  have so: "streams_ok sh join_untyped base (live h) (w, refs)" using parts(4,5) systems w by simp
  show "heap_ok sh join_untyped base m' h2 systems (cnt(a := Suc (cnt a)))" if "r = Ok ()"
  proof (rule heap_okI)
    show "snd (arc_world h2) = systems + card (dom (live h2))"
      using Ok [OF that] parts(2) a refs by (simp add: live2 domIff)
    show "b \<in> set (spm_streams m') \<and> stream_obeys sh (spm_stream_policy m') t" if "live h2 b = Some t" for b t
      using that old Ok [OF \<open>r = Ok ()\<close>] unfolding live2 by (cases "b = a") auto
  qed (use arcs live2 Ok [OF that] a parts(2) in simp_all)
  show "heap_ok sh join_untyped base m' (arc_drop (pcs_drop (stream_trait sh)) a h2) systems cnt" if bad: "r \<noteq> Ok ()"
  proof -
    have l2: "live h2 a = Some s'" "(live h2)(a := None) = live h" using live2 a by (simp_all add: fun_upd_idem)
    obtain w2 where w2: "arc_world h2 = (w2, Suc refs)"
      and clean: "streams_ok sh join_untyped base (live h) (w2, refs)" "es_queue (ts_stream s') = None"
        "es_event_system_directory (ts_stream s') = base"
    proof (cases "s' = s \<and> arc_world h2 = (w, Suc refs)")
      case True
      then show thesis using that [of w] so by (simp add: s EventStream_new_def)
    next
      case False
      then have f: "streams_ok sh join_untyped base (live h2) (arc_world h2)" "snd (arc_world h2) = Suc refs"
        "es_queue (ts_stream s') = None" using Err [OF bad] by (auto simp: stream_enabled_def)
      obtain w2 where "arc_world h2 = (w2, Suc refs)" using f(2) by (cases "arc_world h2") simp
      with f streams_ok_without [of sh join_untyped base "live h2" w2 "Suc refs" a s' refs] that l2
      show thesis by simp
    qed
    show ?thesis by (rule heap_ok_unregistered [OF live2 arcs w2 a clean(2,3,1) refs systems parts(2) old])
  qed
qed

text \<open>What publishers and factories do to their stream.\<close>

definition harmless ::
    "('b, 'p) shaq \<Rightarrow> ('b option \<Rightarrow> (shaq_error, unit) outcome) \<Rightarrow> path
      \<Rightarrow> (EventStream \<Rightarrow> 'b world \<Rightarrow> 'a \<times> EventStream \<times> 'b world) \<Rightarrow> bool" where
  "harmless sh join_untyped base f \<longleftrightarrow>
     (\<forall>stream w x stream' w'. f stream w = (x, stream', w') \<longrightarrow>
        es_stream_name stream' = es_stream_name stream
        \<and> es_event_system_directory stream' = es_event_system_directory stream
        \<and> es_stream_config stream' = es_stream_config stream \<and> es_queue stream' = es_queue stream
        \<and> (\<forall>E. layout sh join_untyped base E w \<longrightarrow> layout sh join_untyped base E w'))"

lemma harmless_operations:
  assumes "queue_identity_laws sh join_untyped"
  shows "harmless sh join_untyped base (try_create_publisher sh)"
    "harmless sh join_untyped base (\<lambda>es w. case publish sh serialize_into es event (self, w) of
       (r, (self', w')) \<Rightarrow> ((r, self'), es, w'))"
    "harmless sh join_untyped base (\<lambda>es w. case publish_batch sh serialize_into' es events (self, w) of
       (r, (self', w')) \<Rightarrow> ((r, self'), es, w'))"
    "harmless sh join_untyped base (\<lambda>es w. case Publisher_is_enabled sh es self w of (r, self', w') \<Rightarrow> ((r, self'), es, w'))"
    "harmless sh join_untyped base (\<lambda>es w. ((), Publisher_drop sh self es w))"
  by (auto simp: harmless_def try_create_publisher_def Publisher_is_enabled_def Publisher_drop_def Let_def
      split: option.splits prod.splits
      intro: layout_create_producer [OF assms] layout_publish [OF assms] layout_publish_batch [OF assms]
        layout_Publisher_producer [OF assms] layout_release_producer [OF assms])

lemma heap_ok_with_stream:
  assumes ok: "heap_ok sh join_untyped base (sys_stream_policy_manager sys) (sys_streams sys) systems cnt"
    and f: "harmless sh join_untyped base f" and call: "with_stream a f d sys = (x, sys')"
  shows "sys_event_system_directory sys' = sys_event_system_directory sys"
    "sys_stream_policy_manager sys' = sys_stream_policy_manager sys"
    "heap_ok sh join_untyped base (sys_stream_policy_manager sys) (sys_streams sys') systems cnt"
proof -
  obtain w refs where w: "arc_world (sys_streams sys) = (w, refs)" by (cases "arc_world (sys_streams sys)")
  have up: "upgrade (sys_streams sys) a = live (sys_streams sys) a" using upgrade_live heap_okD(1) [OF ok] by blast
  have "sys_event_system_directory sys' = sys_event_system_directory sys
    \<and> sys_stream_policy_manager sys' = sys_stream_policy_manager sys
    \<and> heap_ok sh join_untyped base (sys_stream_policy_manager sys) (sys_streams sys') systems cnt"
  proof (cases "live (sys_streams sys) a")
    case None
    then show ?thesis using call ok up by (simp add: with_stream_def)
  next
    case (Some s)
    obtain x' stream' w' where r: "f (ts_stream s) w = (x', stream', w')" by (metis prod.collapse)
    then have sys': "sys' = sys\<lparr>sys_streams := arc_set a (s\<lparr>ts_stream := stream'\<rparr>) (w', refs) (sys_streams sys)\<rparr>"
      using call Some up w by (simp add: with_stream_def)
    have "heap_ok sh join_untyped base (sys_stream_policy_manager sys)
      (arc_set a (s\<lparr>ts_stream := stream'\<rparr>) (w', refs) (sys_streams sys)) systems cnt"
      by (rule heap_ok_use [OF ok Some w]) (use f r in \<open>auto simp: harmless_def\<close>)
    then show ?thesis by (simp add: sys')
  qed
  then show "sys_event_system_directory sys' = sys_event_system_directory sys"
    "sys_stream_policy_manager sys' = sys_stream_policy_manager sys"
    "heap_ok sh join_untyped base (sys_stream_policy_manager sys) (sys_streams sys') systems cnt" by blast+
qed

lemma system_ok_create:
  assumes ok: "system_ok sh join_untyped base s" and pre: "0 < st_systems s" "valid_name (as_str n)"
  shows "EventSystem_create_stream sh schema n cfg (st_system s) = (Ok a, sys') \<Longrightarrow>
      system_ok sh join_untyped base (s\<lparr>st_system := sys', st_handles := Factory a # st_handles s\<rparr>)"
    "EventSystem_create_stream sh schema n cfg (st_system s) = (Err e, sys') \<Longrightarrow>
      system_ok sh join_untyped base (s\<lparr>st_system := sys'\<rparr>)"
proof -
  let ?sys = "st_system s" let ?h = "sys_streams ?sys" and ?m = "sys_stream_policy_manager ?sys"
  have dir: "sys_event_system_directory ?sys = base"
    and heap: "heap_ok sh join_untyped base ?m ?h (st_systems s) (handles_of (st_handles s))"
    using ok by (simp_all add: system_ok_def)
  let ?new = "\<lparr>ts_schema = schema, ts_stream = EventStream_new base n cfg\<rparr>"
  obtain a' h1 where new: "arc_new ?new (?h\<lparr>arc_world := map_prod id Suc (arc_world ?h)\<rparr>) = (a', h1)" by fastforce
  obtain r m' h2 where reg: "register_new_stream (stream_trait sh) a' (?m, arc_clone a' h1) = (r, (m', h2))"
    by (metis prod.collapse)
  note create = heap_ok_create [OF heap pre(1) refl pre(2) new reg]
  have cnt: "(handles_of hs)(x := Suc (handles_of hs x)) = handles_of (Factory x # hs)" for x and hs :: "'b handle list"
    by (auto simp: fun_eq_iff)
  show "system_ok sh join_untyped base (s\<lparr>st_system := sys', st_handles := Factory a # st_handles s\<rparr>)"
    if "EventSystem_create_stream sh schema n cfg ?sys = (Ok a, sys')"
    using that create(1) new reg dir unfolding cnt
    by (cases r) (auto simp: EventSystem_create_stream_def Let_def system_ok_def)
  show "system_ok sh join_untyped base (s\<lparr>st_system := sys'\<rparr>)"
    if "EventSystem_create_stream sh schema n cfg ?sys = (Err e, sys')"
    using that create(2) new reg dir
    by (cases r) (auto simp: EventSystem_create_stream_def Let_def system_ok_def)
qed

lemma system_ok_handle:
  assumes "system_ok sh join_untyped base s" "x \<in> set (st_handles s)"
  obtains t where "live (sys_streams (st_system s)) (handle_addr x) = Some t"
  using assms handles_of_pos [OF assms(2)] heap_okD(7) unfolding system_ok_def by blast

lemma system_ok_clone:
  assumes ok: "system_ok sh join_untyped base s" and x: "x \<in> set (st_handles s)" "handle_addr y = handle_addr x"
  shows "system_ok sh join_untyped base
    (s\<lparr>st_system := PublisherFactory_clone (handle_addr x) (st_system s), st_handles := y # st_handles s\<rparr>)"
proof -
  obtain t where "live (sys_streams (st_system s)) (handle_addr x) = Some t" using system_ok_handle [OF ok x(1)] .
  moreover have "(handles_of (st_handles s))(handle_addr x := Suc (handles_of (st_handles s) (handle_addr x)))
    = handles_of (y # st_handles s)" using x(2) by (auto simp: fun_eq_iff)
  ultimately show ?thesis
    using ok heap_ok_clone by (fastforce simp: system_ok_def PublisherFactory_clone_def)
qed

lemma system_ok_release:
  assumes ok: "system_ok sh join_untyped base s" and x: "st_handles s = xs @ x # ys"
  shows "system_ok sh join_untyped base
    (s\<lparr>st_system := PublisherFactory_drop sh (handle_addr x) (st_system s), st_handles := xs @ ys\<rparr>)"
proof -
  obtain t where t: "live (sys_streams (st_system s)) (handle_addr x) = Some t"
    using system_ok_handle [OF ok, of x] x by auto
  have "(handles_of (st_handles s))(handle_addr x := handles_of (st_handles s) (handle_addr x) - 1)
    = handles_of (xs @ ys)" unfolding x by (auto simp: fun_eq_iff)
  then show ?thesis
    using ok heap_ok_drop [OF _ t, of sh join_untyped base] by (fastforce simp: system_ok_def PublisherFactory_drop_def)
qed

lemma system_ok_use:
  assumes ok: "system_ok sh join_untyped base s" and f: "harmless sh join_untyped base f"
    and call: "with_stream a f d (st_system s) = (x, sys')"
  shows "system_ok sh join_untyped base (s\<lparr>st_system := sys'\<rparr>)"
  using ok heap_ok_with_stream [OF _ f call, of "st_systems s" "handles_of (st_handles s)"] by (simp add: system_ok_def)

lemma system_ok_same_handles:
  "system_ok sh join_untyped base s \<Longrightarrow> map handle_addr hs = map handle_addr (st_handles s) \<Longrightarrow>
   system_ok sh join_untyped base (s\<lparr>st_handles := hs\<rparr>)"
  by (simp add: system_ok_def handles_of_def [abs_def])

lemma astep_system_ok:
  assumes "astep sh s s'" "system_ok sh join_untyped base s" "queue_identity_laws sh join_untyped"
  shows "system_ok sh join_untyped base s'"
  using assms(1,2)
proof (induction rule: astep.induct)
  case (create_stream s n schema cfg a sys')
  then show ?case by (intro system_ok_create(1))
next
  case (create_stream_fails s n schema cfg e sys')
  then show ?case by (intro system_ok_create(2))
next
  case (set_policy s policy sys')
  then show ?case
    using heap_ok_policy by (auto simp: EventSystem_set_stream_policy_def system_ok_def split: prod.splits)
next
  case (clone_system s)
  then show ?case using heap_ok_systems(1) by (auto simp: EventSystem_clone_def system_ok_def)
next
  case (drop_system s)
  then show ?case using heap_ok_systems(2) by (auto simp: EventSystem_drop_def system_ok_def)
next
  case (clone_factory a s)
  then show ?case using system_ok_clone [of sh join_untyped base s "Factory a" "Factory a"] by simp
next
  case (drop_factory s xs a ys)
  then show ?case using system_ok_release [of sh join_untyped base s xs "Factory a" ys] by simp
next
  case (create_publisher a s pub sys')
  obtain sys1 where sys1: "with_stream a (try_create_publisher sh) None (st_system s) = (Some pub, sys1)"
    "sys' = PublisherFactory_clone a sys1"
    using create_publisher(2) by (auto simp: PublisherFactory_try_create_publisher_def split: prod.splits option.splits)
  have "system_ok sh join_untyped base (s\<lparr>st_system := sys1\<rparr>)"
    by (rule system_ok_use [OF create_publisher(3) harmless_operations(1) [OF assms(3)] sys1(1)])
  from system_ok_clone [OF this, of "Factory a" "PublisherOf a pub"] create_publisher(1)
  show ?case by (simp add: sys1(2))
next
  case (is_enabled s xs a pub ys r' pub' sys')
  from system_ok_same_handles [OF system_ok_use [OF is_enabled(3) harmless_operations(4) [OF assms(3)]
      is_enabled(2) [unfolded System_is_enabled_def]], of "xs @ PublisherOf a pub' # ys"] is_enabled(1)
  show ?case by simp
next
  case (drop_publisher s xs a pub ys)
  obtain x sys1 where sys1: "with_stream a (\<lambda>es w. ((), Publisher_drop sh pub es w)) () (st_system s) = (x, sys1)" by (metis prod.collapse)
  have "system_ok sh join_untyped base (s\<lparr>st_system := sys1\<rparr>)"
    by (rule system_ok_use [OF drop_publisher(2) harmless_operations(5) [OF assms(3)] sys1])
  from system_ok_release [OF this, of xs "PublisherOf a pub" ys] drop_publisher(1)
  show ?case by (simp add: System_drop_publisher_def sys1)
qed

lemma sstep_system_ok:
  assumes "sstep sh s s'" "system_ok sh join_untyped base s" "queue_identity_laws sh join_untyped"
  shows "system_ok sh join_untyped base s'"
  using assms(1,2)
proof (induction rule: sstep.induct)
  case (quiet s s')
  then show ?case by (rule astep_system_ok [OF _ _ assms(3)])
next
  case (publish s xs a pub ys serialize_into event r pub' sys')
  from system_ok_same_handles [OF system_ok_use [OF publish(3) harmless_operations(2) [OF assms(3)]
      publish(2) [unfolded System_publish_def]], of "xs @ PublisherOf a pub' # ys"] publish(1)
  show ?case by simp
next
  case (publish_batch s xs a pub ys serialize_into events r pub' sys')
  from system_ok_same_handles [OF system_ok_use [OF publish_batch(3) harmless_operations(3) [OF assms(3)]
      publish_batch(2) [unfolded System_publish_batch_def]], of "xs @ PublisherOf a pub' # ys"] publish_batch(1)
  show ?case by simp
qed

lemma live_empty [simp]: "live \<lparr>arc_cells = Map.empty, arc_next = k, arc_world = x\<rparr> = Map.empty"
  by (simp add: live_def fun_eq_iff)

lemma sreachable_system_ok:
  assumes laws: "queue_laws sh join_untyped" and "sreachable sh path s"
  shows "system_ok sh join_untyped path s"
  using assms(2)
proof induction
  case (init w sys w')
  obtain base where create: "EventSystemDirectory_create path w = (Ok base, w')"
    and sys: "sys = \<lparr>sys_event_system_directory = base, sys_stream_policy_manager = StreamPolicyManager_default,
      sys_streams = \<lparr>arc_cells = Map.empty, arc_next = 0, arc_world = (w', 1)\<rparr>\<rparr>"
    using init(3) by (auto simp: EventSystem_new_def p_bind_Ok_iff)
  have lay: "base = path" "layout sh join_untyped path Map.empty w'"
    using layout_new [OF init(1,2) create] by auto
  have "streams_ok sh join_untyped path Map.empty (w', 1)"
    using laws lay(2) by (auto simp: streams_ok_def names_unique_def represents_def intro!: exI [of _ Map.empty])
  then show ?case
    by (auto simp: system_ok_def heap_ok_def sys lay(1) arcs_ok_def strong_count_def handles_of_def [abs_def])
next
  case (step s s')
  show ?case
    using laws by (intro sstep_system_ok [OF step(2,3)]) (simp add: queue_laws_def)
qed

section \<open>Claims\<close>

text \<open>The live streams of an event system, and those that are enabled.\<close>

definition live_streams :: "'b EventSystem \<Rightarrow> nat \<rightharpoonup> typed_stream" where
  "live_streams sys = live (sys_streams sys)"

definition system_world :: "'b EventSystem \<Rightarrow> 'b world" where
  "system_world sys = fst (arc_world (sys_streams sys))"

text \<open>
  C27. The stream policy is in force at every moment of an event system's life. In every state that any
  sequence of operations reaches (creating streams, setting policies, cloning and dropping factories,
  publishers and event-system handles, publishing), as long as the event system has a handle: every live
  stream whose rule is off has no queue, every live stream whose rule is on has a queue unless its queue or
  schema cannot be created at all, and no two live streams share a name.
\<close>

theorem policy_in_force:
  assumes "queue_laws sh join_untyped" "sreachable sh path s" "0 < st_systems s"
    and "live_streams (st_system s) a = Some t"
  shows "(stream_rule (spm_stream_policy (sys_stream_policy_manager (st_system s))) (stream_name_of t) = Off
        \<longrightarrow> es_queue (ts_stream t) = None)
    \<and> (stream_rule (spm_stream_policy (sys_stream_policy_manager (st_system s))) (stream_name_of t) = On
        \<and> stream_creatable sh t \<longrightarrow> es_queue (ts_stream t) \<noteq> None)
    \<and> (\<forall>b u. live_streams (st_system s) b = Some u \<and> stream_name_of u = stream_name_of t \<longrightarrow> b = a)"
proof -
  have ok: "heap_ok sh join_untyped path (sys_stream_policy_manager (st_system s)) (sys_streams (st_system s))
      (st_systems s) (handles_of (st_handles s))"
    using sreachable_system_ok [OF assms(1,2)] by (simp add: system_ok_def)
  note parts = heap_okD [OF ok]
  have t: "live (sys_streams (st_system s)) a = Some t" using assms(4) by (simp add: live_streams_def)
  have "stream_obeys sh (spm_stream_policy (sys_stream_policy_manager (st_system s))) t"
    using parts(6) [OF assms(3) t] by blast
  moreover have "names_unique (live (sys_streams (st_system s)))"
    using parts(5) parts(8) [OF t] by (simp add: streams_ok_def)
  ultimately show ?thesis
    using t by (auto simp: stream_obeys_def stream_enabled_def live_streams_def names_unique_def)
qed

lemma reachable_streams_ok:
  assumes "queue_laws sh join_untyped" "sreachable sh path s" "live_streams (st_system s) \<noteq> Map.empty \<or> 0 < st_systems s"
  shows "streams_ok sh join_untyped path (live_streams (st_system s)) (arc_world (sys_streams (st_system s)))"
proof -
  have ok: "heap_ok sh join_untyped path (sys_stream_policy_manager (st_system s)) (sys_streams (st_system s))
      (st_systems s) (handles_of (st_handles s))"
    using sreachable_system_ok [OF assms(1,2)] by (simp add: system_ok_def)
  have "0 < snd (arc_world (sys_streams (st_system s)))"
    using assms(3) heap_okD(2,4) [OF ok] by (auto simp: live_streams_def card_gt_0_iff)
  then show ?thesis using heap_okD(5) [OF ok] by (simp add: live_streams_def)
qed

lemma represents_entry:
  assumes "represents E lv"
  shows "E n = Some (enc, q) \<longleftrightarrow>
    (\<exists>a t. lv a = Some t \<and> stream_name_of t = n \<and> ts_schema t = Ok enc \<and> es_queue (ts_stream t) = Some q)"
proof
  assume n: "E n = Some (enc, q)"
  then have "\<not> (\<forall>a t. lv a = Some t \<longrightarrow> stream_name_of t \<noteq> n)"
    using assms unfolding represents_def by fastforce
  then obtain a t where t: "lv a = Some t" "stream_name_of t = n" by blast
  then have "entry_of t = Some (enc, q)" using assms n unfolding represents_def by auto
  then show "\<exists>a t. lv a = Some t \<and> stream_name_of t = n \<and> ts_schema t = Ok enc \<and> es_queue (ts_stream t) = Some q"
    using t by (auto simp: entry_of_Some)
next
  assume "\<exists>a t. lv a = Some t \<and> stream_name_of t = n \<and> ts_schema t = Ok enc \<and> es_queue (ts_stream t) = Some q"
  then show "E n = Some (enc, q)" using assms unfolding represents_def by (auto simp: entry_of_def)
qed

text \<open>
  C28. Subscribers see exactly the enabled streams. In every reachable state of an event system that
  has a handle or a live stream, exploring its directory lists a stream if and only if a live stream of that
  name is enabled, with that stream's schema and a handle on that stream's current queue: nothing stale,
  nothing half-created, nothing missing. (Schemas decode; the laws of the queue library hold; the
  operating system refuses no call.)
\<close>

theorem subscribers_see_enabled_streams:
  assumes "queue_laws sh join_untyped" "sreachable sh path s"
    and "live_streams (st_system s) \<noteq> Map.empty \<or> 0 < st_systems s"
    and "\<And>a t enc. live_streams (st_system s) a = Some t \<Longrightarrow> ts_schema t = Ok enc \<Longrightarrow> deserialize enc = Ok (decode enc)"
  shows "set (available_streams sh join_untyped deserialize (system_world (st_system s)) path)
    = {\<lparr>av_stream_name = stream_name_of t, av_schema = decode enc, av_broadcast_handle = sq_broadcast q\<rparr>
        | a t enc q. live_streams (st_system s) a = Some t \<and> ts_schema t = Ok enc \<and> es_queue (ts_stream t) = Some q}"
    (is "?A = ?B")
proof -
  note so = reachable_streams_ok [OF assms(1-3)]
  obtain E where E: "represents E (live_streams (st_system s))"
    "layout sh join_untyped path E (system_world (st_system s))"
    unfolding system_world_def by (rule streams_okE [OF so])
  note entry = represents_entry [OF E(1)]
  define schema_of where "schema_of n = decode (fst (the (E n)))" for n
  have good: "valid_name (as_str n) \<and> deserialize enc = Ok (schema_of n)" if "E n = Some (enc, q)" for n enc q
    using that entry [of n enc q] assms(4) so by (auto simp: streams_ok_def schema_of_def)
  have "?A = {\<lparr>av_stream_name = n, av_schema = schema_of n, av_broadcast_handle = sq_broadcast q\<rparr>
      | n enc q. E n = Some (enc, q)}" by (rule layout_available [OF E(2)]) (rule good)
  also have "\<dots> = {\<lparr>av_stream_name = n, av_schema = decode enc, av_broadcast_handle = sq_broadcast q\<rparr>
      | n enc q. E n = Some (enc, q)}" by (auto simp: schema_of_def)
  also have "\<dots> = ?B" unfolding entry by blast
  finally show ?thesis .
qed

text \<open>
  C31. The directory is emptied when everything is dropped. In every reachable state with no handle of the
  event system and no live stream, both directories that the event system made, and everything in them, are
  gone; as long as a factory or a publisher is left, its stream is live.
\<close>

theorem directory_emptied:
  assumes "queue_laws sh join_untyped" "sreachable sh path s"
  shows "(st_systems s = 0 \<and> st_handles s = [] \<longrightarrow>
      absent (w_files (system_world (st_system s))) (path @ [STAGING_DIRECTORY_NAME])
      \<and> absent (w_files (system_world (st_system s))) (path @ [STREAMS_DIRECTORY_NAME]))
    \<and> (\<forall>x \<in> set (st_handles s). live_streams (st_system s) (handle_addr x) \<noteq> None)"
proof
  have ok: "heap_ok sh join_untyped path (sys_stream_policy_manager (st_system s)) (sys_streams (st_system s))
      (st_systems s) (handles_of (st_handles s))"
    using sreachable_system_ok [OF assms] by (simp add: system_ok_def)
  note parts = heap_okD [OF ok]
  show "\<forall>x \<in> set (st_handles s). live_streams (st_system s) (handle_addr x) \<noteq> None"
    using parts(7) [OF handles_of_pos] unfolding live_streams_def by blast
  show "st_systems s = 0 \<and> st_handles s = [] \<longrightarrow>
      absent (w_files (system_world (st_system s))) (path @ [STAGING_DIRECTORY_NAME])
      \<and> absent (w_files (system_world (st_system s))) (path @ [STREAMS_DIRECTORY_NAME])"
  proof
    assume none: "st_systems s = 0 \<and> st_handles s = []"
    have "live (sys_streams (st_system s)) a = None" for a
      using strong_count_live [OF parts(1), of a] parts(3) none by simp
    then have "dom (live (sys_streams (st_system s))) = {}" by auto
    then have "snd (arc_world (sys_streams (st_system s))) = 0" using parts(4) none by simp
    then show "absent (w_files (system_world (st_system s))) (path @ [STAGING_DIRECTORY_NAME])
      \<and> absent (w_files (system_world (st_system s))) (path @ [STREAMS_DIRECTORY_NAME])"
      using ok by (simp add: heap_ok_def system_world_def)
  qed
qed

section \<open>A run\<close>

lemma ring_queue_laws: "queue_laws ring_shaq ring_join"
proof -
  have "queue_identity_laws ring_shaq ring_join"
    by (auto simp: queue_identity_laws_def keeps_identity_def ring_shaq_def ring_join_def split: list.splits)
  then show ?thesis by (simp add: queue_laws_def ring_laws)
qed

definition empty_world :: "'b world" where
  "empty_world = \<lparr>w_files = [], w_faults = [], w_random = [7], w_pid = 1, w_fds = [], w_mem = Map.empty, w_next_mem = 0\<rparr>"

definition everything_on :: StreamPolicy where
  "everything_on = \<lparr>default_rule = On, prefix_rules_sorted_by_length = []\<rparr>"

text \<open>The states after creating the system and, while streams are off by default, a stream.\<close>

definition example_manager :: "nat list \<Rightarrow> StreamPolicy \<Rightarrow> StreamPolicyManager" where
  "example_manager streams policy = \<lparr>spm_streams = streams, spm_stream_policy = policy\<rparr>"

definition example_typed :: typed_stream where
  "example_typed = \<lparr>ts_schema = Ok [1, 2], ts_stream = EventStream_new example_base example_name example_config\<rparr>"

definition example_system :: "'b world \<Rightarrow> 'b EventSystem" where
  "example_system w = \<lparr>sys_event_system_directory = example_base,
     sys_stream_policy_manager = example_manager [] StreamPolicy_default,
     sys_streams = \<lparr>arc_cells = Map.empty, arc_next = 0, arc_world = (w, 1)\<rparr>\<rparr>"

definition example_system_with_stream :: "'b world \<Rightarrow> 'b EventSystem" where
  "example_system_with_stream w = \<lparr>sys_event_system_directory = example_base,
     sys_stream_policy_manager = example_manager [0] StreamPolicy_default,
     sys_streams = \<lparr>arc_cells = [0 \<mapsto> (1, example_typed)], arc_next = 1, arc_world = (w, 2)\<rparr>\<rparr>"

lemma example_new: "\<exists>w. EventSystem_new example_base empty_world = (Ok (example_system w), w)"
  by (simp add: EventSystem_new_def EventSystemDirectory_create_def p_bind_def create_dir_all_def canonicalize_def
      create_dir_def on_files_def syscall_def add_node_def parent_is_dir_def node_at_def empty_world_def
      example_system_def example_manager_def StreamPolicyManager_default_def example_defs)

lemma example_create_stream:
  "EventSystem_create_stream sh (Ok [1, 2]) example_name example_config (example_system w)
     = (Ok 0, example_system_with_stream w)"
  by (simp add: EventSystem_create_stream_def example_system_def example_system_with_stream_def arc_new_def
      arc_clone_def register_new_stream_def prune_dead_streams_def example_manager_def upgrade_def name_in_use_def
      stream_trait_def stream_rule_def StreamPolicy_default_def StreamRule_default_def apply_stream_rule_def
      EventStream_new_def arc_set_def arc_drop_def example_typed_def Let_def)

lemma example_files: "files_ok (w_files empty_world)" "w_faults empty_world = []"
  by (simp_all add: files_ok_def empty_world_def node_at_def)

text \<open>A system with a stream, and the same after everything is switched on, for any queue library.\<close>

abbreviation example_state :: "'b EventSystem \<Rightarrow> 'p handle list \<Rightarrow> ('b, 'p) sstate" where
  "example_state sys hs \<equiv> \<lparr>st_system = sys, st_systems = 1, st_handles = hs\<rparr>"

lemma example_with_stream:
  "astep sh (example_state (example_system w) []) (example_state (example_system_with_stream w) [Factory 0])"
  using astep.create_stream [of "example_state (example_system w) []" example_name sh "Ok [1, 2]" example_config 0]
    example_create_stream [of sh w] example_name_valid by simp

lemma example_set_policy:
  assumes laws: "queue_laws sh join_untyped" and good: "queue_creatable sh example_config"
    and run: "sreachable sh example_base (example_state (example_system_with_stream w) [Factory 0])"
  obtains sys' t where "EventSystem_set_stream_policy sh everything_on (example_system_with_stream w) = (Ok (), sys')"
    "live_streams sys' = [0 \<mapsto> t]" "stream_name_of t = example_name" "ts_schema t = Ok [1, 2]" "stream_creatable sh t"
    "spm_stream_policy (sys_stream_policy_manager sys') = everything_on"
    "es_remaining_publisher_slots (ts_stream t) = 1"
proof -
  have lv: "live_streams (example_system_with_stream w) = [0 \<mapsto> example_typed]"
    by (auto simp: live_streams_def live_def example_system_with_stream_def)
  have so: "streams_ok sh join_untyped example_base [0 \<mapsto> example_typed] (w, 2)"
    using reachable_streams_ok [OF laws run] lv by (simp add: example_system_with_stream_def)
  have good': "stream_creatable sh example_typed"
    using good by (simp add: stream_creatable_def example_typed_def EventStream_new_def)
  obtain r stream' w' where rule: "apply_stream_rule sh (Ok [1, 2]) On (ts_stream example_typed, w) = (r, (stream', w'))"
    by (metis prod.collapse)
  have r: "r = Ok ()"
    by (rule rule_works_quiet [OF so, of 0 example_typed On r stream' w'])
      (use good' rule in \<open>simp_all add: example_typed_def\<close>)
  note stream' = apply_stream_rule_stream [OF rule]
  have slots: "es_remaining_publisher_slots stream' = 1"
    using rule r by (auto simp: apply_stream_rule_def example_typed_def EventStream_new_def bump_generation_def
        example_config_def split: outcome.splits prod.splits)
  define sys' where "sys' = (example_system_with_stream w)\<lparr>sys_stream_policy_manager := example_manager [0] everything_on,
    sys_streams := \<lparr>arc_cells = [0 \<mapsto> (1, example_typed\<lparr>ts_stream := stream'\<rparr>)], arc_next = 1, arc_world = (w', 2)\<rparr>\<rparr>"
  have set: "EventSystem_set_stream_policy sh everything_on (example_system_with_stream w) = (Ok (), sys')"
    using rule r
    by (simp add: EventSystem_set_stream_policy_def example_system_with_stream_def set_stream_policy_def
        prune_dead_streams_def strong_count_def example_manager_def upgrade_def stream_trait_def stream_rule_def
        everything_on_def arc_set_def sys'_def example_typed_def Let_def)
  have "live_streams sys' = [0 \<mapsto> example_typed\<lparr>ts_stream := stream'\<rparr>]"
    by (auto simp: live_streams_def live_def sys'_def)
  then show thesis
    using that [OF set] stream' good' slots
    by (simp add: sys'_def example_manager_def example_system_with_stream_def stream_creatable_def example_typed_def
        EventStream_new_def)
qed

text \<open>The two steps, for any notion of reachability.\<close>

lemma example_on:
  fixes sh :: "('b, 'p) shaq"
  assumes laws: "queue_laws sh join_untyped" and good: "queue_creatable sh example_config"
  obtains w :: "'b world" and sys' t where "EventSystem_new example_base empty_world = (Ok (example_system w), w)"
    "astep sh (example_state (example_system_with_stream w) [Factory 0]) (example_state sys' [Factory 0])"
    "sreachable sh example_base (example_state sys' [Factory 0])"
    "live_streams sys' = [0 \<mapsto> t]" "stream_name_of t = example_name" "ts_schema t = Ok [1, 2]" "stream_creatable sh t"
    "spm_stream_policy (sys_stream_policy_manager sys') = everything_on"
    "es_remaining_publisher_slots (ts_stream t) = 1" "stream_enabled t"
proof -
  obtain w :: "'b world" where new: "EventSystem_new example_base empty_world = (Ok (example_system w), w)"
    using example_new by blast
  have "sreachable sh example_base (example_state (example_system w) [])"
    by (rule sreachable.init [OF example_files new])
  from sreachable.step [OF this sstep.quiet [OF example_with_stream]]
  have run: "sreachable sh example_base (example_state (example_system_with_stream w) [Factory 0])" .
  obtain sys' t where set: "EventSystem_set_stream_policy sh everything_on (example_system_with_stream w) = (Ok (), sys')"
    and t: "live_streams sys' = [0 \<mapsto> t]" "stream_name_of t = example_name" "ts_schema t = Ok [1, 2]" "stream_creatable sh t"
      "spm_stream_policy (sys_stream_policy_manager sys') = everything_on" "es_remaining_publisher_slots (ts_stream t) = 1"
    by (rule example_set_policy [OF laws good run])
  have step: "astep sh (example_state (example_system_with_stream w) [Factory 0]) (example_state sys' [Factory 0])"
    using astep.set_policy [of "example_state (example_system_with_stream w) [Factory 0]" sh everything_on sys'] set by simp
  have reach: "sreachable sh example_base (example_state sys' [Factory 0])"
    by (rule sreachable.step [OF run sstep.quiet [OF step]])
  have "heap_ok sh join_untyped example_base (sys_stream_policy_manager sys') (sys_streams sys') 1
      (handles_of [Factory 0 :: 'p handle])"
    using sreachable_system_ok [OF laws reach] by (simp add: system_ok_def)
  from heap_okD(6) [OF this, of 0 t] t have "stream_enabled t"
    by (simp add: live_streams_def stream_obeys_def stream_rule_def everything_on_def)
  then show thesis using that [OF new step reach t] by blast
qed

lemma ring_creatable: "queue_creatable ring_shaq example_config"
  by (simp add: queue_creatable_def example_config_def ring_shaq_def)

lemma example_switched_on:
  obtains s t where "sreachable ring_shaq example_base s" "0 < st_systems s" "st_handles s = [Factory 0]"
    "live_streams (st_system s) = [0 \<mapsto> t]" "stream_name_of t = example_name" "ts_schema t = Ok [1, 2]"
    "stream_creatable ring_shaq t" "spm_stream_policy (sys_stream_policy_manager (st_system s)) = everything_on"
proof (rule example_on [OF ring_queue_laws ring_creatable])
  fix w sys' t
  assume "sreachable ring_shaq example_base (example_state sys' [Factory 0])" "live_streams sys' = [0 \<mapsto> t]"
    "stream_name_of t = example_name" "ts_schema t = Ok [1, 2]" "stream_creatable ring_shaq t"
    "spm_stream_policy (sys_stream_policy_manager sys') = everything_on"
  then show thesis using that [of "example_state sys' [Factory 0]" t] by simp
qed

theorem policy_in_force_witness:
  "\<exists>s t. sreachable ring_shaq example_base s \<and> 0 < st_systems s \<and> live_streams (st_system s) 0 = Some t
     \<and> stream_rule (spm_stream_policy (sys_stream_policy_manager (st_system s))) (stream_name_of t) = On
     \<and> es_queue (ts_stream t) \<noteq> None"
proof -
  obtain s t where s: "sreachable ring_shaq example_base s" "0 < st_systems s"
    "live_streams (st_system s) = [0 \<mapsto> t]" "stream_creatable ring_shaq t"
    "spm_stream_policy (sys_stream_policy_manager (st_system s)) = everything_on"
    by (rule example_switched_on)
  have lv: "live_streams (st_system s) 0 = Some t" using s(3) by simp
  have on: "stream_rule everything_on n = On" for n by (simp add: stream_rule_def everything_on_def)
  from policy_in_force [OF ring_queue_laws s(1,2) lv] s(4,5) on have "es_queue (ts_stream t) \<noteq> None" by simp
  then show ?thesis using s lv on by (intro exI [of _ s] exI [of _ t]) simp
qed

theorem subscribers_see_enabled_streams_witness:
  "\<exists>s q. sreachable ring_shaq example_base s \<and>
     set (available_streams ring_shaq ring_join Ok (system_world (st_system s)) example_base)
       = {\<lparr>av_stream_name = example_name, av_schema = [1, 2], av_broadcast_handle = q\<rparr>}"
proof -
  obtain s t where s: "sreachable ring_shaq example_base s" "0 < st_systems s"
    "live_streams (st_system s) = [0 \<mapsto> t]" "stream_name_of t = example_name" "ts_schema t = Ok [1, 2]"
    "stream_creatable ring_shaq t" "spm_stream_policy (sys_stream_policy_manager (st_system s)) = everything_on"
    by (rule example_switched_on)
  have on: "stream_rule everything_on n = On" for n by (simp add: stream_rule_def everything_on_def)
  have lv: "live_streams (st_system s) 0 = Some t" using s(3) by simp
  have ok: "heap_ok ring_shaq ring_join example_base (sys_stream_policy_manager (st_system s)) (sys_streams (st_system s))
      (st_systems s) (handles_of (st_handles s))"
    using sreachable_system_ok [OF ring_queue_laws s(1)] by (simp add: system_ok_def)
  have "stream_enabled t"
    using heap_okD(6) [OF ok s(2), of 0 t] lv on s(6,7) by (simp add: live_streams_def stream_obeys_def)
  then obtain q where q: "es_queue (ts_stream t) = Some q" by (auto simp: stream_enabled_def)
  have "set (available_streams ring_shaq ring_join Ok (system_world (st_system s)) example_base)
       = {\<lparr>av_stream_name = example_name, av_schema = [1, 2], av_broadcast_handle = sq_broadcast q\<rparr>}"
    using subscribers_see_enabled_streams [OF ring_queue_laws s(1), where decode = "\<lambda>enc. enc" and deserialize = Ok]
      s(2-5) q by auto
  then show ?thesis using s(1) by blast
qed

theorem directory_emptied_witness:
  "\<exists>s :: (ring, nat) sstate. sreachable ring_shaq example_base s \<and> st_systems s = 0 \<and> st_handles s = []
     \<and> absent (w_files (system_world (st_system s))) (example_base @ [STREAMS_DIRECTORY_NAME])"
proof -
  obtain s t where s: "sreachable ring_shaq example_base s" "0 < st_systems s" "st_handles s = [Factory 0]"
    by (rule example_switched_on)
  have drop: "\<exists>s' :: (ring, nat) sstate. sreachable ring_shaq example_base s' \<and> st_systems s' = 0 \<and> st_handles s' = st_handles s"
    if "sreachable ring_shaq example_base s" for s :: "(ring, nat) sstate"
    using that
  proof (induction "st_systems s" arbitrary: s)
    case (Suc k)
    have "sreachable ring_shaq example_base (s\<lparr>st_system := EventSystem_drop (st_system s), st_systems := st_systems s - 1\<rparr>)"
      by (rule sreachable.step [OF Suc(3) sstep.quiet [OF astep.drop_system]]) (use Suc(2) in simp)
    from Suc(1) [OF _ this] Suc(2) show ?case by auto
  qed auto
  let ?s = "s\<lparr>st_system := PublisherFactory_drop ring_shaq 0 (st_system s), st_handles := []\<rparr>"
  have "sreachable ring_shaq example_base ?s"
    using sreachable.step [OF s(1) sstep.quiet [OF astep.drop_factory [of s "[]" 0 "[]"]]] s(3) by simp
  from drop [OF this] obtain s' :: "(ring, nat) sstate" where
    s': "sreachable ring_shaq example_base s'" "st_systems s' = 0" "st_handles s' = []" by auto
  with directory_emptied [OF ring_queue_laws s'(1)] show ?thesis by blast
qed

end
