(* ===== verification/Event_Dispatch.thy ===== *)
theory Event_Dispatch
  imports Event_System
begin

text \<open>
  The public types of the event-system crate (\<open>event_system.rs\<close>, \<open>publisher_factory.rs\<close>,
  \<open>publisher.rs\<close>), which dispatch to the platform's implementation or to the stub of \<open>backend/stub.rs\<close>, and the
  size of a queue cell (\<open>queue_cell.rs\<close>).
\<close>

section \<open>The stub\<close>

datatype StubEventSystem = StubEventSystem
datatype StubPublisherFactory = StubPublisherFactory
datatype StubPublisher = StubPublisher

definition stub_new :: "path \<Rightarrow> (io_error, StubEventSystem) outcome" where
  "stub_new event_system_directory = Ok StubEventSystem"

definition stub_create_stream ::
    "StubEventSystem \<Rightarrow> StreamName \<Rightarrow> StreamConfig \<Rightarrow> (CreateStreamError, StubPublisherFactory) outcome" where
  "stub_create_stream self stream_name stream_config = Ok StubPublisherFactory"

definition stub_try_create_publisher :: "StubPublisherFactory \<Rightarrow> StubPublisher option" where
  "stub_try_create_publisher self = Some StubPublisher"

definition stub_publish :: "StubPublisher \<Rightarrow> 'ev \<Rightarrow> (PublishError, unit) outcome" where
  "stub_publish self event = Ok ()"

definition stub_publish_batch :: "StubPublisher \<Rightarrow> 'ev list \<Rightarrow> (PublishError, unit) outcome" where
  "stub_publish_batch self events = Ok ()"

definition stub_is_enabled :: "StubPublisher \<Rightarrow> bool" where
  "stub_is_enabled self = False"

section \<open>The public types\<close>

text \<open>An event system that is the stub still runs beside the state of the platform's, which it ignores.\<close>

datatype SystemBackend = Platform_system | Stub_system StubEventSystem
datatype FactoryBackend = Platform_factory nat | Stub_factory StubPublisherFactory
datatype 'p PublisherBackend = Platform_publisher nat "'p Publisher" | Stub_publisher StubPublisher

definition public_stub :: SystemBackend where
  "public_stub = Stub_system StubEventSystem"

definition public_create_stream ::
    "('b, 'p) shaq \<Rightarrow> (wincode_error, bytes) outcome \<Rightarrow> SystemBackend \<Rightarrow> StreamName \<Rightarrow> StreamConfig
      \<Rightarrow> ('b EventSystem, CreateStreamError, FactoryBackend) comp" where
  "public_create_stream sh schema self stream_name stream_config sys =
     (case self of
        Platform_system \<Rightarrow>
          (case EventSystem_create_stream sh schema stream_name stream_config sys of
             (Ok stream, sys') \<Rightarrow> (Ok (Platform_factory stream), sys')
           | (Err e, sys') \<Rightarrow> (Err e, sys') | (Panic, sys') \<Rightarrow> (Panic, sys') | (UB, sys') \<Rightarrow> (UB, sys'))
      | Stub_system backend \<Rightarrow>
          (r_bind (stub_create_stream backend stream_name stream_config) (\<lambda>f. Ok (Stub_factory f)), sys))"

definition public_set_stream_policy ::
    "('b, 'p) shaq \<Rightarrow> SystemBackend \<Rightarrow> StreamPolicy \<Rightarrow> ('b EventSystem, CreateStreamError, unit) comp" where
  "public_set_stream_policy sh self stream_policy sys =
     (case self of
        Platform_system \<Rightarrow> EventSystem_set_stream_policy sh stream_policy sys
      | Stub_system backend \<Rightarrow> (Ok (), sys))"

definition public_try_create_publisher ::
    "('b, 'p) shaq \<Rightarrow> FactoryBackend \<Rightarrow> 'b EventSystem \<Rightarrow> 'p PublisherBackend option \<times> 'b EventSystem" where
  "public_try_create_publisher sh self sys =
     (case self of
        Platform_factory stream \<Rightarrow>
          map_prod (map_option (Platform_publisher stream)) id (PublisherFactory_try_create_publisher sh stream sys)
      | Stub_factory backend \<Rightarrow> (map_option Stub_publisher (stub_try_create_publisher backend), sys))"

definition public_factory_clone :: "FactoryBackend \<Rightarrow> 'b EventSystem \<Rightarrow> FactoryBackend \<times> 'b EventSystem" where
  "public_factory_clone self sys =
     (case self of
        Platform_factory stream \<Rightarrow> (Platform_factory stream, PublisherFactory_clone stream sys)
      | Stub_factory backend \<Rightarrow> (Stub_factory StubPublisherFactory, sys))"

definition public_publisher_stub :: "'p PublisherBackend" where
  "public_publisher_stub = Stub_publisher StubPublisher"

definition public_publish ::
    "('b, 'p) shaq \<Rightarrow> ('ev \<Rightarrow> (wincode_error, bytes) outcome) \<Rightarrow> 'p PublisherBackend \<Rightarrow> 'ev \<Rightarrow> 'b EventSystem
      \<Rightarrow> ((PublishError, unit) outcome \<times> 'p PublisherBackend) \<times> 'b EventSystem" where
  "public_publish sh serialize_into self event sys =
     (case self of
        Platform_publisher stream inner \<Rightarrow>
          map_prod (map_prod id (Platform_publisher stream)) id (System_publish sh serialize_into stream inner event sys)
      | Stub_publisher inner \<Rightarrow> ((stub_publish inner event, self), sys))"

definition public_publish_batch ::
    "('b, 'p) shaq \<Rightarrow> ('ev \<Rightarrow> (wincode_error, bytes) outcome) \<Rightarrow> 'p PublisherBackend \<Rightarrow> 'ev list \<Rightarrow> 'b EventSystem
      \<Rightarrow> ((PublishError, unit) outcome \<times> 'p PublisherBackend) \<times> 'b EventSystem" where
  "public_publish_batch sh serialize_into self events sys =
     (case self of
        Platform_publisher stream inner \<Rightarrow>
          map_prod (map_prod id (Platform_publisher stream)) id
            (System_publish_batch sh serialize_into stream inner events sys)
      | Stub_publisher inner \<Rightarrow> ((stub_publish_batch inner events, self), sys))"

definition public_is_enabled ::
    "('b, 'p) shaq \<Rightarrow> 'p PublisherBackend \<Rightarrow> 'b EventSystem \<Rightarrow> (bool \<times> 'p PublisherBackend) \<times> 'b EventSystem" where
  "public_is_enabled sh self sys =
     (case self of
        Platform_publisher stream inner \<Rightarrow>
          map_prod (map_prod id (Platform_publisher stream)) id (System_is_enabled sh stream inner sys)
      | Stub_publisher inner \<Rightarrow> ((stub_is_enabled inner, self), sys))"

section \<open>Queue cells\<close>

datatype SerializedSize = Static usize | Dynamic usize

definition event_queue_cell_size :: "SerializedSize \<Rightarrow> usize option \<Rightarrow> (unit, usize) outcome" where
  "event_queue_cell_size sz max_serialized_size =
     (case sz of
        Static n \<Rightarrow> Ok n
      | Dynamic lower_bound \<Rightarrow>
          (case max_serialized_size of
             Some m \<Rightarrow> if m > lower_bound then Ok m else Panic
           | None \<Rightarrow> Panic))"

section \<open>The contract of a publisher\<close>

text \<open>
  Publishers promise that a call that fails sends nothing, and that a publisher that reports itself
  disabled sends nothing either when it is used next. Both backends keep the promise.
\<close>

definition system_log :: "('b \<Rightarrow> bytes list) \<Rightarrow> 'b EventSystem \<Rightarrow> nat \<Rightarrow> bytes list option" where
  "system_log log sys = log_at log (system_world sys)"

definition publisher_attached :: "'b EventSystem \<Rightarrow> 'p PublisherBackend \<Rightarrow> bool" where
  "publisher_attached sys p =
     (case p of
        Platform_publisher a inner \<Rightarrow>
          (case upgrade (sys_streams sys) a of None \<Rightarrow> False | Some s \<Rightarrow> attached (ts_stream s) inner)
      | Stub_publisher _ \<Rightarrow> True)"

lemma with_stream_Some:
  assumes "upgrade (sys_streams sys) a = Some s" "f (ts_stream s) (system_world sys) = (x, stream', w')"
  shows "with_stream a f d sys = (x, sys\<lparr>sys_streams :=
    arc_set a (s\<lparr>ts_stream := stream'\<rparr>) (w', snd (arc_world (sys_streams sys))) (sys_streams sys)\<rparr>)"
  using assms by (auto simp: with_stream_def system_world_def split: prod.splits)

lemma upgrade_arc_set: "upgrade h a = Some s \<Longrightarrow> upgrade (arc_set a s' w h) a = Some s'"
  by (auto simp: upgrade_def arc_set_def split: option.splits if_splits)

text \<open>A public publisher beside the event system, as one state.\<close>

definition as_state :: "('p \<Rightarrow> 's \<Rightarrow> ('a \<times> 'p) \<times> 's) \<Rightarrow> 'p \<times> 's \<Rightarrow> 'a \<times> ('p \<times> 's)" where
  "as_state f s = (case f (fst s) (snd s) of ((a, p), sys) \<Rightarrow> (a, (p, sys)))"

definition in_world :: "nat \<Rightarrow> typed_stream \<Rightarrow> 'b world \<Rightarrow> 'b EventSystem \<Rightarrow> 'b EventSystem" where
  "in_world a s w sys =
     sys\<lparr>sys_streams := arc_set a s (w, snd (arc_world (sys_streams sys))) (sys_streams sys)\<rparr>"

lemma in_world_facts:
  assumes "upgrade (sys_streams sys) a = Some s"
  shows "upgrade (sys_streams (in_world a s w sys)) a = Some s" "system_world (in_world a s w sys) = w"
  using upgrade_arc_set [OF assms] by (simp_all add: in_world_def system_world_def)

lemma platform_calls:
  assumes "upgrade (sys_streams sys) a = Some s"
  shows "as_state (public_is_enabled sh) (Platform_publisher a pub, sys) =
      map_prod id (\<lambda>(pub', w'). (Platform_publisher a pub', in_world a s w' sys))
        (Publisher_is_enabled sh (ts_stream s) pub (system_world sys))"
    "as_state (\<lambda>p. public_publish_batch sh serialize_into p events) (Platform_publisher a pub, sys) =
      map_prod id (\<lambda>(pub', w'). (Platform_publisher a pub', in_world a s w' sys))
        (publish_batch sh serialize_into (ts_stream s) events (pub, system_world sys))"
proof -
  obtain b pub' w' where "Publisher_is_enabled sh (ts_stream s) pub (system_world sys) = (b, pub', w')"
    by (metis prod.collapse)
  then show "as_state (public_is_enabled sh) (Platform_publisher a pub, sys) =
      map_prod id (\<lambda>(pub', w'). (Platform_publisher a pub', in_world a s w' sys))
        (Publisher_is_enabled sh (ts_stream s) pub (system_world sys))"
    by (simp add: as_state_def public_is_enabled_def System_is_enabled_def in_world_def with_stream_Some [OF assms])
  obtain r pub' w' where "publish_batch sh serialize_into (ts_stream s) events (pub, system_world sys) = (r, pub', w')"
    by (metis prod.collapse)
  then show "as_state (\<lambda>p. public_publish_batch sh serialize_into p events) (Platform_publisher a pub, sys) =
      map_prod id (\<lambda>(pub', w'). (Platform_publisher a pub', in_world a s w' sys))
        (publish_batch sh serialize_into (ts_stream s) events (pub, system_world sys))"
    by (simp add: as_state_def public_publish_batch_def System_publish_batch_def in_world_def with_stream_Some [OF assms])
qed

interpretation stub_publisher: event_publisher "\<lambda>s. (stub_is_enabled s, s)" "\<lambda>events s. (stub_publish_batch s events, s)"
    encode "\<lambda>_. True" "\<lambda>_ _. None"
  by unfold_locales (auto simp: stub_is_enabled_def stub_publish_batch_def)

text \<open>The public publisher keeps the contract because both backends do.\<close>

definition public_inv :: "('b, 'p) shaq \<Rightarrow> ('b \<Rightarrow> bytes list) \<Rightarrow> 'p PublisherBackend \<times> 'b EventSystem \<Rightarrow> bool" where
  "public_inv sh log s \<longleftrightarrow> queue_log_laws sh log \<and> publisher_attached (snd s) (fst s)"

lemma public_inv_cases:
  assumes "public_inv sh log s"
  obtains (stub) inner sys where "s = (Stub_publisher inner, sys)"
  | (platform) a pub sys st where "s = (Platform_publisher a pub, sys)" "upgrade (sys_streams sys) a = Some st"
      "queue_log_laws sh log \<and> attached (ts_stream st) pub"
proof (cases s)
  case (Pair p sys)
  then show thesis
    using assms that by (cases p) (auto simp: public_inv_def publisher_attached_def split: option.splits)
qed

lemma stub_calls:
  "as_state (public_is_enabled sh) (Stub_publisher inner, sys) = (stub_is_enabled inner, (Stub_publisher inner, sys))"
  "as_state (\<lambda>p. public_publish_batch sh serialize_into p events) (Stub_publisher inner, sys) =
     (stub_publish_batch inner events, (Stub_publisher inner, sys))"
  by (simp_all add: as_state_def public_is_enabled_def public_publish_batch_def)

lemma public_inv_platform:
  assumes "upgrade (sys_streams sys) a = Some st" "queue_log_laws sh log \<and> attached (ts_stream st) pub"
  shows "public_inv sh log (Platform_publisher a pub, in_world a st w sys)"
  using assms in_world_facts [OF assms(1)] by (simp add: public_inv_def publisher_attached_def)

lemma platform_is_enabledE:
  assumes "upgrade (sys_streams sys) a = Some st" "as_state (public_is_enabled sh) (Platform_publisher a pub, sys) = (b, s')"
  obtains pub' w' where "Publisher_is_enabled sh (ts_stream st) pub (system_world sys) = (b, pub', w')"
    "s' = (Platform_publisher a pub', in_world a st w' sys)"
  using assms(2) that unfolding platform_calls(1) [OF assms(1)]
  by (cases "Publisher_is_enabled sh (ts_stream st) pub (system_world sys)") auto

lemma platform_publish_batchE:
  assumes "upgrade (sys_streams sys) a = Some st"
    and "as_state (\<lambda>p. public_publish_batch sh serialize_into p events) (Platform_publisher a pub, sys) = (r, s')"
  obtains pub' w' where "publish_batch sh serialize_into (ts_stream st) events (pub, system_world sys) = (r, pub', w')"
    "s' = (Platform_publisher a pub', in_world a st w' sys)"
  using assms(2) that unfolding platform_calls(2) [OF assms(1)]
  by (cases "publish_batch sh serialize_into (ts_stream st) events (pub, system_world sys)") auto

abbreviation public_log :: "('b \<Rightarrow> bytes list) \<Rightarrow> 'p PublisherBackend \<times> 'b EventSystem \<Rightarrow> nat \<Rightarrow> bytes list option" where
  "public_log log s \<equiv> system_log log (snd s)"

lemma public_is_enabled_quiet:
  assumes s: "public_inv sh log s" and en: "as_state (public_is_enabled sh) s = (b, s')"
  shows "public_inv sh log s' \<and> public_log log s' = public_log log s"
  using s
proof (cases rule: public_inv_cases)
  case (platform a pub sys st)
  from en [unfolded platform(1)] obtain pub' w' where
    run: "Publisher_is_enabled sh (ts_stream st) pub (system_world sys) = (b, pub', w')"
    and s': "s' = (Platform_publisher a pub', in_world a st w' sys)"
    by (rule platform_is_enabledE [OF platform(2)])
  show ?thesis
    using linux_publisher.is_enabled_quiet [of sh log "ts_stream st" "(pub, system_world sys)" b "(pub', w')"] run
      platform public_inv_platform [OF platform(2), of sh log pub' w'] in_world_facts(2) [OF platform(2)]
    by (simp add: s' system_log_def)
qed (use en s in \<open>auto simp: stub_calls\<close>)

lemma public_publish_batch_whole:
  assumes s: "public_inv sh log s" and pb: "as_state (\<lambda>p. public_publish_batch sh serialize_into p events) s = (r, s')"
  shows "public_inv sh log s' \<and> (public_log log s' = public_log log s
    \<or> r = Ok () \<and> batch_sent (serialize_all serialize_into) events (public_log log s) (public_log log s'))"
  using s
proof (cases rule: public_inv_cases)
  case (platform a pub sys st)
  from pb [unfolded platform(1)] obtain pub' w' where
    run: "publish_batch sh serialize_into (ts_stream st) events (pub, system_world sys) = (r, pub', w')"
    and s': "s' = (Platform_publisher a pub', in_world a st w' sys)"
    by (rule platform_publish_batchE [OF platform(2)])
  show ?thesis
    using linux_publisher.publish_batch_whole [of sh log "ts_stream st" "(pub, system_world sys)" serialize_into events r "(pub', w')"]
      run platform public_inv_platform [OF platform(2), of sh log pub' w'] in_world_facts(2) [OF platform(2)]
    by (simp add: s' system_log_def)
qed (use pb s in \<open>auto simp: stub_calls\<close>)

text \<open>Asking whether a publisher is enabled and then publishing, on the platform.\<close>

lemma platform_bothE:
  assumes en: "as_state (public_is_enabled sh) (Platform_publisher a pub, sys) = (b, s')"
    and pb: "as_state (\<lambda>p. public_publish_batch sh serialize_into p events) s' = (r, s'')"
    and st: "upgrade (sys_streams sys) a = Some st"
  obtains pub' w' pub'' w'' where "Publisher_is_enabled sh (ts_stream st) pub (system_world sys) = (b, pub', w')"
    "publish_batch sh serialize_into (ts_stream st) events (pub', w') = (r, pub'', w'')" "public_log log s'' = log_at log w''"
proof -
  from en obtain pub' w' where
    run: "Publisher_is_enabled sh (ts_stream st) pub (system_world sys) = (b, pub', w')"
    and s': "s' = (Platform_publisher a pub', in_world a st w' sys)"
    by (rule platform_is_enabledE [OF st])
  note up = in_world_facts
  from pb [unfolded s'] obtain pub'' w'' where
    "publish_batch sh serialize_into (ts_stream st) events (pub', w') = (r, pub'', w'')"
    and "s'' = (Platform_publisher a pub'', in_world a st w'' (in_world a st w' sys))"
    by (rule platform_publish_batchE [OF up(1) [OF st], unfolded up(2) [OF st]])
  then show thesis using run up(2) [OF up(1) [OF st]] by (intro that) (auto simp: system_log_def)
qed

interpretation public_publisher: event_publisher "as_state (public_is_enabled sh)"
    "\<lambda>events. as_state (\<lambda>p. public_publish_batch sh serialize_into p events)" "serialize_all serialize_into"
    "public_inv sh log" "public_log log"
proof unfold_locales
  fix s s' s'' :: "'a PublisherBackend \<times> 'b EventSystem" and events r b
  let ?en = "as_state (public_is_enabled sh)" and ?pb = "as_state (\<lambda>p. public_publish_batch sh serialize_into p events)"
  assume s: "public_inv sh log s"
  show "public_inv sh log s' \<and> public_log log s' = public_log log s" if "?en s = (b, s')"
    by (rule public_is_enabled_quiet [OF s that])
  show "public_inv sh log s' \<and> (public_log log s' = public_log log s
      \<or> r = Ok () \<and> batch_sent (serialize_all serialize_into) events (public_log log s) (public_log log s'))" if "?pb s = (r, s')"
    by (rule public_publish_batch_whole [OF s that])
  show "r = Ok () \<and> public_log log s'' = public_log log s" if en: "?en s = (False, s')" and pb: "?pb s' = (r, s'')"
    using s
  proof (cases rule: public_inv_cases)
    case (platform a pub sys st)
    show ?thesis
      by (rule platform_bothE [OF en [unfolded platform(1)] pb platform(2), where log = log])
        (use linux_publisher.disabled_discards [of sh log "ts_stream st" "(pub, system_world sys)" _
          serialize_into events r] platform(1,3) in \<open>auto simp: system_log_def\<close>)
  qed (use en pb in \<open>auto simp: stub_calls stub_publish_batch_def\<close>)
  show "batch_sent (serialize_all serialize_into) events (public_log log s) (public_log log s'')"
    if en: "?en s = (True, s')" and pb: "?pb s' = (Ok (), s'')" and ne: "events \<noteq> []"
    using s
  proof (cases rule: public_inv_cases)
    case (platform a pub sys st)
    show ?thesis
      by (rule platform_bothE [OF en [unfolded platform(1)] pb platform(2), where log = log])
        (use linux_publisher.enabled_sends [of sh log "ts_stream st" "(pub, system_world sys)" _
          serialize_into events] platform(1,3) ne in \<open>auto simp: system_log_def\<close>)
  qed (use en in \<open>simp add: stub_calls stub_is_enabled_def\<close>)
qed

text \<open>
  C32. The promise of the public publisher type, whichever backend is behind it, over every sequence of calls
  on an attached publisher. The publisher stays attached, and each queue has at its end what it had before
  followed by whole batches, encoded: batches whose publication was reported as successful, in the order
  of the calls. After any such sequence, asking \<open>is_enabled\<close> sends nothing; if the answer was no, publishing a
  batch next succeeds and sends nothing; if publishing it fails, the answer was yes and no queue's messages
  changed; and if the answer was yes and a nonempty batch succeeds, it went, whole and in order, to the end
  of one queue and no other queue changed.
\<close>

theorem public_publisher_contract:
  assumes "queue_log_laws sh log" "publisher_attached sys p"
    and "publisher_calls (as_state (public_is_enabled sh)) (\<lambda>events. as_state (\<lambda>p. public_publish_batch sh serialize_into p events))
      calls (p, sys) = ((p0, sys0), succeeded)"
    and "public_is_enabled sh p0 sys0 = ((b, p'), sys')"
    and "public_publish_batch sh serialize_into p' events sys' = ((r, p''), sys'')"
  shows "publisher_attached sys'' p''
    \<and> (\<forall>obj msgs. system_log log sys obj = Some msgs \<longrightarrow>
        (\<exists>sent cells. subseq sent succeeded \<and> list_all2 (\<lambda>evs c. serialize_all serialize_into evs = Ok c) sent cells
           \<and> system_log log sys0 obj = Some (msgs @ concat cells)))
    \<and> system_log log sys' = system_log log sys0
    \<and> (\<not> b \<longrightarrow> r = Ok () \<and> system_log log sys'' = system_log log sys0)
    \<and> (r \<noteq> Ok () \<longrightarrow> b \<and> system_log log sys'' = system_log log sys0)
    \<and> (b \<and> r = Ok () \<and> events \<noteq> [] \<longrightarrow> (\<exists>obj cells msgs. serialize_all serialize_into events = Ok cells
        \<and> system_log log sys0 obj = Some msgs \<and> system_log log sys'' = (system_log log sys0)(obj \<mapsto> msgs @ cells)))"
proof -
  have inv: "public_inv sh log (p, sys)" using assms(1,2) by (simp add: public_inv_def)
  have calls: "as_state (public_is_enabled sh) (p0, sys0) = (b, (p', sys'))"
    "as_state (\<lambda>p. public_publish_batch sh serialize_into p events) (p', sys') = (r, (p'', sys''))"
    using assms(4,5) by (simp_all add: as_state_def)
  from public_publisher.calls_append [OF inv assms(3)] public_publisher.calls_contract [OF inv assms(3) calls]
  show ?thesis unfolding batch_sent_def public_inv_def by simp
qed

definition example_live_system :: "ring EventSystem" where
  "example_live_system = \<lparr>sys_event_system_directory = example_base,
     sys_stream_policy_manager = example_manager [0] everything_on,
     sys_streams = \<lparr>arc_cells = [0 \<mapsto> (1, \<lparr>ts_schema = Ok [1, 2], ts_stream = example_stream\<rparr>)], arc_next = 1,
       arc_world = (example_queue_world, 2)\<rparr>\<rparr>"

definition example_publisher :: "nat PublisherBackend" where
  "example_publisher = Platform_publisher 0 \<lparr>pub_queue_generation = 0, pub_producer = None\<rparr>"

lemma example_public_run:
  "\<exists>p0 sys0 p' sys' p'' sys''. publisher_calls (as_state (public_is_enabled ring_shaq))
       (\<lambda>events. as_state (\<lambda>p. public_publish_batch ring_shaq example_serialize p events)) [IsEnabled]
       (example_publisher, example_live_system) = ((p0, sys0), [])
     \<and> public_is_enabled ring_shaq p0 sys0 = ((True, p'), sys')
     \<and> public_publish_batch ring_shaq example_serialize p' [[1], [2, 3]] sys' = ((Ok (), p''), sys'')"
  by (simp add: as_state_def public_is_enabled_def public_publish_batch_def System_is_enabled_def System_publish_batch_def
      with_stream_def upgrade_def arc_set_def Publisher_is_enabled_def example_publisher_def example_live_system_def
      publish_run_defs)

theorem public_publisher_contract_witness:
  "\<exists>p0 sys0 p' sys' p'' sys'' obj msgs. publisher_calls (as_state (public_is_enabled ring_shaq))
       (\<lambda>events. as_state (\<lambda>p. public_publish_batch ring_shaq example_serialize p events)) [IsEnabled]
       (example_publisher, example_live_system) = ((p0, sys0), [])
     \<and> public_is_enabled ring_shaq p0 sys0 = ((True, p'), sys')
     \<and> public_publish_batch ring_shaq example_serialize p' [[1], [2, 3]] sys' = ((Ok (), p''), sys'')
     \<and> system_log ring_log sys'' obj = Some (msgs @ [[1], [2, 3]])"
proof -
  obtain p0 sys0 p' sys' p'' sys'' where
    r: "publisher_calls (as_state (public_is_enabled ring_shaq))
       (\<lambda>events. as_state (\<lambda>p. public_publish_batch ring_shaq example_serialize p events)) [IsEnabled]
       (example_publisher, example_live_system) = ((p0, sys0), [])"
      "public_is_enabled ring_shaq p0 sys0 = ((True, p'), sys')"
      "public_publish_batch ring_shaq example_serialize p' [[1], [2, 3]] sys' = ((Ok (), p''), sys'')"
    using example_public_run by blast
  have "publisher_attached example_live_system example_publisher"
    by (simp add: publisher_attached_def example_publisher_def example_live_system_def upgrade_def example_attached)
  moreover have "serialize_all example_serialize [[1], [2, 3]] = Ok [[1], [2, 3]]"
    by (simp add: example_serialize_def)
  ultimately have "\<exists>obj msgs. system_log ring_log sys'' obj = Some (msgs @ [[1], [2, 3]])"
    using public_publisher_contract [OF ring_log_laws _ r] by auto
  with r show ?thesis by blast
qed

end
