(* ===== verification/Event_Receive.thy ===== *)
theory Event_Receive
  imports Event_Subscriber Event_Stream
begin

text \<open>
  Receiving from a stream (\<open>Subscriber\<close>, \<open>StreamMessage\<close>, \<open>LanesMetadata\<close> and \<open>LaneMetadata\<close> of
  \<open>event-system/src/subscriber.rs\<close> and of both backends). The consuming half of the queue library is a record of
  functions that is a parameter, like its producing half; so are the decoders.
\<close>

section \<open>The consuming half of the queue\<close>

text \<open>A read yields the lane a message was published on and its bytes.\<close>

record LaneMetadata =
  lm_lane :: usize
  lm_rejected_items :: u64

record ('b, 'c) shaq_consumer =
  try_read :: "'c \<Rightarrow> 'b \<Rightarrow> ((LaneMetadata \<times> bytes) \<times> 'c \<times> 'b) option"
  read_timeout :: "'c \<Rightarrow> nat \<Rightarrow> 'b \<Rightarrow> ((LaneMetadata \<times> bytes) \<times> 'c \<times> 'b) option"
  producer_slots :: "'b \<Rightarrow> usize"
  lane_metadata_at :: "'b \<Rightarrow> usize \<Rightarrow> LaneMetadata option"

section \<open>Messages\<close>

datatype TryRecvError = Empty
datatype RecvTimeoutError = RecvTimeoutError

record 's StreamMessage =
  sm_schema :: 's
  sm_read_guard :: "LaneMetadata \<times> bytes"

definition payload :: "'s StreamMessage \<Rightarrow> bytes" where
  "payload self = snd (sm_read_guard self)"

definition message_lane_metadata :: "'s StreamMessage \<Rightarrow> LaneMetadata" where
  "message_lane_metadata self = fst (sm_read_guard self)"

definition recv_with ::
    "('c \<Rightarrow> 'b \<Rightarrow> ((LaneMetadata \<times> bytes) \<times> 'c \<times> 'b) option) \<Rightarrow> 'e
      \<Rightarrow> (('s, 'c) Subscriber \<times> 'b world, 'e, 's StreamMessage) comp" where
  "recv_with read e = (\<lambda>(self, w).
     case sub_slice_consumer self of (obj, c) \<Rightarrow>
       (case Option.bind (queue_of w obj) (read c) of
          None \<Rightarrow> (Err e, (self, w))
        | Some (read_guard, c', b) \<Rightarrow>
            (Ok \<lparr>sm_schema = sub_schema self, sm_read_guard = read_guard\<rparr>,
             (self\<lparr>sub_slice_consumer := (obj, c')\<rparr>, store_queue obj b w))))"

definition try_recv :: "('b, 'c) shaq_consumer \<Rightarrow> (('s, 'c) Subscriber \<times> 'b world, TryRecvError, 's StreamMessage) comp" where
  "try_recv cl = recv_with (try_read cl) Empty"

definition recv_timeout ::
    "('b, 'c) shaq_consumer \<Rightarrow> nat \<Rightarrow> (('s, 'c) Subscriber \<times> 'b world, RecvTimeoutError, 's StreamMessage) comp" where
  "recv_timeout cl timeout = recv_with (\<lambda>c. read_timeout cl c timeout) RecvTimeoutError"

text \<open>The metadata of the lanes, up to the first lane the queue has none for.\<close>

definition LanesMetadata_iter :: "('b, 'c) shaq_consumer \<Rightarrow> 'b \<Rightarrow> LaneMetadata list" where
  "LanesMetadata_iter cl broadcast_handle =
     map the (takeWhile (\<lambda>m. m \<noteq> None) (map (lane_metadata_at cl broadcast_handle) [0..<producer_slots cl broadcast_handle]))"

definition lanes_metadata :: "('b, 'c) shaq_consumer \<Rightarrow> ('s, 'c) Subscriber \<Rightarrow> 'b world \<Rightarrow> LaneMetadata list" where
  "lanes_metadata cl self w =
     (case queue_of w (fst (sub_slice_consumer self)) of None \<Rightarrow> [] | Some b \<Rightarrow> LanesMetadata_iter cl b)"

section \<open>Decoding\<close>

definition decode_typed :: "(bytes \<Rightarrow> (wincode_error, 'ev) outcome) \<Rightarrow> 's StreamMessage \<Rightarrow> (wincode_error, 'ev) outcome" where
  "decode_typed deserialize self = deserialize (payload self)"

text \<open>Dynamic decoding goes through the decoder of the stream's schema, which is for a struct or for an enum.\<close>

datatype ('st, 'en) Decoder = StructDecoder 'st | EnumDecoder 'en

datatype ('f, 'n) DecodedMessage = DecodedStruct 'f | DecodedEnum 'f 'n

record ('s, 'st, 'en, 'v, 'f, 'n) decoders =
  Decoder_new :: "'s \<Rightarrow> ('st, 'en) Decoder"
  struct_fields :: "'st \<Rightarrow> bytes \<Rightarrow> 'f"
  decode_variant :: "'en \<Rightarrow> bytes \<Rightarrow> (wincode_error, 'v) outcome"
  variant_name :: "'v \<Rightarrow> 'n"
  variant_fields :: "'v \<Rightarrow> 'f"

definition decode_dynamic ::
    "('s, 'st, 'en, 'v, 'f, 'n) decoders \<Rightarrow> 's StreamMessage \<Rightarrow> (wincode_error, ('f, 'n) DecodedMessage) outcome" where
  "decode_dynamic dec self =
     (case Decoder_new dec (sm_schema self) of
        StructDecoder schema_decoder \<Rightarrow> Ok (DecodedStruct (struct_fields dec schema_decoder (payload self)))
      | EnumDecoder enum_decoder \<Rightarrow>
          r_bind (decode_variant dec enum_decoder (payload self)) (\<lambda>variant_decoder.
          Ok (DecodedEnum (variant_fields dec variant_decoder) (variant_name dec variant_decoder))))"

section \<open>The stub backend\<close>

text \<open>On other platforms nothing is ever available and nothing is ever received.\<close>

record StubSubscriber =
  stub_sub_stream_name :: StreamName

record 's StubAvailableStream =
  stub_av_stream_name :: StreamName
  stub_av_type_name :: str
  stub_av_schema :: 's

definition stub_available_streams :: "path \<Rightarrow> 's StubAvailableStream list" where
  "stub_available_streams path = []"

definition stub_try_connect :: "'s StubAvailableStream \<Rightarrow> (TryConnectError, StubSubscriber) outcome" where
  "stub_try_connect self = Ok \<lparr>stub_sub_stream_name = stub_av_stream_name self\<rparr>"

definition stub_try_recv :: "StubSubscriber \<Rightarrow> (TryRecvError, 's StreamMessage) outcome" where
  "stub_try_recv self = Err Empty"

definition stub_recv_timeout :: "StubSubscriber \<Rightarrow> nat \<Rightarrow> (RecvTimeoutError, 's StreamMessage) outcome" where
  "stub_recv_timeout self timeout = Err RecvTimeoutError"

definition stub_LanesMetadata_iter :: "StubSubscriber \<Rightarrow> LaneMetadata list" where
  "stub_LanesMetadata_iter self = []"

end
