(* ===== verification/Event_Delivery.thy ===== *)
theory Event_Delivery
  imports Event_System Event_Receive
begin

text \<open>
  From the publishers of an event system to its subscribers. A run is any sequence of calls of a program on its
  event system (streams, policies, factories and publishers come and go, publishers publish) and of
  other programs that explore the event-system directory, connect to streams they found, receive and
  disconnect. The queue library is known by what it promises; what is shown is what a connection receives.
\<close>

section \<open>The queue library\<close>

record ('b, 'p, 's, 'c) broadcast_lib =
  bl_shaq :: "('b, 'p) shaq"
  bl_consumer :: "('b, 'c) shaq_consumer"
  bl_slice_consumer :: "'b \<Rightarrow> ('c \<times> 'b) option"
  bl_drop_consumer :: "'c \<Rightarrow> 'b \<Rightarrow> 'b"
  bl_join_untyped :: "'b option \<Rightarrow> (shaq_error, unit) outcome"
  bl_deserialize :: "bytes \<Rightarrow> (wincode_error, 's) outcome"

text \<open>
  A queue as its users see it: every consumer holds a slot, for which the queue keeps by lane the messages
  the consumer has not seen.
\<close>

record ('b, 'p, 'c) broadcast_spec =
  bs_lane :: "'p \<Rightarrow> usize"
  bs_slot :: "'c \<Rightarrow> nat"
  bs_unseen :: "'b \<Rightarrow> nat \<rightharpoonup> (usize \<Rightarrow> bytes list)"

definition broadcast_cells :: "usize \<Rightarrow> bytes list \<Rightarrow> (nat \<rightharpoonup> (usize \<Rightarrow> bytes list)) \<Rightarrow> nat \<rightharpoonup> (usize \<Rightarrow> bytes list)" where
  "broadcast_cells l cells U k = map_option (\<lambda>u. u(l := u l @ cells)) (U k)"

text \<open>A successful read takes the first message of some lane of the consumer's slot.\<close>

definition reads_first ::
    "('b, 'p, 's, 'c) broadcast_lib \<Rightarrow> ('b, 'p, 'c) broadcast_spec
      \<Rightarrow> ('c \<Rightarrow> 'b \<Rightarrow> ((LaneMetadata \<times> bytes) \<times> 'c \<times> 'b) option) \<Rightarrow> bool" where
  "reads_first lib sp read \<longleftrightarrow>
     (\<forall>c b u m cell c' b'. bs_unseen sp b (bs_slot sp c) = Some u \<and> read c b = Some ((m, cell), c', b') \<longrightarrow>
        keeps_identity (bl_shaq lib) (bl_join_untyped lib) b b' \<and> bs_slot sp c' = bs_slot sp c
        \<and> (\<exists>cells. u (lm_lane m) = cell # cells
             \<and> bs_unseen sp b' = (bs_unseen sp b)(bs_slot sp c \<mapsto> u(lm_lane m := cells))))"

text \<open>
  What the crate relies on: besides the laws of the publishing side, a published batch is appended for every
  slot; claiming takes a free slot and leaves the others alone; reading fails only when nothing is
  unseen; a dropped consumer frees its slot.
\<close>

definition broadcast_laws :: "('b, 'p, 's, 'c) broadcast_lib \<Rightarrow> ('b, 'p, 'c) broadcast_spec \<Rightarrow> bool" where
  "broadcast_laws lib sp \<longleftrightarrow>
     queue_laws (bl_shaq lib) (bl_join_untyped lib)
     \<and> queue_view_laws (bl_shaq lib) (\<lambda>p. broadcast_cells (bs_lane sp p)) (bs_unseen sp)
     \<and> (\<forall>b k u. bs_unseen sp b k = Some u \<longrightarrow> finite {l. u l \<noteq> []})
     \<and> (\<forall>b c b'. bl_slice_consumer lib b = Some (c, b') \<longrightarrow>
          keeps_identity (bl_shaq lib) (bl_join_untyped lib) b b' \<and> bs_unseen sp b (bs_slot sp c) = None
          \<and> (\<exists>u. bs_unseen sp b' = (bs_unseen sp b)(bs_slot sp c \<mapsto> u)))
     \<and> (\<forall>b c u. bs_unseen sp b (bs_slot sp c) = Some u \<longrightarrow>
          (try_read (bl_consumer lib) c b = None \<longleftrightarrow> (\<forall>l. u l = [])))
     \<and> reads_first lib sp (try_read (bl_consumer lib))
     \<and> (\<forall>t. reads_first lib sp (\<lambda>c. read_timeout (bl_consumer lib) c t))
     \<and> (\<forall>b c. keeps_identity (bl_shaq lib) (bl_join_untyped lib) b (bl_drop_consumer lib c b)
          \<and> bs_unseen sp (bl_drop_consumer lib c b) = (bs_unseen sp b)(bs_slot sp c := None))"

section \<open>Runs\<close>

text \<open>
  A connection is a subscriber with the history of its stream: the messages its consumer had to see when it
  connected, the events published since to its queue with their encodings, and the messages it received, by
  lane.
\<close>

record ('s, 'c, 'ev) connection =
  cn_subscriber :: "('s, 'c) Subscriber"
  cn_backlog :: "usize \<Rightarrow> bytes list"
  cn_sent :: "usize \<Rightarrow> ('ev \<times> bytes) list"
  cn_received :: "usize \<Rightarrow> 's StreamMessage list"

record ('b, 'p, 's, 'c, 'ev) run =
  ru_state :: "('b, 'p) sstate"
  ru_found :: "'s AvailableStream list"
  ru_connections :: "('s, 'c, 'ev) connection list"

abbreviation state_world :: "('b, 'p) sstate \<Rightarrow> 'b world" where
  "state_world s \<equiv> system_world (st_system s)"

text \<open>Subscribers change the shared memory and nothing else.\<close>

definition with_world :: "'b world \<Rightarrow> ('b, 'p) sstate \<Rightarrow> ('b, 'p) sstate" where
  "with_world w s =
     (let sys = st_system s; h = sys_streams sys in
      s\<lparr>st_system := sys\<lparr>sys_streams := h\<lparr>arc_world := (w, snd (arc_world h))\<rparr>\<rparr>\<rparr>)"

text \<open>The memory file of the queue that a stream has at the moment.\<close>

definition current_queue :: "'b EventSystem \<Rightarrow> nat \<Rightarrow> nat option" where
  "current_queue sys a = Option.bind (live_streams sys a) (\<lambda>t. map_option sq_broadcast (es_queue (ts_stream t)))"

definition cn_queue :: "('s, 'c, 'ev) connection \<Rightarrow> nat" where
  "cn_queue cn = fst (sub_slice_consumer (cn_subscriber cn))"

text \<open>
  A successful call of a publisher sends its events to the connections on the queue of the publisher's
  stream, on the lane of the publisher.
\<close>

definition sent_items :: "('ev \<Rightarrow> (wincode_error, bytes) outcome) \<Rightarrow> 'ev list \<Rightarrow> ('ev \<times> bytes) list" where
  "sent_items serialize_into events =
     (case serialize_all serialize_into events of Ok cells \<Rightarrow> zip events cells | _ \<Rightarrow> [])"

definition note_sent ::
    "('p \<Rightarrow> usize) \<Rightarrow> nat option \<Rightarrow> (PublishError, unit) outcome \<Rightarrow> 'p Publisher \<Rightarrow> ('ev \<times> bytes) list
      \<Rightarrow> ('s, 'c, 'ev) connection \<Rightarrow> ('s, 'c, 'ev) connection" where
  "note_sent lane queue r pub items cn =
     (case pub_producer pub of
        None \<Rightarrow> cn
      | Some (_, p) \<Rightarrow>
          if r = Ok () \<and> queue = Some (cn_queue cn)
          then cn\<lparr>cn_sent := (cn_sent cn)(lane p := cn_sent cn (lane p) @ items)\<rparr> else cn)"

definition note_received :: "'s StreamMessage \<Rightarrow> ('s, 'c) Subscriber \<Rightarrow> ('s, 'c, 'ev) connection \<Rightarrow> ('s, 'c, 'ev) connection" where
  "note_received m sub cn =
     (let l = lm_lane (message_lane_metadata m) in
      cn\<lparr>cn_subscriber := sub, cn_received := (cn_received cn)(l := cn_received cn l @ [m])\<rparr>)"

definition connected :: "('b, 'p, 'c) broadcast_spec \<Rightarrow> ('s, 'c) Subscriber \<Rightarrow> 'b world \<Rightarrow> ('s, 'c, 'ev) connection" where
  "connected sp sub w =
     (case sub_slice_consumer sub of (obj, c) \<Rightarrow>
        \<lparr>cn_subscriber = sub,
         cn_backlog = (case Option.bind (queue_of w obj) (\<lambda>b. bs_unseen sp b (bs_slot sp c)) of None \<Rightarrow> (\<lambda>l. []) | Some u \<Rightarrow> u),
         cn_sent = (\<lambda>l. []), cn_received = (\<lambda>l. [])\<rparr>)"

definition disconnected :: "('b, 'p, 's, 'c) broadcast_lib \<Rightarrow> ('s, 'c) Subscriber \<Rightarrow> 'b world \<Rightarrow> 'b world" where
  "disconnected lib sub w =
     (case sub_slice_consumer sub of (obj, c) \<Rightarrow>
        (case queue_of w obj of None \<Rightarrow> w | Some b \<Rightarrow> store_queue obj (bl_drop_consumer lib c b) w))"

inductive estep ::
    "('b, 'p, 's, 'c) broadcast_lib \<Rightarrow> ('b, 'p, 'c) broadcast_spec \<Rightarrow> path
      \<Rightarrow> ('b, 'p, 's, 'c, 'ev) run \<Rightarrow> ('b, 'p, 's, 'c, 'ev) run \<Rightarrow> bool" for lib sp path where
  quiet: "astep (bl_shaq lib) (ru_state r) s' \<Longrightarrow> estep lib sp path r (r\<lparr>ru_state := s'\<rparr>)"
| publish: "ru_state r = s \<Longrightarrow> st_handles s = xs @ PublisherOf a pub # ys \<Longrightarrow>
    System_publish (bl_shaq lib) serialize_into a pub event (st_system s) = ((res, pub'), sys') \<Longrightarrow>
    estep lib sp path r (r\<lparr>ru_state := s\<lparr>st_system := sys', st_handles := xs @ PublisherOf a pub' # ys\<rparr>,
      ru_connections := map (note_sent (bs_lane sp) (current_queue (st_system s) a) res pub'
        (sent_items serialize_into [event])) (ru_connections r)\<rparr>)"
| publish_batch: "ru_state r = s \<Longrightarrow> st_handles s = xs @ PublisherOf a pub # ys \<Longrightarrow>
    System_publish_batch (bl_shaq lib) serialize_into a pub events (st_system s) = ((res, pub'), sys') \<Longrightarrow>
    estep lib sp path r (r\<lparr>ru_state := s\<lparr>st_system := sys', st_handles := xs @ PublisherOf a pub' # ys\<rparr>,
      ru_connections := map (note_sent (bs_lane sp) (current_queue (st_system s) a) res pub'
        (sent_items serialize_into events)) (ru_connections r)\<rparr>)"
| explore: "estep lib sp path r (r\<lparr>ru_found := ru_found r @
    available_streams (bl_shaq lib) (bl_join_untyped lib) (bl_deserialize lib) (state_world (ru_state r)) path\<rparr>)"
| connect: "av \<in> set (ru_found r) \<Longrightarrow>
    try_connect (bl_slice_consumer lib) av (state_world (ru_state r)) = (Ok sub, w) \<Longrightarrow>
    estep lib sp path r (r\<lparr>ru_state := with_world w (ru_state r),
      ru_connections := connected sp sub w # ru_connections r\<rparr>)"
| receive: "ru_connections r = xs @ cn # ys \<Longrightarrow>
    try_recv (bl_consumer lib) (cn_subscriber cn, state_world (ru_state r)) = (Ok m, (sub, w)) \<Longrightarrow>
    estep lib sp path r (r\<lparr>ru_state := with_world w (ru_state r),
      ru_connections := xs @ note_received m sub cn # ys\<rparr>)"
| receive_timeout: "ru_connections r = xs @ cn # ys \<Longrightarrow>
    recv_timeout (bl_consumer lib) timeout (cn_subscriber cn, state_world (ru_state r)) = (Ok m, (sub, w)) \<Longrightarrow>
    estep lib sp path r (r\<lparr>ru_state := with_world w (ru_state r),
      ru_connections := xs @ note_received m sub cn # ys\<rparr>)"
| disconnect: "ru_connections r = xs @ cn # ys \<Longrightarrow>
    estep lib sp path r (r\<lparr>ru_state := with_world (disconnected lib (cn_subscriber cn) (state_world (ru_state r))) (ru_state r),
      ru_connections := xs @ ys\<rparr>)"

text \<open>Memory files are numbered in the order in which they are made.\<close>

definition memory_ok :: "'b world \<Rightarrow> bool" where
  "memory_ok w \<longleftrightarrow> (\<forall>obj \<ge> w_next_mem w. w_mem w obj = None)"

text \<open>The runs of so many steps from a new event system.\<close>

inductive ereach ::
    "('b, 'p, 's, 'c) broadcast_lib \<Rightarrow> ('b, 'p, 'c) broadcast_spec \<Rightarrow> path \<Rightarrow> nat
      \<Rightarrow> ('b, 'p, 's, 'c, 'ev) run \<Rightarrow> bool" for lib sp path where
  init: "files_ok (w_files w) \<Longrightarrow> w_faults w = [] \<Longrightarrow> memory_ok w \<Longrightarrow> EventSystem_new path w = (Ok sys, w') \<Longrightarrow>
    ereach lib sp path 0 \<lparr>ru_state = \<lparr>st_system = sys, st_systems = 1, st_handles = []\<rparr>, ru_found = [], ru_connections = []\<rparr>"
| step: "ereach lib sp path n r \<Longrightarrow> estep lib sp path r r' \<Longrightarrow> ereach lib sp path (Suc n) r'"

section \<open>Steps that publish nothing\<close>

text \<open>Memory files stay, new ones get new numbers, and the queues that exist look as before.\<close>

definition world_kept :: "('b \<Rightarrow> 'v) \<Rightarrow> 'b world \<Rightarrow> 'b world \<Rightarrow> bool" where
  "world_kept log w w' \<longleftrightarrow> (memory_ok w \<longrightarrow> memory_ok w' \<and> (\<forall>obj x. log_at log w obj = Some x \<longrightarrow> log_at log w' obj = Some x))"

definition same_memory :: "'b world \<Rightarrow> 'b world \<Rightarrow> bool" where
  "same_memory w w' \<longleftrightarrow> w_next_mem w' = w_next_mem w \<and> dom (w_mem w') = dom (w_mem w)"

lemma same_memory_ok: "same_memory w w' \<Longrightarrow> memory_ok w \<Longrightarrow> memory_ok w'"
  unfolding same_memory_def memory_ok_def by (metis domIff)

lemma same_memory_simps [simp]:
  "same_memory w w" "same_memory w (store_queue obj b w') = same_memory w w'"
  by (auto simp: same_memory_def store_queue_def split: if_splits)

lemma same_memory_operations:
  "create_producer sh stream w = (pr, w') \<Longrightarrow> same_memory w0 w \<Longrightarrow> same_memory w0 w'"
  "same_memory w0 (release_producer sh pr w) = same_memory w0 w"
  "write_events sh reserve serialize_into producer events w = (r, w') \<Longrightarrow> same_memory w0 w \<Longrightarrow> same_memory w0 w'"
  by (auto simp: create_producer_def release_producer_def write_events_def
      split: option.splits prod.splits bool.splits outcome.splits)

lemma same_memory_Publisher_producer:
  "Publisher_producer sh stream pub w = (pub', w') \<Longrightarrow> same_memory w w'"
  by (auto simp: Publisher_producer_def replace_producer_def same_memory_operations(2) Let_def
      intro: same_memory_operations(1) split: if_splits prod.splits)

lemma world_kept_refl [simp]: "world_kept log w w"
  by (simp add: world_kept_def)

lemma world_kept_trans: "world_kept log w w1 \<Longrightarrow> world_kept log w1 w2 \<Longrightarrow> world_kept log w w2"
  unfolding world_kept_def by blast

lemma world_kept_same: "same_memory w w' \<Longrightarrow> log_at log w' = log_at log w \<Longrightarrow> world_kept log w w'"
  using same_memory_ok by (auto simp: world_kept_def)

lemma queue_of_bound: "memory_ok w \<Longrightarrow> queue_of w obj = Some b \<Longrightarrow> obj < w_next_mem w"
  unfolding memory_ok_def using queue_of_mem not_less by metis

lemma world_kept_frame: "frame p w w' \<Longrightarrow> world_kept log w w'"
  unfolding world_kept_def
proof (intro impI conjI allI)
  assume f: "frame p w w'" and ok: "memory_ok w"
  then show "memory_ok w'" by (auto simp: frame_def memory_ok_def)
  show "log_at log w' obj = Some x" if x: "log_at log w obj = Some x" for obj x
  proof -
    obtain b where "queue_of w obj = Some b" using x by (auto simp: log_at_def)
    then have "queue_of w' obj = queue_of w obj" using f queue_of_bound [OF ok] by (auto simp: frame_def queue_of_def)
    then show ?thesis using x by (simp add: log_at_def)
  qed
qed

lemma on_files_memory: "w_mem (snd (on_files f w)) = w_mem w" "w_next_mem (snd (on_files f w)) = w_next_mem w"
  by (simp_all add: on_files_def syscall_def split: list.split option.split outcome.split)

lemma removal_memory:
  "w_mem (io_ignore (remove_dir_all p) w) = w_mem w" "w_next_mem (io_ignore (remove_dir_all p) w) = w_next_mem w"
  by (simp_all add: io_ignore_def remove_dir_all_def on_files_memory)

lemma world_kept_files: "w_mem w' = w_mem w \<Longrightarrow> w_next_mem w' = w_next_mem w \<Longrightarrow> world_kept log w w'"
  by (rule world_kept_same) (auto simp: same_memory_def log_at_def queue_of_def)

lemma world_kept_removals:
  "world_kept log w (StreamQueue_drop q w)" "world_kept log w (EventStream_drop stream w)"
  "world_kept log w (EventSystemDirectory_drop path w)"
  "world_kept log (fst x) (fst (directory_release path x))"
  by (auto simp: StreamQueue_drop_def close_fd_def EventStream_drop_def EventSystemDirectory_drop_def
      directory_release_def removal_memory split: option.splits prod.splits intro!: world_kept_files)

lemma world_kept_rule:
  assumes "apply_stream_rule sh schema rule (stream, w) = (r, (stream', w'))"
  shows "world_kept log w w'"
proof -
  have "world_kept log w w1" if "StreamQueue_create sh schema base n cfg w = (x, w1)" for base n cfg x w1
    using framedD [OF StreamQueue_create_framed that] by (rule world_kept_frame)
  then show ?thesis
    using assms by (auto simp: apply_stream_rule_def world_kept_removals
        split: StreamRule.splits option.splits outcome.splits prod.splits)
qed

lemma world_kept_trait:
  "pcs_apply_stream_rule (stream_trait sh) rule (s, x) = (r, (s', x')) \<Longrightarrow> world_kept log (fst x) (fst x')"
  "world_kept log (fst x) (fst (pcs_drop (stream_trait sh) s x))"
proof -
  show "pcs_apply_stream_rule (stream_trait sh) rule (s, x) = (r, (s', x')) \<Longrightarrow> world_kept log (fst x) (fst x')"
    by (cases x; cases x') (auto simp: trait_apply_iff intro: world_kept_rule)
  obtain w refs where x: "x = (w, refs)" by (cases x)
  show "world_kept log (fst x) (fst (pcs_drop (stream_trait sh) s x))"
    using world_kept_removals(4) [of log "(EventStream_drop (ts_stream s) w, refs)"]
    by (auto simp: x intro: world_kept_trans [OF world_kept_removals(2)])
qed

abbreviation arcs_world :: "(typed_stream, 'b world \<times> nat) arcs \<Rightarrow> 'b world" where
  "arcs_world h \<equiv> fst (arc_world h)"

lemma world_kept_arc_drop: "world_kept log (arcs_world h) (arcs_world (arc_drop (pcs_drop (stream_trait sh)) a h))"
  unfolding arc_drop_def by (cases "arc_cells h a") (auto simp: world_kept_trait(2))

lemma world_kept_apply_rules:
  assumes "apply_rules (stream_trait sh) policy as h = (r, h')"
  shows "world_kept log (arcs_world h) (arcs_world h')"
  using assms
proof (induction as arbitrary: h)
  case (Cons a as)
  show ?case
  proof (cases "upgrade h a")
    case None
    then show ?thesis using Cons by simp
  next
    case (Some s)
    obtain r1 s' x' where rule: "pcs_apply_stream_rule (stream_trait sh)
        (stream_rule policy (stream_name_of s)) (s, arc_world h) = (r1, (s', x'))" by (metis prod.collapse)
    note step = world_kept_trait(1) [OF rule, of log]
    have "h' = arc_set a s' x' h \<or> apply_rules (stream_trait sh) policy as (arc_set a s' x' h) = (r, h')"
      using Cons.prems Some rule by (cases r1) auto
    then show ?thesis using step Cons.IH [of "arc_set a s' x' h"] by (auto intro: world_kept_trans)
  qed
qed simp

lemma world_kept_register:
  assumes "register_new_stream (stream_trait sh) a (m, h) = (r, (m', h'))"
  shows "world_kept log (arcs_world h) (arcs_world h')"
proof (cases "upgrade h a")
  case (Some s)
  obtain r1 s' x' where rule: "pcs_apply_stream_rule (stream_trait sh)
      (stream_rule (spm_stream_policy (prune_dead_streams h m)) (stream_name_of s)) (s, arc_world h) = (r1, (s', x'))"
    by (metis prod.collapse)
  have "h' = arc_drop (pcs_drop (stream_trait sh)) a h \<or> h' = arc_drop (pcs_drop (stream_trait sh)) a (arc_set a s' x' h)"
    using assms Some rule by (cases r1) (auto simp: register_new_stream_def Let_def split: if_splits)
  then show ?thesis
    using world_kept_trans [OF world_kept_trait(1) [OF rule], of log "arcs_world h'"]
      world_kept_arc_drop [of log h] world_kept_arc_drop [of log "arc_set a s' x' h"] by auto
qed (use assms in \<open>simp add: register_new_stream_def Let_def\<close>)

text \<open>An operation on a stream that sends nothing.\<close>

lemma world_kept_with_stream:
  assumes "with_stream a f d sys = (x, sys')"
    and "\<And>stream w y stream' w'. f stream w = (y, stream', w') \<Longrightarrow> world_kept log w w'"
  shows "world_kept log (system_world sys) (system_world sys')"
proof (cases "upgrade (sys_streams sys) a")
  case (Some s)
  obtain w refs where w: "arc_world (sys_streams sys) = (w, refs)" by (cases "arc_world (sys_streams sys)")
  obtain y stream' w' where f: "f (ts_stream s) w = (y, stream', w')" by (metis prod.collapse)
  from assms(2) [OF f] show ?thesis
    using assms(1) Some w f by (auto simp: with_stream_def system_world_def)
qed (use assms(1) in \<open>simp add: with_stream_def\<close>)

lemma world_kept_silent:
  assumes laws: "queue_view_laws sh add log"
  shows "create_producer sh stream w = (pr, w') \<Longrightarrow> world_kept log w w'"
    "world_kept log w (release_producer sh pr' w)"
    "Publisher_producer sh stream pub w = (pub', w') \<Longrightarrow> world_kept log w w'"
proof -
  show cp: "create_producer sh stream w = (pr, w') \<Longrightarrow> world_kept log w w'" for stream w pr w'
    by (rule world_kept_same) (auto intro: same_memory_operations(1) create_producer_log(1) [OF laws])
  show rp: "world_kept log w (release_producer sh pr' w)" for pr' w
    by (rule world_kept_same) (simp_all add: same_memory_operations(2) release_producer_log [OF laws])
  show "Publisher_producer sh stream pub w = (pub', w') \<Longrightarrow> world_kept log w w'"
    by (auto simp: Publisher_producer_def replace_producer_def Let_def
        intro: world_kept_trans [OF rp cp] split: if_splits prod.splits)
qed

lemma world_kept_create_stream:
  assumes "EventSystem_create_stream sh schema n cfg sys = (r, sys')"
  shows "world_kept log (system_world sys) (system_world sys')"
proof -
  let ?h = "sys_streams sys"
  let ?s = "\<lparr>ts_schema = schema, ts_stream = EventStream_new (sys_event_system_directory sys) n cfg\<rparr>"
  obtain a h1 where new: "arc_new ?s (?h\<lparr>arc_world := map_prod id Suc (arc_world ?h)\<rparr>) = (a, h1)" by fastforce
  obtain r1 m' h2 where reg: "register_new_stream (stream_trait sh) a (sys_stream_policy_manager sys, arc_clone a h1) = (r1, (m', h2))"
    by (metis prod.collapse)
  have "arcs_world (arc_clone a h1) = arcs_world ?h" using new by (auto simp: arc_new_def arc_clone_def)
  with world_kept_register [OF reg, of log] have "world_kept log (arcs_world ?h) (arcs_world h2)" by simp
  moreover have "sys_streams sys' = h2 \<or> sys_streams sys' = arc_drop (pcs_drop (stream_trait sh)) a h2"
    using assms new reg by (cases r1) (auto simp: EventSystem_create_stream_def Let_def)
  ultimately show ?thesis
    using world_kept_trans [OF _ world_kept_arc_drop] by (auto simp: system_world_def)
qed

lemma astep_world_kept:
  assumes laws: "queue_view_laws sh add log" and "astep sh s s'"
  shows "world_kept log (state_world s) (state_world s')"
  using assms(2)
proof cases
  case (set_policy policy sys')
  then show ?thesis
    by (auto simp: EventSystem_set_stream_policy_def set_stream_policy_def system_world_def Let_def
        intro: world_kept_apply_rules split: prod.splits)
next
  case (create_publisher a pub sys')
  obtain sys1 where sys1: "with_stream a (try_create_publisher sh) None (st_system s) = (Some pub, sys1)"
    "sys' = PublisherFactory_clone a sys1"
    using create_publisher by (auto simp: PublisherFactory_try_create_publisher_def split: prod.splits option.splits)
  have "world_kept log (state_world s) (system_world sys1)"
    by (rule world_kept_with_stream [OF sys1(1)])
      (auto simp: try_create_publisher_def Let_def intro: world_kept_silent(1) [OF laws] split: option.splits prod.splits)
  then show ?thesis
    using create_publisher(1) sys1(2) by (simp add: PublisherFactory_clone_def arc_clone_def system_world_def)
next
  case (is_enabled xs a pub ys r' pub' sys')
  then have call: "with_stream a (\<lambda>es w. case Publisher_is_enabled sh es pub w of (r, self', w') \<Rightarrow> ((r, self'), es, w'))
      (False, pub) (st_system s) = ((r', pub'), sys')" by (simp add: System_is_enabled_def)
  have "world_kept log (state_world s) (system_world sys')"
    by (rule world_kept_with_stream [OF call])
      (auto simp: Publisher_is_enabled_def intro: world_kept_silent(3) [OF laws] split: prod.splits)
  then show ?thesis using is_enabled(1) by simp
next
  case (drop_publisher xs a pub ys)
  obtain x sys1 where call: "with_stream a (\<lambda>es w. ((), Publisher_drop sh pub es w)) () (st_system s) = (x, sys1)" by (metis prod.collapse)
  have "world_kept log (state_world s) (system_world sys1)"
    by (rule world_kept_with_stream [OF call]) (auto simp: Publisher_drop_def Let_def intro: world_kept_silent(2) [OF laws])
  then show ?thesis
    using drop_publisher(1) call world_kept_trans [OF _ world_kept_arc_drop, of log]
    by (simp add: System_drop_publisher_def PublisherFactory_drop_def system_world_def)
qed (auto simp: system_world_def EventSystem_clone_def EventSystem_drop_def PublisherFactory_clone_def arc_clone_def
      PublisherFactory_drop_def world_kept_removals world_kept_arc_drop
      dest!: world_kept_create_stream [unfolded system_world_def])

section \<open>Generations\<close>

text \<open>
  A generation is counted by a 64-bit word, so a publisher can tell the generations of a run of fewer than
  \<open>2 ^ 64\<close> steps apart. A step moves a stream by at most one generation, with its queue.
\<close>

definition moves :: "EventStream \<Rightarrow> EventStream \<Rightarrow> bool" where
  "moves es es' \<longleftrightarrow> es_queue_generation es' = es_queue_generation es \<and> es_queue es' = es_queue es
     \<or> es_queue_generation es' = es_queue_generation es + 1"

definition tracks :: "EventStream \<Rightarrow> 'p Publisher \<Rightarrow> bool" where
  "tracks es pub \<longleftrightarrow> unat (pub_queue_generation pub) \<le> unat (es_queue_generation es) \<and> attached es pub"

lemma unat_Suc_gen: "unat g \<le> n \<Longrightarrow> Suc n < 2 ^ 64 \<Longrightarrow> unat (g + 1 :: u64) = Suc (unat g)"
  by (simp add: unat_word_ariths)

lemma moves_bound: "moves es es' \<Longrightarrow> unat (es_queue_generation es) \<le> n \<Longrightarrow> Suc n < 2 ^ 64 \<Longrightarrow> unat (es_queue_generation es') \<le> Suc n"
  using unat_Suc_gen by (auto simp: moves_def)

lemma moves_tracks:
  assumes "moves es es'" "tracks es pub" "unat (es_queue_generation es) \<le> n" "Suc n < 2 ^ 64"
  shows "tracks es' pub"
proof (cases "es_queue_generation es' = es_queue_generation es \<and> es_queue es' = es_queue es")
  case True
  then show ?thesis using assms(2) by (simp add: tracks_def attached_def)
next
  case False
  then have "unat (es_queue_generation es') = Suc (unat (es_queue_generation es))"
    using assms(1) unat_Suc_gen [OF assms(3,4)] by (auto simp: moves_def)
  then show ?thesis using assms(2) by (auto simp: tracks_def attached_def)
qed

text \<open>Applying a rule moves a stream only when the stream does not follow it yet.\<close>

definition moves_once :: "StreamPolicy \<Rightarrow> typed_stream \<Rightarrow> typed_stream \<Rightarrow> bool" where
  "moves_once policy t t' \<longleftrightarrow> stream_name_of t' = stream_name_of t
     \<and> (es_queue_generation (ts_stream t') = es_queue_generation (ts_stream t) \<and> es_queue (ts_stream t') = es_queue (ts_stream t)
        \<or> es_queue_generation (ts_stream t') = es_queue_generation (ts_stream t) + 1
          \<and> stream_enabled t \<noteq> (stream_rule policy (stream_name_of t) = On)
          \<and> stream_enabled t' = (stream_rule policy (stream_name_of t) = On))"

lemma moves_once_refl [simp]: "moves_once policy t t"
  by (simp add: moves_once_def)

lemma moves_once_trans: "moves_once policy t t1 \<Longrightarrow> moves_once policy t1 t2 \<Longrightarrow> moves_once policy t t2"
  by (auto simp: moves_once_def stream_enabled_def)

lemma moves_once_moves: "moves_once policy t t' \<Longrightarrow> moves (ts_stream t) (ts_stream t')"
  by (auto simp: moves_once_def moves_def)

lemma rule_moves_once:
  assumes "pcs_apply_stream_rule (stream_trait sh) (stream_rule policy (stream_name_of t)) (t, x) = (r, (t', x'))"
  shows "moves_once policy t t'"
  using assms by (cases x; cases x')
    (auto simp: trait_apply_iff apply_stream_rule_def bump_generation_def moves_once_def stream_enabled_def
      split: StreamRule.splits option.splits outcome.splits prod.splits)

lemma apply_rules_moves:
  assumes "apply_rules (stream_trait sh) policy as h = (r, h')" "arcs_ok h"
  shows "rel_option (moves_once policy) (live h a) (live h' a)"
  using assms
proof (induction as arbitrary: h)
  case (Cons b as)
  show ?case
  proof (cases "upgrade h b")
    case None
    then show ?thesis using Cons by simp
  next
    case (Some t)
    have b: "live h b = Some t" using Some upgrade_live [OF Cons.prems(2)] by simp
    obtain r1 t' x' where rule: "pcs_apply_stream_rule (stream_trait sh)
        (stream_rule policy (stream_name_of t)) (t, arc_world h) = (r1, (t', x'))" by (metis prod.collapse)
    let ?h = "arc_set b t' x' h"
    have step: "rel_option (moves_once policy) (live h a) (live ?h a)"
      using b rule_moves_once [OF rule] by (cases "live h a") auto
    have "h' = ?h \<or> apply_rules (stream_trait sh) policy as ?h = (r, h')"
      using Cons.prems(1) Some rule by (cases r1) auto
    then show ?thesis
    proof
      assume "apply_rules (stream_trait sh) policy as ?h = (r, h')"
      then have "rel_option (moves_once policy) (live ?h a) (live h' a)"
        by (rule Cons.IH) (use Cons.prems(2) in simp)
      with step show ?thesis
        by (auto simp: option_rel_Some1 option_rel_Some2 intro: moves_once_trans elim!: option.rel_cases)
    qed (use step in simp)
  qed
next
  case Nil
  then show ?case by (cases "live h a") auto
qed

text \<open>Every publisher is on the queue of its generation, and generations are not ahead of the run.\<close>

definition publishers_ok :: "nat \<Rightarrow> ('b, 'p) sstate \<Rightarrow> bool" where
  "publishers_ok n s \<longleftrightarrow>
     (\<forall>a t. live_streams (st_system s) a = Some t \<longrightarrow> unat (es_queue_generation (ts_stream t)) \<le> n)
     \<and> (\<forall>a pub t. PublisherOf a pub \<in> set (st_handles s) \<and> live_streams (st_system s) a = Some t \<longrightarrow> tracks (ts_stream t) pub)"

definition evolves :: "'b EventSystem \<Rightarrow> 'b EventSystem \<Rightarrow> bool" where
  "evolves sys sys' \<longleftrightarrow> (\<forall>a t'. live_streams sys' a = Some t' \<longrightarrow>
     (\<exists>t. live_streams sys a = Some t \<and> moves (ts_stream t) (ts_stream t'))
     \<or> live_streams sys a = None \<and> unat (es_queue_generation (ts_stream t')) \<le> 1)"

lemma publishers_ok_step:
  assumes ok: "publishers_ok n s" "Suc n < 2 ^ 64" and streams: "evolves (st_system s) (st_system s')"
    and handles: "\<And>a pub t'. PublisherOf a pub \<in> set (st_handles s') \<Longrightarrow> live_streams (st_system s') a = Some t' \<Longrightarrow>
      PublisherOf a pub \<in> set (st_handles s) \<and> live_streams (st_system s) a \<noteq> None \<or> tracks (ts_stream t') pub"
  shows "publishers_ok (Suc n) s'"
  unfolding publishers_ok_def
proof (intro conjI allI impI)
  show "unat (es_queue_generation (ts_stream t')) \<le> Suc n" if "live_streams (st_system s') a = Some t'" for a t'
    using that streams ok moves_bound unfolding evolves_def publishers_ok_def by fastforce
  show "tracks (ts_stream t') pub"
    if h: "PublisherOf a pub \<in> set (st_handles s') \<and> live_streams (st_system s') a = Some t'" for a pub t'
  proof (cases "PublisherOf a pub \<in> set (st_handles s) \<and> live_streams (st_system s) a \<noteq> None")
    case True
    then obtain t where "live_streams (st_system s) a = Some t" "moves (ts_stream t) (ts_stream t')"
      using h streams [unfolded evolves_def] by fastforce
    then show ?thesis using moves_tracks [OF _ _ _ ok(2)] ok(1) True unfolding publishers_ok_def by blast
  qed (use handles h in blast)
qed

lemma moves_refl [simp]: "moves es es"
  by (simp add: moves_def)

lemma evolves_same: "live_streams sys' \<subseteq>\<^sub>m live_streams sys \<Longrightarrow> evolves sys sys'"
  unfolding evolves_def by (metis domI map_le_def moves_refl)

lemma arc_drop_live: "live (arc_drop dropped a h) \<subseteq>\<^sub>m live h"
  by (auto simp: arc_drop_def live_def map_le_def dom_def split: option.splits if_splits)

lemma arc_clone_live [simp]: "live (arc_clone a h) = live h"
  by (auto simp: arc_clone_def live_def fun_eq_iff option.map_comp o_def)

lemma live_world [simp]: "live (h\<lparr>arc_world := x\<rparr>) = live h"
  by (simp add: live_def fun_eq_iff)

text \<open>A call on a live stream, when the reference counts are right.\<close>

lemma with_stream_live:
  assumes "with_stream a f d sys = (x, sys')" "arcs_ok (sys_streams sys)" "live_streams sys a = Some t"
  obtains stream' where "f (ts_stream t) (system_world sys) = (x, stream', system_world sys')"
    "live_streams sys' = (live_streams sys)(a \<mapsto> t\<lparr>ts_stream := stream'\<rparr>)"
proof -
  obtain w refs where w: "arc_world (sys_streams sys) = (w, refs)" by (cases "arc_world (sys_streams sys)")
  obtain y stream' w' where f: "f (ts_stream t) w = (y, stream', w')" by (metis prod.collapse)
  have "upgrade (sys_streams sys) a = Some t" using upgrade_live [OF assms(2)] assms(3) by (simp add: live_streams_def)
  then have "x = y" "sys' = sys\<lparr>sys_streams := arc_set a (t\<lparr>ts_stream := stream'\<rparr>) (w', refs) (sys_streams sys)\<rparr>"
    using assms(1) w f by (simp_all add: with_stream_def)
  then show thesis using that [of stream'] f w assms(3) by (simp add: system_world_def live_streams_def)
qed

lemma evolves_upd:
  assumes "live_streams sys' = (live_streams sys)(a \<mapsto> t\<lparr>ts_stream := stream'\<rparr>)" "live_streams sys a = Some t"
    and "moves (ts_stream t) stream'"
  shows "evolves sys sys'"
  using assms by (auto simp: evolves_def)

lemma evolves_trans_le: "evolves sys sys1 \<Longrightarrow> live_streams sys2 \<subseteq>\<^sub>m live_streams sys1 \<Longrightarrow> evolves sys sys2"
  unfolding evolves_def by (metis domI map_le_def)

lemma evolves_set_policy:
  assumes "EventSystem_set_stream_policy sh policy sys = (r, sys')" "arcs_ok (sys_streams sys)"
  shows "evolves sys sys'"
proof -
  obtain m' h' where set: "set_stream_policy (stream_trait sh) policy (sys_stream_policy_manager sys, sys_streams sys) = (r, (m', h'))"
    and h': "sys_streams sys' = h'"
    using assms(1) by (auto simp: EventSystem_set_stream_policy_def Let_def split: prod.splits)
  then obtain as where "apply_rules (stream_trait sh) policy as (sys_streams sys) = (r, h')"
    by (auto simp: set_stream_policy_def Let_def prune_dead_streams_def split: prod.splits)
  note rel = apply_rules_moves [OF this assms(2)]
  have "\<exists>t. live (sys_streams sys) a = Some t \<and> moves (ts_stream t) (ts_stream t')" if "live h' a = Some t'" for a t'
    using rel [of a] that moves_once_moves by (auto simp: option_rel_Some2)
  then show ?thesis using h' by (simp add: evolves_def live_streams_def)
qed

lemma register_live:
  assumes "register_new_stream (stream_trait sh) a (m, h) = (r, (m', h'))" "live h a = Some t" "arcs_ok h"
    and "live h' b = Some t'"
  shows "live h b = Some t' \<or> b = a \<and> moves (ts_stream t) (ts_stream t')"
proof -
  have up: "upgrade h a = Some t" using assms(2,3) upgrade_live by metis
  obtain r1 t1 x' where rule: "pcs_apply_stream_rule (stream_trait sh)
      (stream_rule (spm_stream_policy (prune_dead_streams h m)) (stream_name_of t)) (t, arc_world h) = (r1, (t1, x'))"
    by (metis prod.collapse)
  have "h' = arc_drop (pcs_drop (stream_trait sh)) a h \<or> h' = arc_drop (pcs_drop (stream_trait sh)) a (arc_set a t1 x' h)"
    using assms(1) up rule by (cases r1) (auto simp: register_new_stream_def Let_def split: if_splits)
  then have "live h' \<subseteq>\<^sub>m live h \<or> live h' \<subseteq>\<^sub>m (live h)(a \<mapsto> t1)"
    using arc_drop_live [of "pcs_drop (stream_trait sh)" a h] arc_drop_live [of "pcs_drop (stream_trait sh)" a "arc_set a t1 x' h"]
      assms(2) by auto
  then have "live h b = Some t' \<or> ((live h)(a \<mapsto> t1)) b = Some t'" using assms(4) unfolding map_le_def by (metis domI)
  then show ?thesis using moves_once_moves [OF rule_moves_once [OF rule]] by (cases "b = a") auto
qed

lemma evolves_create_stream:
  assumes "EventSystem_create_stream sh schema n cfg sys = (r, sys')" "arcs_ok (sys_streams sys)"
  shows "evolves sys sys'"
proof -
  let ?h = "(sys_streams sys)\<lparr>arc_world := map_prod id Suc (arc_world (sys_streams sys))\<rparr>"
  let ?s = "\<lparr>ts_schema = schema, ts_stream = EventStream_new (sys_event_system_directory sys) n cfg\<rparr>"
  obtain a h1 where new: "arc_new ?s ?h = (a, h1)" by fastforce
  obtain r1 m' h2 where reg: "register_new_stream (stream_trait sh) a (sys_stream_policy_manager sys, arc_clone a h1) = (r1, (m', h2))"
    by (metis prod.collapse)
  have ok: "arcs_ok ?h" using assms(2) by (simp add: arcs_ok_def)
  note h1 = arc_new_simps [OF new]
  have a: "live (sys_streams sys) a = None" using arcs_ok_fresh [OF ok] h1(1) by simp
  have clone: "live (arc_clone a h1) = (live (sys_streams sys))(a \<mapsto> ?s)" "arcs_ok (arc_clone a h1)"
    using h1(2) h1(6) [OF ok] arc_clone_simps(5) [of h1 a] by simp_all
  have "sys_streams sys' = h2 \<or> sys_streams sys' = arc_drop (pcs_drop (stream_trait sh)) a h2"
    using assms(1) new reg by (cases r1) (auto simp: EventSystem_create_stream_def Let_def)
  then have le: "live (sys_streams sys') \<subseteq>\<^sub>m live h2" using arc_drop_live by auto
  show ?thesis
    unfolding evolves_def live_streams_def
  proof (intro allI impI)
    fix b t'
    assume "live (sys_streams sys') b = Some t'"
    with le have "live h2 b = Some t'" unfolding map_le_def by (metis domI)
    from register_live [OF reg _ clone(2) this, of ?s] clone(1)
    have "((live (sys_streams sys))(a \<mapsto> ?s)) b = Some t' \<or> b = a \<and> moves (ts_stream ?s) (ts_stream t')" by simp
    then show "(\<exists>t. live (sys_streams sys) b = Some t \<and> moves (ts_stream t) (ts_stream t'))
      \<or> live (sys_streams sys) b = None \<and> unat (es_queue_generation (ts_stream t')) \<le> 1"
      using a by (cases "b = a") (auto simp: moves_def EventStream_new_def)
  qed
qed

lemma create_publisher_tracks:
  assumes "queue_view_laws sh add log" "try_create_publisher sh stream w = (Some pub, stream', w')"
  shows "moves stream stream'" "tracks stream' pub"
proof -
  obtain pr k where pr: "create_producer sh stream' w = (pr, w')"
    "pub = \<lparr>pub_queue_generation = es_queue_generation stream', pub_producer = pr\<rparr>"
    "stream' = stream\<lparr>es_remaining_publisher_slots := k\<rparr>"
    using assms(2) by (auto simp: try_create_publisher_def Let_def split: option.splits prod.splits)
  then show "moves stream stream'" by (auto simp: moves_def)
  show "tracks stream' pub"
    using create_producer_log(2) [OF assms(1) pr(1)] pr(2) by (auto simp: tracks_def attached_def)
qed

lemma Publisher_producer_tracks:
  assumes "queue_view_laws sh add log" "tracks stream pub" "Publisher_producer sh stream pub w = (pub', w')"
  shows "tracks stream pub'"
  using Publisher_producer_log [OF assms(1) _ assms(3)] assms(2) by (simp add: tracks_def)

text \<open>A call that moves nothing but may refresh the publisher it is made on.\<close>

lemma publisher_live:
  assumes "publishers_ok n s" "system_ok sh join_untyped base s" "PublisherOf a pub \<in> set (st_handles s)"
  obtains t where "live_streams (st_system s) a = Some t" "tracks (ts_stream t) pub" "arcs_ok (sys_streams (st_system s))"
proof -
  obtain t where "live_streams (st_system s) a = Some t"
    using system_ok_handle [OF assms(2,3)] by (auto simp: live_streams_def)
  then show thesis using that assms heap_okD(1) unfolding publishers_ok_def system_ok_def by blast
qed

lemma publishers_ok_refresh:
  fixes s s' :: "('b, 'p) sstate"
  assumes ok: "publishers_ok n s" "Suc n < 2 ^ 64" "system_ok sh join_untyped base s"
    and s: "st_handles s = xs @ PublisherOf a pub # ys" "live_streams (st_system s) a = Some t"
    and s': "st_handles s' = xs @ PublisherOf a pub' # ys" "live_streams (st_system s') = live_streams (st_system s)"
    and pub': "tracks (ts_stream t) pub'"
  shows "publishers_ok (Suc n) s'"
proof (rule publishers_ok_step [OF ok(1,2)])
  show "evolves (st_system s) (st_system s')" using s'(2) by (simp add: evolves_same)
  fix b p t'
  assume "PublisherOf b p \<in> set (st_handles s')" "live_streams (st_system s') b = Some t'"
  then show "PublisherOf b p \<in> set (st_handles s) \<and> live_streams (st_system s) b \<noteq> None \<or> tracks (ts_stream t') p"
    using s s' pub' by auto
qed

lemma is_enabled_publishers_ok:
  assumes laws: "queue_view_laws sh add log" and ok: "publishers_ok n s" "Suc n < 2 ^ 64" "system_ok sh join_untyped base s"
    and s: "st_handles s = xs @ PublisherOf a pub # ys"
    and call: "System_is_enabled sh a pub (st_system s) = ((r, pub'), sys')"
  shows "publishers_ok (Suc n) (s\<lparr>st_system := sys', st_handles := xs @ PublisherOf a pub' # ys\<rparr>)"
proof -
  obtain t where t: "live_streams (st_system s) a = Some t" "tracks (ts_stream t) pub" "arcs_ok (sys_streams (st_system s))"
    using publisher_live [OF ok(1,3), of a pub] s by auto
  obtain stream' where "(case Publisher_is_enabled sh (ts_stream t) pub (state_world s) of (r, self', w') \<Rightarrow> ((r, self'), ts_stream t, w'))
      = ((r, pub'), stream', system_world sys')"
    and live: "live_streams sys' = (live_streams (st_system s))(a \<mapsto> t\<lparr>ts_stream := stream'\<rparr>)"
    by (rule with_stream_live [OF call [unfolded System_is_enabled_def] t(3,1)])
  then have "Publisher_producer sh (ts_stream t) pub (state_world s) = (pub', system_world sys')" "stream' = ts_stream t"
    by (auto simp: Publisher_is_enabled_def split: prod.splits)
  then show ?thesis
    using Publisher_producer_tracks [OF laws t(2)] live t(1)
    by (intro publishers_ok_refresh [OF ok s t(1)]) (auto simp: fun_eq_iff)
qed

lemma create_publisher_publishers_ok:
  assumes laws: "queue_view_laws sh add log" and ok: "publishers_ok n s" "Suc n < 2 ^ 64" "system_ok sh join_untyped base s"
    and a: "Factory a \<in> set (st_handles s)"
    and call: "PublisherFactory_try_create_publisher sh a (st_system s) = (Some pub, sys')"
  shows "publishers_ok (Suc n) (s\<lparr>st_system := sys', st_handles := PublisherOf a pub # st_handles s\<rparr>)"
proof -
  have arcs: "arcs_ok (sys_streams (st_system s))" using ok(3) heap_okD(1) by (auto simp: system_ok_def)
  have lv: "\<exists>t. live_streams (st_system s) (handle_addr x) = Some t" if "x \<in> set (st_handles s)" for x
    using system_ok_handle [OF ok(3) that] by (auto simp: live_streams_def)
  obtain sys1 where sys1: "with_stream a (try_create_publisher sh) None (st_system s) = (Some pub, sys1)"
    "sys' = PublisherFactory_clone a sys1"
    using call by (auto simp: PublisherFactory_try_create_publisher_def split: prod.splits option.splits)
  obtain t where t: "live_streams (st_system s) a = Some t" using lv [OF a] by auto
  obtain stream' where run: "try_create_publisher sh (ts_stream t) (state_world s) = (Some pub, stream', system_world sys1)"
    and live: "live_streams sys1 = (live_streams (st_system s))(a \<mapsto> t\<lparr>ts_stream := stream'\<rparr>)"
    by (rule with_stream_live [OF sys1(1) arcs t])
  note pub = create_publisher_tracks [OF laws run]
  have live': "live_streams sys' = live_streams sys1" using sys1(2) by (simp add: live_streams_def PublisherFactory_clone_def)
  show ?thesis
  proof (rule publishers_ok_step [OF ok(1,2)])
    show "evolves (st_system s) (st_system (s\<lparr>st_system := sys', st_handles := PublisherOf a pub # st_handles s\<rparr>))"
      using evolves_upd [OF _ t pub(1)] live live' by simp
  qed (use lv live live' pub(2) in \<open>force split: if_splits\<close>)
qed

lemma evolves_drop_publisher:
  assumes "arcs_ok (sys_streams sys)" "live_streams sys a = Some t"
  shows "evolves sys (System_drop_publisher sh a pub sys)"
proof -
  obtain x sys1 where call: "with_stream a (\<lambda>es w. ((), Publisher_drop sh pub es w)) () sys = (x, sys1)" by (metis prod.collapse)
  obtain stream' where f: "((), Publisher_drop sh pub (ts_stream t) (system_world sys)) = (x, stream', system_world sys1)"
    and live: "live_streams sys1 = (live_streams sys)(a \<mapsto> t\<lparr>ts_stream := stream'\<rparr>)"
    by (rule with_stream_live [OF call assms])
  have "evolves sys sys1" using evolves_upd [OF live assms(2)] f by (auto simp: Publisher_drop_def Let_def moves_def)
  then show ?thesis
    by (rule evolves_trans_le)
      (simp add: System_drop_publisher_def call PublisherFactory_drop_def live_streams_def arc_drop_live)
qed

lemma astep_publishers_ok:
  assumes laws: "queue_view_laws sh add log" and ok: "publishers_ok n s" "Suc n < 2 ^ 64" "system_ok sh join_untyped base s"
    and step: "astep sh s s'"
  shows "publishers_ok (Suc n) s'"
proof -
  have arcs: "arcs_ok (sys_streams (st_system s))" using ok(3) heap_okD(1) by (auto simp: system_ok_def)
  have stay: "publishers_ok (Suc n) s1" if "evolves (st_system s) (st_system s1)"
    "\<And>a pub. PublisherOf a pub \<in> set (st_handles s1) \<Longrightarrow> PublisherOf a pub \<in> set (st_handles s)" for s1
    by (rule publishers_ok_step [OF ok(1,2) that(1)]) (use that(2) publisher_live [OF ok(1,3)] in blast)
  from step show ?thesis
  proof cases
    case (drop_publisher xs a pub ys)
    obtain t where "live_streams (st_system s) a = Some t"
      using publisher_live [OF ok(1,3), of a pub] drop_publisher(2) by auto
    from evolves_drop_publisher [OF arcs this] show ?thesis using drop_publisher by (intro stay) auto
  next
    case (is_enabled xs a pub ys r' pub' sys')
    then show ?thesis using is_enabled_publishers_ok [OF laws ok] by simp
  next
    case (create_publisher a pub sys')
    then show ?thesis using create_publisher_publishers_ok [OF laws ok] by simp
  next
    case (create_stream n schema cfg a sys')
    then show ?thesis using evolves_create_stream [OF _ arcs] by (intro stay) auto
  next
    case (create_stream_fails n schema cfg e sys')
    then show ?thesis using evolves_create_stream [OF _ arcs] by (intro stay) auto
  next
    case (set_policy policy sys')
    then show ?thesis using evolves_set_policy [OF _ arcs] by (intro stay) auto
  qed (auto intro!: stay evolves_same simp: live_streams_def EventSystem_clone_def EventSystem_drop_def PublisherFactory_clone_def
      PublisherFactory_drop_def arc_drop_live)
qed

section \<open>Publishing\<close>

text \<open>
  What a publishing call does to the queues: when it succeeds on an enabled stream, the encodings of its
  events are published on the current queue; otherwise every queue looks as before.
\<close>

definition delivers ::
    "('p \<Rightarrow> bytes list \<Rightarrow> 'v \<Rightarrow> 'v) \<Rightarrow> ('b \<Rightarrow> 'v) \<Rightarrow> ('ev \<Rightarrow> (wincode_error, bytes) outcome) \<Rightarrow> EventStream \<Rightarrow> 'ev list
      \<Rightarrow> (PublishError, unit) outcome \<Rightarrow> 'p Publisher \<Rightarrow> 'b world \<Rightarrow> 'b world \<Rightarrow> bool" where
  "delivers add log serialize_into stream events r pub w w' \<longleftrightarrow>
     log_at log w' = log_at log w \<and> (r = Ok () \<longrightarrow> events = [] \<or> pub_producer pub = None)
     \<or> (\<exists>obj p cells msgs. r = Ok () \<and> pub_producer pub = Some (obj, p) \<and> map_option sq_broadcast (es_queue stream) = Some obj
          \<and> serialize_all serialize_into events = Ok cells \<and> log_at log w obj = Some msgs
          \<and> log_at log w' = (log_at log w)(obj \<mapsto> add p cells msgs))"

lemma write_delivers:
  assumes laws: "queue_view_laws sh add log" and reserve: "\<And>p b. log (snd (reserve p b)) = log b"
    and pub: "tracks stream pub" "Publisher_producer sh stream pub w = (pub', w1)"
    and run: "(case pub_producer pub' of None \<Rightarrow> (Ok (), w1)
      | Some producer \<Rightarrow> write_events sh reserve serialize_into producer events w1) = (r, w')"
  shows "delivers add log serialize_into stream events r pub' w w' \<and> same_memory w w' \<and> tracks stream pub'"
proof -
  note pp = Publisher_producer_log [OF laws _ pub(2)]
  have tr: "attached stream pub" "tracks stream pub'"
    using pub(1) Publisher_producer_tracks [OF laws pub] by (simp_all add: tracks_def)
  have log: "log_at log w1 = log_at log w" and mem: "same_memory w w1"
    using pp(1) [OF tr(1)] same_memory_Publisher_producer [OF pub(2)] by simp_all
  show ?thesis
  proof (cases "pub_producer pub'")
    case None
    then show ?thesis using run log mem tr(2) by (simp add: delivers_def)
  next
    case (Some producer)
    obtain obj p where p: "producer = (obj, p)" by (cases producer)
    have wr: "write_events sh reserve serialize_into (obj, p) events w1 = (r, w')" using run Some p by simp
    note wl = write_events_log [OF laws reserve wr]
    have cur: "map_option sq_broadcast (es_queue stream) = Some obj"
      using pp(2,3) [OF tr(1)] Some p by (simp add: attached_def)
    have "delivers add log serialize_into stream events r pub' w w'"
    proof (cases "r = Ok ()")
      case True
      then obtain cells msgs where "serialize_all serialize_into events = Ok cells" "log_at log w1 obj = Some msgs"
        "log_at log w' obj = Some (add p cells msgs)" using wl(3) by blast
      moreover have "log_at log w' = (log_at log w)(obj \<mapsto> add p cells msgs)"
        by (rule ext) (use wl(1) log calculation(3) in simp)
      ultimately show ?thesis
        using True Some cur log unfolding delivers_def p by (intro disjI2 exI conjI) simp_all
    next
      case False
      then show ?thesis using wl(2) log by (simp add: delivers_def)
    qed
    then show ?thesis using same_memory_operations(3) [OF wr mem] tr(2) by simp
  qed
qed

lemma publish_batch_delivers:
  assumes laws: "queue_view_laws sh add log" and pub: "tracks stream pub"
    and run: "publish_batch sh serialize_into stream events (pub, w) = (r, (pub', w'))"
  shows "delivers add log serialize_into stream events r pub' w w' \<and> same_memory w w' \<and> tracks stream pub'"
proof (cases "events = []")
  case True
  then show ?thesis using run pub by (simp add: publish_batch_def delivers_def)
next
  case False
  obtain pub1 w1 where p: "Publisher_producer sh stream pub w = (pub1, w1)" by fastforce
  have "pub1 = pub'" "(case pub_producer pub1 of None \<Rightarrow> (Ok (), w1)
      | Some producer \<Rightarrow> write_events sh (\<lambda>p. try_reserve_write_batch sh p (length events)) serialize_into producer events w1) = (r, w')"
    using run False p by (auto simp: publish_batch_def split: option.splits prod.splits)
  then show ?thesis using laws by (intro write_delivers [OF laws _ pub]) (use p in \<open>simp_all add: queue_view_laws_def\<close>)
qed

lemma publish_delivers:
  assumes laws: "queue_view_laws sh add log" and pub: "tracks stream pub"
    and run: "publish sh serialize_into stream event (pub, w) = (r, (pub', w'))"
  shows "delivers add log serialize_into stream [event] r pub' w w' \<and> same_memory w w' \<and> tracks stream pub'"
proof -
  obtain pub1 w1 where p: "Publisher_producer sh stream pub w = (pub1, w1)" by fastforce
  have "pub1 = pub'" "(case pub_producer pub1 of None \<Rightarrow> (Ok (), w1)
      | Some producer \<Rightarrow> write_events sh (try_reserve_write sh) serialize_into producer [event] w1) = (r, w')"
    using run p by (auto simp: publish_def split: option.splits prod.splits)
  then show ?thesis using laws by (intro write_delivers [OF laws _ pub]) (use p in \<open>simp_all add: queue_view_laws_def\<close>)
qed

section \<open>Connections\<close>

text \<open>
  What a connection has received so far and what its queue still keeps for it make up what it had to see when
  it connected and what was sent since.
\<close>

definition conn_ok :: "('b, 'p, 'c) broadcast_spec \<Rightarrow> 'b world \<Rightarrow> ('s, 'c, 'ev) connection \<Rightarrow> bool" where
  "conn_ok sp w cn \<longleftrightarrow>
     (case sub_slice_consumer (cn_subscriber cn) of (obj, c) \<Rightarrow>
        \<exists>U u. log_at (bs_unseen sp) w obj = Some U \<and> U (bs_slot sp c) = Some u
          \<and> (\<forall>l. cn_backlog cn l @ map snd (cn_sent cn l) = map payload (cn_received cn l) @ u l))"

text \<open>Connections on the same queue have different slots.\<close>

definition cn_key :: "('b, 'p, 'c) broadcast_spec \<Rightarrow> ('s, 'c, 'ev) connection \<Rightarrow> nat \<times> nat" where
  "cn_key sp cn = (case sub_slice_consumer (cn_subscriber cn) of (obj, c) \<Rightarrow> (obj, bs_slot sp c))"

definition conns_ok :: "('b, 'p, 'c) broadcast_spec \<Rightarrow> 'b world \<Rightarrow> ('s, 'c, 'ev) connection list \<Rightarrow> bool" where
  "conns_ok sp w cns \<longleftrightarrow> distinct (map (cn_key sp) cns) \<and> (\<forall>cn \<in> set cns. conn_ok sp w cn)"

lemma conn_ok_cong:
  assumes "conn_ok sp w cn" "\<And>U u. log_at (bs_unseen sp) w (fst (cn_key sp cn)) = Some U \<Longrightarrow> U (snd (cn_key sp cn)) = Some u \<Longrightarrow>
    \<exists>U'. log_at (bs_unseen sp) w' (fst (cn_key sp cn)) = Some U' \<and> U' (snd (cn_key sp cn)) = Some u"
  shows "conn_ok sp w' cn"
  using assms unfolding conn_ok_def cn_key_def by (auto split: prod.splits) blast

lemma conns_ok_kept:
  assumes "conns_ok sp w cns" "memory_ok w" "world_kept (bs_unseen sp) w w'"
  shows "conns_ok sp w' cns"
  using assms conn_ok_cong [of sp w _ w'] unfolding conns_ok_def world_kept_def by blast

lemma note_sent_simps [simp]:
  "cn_subscriber (note_sent lane q r pub items cn) = cn_subscriber cn"
  "cn_backlog (note_sent lane q r pub items cn) = cn_backlog cn"
  "cn_received (note_sent lane q r pub items cn) = cn_received cn"
  "cn_key sp (note_sent lane q r pub items cn) = cn_key sp cn"
  by (simp_all add: note_sent_def cn_key_def split: option.split prod.split)

lemma serialize_all_length: "serialize_all f events = Ok cells \<Longrightarrow> length cells = length events"
  by (induction events arbitrary: cells) (auto simp: r_bind_Ok_iff)

lemma sent_items_cells: "serialize_all f events = Ok cells \<Longrightarrow> map snd (sent_items f events) = cells"
  by (simp add: sent_items_def serialize_all_length)

lemma conn_ok_sent:
  assumes ok: "conn_ok sp w cn"
    and d: "delivers (\<lambda>p. broadcast_cells (bs_lane sp p)) (bs_unseen sp) serialize_into stream events r pub w w'"
  shows "conn_ok sp w' (note_sent (bs_lane sp) (map_option sq_broadcast (es_queue stream)) r pub
    (sent_items serialize_into events) cn)"
proof -
  obtain obj c where sub: "sub_slice_consumer (cn_subscriber cn) = (obj, c)" by fastforce
  obtain U u where u: "log_at (bs_unseen sp) w obj = Some U" "U (bs_slot sp c) = Some u"
    and eq: "\<And>l. cn_backlog cn l @ map snd (cn_sent cn l) = map payload (cn_received cn l) @ u l"
    using ok sub by (auto simp: conn_ok_def)
  have q: "cn_queue cn = obj" using sub by (simp add: cn_queue_def)
  from d [unfolded delivers_def] show ?thesis
  proof
    assume a: "log_at (bs_unseen sp) w' = log_at (bs_unseen sp) w \<and> (r = Ok () \<longrightarrow> events = [] \<or> pub_producer pub = None)"
    then have "cn_sent (note_sent (bs_lane sp) (map_option sq_broadcast (es_queue stream)) r pub (sent_items serialize_into events) cn) = cn_sent cn"
      by (auto simp: note_sent_def sent_items_def split: option.split)
    then show ?thesis using a sub u eq by (auto simp: conn_ok_def)
  next
    assume "\<exists>obj p cells msgs. r = Ok () \<and> pub_producer pub = Some (obj, p) \<and> map_option sq_broadcast (es_queue stream) = Some obj
          \<and> serialize_all serialize_into events = Ok cells \<and> log_at (bs_unseen sp) w obj = Some msgs
          \<and> log_at (bs_unseen sp) w' = (log_at (bs_unseen sp) w)(obj \<mapsto> broadcast_cells (bs_lane sp p) cells msgs)"
    then obtain obj' p cells V where p: "r = Ok ()" "pub_producer pub = Some (obj', p)" "map_option sq_broadcast (es_queue stream) = Some obj'"
      and cells: "serialize_all serialize_into events = Ok cells" and V: "log_at (bs_unseen sp) w obj' = Some V"
      and w': "log_at (bs_unseen sp) w' = (log_at (bs_unseen sp) w)(obj' \<mapsto> broadcast_cells (bs_lane sp p) cells V)" by blast
    show ?thesis
    proof (cases "obj' = obj")
      case True
      then show ?thesis
        using p q sub u eq V w' sent_items_cells [OF cells]
        by (simp add: conn_ok_def note_sent_def broadcast_cells_def)
    next
      case False
      then show ?thesis using p q sub u eq w' by (auto simp: conn_ok_def note_sent_def)
    qed
  qed
qed

lemma conns_ok_sent:
  assumes "conns_ok sp w cns"
    and "delivers (\<lambda>p. broadcast_cells (bs_lane sp p)) (bs_unseen sp) serialize_into stream events r pub w w'"
  shows "conns_ok sp w' (map (note_sent (bs_lane sp) (map_option sq_broadcast (es_queue stream)) r pub
    (sent_items serialize_into events)) cns)"
  using assms(1) conn_ok_sent [OF _ assms(2)] by (auto simp: conns_ok_def o_def)

text \<open>Subscribers change one queue, for one slot.\<close>

definition slot_step ::
    "('b, 'p, 's, 'c) broadcast_lib \<Rightarrow> ('b, 'p, 'c) broadcast_spec \<Rightarrow> nat \<times> nat \<Rightarrow> (usize \<Rightarrow> bytes list) option
      \<Rightarrow> 'b world \<Rightarrow> 'b world \<Rightarrow> bool" where
  "slot_step lib sp key x w w' \<longleftrightarrow>
     (\<exists>b b'. queue_of w (fst key) = Some b \<and> keeps_identity (bl_shaq lib) (bl_join_untyped lib) b b'
        \<and> bs_unseen sp b' = (bs_unseen sp b)(snd key := x) \<and> w' = store_queue (fst key) b' w)"

lemma slot_step_log:
  "slot_step lib sp (obj, k) x w w' \<Longrightarrow>
     \<exists>U. log_at (bs_unseen sp) w obj = Some U \<and> log_at (bs_unseen sp) w' = (log_at (bs_unseen sp) w)(obj \<mapsto> U(k := x))"
  by (auto simp: slot_step_def log_at_store log_at_def [of _ w] fun_eq_iff)

lemma conn_ok_other:
  assumes "conn_ok sp w cn" "slot_step lib sp key x w w'" "cn_key sp cn \<noteq> key"
  shows "conn_ok sp w' cn"
proof -
  obtain obj k where key: "key = (obj, k)" by (cases key)
  obtain U where U: "log_at (bs_unseen sp) w obj = Some U" "log_at (bs_unseen sp) w' = (log_at (bs_unseen sp) w)(obj \<mapsto> U(k := x))"
    using slot_step_log assms(2) key by blast
  show ?thesis
    by (rule conn_ok_cong [OF assms(1)]) (use U assms(3) key in \<open>cases "cn_key sp cn"; auto\<close>)
qed

lemma conns_ok_others:
  assumes "conns_ok sp w cns" "slot_step lib sp key x w w'" "key \<notin> cn_key sp ` set cns"
  shows "conns_ok sp w' cns"
  using assms conn_ok_other [OF _ assms(2)] by (auto simp: conns_ok_def)

lemma conns_ok_replace:
  assumes ok: "conns_ok sp w (xs @ cn # ys)" and step: "slot_step lib sp (cn_key sp cn) x w w'"
    and cn': "conn_ok sp w' cn'" "cn_key sp cn' = cn_key sp cn"
  shows "conns_ok sp w' (xs @ cn' # ys)"
proof -
  have "conns_ok sp w (xs @ ys)" "cn_key sp cn \<notin> cn_key sp ` set (xs @ ys)"
    using ok by (auto simp: conns_ok_def)
  from conns_ok_others [OF this(1) step this(2)] ok cn' show ?thesis by (auto simp: conns_ok_def)
qed

lemma recv_slot_step:
  assumes reads: "reads_first lib sp read" and ok: "conn_ok sp w cn"
    and run: "recv_with read e (cn_subscriber cn, w) = (Ok m, (sub, w'))"
  shows "\<exists>x. slot_step lib sp (cn_key sp cn) x w w'" "conn_ok sp w' (note_received m sub cn)"
    "cn_key sp (note_received m sub cn) = cn_key sp cn"
proof -
  obtain obj c where sub: "sub_slice_consumer (cn_subscriber cn) = (obj, c)" by fastforce
  obtain U u where u: "log_at (bs_unseen sp) w obj = Some U" "U (bs_slot sp c) = Some u"
    and eq: "\<And>l. cn_backlog cn l @ map snd (cn_sent cn l) = map payload (cn_received cn l) @ u l"
    using ok sub by (auto simp: conn_ok_def)
  obtain b where b: "queue_of w obj = Some b" "U = bs_unseen sp b" using u(1) by (auto simp: log_at_def)
  obtain lm cell c' b' where r: "read c b = Some ((lm, cell), c', b')"
    "m = \<lparr>sm_schema = sub_schema (cn_subscriber cn), sm_read_guard = (lm, cell)\<rparr>"
    "sub = (cn_subscriber cn)\<lparr>sub_slice_consumer := (obj, c')\<rparr>" "w' = store_queue obj b' w"
    using run sub b(1) by (auto simp: recv_with_def split: option.splits)
  obtain cells where c': "keeps_identity (bl_shaq lib) (bl_join_untyped lib) b b'" "bs_slot sp c' = bs_slot sp c"
    "u (lm_lane lm) = cell # cells" "bs_unseen sp b' = (bs_unseen sp b)(bs_slot sp c \<mapsto> u(lm_lane lm := cells))"
    using reads u(2) r(1) b(2) unfolding reads_first_def by blast
  show step: "\<exists>x. slot_step lib sp (cn_key sp cn) x w w'"
    using b(1) r(4) c'(1,4) sub by (auto simp: slot_step_def cn_key_def)
  show "cn_key sp (note_received m sub cn) = cn_key sp cn"
    using sub r(3) c'(2) by (simp add: note_received_def cn_key_def Let_def)
  have "log_at (bs_unseen sp) w' obj = Some (bs_unseen sp b')" using b(1) r(4) by (simp add: log_at_store)
  moreover have "cn_backlog cn l @ map snd (cn_sent cn l)
      = map payload (cn_received (note_received m sub cn) l) @ (u(lm_lane lm := cells)) l" for l
    using eq [of l] c'(3) r(2) by (simp add: note_received_def message_lane_metadata_def payload_def Let_def)
  ultimately show "conn_ok sp w' (note_received m sub cn)"
    using c'(2,4) r(3) by (simp add: conn_ok_def note_received_def Let_def)
qed

lemma cn_key_connected: "sub_slice_consumer sub = (obj, c) \<Longrightarrow> cn_key sp (connected sp sub w) = (obj, bs_slot sp c)"
  by (simp add: cn_key_def connected_def)

lemma connect_slot_step:
  assumes laws: "broadcast_laws lib sp" and run: "try_connect (bl_slice_consumer lib) av w = (Ok sub, w')"
    and cn: "cn = connected sp sub w'"
  shows "\<exists>x. slot_step lib sp (cn_key sp cn) x w w'" "conn_ok sp w' cn"
    "conns_ok sp w cns \<Longrightarrow> cn_key sp cn \<notin> cn_key sp ` set cns"
proof -
  let ?obj = "av_broadcast_handle av"
  obtain b c b' where b: "queue_of w ?obj = Some b" "bl_slice_consumer lib b = Some (c, b')"
    "sub_slice_consumer sub = (?obj, c)" "w' = store_queue ?obj b' w"
    using run by (auto simp: try_connect_def queue_of_def bind_eq_Some_conv split: option.splits)
  obtain u where u: "keeps_identity (bl_shaq lib) (bl_join_untyped lib) b b'" "bs_unseen sp b (bs_slot sp c) = None"
    "bs_unseen sp b' = (bs_unseen sp b)(bs_slot sp c \<mapsto> u)"
    using laws b(2) unfolding broadcast_laws_def by blast
  have q: "queue_of w' ?obj = Some b'" using b(1,4) by (simp add: queue_of_mem)
  have key: "cn_key sp cn = (?obj, bs_slot sp c)" using cn_key_connected [OF b(3)] cn by metis
  show "\<exists>x. slot_step lib sp (cn_key sp cn) x w w'"
    using b u by (auto simp: slot_step_def key)
  show "conn_ok sp w' cn"
    using b(3) q u(3) by (simp add: cn conn_ok_def connected_def log_at_def)
  assume ok: "conns_ok sp w cns"
  have "cn_key sp x \<noteq> (?obj, bs_slot sp c)" if "x \<in> set cns" for x
  proof
    assume k: "cn_key sp x = (?obj, bs_slot sp c)"
    have "conn_ok sp w x" using ok that by (simp add: conns_ok_def)
    then show False using k b(1) u(2) by (auto simp: conn_ok_def cn_key_def log_at_def split: prod.splits)
  qed
  then show "cn_key sp cn \<notin> cn_key sp ` set cns" unfolding key by (metis imageE)
qed

lemma disconnect_slot_step:
  assumes "broadcast_laws lib sp" "conn_ok sp w cn"
  shows "slot_step lib sp (cn_key sp cn) None w (disconnected lib (cn_subscriber cn) w)"
proof -
  obtain obj c where sub: "sub_slice_consumer (cn_subscriber cn) = (obj, c)" by fastforce
  obtain b where b: "queue_of w obj = Some b" using assms(2) sub by (auto simp: conn_ok_def log_at_def)
  have "keeps_identity (bl_shaq lib) (bl_join_untyped lib) b (bl_drop_consumer lib c b)"
    "bs_unseen sp (bl_drop_consumer lib c b) = (bs_unseen sp b)(bs_slot sp c := None)"
    using assms(1) by (simp_all add: broadcast_laws_def)
  then show ?thesis using sub b by (auto simp: slot_step_def cn_key_def disconnected_def)
qed

section \<open>The invariant of a run\<close>

definition run_ok ::
    "('b, 'p, 's, 'c) broadcast_lib \<Rightarrow> ('b, 'p, 'c) broadcast_spec \<Rightarrow> path \<Rightarrow> nat \<Rightarrow> ('b, 'p, 's, 'c, 'ev) run \<Rightarrow> bool" where
  "run_ok lib sp path n r \<longleftrightarrow>
     system_ok (bl_shaq lib) (bl_join_untyped lib) path (ru_state r) \<and> memory_ok (state_world (ru_state r))
     \<and> publishers_ok n (ru_state r) \<and> conns_ok sp (state_world (ru_state r)) (ru_connections r)"

lemma with_world_simps [simp]:
  "system_world (st_system (with_world w s)) = w" "live_streams (st_system (with_world w s)) = live_streams (st_system s)"
  "st_handles (with_world w s) = st_handles s"
  by (simp_all add: with_world_def system_world_def live_streams_def Let_def)

lemma system_ok_with_world:
  assumes ok: "system_ok sh join_untyped base s" and files: "w_files w = w_files (state_world s)"
    and lay: "\<And>E. layout sh join_untyped base E (state_world s) \<Longrightarrow> layout sh join_untyped base E w"
  shows "system_ok sh join_untyped base (with_world w s)"
proof -
  obtain w0 refs where w0: "arc_world (sys_streams (st_system s)) = (w0, refs)" by fastforce
  have "streams_ok sh join_untyped base lv (w, refs)" if "streams_ok sh join_untyped base lv (w0, refs)" for lv
    using that lay w0 unfolding streams_ok_def by (auto simp: system_world_def)
  then show ?thesis
    using ok files w0 unfolding system_ok_def heap_ok_def with_world_def
    by (auto simp: system_world_def Let_def strong_count_def [abs_def] arcs_ok_def)
qed

lemma publishers_ok_mono:
  "publishers_ok n s \<Longrightarrow> live_streams (st_system s') = live_streams (st_system s) \<Longrightarrow> st_handles s' = st_handles s \<Longrightarrow>
   publishers_ok (Suc n) s'"
  unfolding publishers_ok_def by (metis le_SucI)

lemma run_ok_slot_step:
  assumes ok: "run_ok lib sp path n r" and step: "slot_step lib sp key x (state_world (ru_state r)) w"
    and cns: "conns_ok sp w cns"
  shows "run_ok lib sp path (Suc n) (r\<lparr>ru_state := with_world w (ru_state r), ru_connections := cns\<rparr>)"
proof -
  obtain b b' where b: "queue_of (state_world (ru_state r)) (fst key) = Some b"
    "keeps_identity (bl_shaq lib) (bl_join_untyped lib) b b'" "w = store_queue (fst key) b' (state_world (ru_state r))"
    using step by (auto simp: slot_step_def)
  have "system_ok (bl_shaq lib) (bl_join_untyped lib) path (with_world w (ru_state r))"
  proof (rule system_ok_with_world)
    show "w_files w = w_files (state_world (ru_state r))" using b(3) by (simp add: store_queue_def)
    show "layout (bl_shaq lib) (bl_join_untyped lib) path E w"
      if "layout (bl_shaq lib) (bl_join_untyped lib) path E (state_world (ru_state r))" for E
      using layout_store [OF that b(1,2)] b(3) by simp
  qed (use ok in \<open>simp add: run_ok_def\<close>)
  moreover have "memory_ok w"
    using ok same_memory_ok [of "state_world (ru_state r)" w] by (simp add: run_ok_def b(3))
  ultimately show ?thesis using ok cns publishers_ok_mono [of n "ru_state r" "with_world w (ru_state r)"] by (simp add: run_ok_def)
qed

lemma broadcast_lawsD:
  assumes "broadcast_laws lib sp"
  shows "queue_laws (bl_shaq lib) (bl_join_untyped lib)" "queue_identity_laws (bl_shaq lib) (bl_join_untyped lib)"
    "queue_view_laws (bl_shaq lib) (\<lambda>p. broadcast_cells (bs_lane sp p)) (bs_unseen sp)"
    "reads_first lib sp (try_read (bl_consumer lib))" "reads_first lib sp (\<lambda>c. read_timeout (bl_consumer lib) c t)"
    "bs_unseen sp b k = Some u \<Longrightarrow> finite {l. u l \<noteq> []}"
    "bs_unseen sp b (bs_slot sp c) = Some u \<Longrightarrow> try_read (bl_consumer lib) c b = None \<longleftrightarrow> (\<forall>l. u l = [])"
  using assms by (simp_all add: broadcast_laws_def queue_laws_def)

text \<open>A publishing call, single or batch, as a function on its stream.\<close>

lemma run_ok_publishing:
  assumes laws: "broadcast_laws lib sp" and ok: "run_ok lib sp path n r" "Suc n < 2 ^ 64"
    and s: "st_handles (ru_state r) = xs @ PublisherOf a pub # ys"
    and call: "with_stream a (\<lambda>es w. case run es (pub, w) of (res, (self', w')) \<Rightarrow> ((res, self'), es, w')) d
      (st_system (ru_state r)) = ((res, pub'), sys')"
    and harmless: "harmless (bl_shaq lib) (bl_join_untyped lib) path
      (\<lambda>es w. case run es (pub, w) of (res, (self', w')) \<Rightarrow> ((res, self'), es, w'))"
    and run: "\<And>stream w w'. tracks stream pub \<Longrightarrow> run stream (pub, w) = (res, (pub', w')) \<Longrightarrow>
      delivers (\<lambda>p. broadcast_cells (bs_lane sp p)) (bs_unseen sp) serialize_into stream events res pub' w w'
      \<and> same_memory w w' \<and> tracks stream pub'"
  shows "run_ok lib sp path (Suc n) (r\<lparr>ru_state := (ru_state r)\<lparr>st_system := sys', st_handles := xs @ PublisherOf a pub' # ys\<rparr>,
    ru_connections := map (note_sent (bs_lane sp) (current_queue (st_system (ru_state r)) a) res pub'
      (sent_items serialize_into events)) (ru_connections r)\<rparr>)"
proof -
  let ?s = "ru_state r" let ?w = "state_world ?s"
  let ?s' = "?s\<lparr>st_system := sys', st_handles := xs @ PublisherOf a pub' # ys\<rparr>"
  have parts: "system_ok (bl_shaq lib) (bl_join_untyped lib) path ?s" "memory_ok ?w" "publishers_ok n ?s"
    "conns_ok sp ?w (ru_connections r)" using ok(1) by (simp_all add: run_ok_def)
  obtain t where t: "live_streams (st_system ?s) a = Some t" "tracks (ts_stream t) pub" "arcs_ok (sys_streams (st_system ?s))"
    using publisher_live [OF parts(3,1), of a pub] s by auto
  obtain stream' where "(case run (ts_stream t) (pub, ?w) of (res, (self', w')) \<Rightarrow> ((res, self'), ts_stream t, w'))
      = ((res, pub'), stream', system_world sys')"
    and live: "live_streams sys' = (live_streams (st_system ?s))(a \<mapsto> t\<lparr>ts_stream := stream'\<rparr>)"
    by (rule with_stream_live [OF call t(3,1)])
  then have r: "run (ts_stream t) (pub, ?w) = (res, (pub', system_world sys'))" "stream' = ts_stream t"
    by (auto split: prod.splits)
  note effect = run [OF t(2) r(1)]
  have "live_streams sys' = live_streams (st_system ?s)" using live t(1) r(2) by (auto simp: fun_eq_iff)
  then have "publishers_ok (Suc n) ?s'"
    using effect by (intro publishers_ok_refresh [OF parts(3) ok(2) parts(1) s t(1)]) auto
  moreover have "system_ok (bl_shaq lib) (bl_join_untyped lib) path ?s'"
    using system_ok_same_handles [OF system_ok_use [OF parts(1) harmless call], of "xs @ PublisherOf a pub' # ys"] s by simp
  moreover have "current_queue (st_system ?s) a = map_option sq_broadcast (es_queue (ts_stream t))"
    using t(1) by (simp add: current_queue_def)
  then have "conns_ok sp (system_world sys') (map (note_sent (bs_lane sp) (current_queue (st_system ?s) a) res pub'
      (sent_items serialize_into events)) (ru_connections r))"
    using conns_ok_sent [OF parts(4)] effect by simp
  moreover have "memory_ok (system_world sys')" using effect same_memory_ok [of ?w] parts(2) by blast
  ultimately show ?thesis by (simp add: run_ok_def)
qed

text \<open>The steps of the subscribers.\<close>

lemma run_ok_connect:
  fixes r :: "('b, 'p, 's, 'c, 'ev) run"
  assumes laws: "broadcast_laws lib sp" and ok: "run_ok lib sp path n r"
    and run: "try_connect (bl_slice_consumer lib) av (state_world (ru_state r)) = (Ok sub, w)"
  shows "run_ok lib sp path (Suc n)
    (r\<lparr>ru_state := with_world w (ru_state r), ru_connections := connected sp sub w # ru_connections r\<rparr>)"
proof -
  define cn :: "('s, 'c, 'ev) connection" where "cn = connected sp sub w"
  have cns: "conns_ok sp (state_world (ru_state r)) (ru_connections r)" using ok by (simp add: run_ok_def)
  note c = connect_slot_step [OF laws run cn_def]
  obtain x where x: "slot_step lib sp (cn_key sp cn) x (state_world (ru_state r)) w" using c(1) by blast
  from conns_ok_others [OF cns x c(3) [OF cns]] c(2) c(3) [OF cns]
  have "conns_ok sp w (cn # ru_connections r)" by (simp add: conns_ok_def)
  from run_ok_slot_step [OF ok x this] show ?thesis by (simp add: cn_def)
qed

lemma run_ok_receive:
  assumes reads: "reads_first lib sp read" and ok: "run_ok lib sp path n r"
    and cn: "ru_connections r = xs @ cn # ys"
    and run: "recv_with read e (cn_subscriber cn, state_world (ru_state r)) = (Ok m, (sub, w))"
  shows "run_ok lib sp path (Suc n)
    (r\<lparr>ru_state := with_world w (ru_state r), ru_connections := xs @ note_received m sub cn # ys\<rparr>)"
proof -
  have cns: "conns_ok sp (state_world (ru_state r)) (xs @ cn # ys)" using ok cn by (simp add: run_ok_def)
  then have "conn_ok sp (state_world (ru_state r)) cn" by (simp add: conns_ok_def)
  note c = recv_slot_step [OF reads this run]
  obtain x where x: "slot_step lib sp (cn_key sp cn) x (state_world (ru_state r)) w" using c(1) by blast
  show ?thesis by (rule run_ok_slot_step [OF ok x conns_ok_replace [OF cns x c(2,3)]])
qed

lemma run_ok_disconnect:
  assumes laws: "broadcast_laws lib sp" and ok: "run_ok lib sp path n r" and cn: "ru_connections r = xs @ cn # ys"
  shows "run_ok lib sp path (Suc n)
    (r\<lparr>ru_state := with_world (disconnected lib (cn_subscriber cn) (state_world (ru_state r))) (ru_state r),
       ru_connections := xs @ ys\<rparr>)"
proof -
  have cns: "conn_ok sp (state_world (ru_state r)) cn" "conns_ok sp (state_world (ru_state r)) (xs @ ys)"
    "cn_key sp cn \<notin> cn_key sp ` set (xs @ ys)" using ok cn by (auto simp: run_ok_def conns_ok_def)
  note c = disconnect_slot_step [OF laws cns(1)]
  show ?thesis by (rule run_ok_slot_step [OF ok c conns_ok_others [OF cns(2) c cns(3)]])
qed

lemma run_ok_quiet:
  assumes laws: "broadcast_laws lib sp" and ok: "run_ok lib sp path n r" "Suc n < 2 ^ 64"
    and step: "astep (bl_shaq lib) (ru_state r) s'"
  shows "run_ok lib sp path (Suc n) (r\<lparr>ru_state := s'\<rparr>)"
proof -
  note law = broadcast_lawsD [OF laws]
  have parts: "system_ok (bl_shaq lib) (bl_join_untyped lib) path (ru_state r)" "memory_ok (state_world (ru_state r))"
    "publishers_ok n (ru_state r)" "conns_ok sp (state_world (ru_state r)) (ru_connections r)"
    using ok(1) by (simp_all add: run_ok_def)
  note kept = astep_world_kept [OF law(3) step]
  then have "memory_ok (state_world s')" using parts(2) by (simp add: world_kept_def)
  then show ?thesis
    using astep_system_ok [OF step parts(1) law(2)] astep_publishers_ok [OF law(3) parts(3) ok(2) parts(1) step]
      conns_ok_kept [OF parts(4,2) kept] by (simp add: run_ok_def)
qed

lemma estep_run_ok:
  assumes laws: "broadcast_laws lib sp" and ok: "run_ok lib sp path n r" "Suc n < 2 ^ 64" and step: "estep lib sp path r r'"
  shows "run_ok lib sp path (Suc n) r'"
  using step
proof cases
  case (quiet s')
  then show ?thesis using run_ok_quiet [OF laws ok] by simp
next
  case (publish s xs a pub ys serialize_into event res pub' sys')
  note law = broadcast_lawsD(2,3) [OF laws]
  show ?thesis
    unfolding publish(1) publish(2) [symmetric]
    by (rule run_ok_publishing [OF laws ok _ _ harmless_operations(2) [OF law(1)]])
      (use publish publish_delivers [OF law(2)] in \<open>simp_all add: System_publish_def\<close>)
next
  case (publish_batch s xs a pub ys serialize_into events res pub' sys')
  note law = broadcast_lawsD(2,3) [OF laws]
  show ?thesis
    unfolding publish_batch(1) publish_batch(2) [symmetric]
    by (rule run_ok_publishing [OF laws ok _ _ harmless_operations(3) [OF law(1)]])
      (use publish_batch publish_batch_delivers [OF law(2)] in \<open>simp_all add: System_publish_batch_def\<close>)
next
  case explore
  have "publishers_ok n (ru_state r)" using ok(1) by (simp add: run_ok_def)
  then show ?thesis using explore ok(1) publishers_ok_mono [of n "ru_state r" "ru_state r"] by (simp add: run_ok_def)
next
  case (connect av sub w)
  then show ?thesis using run_ok_connect [OF laws ok(1)] by simp
next
  case (receive xs cn ys m sub w)
  then show ?thesis
    using run_ok_receive [OF broadcast_lawsD(4) [OF laws] ok(1), of xs cn ys Empty] by (simp add: try_recv_def)
next
  case (receive_timeout xs cn ys timeout m sub w)
  then show ?thesis
    using run_ok_receive [OF broadcast_lawsD(5) [OF laws] ok(1), where xs = xs and cn = cn and ys = ys and e = RecvTimeoutError] by (simp add: recv_timeout_def)
next
  case (disconnect xs cn ys)
  then show ?thesis using run_ok_disconnect [OF laws ok(1)] by simp
qed

lemma EventSystem_new_memory:
  assumes "EventSystem_new path w = (Ok sys, w')" "memory_ok w"
  shows "memory_ok (system_world sys)" "live_streams sys = Map.empty"
proof -
  obtain base w1 w2 w3 r where run: "create_dir_all path w = (Ok (), w1)" "canonicalize path w1 = (Ok base, w2)"
    "create_dir (base @ [STAGING_DIRECTORY_NAME]) w2 = (Ok (), w3)"
    "(case create_dir (base @ [STREAMS_DIRECTORY_NAME]) w3 of
       (Err error, w') \<Rightarrow> (Err error, io_ignore (remove_dir (base @ [STAGING_DIRECTORY_NAME])) w')
     | (Ok u, w') \<Rightarrow> (Ok base, w') | (Panic, w') \<Rightarrow> (Panic, w') | (UB, w') \<Rightarrow> (UB, w')) = (Ok r, w')"
    and sys: "system_world sys = w'"
    using assms(1) by (auto simp: EventSystem_new_def EventSystemDirectory_create_def p_bind_Ok_iff system_world_def)
  have streams: "create_dir (base @ [STREAMS_DIRECTORY_NAME]) w3 = (Ok (), w')"
    using run(4) by (auto split: prod.splits outcome.splits)
  have files: "w_mem y = w_mem x \<and> w_next_mem y = w_next_mem x" if "on_files f x = (Ok (), y)" for f x y
    using that by (auto simp: on_files_Ok_iff)
  have "w_mem w2 = w_mem w1 \<and> w_next_mem w2 = w_next_mem w1"
    using run(2) by (auto simp: canonicalize_def syscall_Ok_iff)
  then have "w_mem w' = w_mem w \<and> w_next_mem w' = w_next_mem w"
    using files [OF run(1) [unfolded create_dir_all_def]] files [OF run(3) [unfolded create_dir_def]]
      files [OF streams [unfolded create_dir_def]] by simp
  then show "memory_ok (system_world sys)" using assms(2) sys by (simp add: memory_ok_def)
  show "live_streams sys = Map.empty"
    using assms(1) by (auto simp: EventSystem_new_def p_bind_Ok_iff live_streams_def)
qed

lemma ereach_run_ok:
  assumes laws: "broadcast_laws lib sp" and reach: "ereach lib sp path n r" and n: "n < 2 ^ 64"
  shows "run_ok lib sp path n r"
  using reach n
proof induction
  case (init w sys w')
  have "sreachable (bl_shaq lib) path \<lparr>st_system = sys, st_systems = 1, st_handles = []\<rparr>"
    by (rule sreachable.init [OF init(1,2,4)])
  from sreachable_system_ok [OF broadcast_lawsD(1) [OF laws] this] EventSystem_new_memory [OF init(4,3)]
  show ?case by (simp add: run_ok_def publishers_ok_def conns_ok_def)
next
  case (step n r r')
  then show ?case using estep_run_ok [OF laws _ _ step(2)] by simp
qed

section \<open>What a connection receives\<close>

text \<open>How many messages are unseen.\<close>

definition pending :: "(usize \<Rightarrow> bytes list) \<Rightarrow> nat" where
  "pending u = (\<Sum>l \<in> {l. u l \<noteq> []}. length (u l))"

lemma pending_read:
  assumes "finite {l. u l \<noteq> []}" "u l = cell # cells"
  shows "pending u = Suc (pending (u(l := cells)))"
proof -
  let ?A = "{l. u l \<noteq> []}"
  have sub: "{k. (u(l := cells)) k \<noteq> []} \<subseteq> ?A" using assms(2) by auto
  have "pending (u(l := cells)) = (\<Sum>k \<in> ?A. length ((u(l := cells)) k))"
    unfolding pending_def by (rule sum.mono_neutral_left [OF assms(1) sub]) auto
  also have "\<dots> = length cells + (\<Sum>k \<in> ?A - {l}. length (u k))"
    using assms by (subst sum.remove [of ?A l]) auto
  finally show "pending u = Suc (pending (u(l := cells)))"
    using assms unfolding pending_def by (subst sum.remove [of ?A l]) auto
qed

text \<open>Receiving until nothing is left, at most so many times.\<close>

fun drain ::
    "('b, 'c) shaq_consumer \<Rightarrow> nat \<Rightarrow> ('s, 'c, 'ev) connection \<times> 'b world \<Rightarrow> ('s, 'c, 'ev) connection \<times> 'b world" where
  "drain cl 0 (cn, w) = (cn, w)"
| "drain cl (Suc n) (cn, w) =
     (case try_recv cl (cn_subscriber cn, w) of
        (Ok m, (sub, w')) \<Rightarrow> drain cl n (note_received m sub cn, w')
      | _ \<Rightarrow> (cn, w))"

text \<open>What a connection has to receive, and that it has all of it.\<close>

definition expected :: "('s, 'c, 'ev) connection \<Rightarrow> usize \<Rightarrow> bytes list" where
  "expected cn l = cn_backlog cn l @ map snd (cn_sent cn l)"

definition all_received :: "('s, 'c, 'ev) connection \<Rightarrow> bool" where
  "all_received cn \<longleftrightarrow> (\<forall>l. map payload (cn_received cn l) = expected cn l)"

lemma note_received_simps [simp]:
  "cn_sent (note_received m sub cn) = cn_sent cn" "cn_backlog (note_received m sub cn) = cn_backlog cn"
  "expected (note_received m sub cn) = expected cn"
  by (simp_all add: expected_def fun_eq_iff note_received_def Let_def)

lemma conn_okE:
  assumes "conn_ok sp w cn" "broadcast_laws lib sp"
  obtains obj c b u where "sub_slice_consumer (cn_subscriber cn) = (obj, c)" "queue_of w obj = Some b"
    "bs_unseen sp b (bs_slot sp c) = Some u" "\<And>l. expected cn l = map payload (cn_received cn l) @ u l"
    "finite {l. u l \<noteq> []}" "try_read (bl_consumer lib) c b = None \<longleftrightarrow> (\<forall>l. u l = [])"
proof -
  obtain obj c where sub: "sub_slice_consumer (cn_subscriber cn) = (obj, c)" by fastforce
  obtain U u where u: "log_at (bs_unseen sp) w obj = Some U" "U (bs_slot sp c) = Some u"
    "\<And>l. expected cn l = map payload (cn_received cn l) @ u l"
    using assms(1) sub by (auto simp: conn_ok_def expected_def)
  obtain b where b: "queue_of w obj = Some b" "U = bs_unseen sp b" using u(1) by (auto simp: log_at_def)
  show thesis
    using that [OF sub b(1)] u b(2) broadcast_lawsD(6,7) [OF assms(2)] by auto
qed

lemma try_recv_empty:
  assumes "conn_ok sp w cn" "broadcast_laws lib sp"
  shows "fst (try_recv (bl_consumer lib) (cn_subscriber cn, w)) = Err Empty \<longleftrightarrow> all_received cn"
    "fst (try_recv (bl_consumer lib) (cn_subscriber cn, w)) \<noteq> Err Empty \<Longrightarrow>
       \<exists>m sub w'. try_recv (bl_consumer lib) (cn_subscriber cn, w) = (Ok m, (sub, w'))"
proof -
  obtain obj c b u where u: "sub_slice_consumer (cn_subscriber cn) = (obj, c)" "queue_of w obj = Some b"
    "\<And>l. expected cn l = map payload (cn_received cn l) @ u l" "try_read (bl_consumer lib) c b = None \<longleftrightarrow> (\<forall>l. u l = [])"
    using conn_okE [OF assms] by metis
  have "(\<forall>l. u l = []) \<longleftrightarrow> all_received cn" using u(3) by (auto simp: all_received_def)
  then show "fst (try_recv (bl_consumer lib) (cn_subscriber cn, w)) = Err Empty \<longleftrightarrow> all_received cn"
    using u(1,2,4) by (auto simp: try_recv_def recv_with_def split: option.splits)
  show "\<exists>m sub w'. try_recv (bl_consumer lib) (cn_subscriber cn, w) = (Ok m, (sub, w'))"
    if "fst (try_recv (bl_consumer lib) (cn_subscriber cn, w)) \<noteq> Err Empty"
    using that u(1,2) by (auto simp: try_recv_def recv_with_def split: option.splits)
qed

text \<open>How many calls are enough: one for each message that is not received yet.\<close>

definition missing :: "('s, 'c, 'ev) connection \<Rightarrow> nat" where
  "missing cn = pending (\<lambda>l. drop (length (cn_received cn l)) (expected cn l))"

lemma missing_unseen:
  assumes "\<And>l. expected cn l = map payload (cn_received cn l) @ u l"
  shows "missing cn = pending u"
  unfolding missing_def by (rule arg_cong [of _ _ pending]) (simp add: assms fun_eq_iff)

lemma drain_receives:
  assumes laws: "broadcast_laws lib sp" and "conn_ok sp w cn" "missing cn \<le> n" "drain (bl_consumer lib) n (cn, w) = (cn', w')"
  shows "expected cn' = expected cn \<and> cn_sent cn' = cn_sent cn \<and> cn_backlog cn' = cn_backlog cn \<and> all_received cn'
    \<and> conn_ok sp w' cn'"
  using assms(2-4)
proof (induction n arbitrary: cn w)
  case 0
  obtain u where u: "\<And>l. expected cn l = map payload (cn_received cn l) @ u l" "finite {l. u l \<noteq> []}"
    using conn_okE [OF 0(1) laws] by metis
  have "u l = []" for l using 0(2) u missing_unseen [of cn u] by (auto simp: pending_def)
  then show ?case using 0 u(1) by (simp add: all_received_def)
next
  case (Suc n)
  show ?case
  proof (cases "fst (try_recv (bl_consumer lib) (cn_subscriber cn, w)) = Err Empty")
    case True
    then have "drain (bl_consumer lib) (Suc n) (cn, w) = (cn, w)" by (auto split: prod.splits outcome.splits)
    then show ?thesis using True try_recv_empty(1) [OF Suc.prems(1) laws] Suc.prems(1,3) by simp
  next
    case False
    then obtain m sub w1 where run: "try_recv (bl_consumer lib) (cn_subscriber cn, w) = (Ok m, (sub, w1))"
      using try_recv_empty(2) [OF Suc.prems(1) laws] by blast
    note ok = recv_slot_step(2) [OF broadcast_lawsD(4) [OF laws] Suc.prems(1) run [unfolded try_recv_def]]
    let ?cn = "note_received m sub cn" let ?l = "lm_lane (message_lane_metadata m)"
    obtain u where u: "\<And>l. expected cn l = map payload (cn_received cn l) @ u l" "finite {l. u l \<noteq> []}"
      using conn_okE [OF Suc.prems(1) laws] by metis
    obtain v where v: "\<And>l. expected ?cn l = map payload (cn_received ?cn l) @ v l"
      using conn_okE [OF ok laws] by metis
    have uv: "u l = (if l = ?l then payload m # v ?l else v l)" for l
      using u(1) [of l] v [of l] by (auto simp: note_received_def expected_def Let_def)
    then have "v = u(?l := v ?l)" by (auto simp: fun_eq_iff)
    then have "missing cn = Suc (missing ?cn)"
      using pending_read [OF u(2), of ?l "payload m" "v ?l"] uv [of ?l] missing_unseen [OF u(1)] missing_unseen [OF v] by simp
    then show ?thesis
      using Suc.IH [OF ok] Suc.prems(2,3) run by simp
  qed
qed

lemma decoded_in_order:
  assumes "all_received cn" "\<And>e cell. (e, cell) \<in> set (cn_sent cn l) \<Longrightarrow> deserialize cell = Ok e"
  shows "map (decode_typed deserialize) (drop (length (cn_backlog cn l)) (cn_received cn l)) = map (\<lambda>(e, cell). Ok e) (cn_sent cn l)"
proof -
  have "map payload (drop (length (cn_backlog cn l)) (cn_received cn l)) = map snd (cn_sent cn l)"
    using assms(1) by (simp add: all_received_def expected_def drop_map [symmetric])
  then have "map deserialize (map payload (drop (length (cn_backlog cn l)) (cn_received cn l))) = map deserialize (map snd (cn_sent cn l))"
    by simp
  also have "\<dots> = map (\<lambda>(e, cell). Ok e) (cn_sent cn l)" using assms(2) by auto
  finally show ?thesis by (simp add: decode_typed_def [abs_def] o_def)
qed

text \<open>
  C6. Published events reach the subscribers, end to end. Take any run of fewer than \<open>2 ^ 64\<close> steps in which a
  program creates and drops streams, factories and publishers, changes policies and publishes, while other programs
  explore the event-system directory, connect to the streams they found, receive and disconnect, in any
  order. For every connection, on every lane, what it has received is exactly the beginning of what it had to see
  when it connected followed by the encodings of the events that were since published successfully on the
  stream while it had the queue of this connection; \<open>try_recv\<close> says that there is nothing new exactly when
  all of it was received; and receiving often enough gets there: then the events published since connecting
  decode in order, none lost, repeated or altered, even if the stream has meanwhile been disabled or
  dropped.
\<close>

theorem events_reach_subscribers:
  assumes "broadcast_laws lib sp" "ereach lib sp path n r" "n < 2 ^ 64" "cn \<in> set (ru_connections r)"
  shows "(\<forall>l. \<exists>k. map payload (cn_received cn l) = take k (cn_backlog cn l @ map snd (cn_sent cn l)))
    \<and> (fst (try_recv (bl_consumer lib) (cn_subscriber cn, state_world (ru_state r))) = Err Empty
         \<longleftrightarrow> (\<forall>l. map payload (cn_received cn l) = cn_backlog cn l @ map snd (cn_sent cn l)))
    \<and> (\<exists>k. \<forall>m \<ge> k. case drain (bl_consumer lib) m (cn, state_world (ru_state r)) of (cn', w') \<Rightarrow>
         fst (try_recv (bl_consumer lib) (cn_subscriber cn', w')) = Err Empty
         \<and> (\<forall>l. map payload (cn_received cn' l) = cn_backlog cn l @ map snd (cn_sent cn l))
         \<and> (\<forall>l deserialize. (\<forall>(e, cell) \<in> set (cn_sent cn l). deserialize cell = Ok e) \<longrightarrow>
              map (decode_typed deserialize) (drop (length (cn_backlog cn l)) (cn_received cn' l))
                = map (\<lambda>(e, cell). Ok e) (cn_sent cn l)))"
proof (intro conjI)
  let ?w = "state_world (ru_state r)"
  have ok: "conn_ok sp ?w cn"
    using ereach_run_ok [OF assms(1-3)] assms(4) by (simp add: run_ok_def conns_ok_def)
  obtain u where u: "\<And>l. expected cn l = map payload (cn_received cn l) @ u l"
    using conn_okE [OF ok assms(1)] by metis
  show "\<forall>l. \<exists>k. map payload (cn_received cn l) = take k (cn_backlog cn l @ map snd (cn_sent cn l))"
    using u [unfolded expected_def] by (metis append_eq_conv_conj)
  show "fst (try_recv (bl_consumer lib) (cn_subscriber cn, ?w)) = Err Empty
         \<longleftrightarrow> (\<forall>l. map payload (cn_received cn l) = cn_backlog cn l @ map snd (cn_sent cn l))"
    using try_recv_empty(1) [OF ok assms(1)] by (simp add: all_received_def expected_def)
  have "case drain (bl_consumer lib) m (cn, ?w) of (cn', w') \<Rightarrow>
         fst (try_recv (bl_consumer lib) (cn_subscriber cn', w')) = Err Empty
         \<and> (\<forall>l. map payload (cn_received cn' l) = cn_backlog cn l @ map snd (cn_sent cn l))
         \<and> (\<forall>l deserialize. (\<forall>(e, cell) \<in> set (cn_sent cn l). deserialize cell = Ok e) \<longrightarrow>
              map (decode_typed deserialize) (drop (length (cn_backlog cn l)) (cn_received cn' l))
                = map (\<lambda>(e, cell). Ok e) (cn_sent cn l))" if m: "missing cn \<le> m" for m
  proof -
    obtain cn' w' where d: "drain (bl_consumer lib) m (cn, ?w) = (cn', w')" by fastforce
    note c = drain_receives [OF assms(1) ok m d]
    have "map (decode_typed deserialize) (drop (length (cn_backlog cn l)) (cn_received cn' l)) = map (\<lambda>(e, cell). Ok e) (cn_sent cn l)"
      if "\<forall>(e, cell) \<in> set (cn_sent cn l). deserialize cell = Ok e" for l deserialize
      using decoded_in_order [of cn' l deserialize] c that by auto
    then show ?thesis
      using c try_recv_empty(1) [of sp w' cn' lib] assms(1) d by (auto simp: all_received_def expected_def)
  qed
  then show "\<exists>k. \<forall>m \<ge> k. case drain (bl_consumer lib) m (cn, ?w) of (cn', w') \<Rightarrow>
         fst (try_recv (bl_consumer lib) (cn_subscriber cn', w')) = Err Empty
         \<and> (\<forall>l. map payload (cn_received cn' l) = cn_backlog cn l @ map snd (cn_sent cn l))
         \<and> (\<forall>l deserialize. (\<forall>(e, cell) \<in> set (cn_sent cn l). deserialize cell = Ok e) \<longrightarrow>
              map (decode_typed deserialize) (drop (length (cn_backlog cn l)) (cn_received cn' l))
                = map (\<lambda>(e, cell). Ok e) (cn_sent cn l))" by blast
qed

text \<open>Every enabled stream can be found in every state of a run, whatever its subscribers do.\<close>

lemma run_stream_found:
  assumes ok: "run_ok lib sp path n r" and t: "live_streams (st_system (ru_state r)) a = Some t"
    "es_queue (ts_stream t) = Some q" "ts_schema t = Ok enc" "bl_deserialize lib enc = Ok schema"
  shows "\<lparr>av_stream_name = stream_name_of t, av_schema = schema, av_broadcast_handle = sq_broadcast q\<rparr>
      \<in> set (available_streams (bl_shaq lib) (bl_join_untyped lib) (bl_deserialize lib) (state_world (ru_state r)) path)"
    "\<exists>b. queue_of (state_world (ru_state r)) (sq_broadcast q) = Some b"
proof -
  let ?w = "state_world (ru_state r)" and ?h = "sys_streams (st_system (ru_state r))" and ?ss = "path @ [STREAMS_DIRECTORY_NAME]"
  have heap: "heap_ok (bl_shaq lib) (bl_join_untyped lib) path (sys_stream_policy_manager (st_system (ru_state r))) ?h
      (st_systems (ru_state r)) (handles_of (st_handles (ru_state r)))"
    using ok by (simp add: run_ok_def system_ok_def)
  have lv: "live ?h a = Some t" using t(1) by (simp add: live_streams_def)
  have so: "streams_ok (bl_shaq lib) (bl_join_untyped lib) path (live ?h) (arc_world ?h)"
    by (rule heap_okD(5) [OF heap heap_okD(8) [OF heap lv]])
  obtain E where E: "layout (bl_shaq lib) (bl_join_untyped lib) path E ?w" "E (stream_name_of t) = entry_of t"
    using streams_okE [OF so] lv by (metis system_world_def)
  have pub: "published (bl_shaq lib) (bl_join_untyped lib) path (stream_name_of t) enc q ?w"
    using layoutD(5) [OF E(1), of "stream_name_of t"] E(2) t(2,3) by (simp add: entry_of_def)
  then show "\<exists>b. queue_of ?w (sq_broadcast q) = Some b" by (auto simp: published_def queue_of_def)
  have dir: "node_at (w_files ?w) (stream_dir path (stream_name_of t)) = Some DirNode"
    using pub by (auto simp: published_def published_tree_def)
  have valid: "valid_name (as_str (stream_name_of t))" using so lv by (simp add: streams_ok_def)
  from published_stream_found [OF pub _ valid, of "bl_deserialize lib" schema, OF t(4)] dir layoutD(3) [OF E(1)]
  show "\<lparr>av_stream_name = stream_name_of t, av_schema = schema, av_broadcast_handle = sq_broadcast q\<rparr>
      \<in> set (available_streams (bl_shaq lib) (bl_join_untyped lib) (bl_deserialize lib) ?w path)"
    by (simp add: available_streams_def ok_values_iff Let_def) (force simp: mem_dir_entries stream_dir_def)
qed

section \<open>A run with a subscriber\<close>

text \<open>A queue that keeps for every slot its unseen cells with their lanes, and never refuses anything.\<close>

record tape =
  tp_id :: u64
  tp_slots :: "(nat \<times> (usize \<times> bytes) list) list"

definition tape_map :: "(nat \<Rightarrow> (usize \<times> bytes) list \<Rightarrow> (usize \<times> bytes) list) \<Rightarrow> tape \<Rightarrow> tape" where
  "tape_map f b = b\<lparr>tp_slots := map (\<lambda>(k, cells). (k, f k cells)) (tp_slots b)\<rparr>"

definition tape_shaq :: "(tape, nat) shaq" where
  "tape_shaq =
     \<lparr>create_with_identifier = (\<lambda>cfg i. Ok \<lparr>tp_id = i, tp_slots = []\<rparr>), queue_identifier = tp_id,
      broadcast_producer = (\<lambda>b. Some (0, b)), drop_producer = (\<lambda>l b. b),
      try_reserve_write = (\<lambda>l b. (True, b)), try_reserve_write_batch = (\<lambda>l n b. (True, b)),
      publish_guard = (\<lambda>l cells. tape_map (\<lambda>k old. old @ map (Pair l) cells)), drop_guard = (\<lambda>l b. b)\<rparr>"

definition tape_read :: "nat \<Rightarrow> tape \<Rightarrow> ((LaneMetadata \<times> bytes) \<times> nat \<times> tape) option" where
  "tape_read c b =
     (case map_of (tp_slots b) c of
        Some ((l, cell) # rest) \<Rightarrow>
          Some ((\<lparr>lm_lane = l, lm_rejected_items = 0\<rparr>, cell), c, tape_map (\<lambda>k old. if k = c then rest else old) b)
      | _ \<Rightarrow> None)"

definition tape_lib :: "(tape, nat, bytes, nat) broadcast_lib" where
  "tape_lib =
     \<lparr>bl_shaq = tape_shaq,
      bl_consumer = \<lparr>try_read = tape_read, read_timeout = (\<lambda>c t. tape_read c), producer_slots = (\<lambda>b. 1), lane_metadata_at = (\<lambda>b l. None)\<rparr>,
      bl_slice_consumer = (\<lambda>b. let k = Suc (sum_list (map fst (tp_slots b))) in Some (k, b\<lparr>tp_slots := (k, []) # tp_slots b\<rparr>)),
      bl_drop_consumer = (\<lambda>c b. b\<lparr>tp_slots := filter (\<lambda>(k, x). k \<noteq> c) (tp_slots b)\<rparr>),
      bl_join_untyped = (\<lambda>b. if b = None then Err (ShaqError 0) else Ok ()), bl_deserialize = Ok\<rparr>"

definition by_lane :: "(usize \<times> bytes) list \<Rightarrow> usize \<Rightarrow> bytes list" where
  "by_lane cells l = map snd (filter (\<lambda>(k, cell). k = l) cells)"

definition tape_spec :: "(tape, nat, nat) broadcast_spec" where
  "tape_spec = \<lparr>bs_lane = (\<lambda>p. p), bs_slot = (\<lambda>c. c), bs_unseen = (\<lambda>b k. map_option by_lane (map_of (tp_slots b) k))\<rparr>"

lemma map_of_keyed: "map_of (map (\<lambda>(k, v). (k, f k v)) xs) k = map_option (f k) (map_of xs k)"
  by (induction xs) auto

lemma tape_fresh: "map_of (tp_slots b) (Suc (sum_list (map fst (tp_slots b)))) = None"
proof -
  have "k \<le> sum_list (map fst xs)" if "(k, v) \<in> set xs" for k v and xs :: "(nat \<times> (usize \<times> bytes) list) list"
    using that by (induction xs) auto
  then show ?thesis by (metis Suc_n_not_le_n map_of_SomeD not_None_eq)
qed

lemma by_lane_simps:
  "by_lane [] = (\<lambda>l. [])" "by_lane ((k, cell) # cells) = (by_lane cells)(k := cell # by_lane cells k)"
  "by_lane (cells @ map (Pair k) new) = (by_lane cells)(k := by_lane cells k @ new)"
  by (auto simp: by_lane_def fun_eq_iff o_def)

lemma by_lane_empty: "(\<forall>l. by_lane cells l = []) \<longleftrightarrow> cells = []"
  by (cases cells) (auto simp: by_lane_simps dest: spec)

lemma by_lane_finite: "finite {l. by_lane cells l \<noteq> []}"
  by (rule finite_subset [of _ "fst ` set cells"]) (force simp: by_lane_def filter_empty_conv)+

lemma tape_reads_first: "reads_first tape_lib tape_spec tape_read"
  unfolding reads_first_def
proof (intro allI impI)
  fix c b u m cell c' b'
  assume a: "bs_unseen tape_spec b (bs_slot tape_spec c) = Some u \<and> tape_read c b = Some ((m, cell), c', b')"
  then obtain rest where rest: "map_of (tp_slots b) c = Some ((lm_lane m, cell) # rest)" "c' = c"
    "b' = tape_map (\<lambda>k old. if k = c then rest else old) b"
    by (auto simp: tape_read_def split: option.splits list.splits)
  have "u = by_lane ((lm_lane m, cell) # rest)" using a rest(1) by (simp add: tape_spec_def)
  moreover have "bs_unseen tape_spec b' = (bs_unseen tape_spec b)(c \<mapsto> by_lane rest)"
    using rest by (auto simp: tape_spec_def tape_map_def map_of_keyed fun_eq_iff option.map_comp o_def)
  ultimately show "keeps_identity (bl_shaq tape_lib) (bl_join_untyped tape_lib) b b' \<and> bs_slot tape_spec c' = bs_slot tape_spec c
      \<and> (\<exists>cells. u (lm_lane m) = cell # cells
           \<and> bs_unseen tape_spec b' = (bs_unseen tape_spec b)(bs_slot tape_spec c \<mapsto> u(lm_lane m := cells)))"
    using rest(2,3) by (auto simp: tape_spec_def tape_lib_def tape_shaq_def keeps_identity_def tape_map_def by_lane_simps)
qed

lemma tape_laws: "broadcast_laws tape_lib tape_spec"
proof -
  have "queue_laws tape_shaq (bl_join_untyped tape_lib)"
    by (auto simp: queue_laws_def queue_readable_def queue_identity_laws_def keeps_identity_def tape_shaq_def tape_lib_def tape_map_def)
  moreover have "queue_view_laws tape_shaq (\<lambda>p. broadcast_cells (bs_lane tape_spec p)) (bs_unseen tape_spec)"
    by (auto simp: queue_view_laws_def tape_shaq_def tape_spec_def broadcast_cells_def tape_map_def map_of_keyed fun_eq_iff
        option.map_comp o_def by_lane_simps)
  moreover have "tape_read c b = None \<longleftrightarrow> (\<forall>l. u l = [])" if "bs_unseen tape_spec b (bs_slot tape_spec c) = Some u" for b c u
    using that by (auto simp: tape_spec_def tape_read_def by_lane_empty by_lane_simps(1) split: list.splits)
  moreover have "keeps_identity tape_shaq (bl_join_untyped tape_lib) b b' \<and> bs_unseen tape_spec b (bs_slot tape_spec c) = None
      \<and> (\<exists>u. bs_unseen tape_spec b' = (bs_unseen tape_spec b)(bs_slot tape_spec c \<mapsto> u))"
    if "bl_slice_consumer tape_lib b = Some (c, b')" for b c b'
    using that tape_fresh [of b]
    by (auto simp: tape_lib_def tape_spec_def tape_shaq_def keeps_identity_def fun_eq_iff intro!: exI [of _ "by_lane []"])
  moreover have "keeps_identity tape_shaq (bl_join_untyped tape_lib) b (bl_drop_consumer tape_lib c b)
      \<and> bs_unseen tape_spec (bl_drop_consumer tape_lib c b) = (bs_unseen tape_spec b)(bs_slot tape_spec c := None)" for b c
    by (simp add: tape_lib_def tape_spec_def tape_shaq_def keeps_identity_def map_of_filter_key fun_eq_iff)
  moreover have "finite {l. u l \<noteq> []}" if "bs_unseen tape_spec b k = Some u" for b k u
    using that by (auto simp: tape_spec_def by_lane_finite)
  moreover have "bl_shaq tape_lib = tape_shaq" "try_read (bl_consumer tape_lib) = tape_read"
    "read_timeout (bl_consumer tape_lib) = (\<lambda>c t. tape_read c)"
    by (simp_all add: tape_lib_def)
  ultimately show ?thesis unfolding broadcast_laws_def using tape_reads_first by simp
qed

text \<open>A program that switches its stream on and makes a publisher, a subscriber that connects, and a batch.\<close>

lemma tape_lib_simps [simp]:
  "bl_shaq tape_lib = tape_shaq" "bl_deserialize tape_lib = Ok" "bs_lane tape_spec = (\<lambda>p. p)"
  by (simp_all add: tape_lib_def tape_spec_def)

lemma tape_creatable: "queue_creatable tape_shaq cfg"
  by (simp add: queue_creatable_def tape_shaq_def)

type_synonym tape_run = "(tape, nat, bytes, nat, bytes) run"

abbreviation tape_state :: "tape EventSystem \<Rightarrow> nat handle list \<Rightarrow> bytes AvailableStream list \<Rightarrow> (bytes, nat, bytes) connection list \<Rightarrow> tape_run" where
  "tape_state sys hs found cns \<equiv> \<lparr>ru_state = example_state sys hs, ru_found = found, ru_connections = cns\<rparr>"

lemma tape_quiet:
  assumes "ereach tape_lib tape_spec example_base n (tape_state sys hs found cns)"
    and "astep tape_shaq (example_state sys hs) (example_state sys' hs')"
  shows "ereach tape_lib tape_spec example_base (Suc n) (tape_state sys' hs' found cns)"
  using ereach.step [OF assms(1) estep.quiet [of tape_lib "tape_state sys hs found cns" "example_state sys' hs'"]] assms(2) by simp

lemma tape_switched_on:
  obtains sys t q where "ereach tape_lib tape_spec example_base 2 (tape_state sys [Factory 0] [] [])"
    "live_streams sys = [0 \<mapsto> t]" "es_queue (ts_stream t) = Some q" "ts_schema t = Ok [1, 2]"
    "es_remaining_publisher_slots (ts_stream t) = 1"
proof -
  obtain w :: "tape world" and sys' t where new: "EventSystem_new example_base empty_world = (Ok (example_system w), w)"
    and step: "astep tape_shaq (example_state (example_system_with_stream w) [Factory 0]) (example_state sys' [Factory 0])"
    and t: "live_streams sys' = [0 \<mapsto> t]" "ts_schema t = Ok [1, 2]" "es_remaining_publisher_slots (ts_stream t) = 1"
      "stream_enabled t"
    using example_on [OF broadcast_lawsD(1) [OF tape_laws, unfolded tape_lib_simps] tape_creatable] by metis
  have "memory_ok (empty_world :: tape world)" by (simp add: memory_ok_def empty_world_def)
  from ereach.init [OF example_files this new]
  have "ereach tape_lib tape_spec example_base 0 (tape_state (example_system w) [] [] [])" by simp
  from tape_quiet [OF tape_quiet [OF this example_with_stream] step]
  have "ereach tape_lib tape_spec example_base 2 (tape_state sys' [Factory 0] [] [])" by (simp add: numeral_2_eq_2)
  then show thesis using that t by (auto simp: stream_enabled_def)
qed

lemma tape_publisher:
  obtains sys t q pub where "ereach tape_lib tape_spec example_base 3 (tape_state sys [PublisherOf 0 pub, Factory 0] [] [])"
    "live_streams sys = [0 \<mapsto> t]" "es_queue (ts_stream t) = Some q" "ts_schema t = Ok [1, 2]"
    "pub = \<lparr>pub_queue_generation = es_queue_generation (ts_stream t), pub_producer = Some (sq_broadcast q, 0)\<rparr>"
proof -
  obtain sys t q where r: "ereach tape_lib tape_spec example_base 2 (tape_state sys [Factory 0] [] [])"
    and t: "live_streams sys = [0 \<mapsto> t]" "es_queue (ts_stream t) = Some q" "ts_schema t = Ok [1, 2]"
      "es_remaining_publisher_slots (ts_stream t) = 1" by (rule tape_switched_on)
  have ok: "run_ok tape_lib tape_spec example_base 2 (tape_state sys [Factory 0] [] [])"
    by (rule ereach_run_ok [OF tape_laws r]) simp
  obtain b where b: "queue_of (system_world sys) (sq_broadcast q) = Some b"
    using run_stream_found(2) [OF ok, of 0 t q] t by auto
  have arcs: "arcs_ok (sys_streams sys)" using ok heap_okD(1) by (auto simp: run_ok_def system_ok_def)
  obtain x sys1 where call: "with_stream 0 (try_create_publisher tape_shaq) None sys = (x, sys1)" by fastforce
  obtain stream' where f: "try_create_publisher tape_shaq (ts_stream t) (system_world sys) = (x, stream', system_world sys1)"
    and live: "live_streams sys1 = (live_streams sys)(0 \<mapsto> t\<lparr>ts_stream := stream'\<rparr>)"
    by (rule with_stream_live [OF call arcs, of t]) (use t in simp_all)
  let ?pub = "\<lparr>pub_queue_generation = es_queue_generation (ts_stream t), pub_producer = Some (sq_broadcast q, 0)\<rparr>"
  have x: "x = Some ?pub" "es_queue stream' = Some q" "es_queue_generation stream' = es_queue_generation (ts_stream t)"
    using f t b by (auto simp: try_create_publisher_def usize_checked_dec_def usize_checked_sub_def create_producer_def tape_shaq_def)
  have "PublisherFactory_try_create_publisher tape_shaq 0 sys = (Some ?pub, PublisherFactory_clone 0 sys1)"
    using call x(1) by (simp add: PublisherFactory_try_create_publisher_def)
  then have "astep tape_shaq (example_state sys [Factory 0]) (example_state (PublisherFactory_clone 0 sys1) [PublisherOf 0 ?pub, Factory 0])"
    using astep.create_publisher [of 0 "example_state sys [Factory 0]" tape_shaq ?pub "PublisherFactory_clone 0 sys1"] by simp
  from tape_quiet [OF r this]
  have "ereach tape_lib tape_spec example_base 3 (tape_state (PublisherFactory_clone 0 sys1) [PublisherOf 0 ?pub, Factory 0] [] [])"
    by (simp add: numeral_3_eq_3)
  moreover have "live_streams (PublisherFactory_clone 0 sys1) = [0 \<mapsto> t\<lparr>ts_stream := stream'\<rparr>]"
    using live t(1) by (simp add: PublisherFactory_clone_def live_streams_def)
  ultimately show thesis
    by (intro that [of "PublisherFactory_clone 0 sys1" ?pub "t\<lparr>ts_stream := stream'\<rparr>" q]) (use x(2,3) t(3) in simp_all)
qed

lemma tape_connected:
  obtains sys t q pub found cn
  where "ereach tape_lib tape_spec example_base 5 (tape_state sys [PublisherOf 0 pub, Factory 0] found [cn])"
    "live_streams sys = [0 \<mapsto> t]" "es_queue (ts_stream t) = Some q" "ts_schema t = Ok [1, 2]"
    "pub = \<lparr>pub_queue_generation = es_queue_generation (ts_stream t), pub_producer = Some (sq_broadcast q, 0)\<rparr>"
    "cn_queue cn = sq_broadcast q" "cn_backlog cn = (\<lambda>l. [])" "cn_sent cn = (\<lambda>l. [])"
proof -
  obtain sys t q pub where r: "ereach tape_lib tape_spec example_base 3 (tape_state sys [PublisherOf 0 pub, Factory 0] [] [])"
    and t: "live_streams sys = [0 \<mapsto> t]" "es_queue (ts_stream t) = Some q" "ts_schema t = Ok [1, 2]"
      "pub = \<lparr>pub_queue_generation = es_queue_generation (ts_stream t), pub_producer = Some (sq_broadcast q, 0)\<rparr>"
    by (rule tape_publisher)
  let ?r = "tape_state sys [PublisherOf 0 pub, Factory 0] [] []" and ?w = "system_world sys" and ?obj = "sq_broadcast q"
  have ok: "run_ok tape_lib tape_spec example_base 3 ?r" by (rule ereach_run_ok [OF tape_laws r]) simp
  define found where "found = available_streams tape_shaq (bl_join_untyped tape_lib) Ok ?w example_base"
  define av where "av = \<lparr>av_stream_name = stream_name_of t, av_schema = [1 :: u8, 2], av_broadcast_handle = ?obj\<rparr>"
  have av: "av \<in> set found" and b: "\<exists>b. queue_of ?w ?obj = Some b"
    using run_stream_found [OF ok, of 0 t q "[1, 2]" "[1, 2]"] t by (simp_all add: found_def av_def)
  obtain b where b: "queue_of ?w ?obj = Some b" using b by blast
  let ?k = "Suc (sum_list (map fst (tp_slots b)))" let ?b = "b\<lparr>tp_slots := (?k, []) # tp_slots b\<rparr>"
  define sub where "sub = \<lparr>sub_slice_consumer = (?obj, ?k), sub_stream_name = stream_name_of t, sub_schema = [1 :: u8, 2]\<rparr>"
  define w where "w = store_queue ?obj ?b ?w"
  have conn: "try_connect (bl_slice_consumer tape_lib) av ?w = (Ok sub, w)"
    using b by (simp add: try_connect_def av_def queue_of_def tape_lib_def sub_def w_def Let_def)
  have "ereach tape_lib tape_spec example_base 4 (?r\<lparr>ru_found := found\<rparr>)"
    using ereach.step [OF r estep.explore] by (simp add: found_def)
  from ereach.step [OF this estep.connect [of av _ tape_lib sub w]]
  have r5: "ereach tape_lib tape_spec example_base 5
      (?r\<lparr>ru_found := found, ru_state := with_world w (ru_state ?r), ru_connections := [connected tape_spec sub w]\<rparr>)"
    using av conn by simp
  let ?sys = "st_system (with_world w (ru_state ?r))"
  have "with_world w (ru_state ?r) = example_state ?sys [PublisherOf 0 pub, Factory 0]" by (simp add: with_world_def Let_def)
  with r5 have "ereach tape_lib tape_spec example_base 5
      (tape_state ?sys [PublisherOf 0 pub, Factory 0] found [connected tape_spec sub w])" by simp
  moreover have "live_streams ?sys = [0 \<mapsto> t]" using t(1) by simp
  moreover have "queue_of w ?obj = Some ?b" using b queue_of_mem [OF b] by (simp add: w_def)
  then have "cn_backlog (connected tape_spec sub w) = (\<lambda>l. [])"
    by (simp add: connected_def sub_def tape_spec_def by_lane_simps)
  moreover have "cn_queue (connected tape_spec sub w) = ?obj" "cn_sent (connected tape_spec sub w) = (\<lambda>l. [])"
    by (simp_all add: connected_def sub_def cn_queue_def)
  ultimately show thesis using that t(2-4) by blast
qed

lemma tape_published:
  obtains r and cn :: "(bytes, nat, bytes) connection" where "ereach tape_lib tape_spec example_base 6 r"
    "cn \<in> set (ru_connections r)" "cn_backlog cn 0 = []" "cn_sent cn 0 = [([1], [1]), ([2], [2])]"
proof -
  obtain sys t q pub found cn
    where r: "ereach tape_lib tape_spec example_base 5 (tape_state sys [PublisherOf 0 pub, Factory 0] found [cn])"
      and t: "live_streams sys = [0 \<mapsto> t]" "es_queue (ts_stream t) = Some q" "ts_schema t = Ok [1, 2]"
      and pub: "pub = \<lparr>pub_queue_generation = es_queue_generation (ts_stream t), pub_producer = Some (sq_broadcast q, 0)\<rparr>"
      and cn: "cn_queue cn = sq_broadcast q" "cn_backlog cn = (\<lambda>l. [])" "cn_sent cn = (\<lambda>l. [])"
    by (rule tape_connected)
  let ?r = "tape_state sys [PublisherOf 0 pub, Factory 0] found [cn]"
  have ok: "run_ok tape_lib tape_spec example_base 5 ?r" by (rule ereach_run_ok [OF tape_laws r]) simp
  obtain b where b: "queue_of (system_world sys) (sq_broadcast q) = Some b"
    using run_stream_found(2) [OF ok, of 0 t q] t by auto
  have arcs: "arcs_ok (sys_streams sys)" using ok heap_okD(1) by (auto simp: run_ok_def system_ok_def)
  let ?events = "[[1], [2]] :: bytes list"
  obtain x sys' where call: "System_publish_batch tape_shaq Ok 0 pub ?events sys = (x, sys')" by fastforce
  obtain stream' where "(case publish_batch tape_shaq Ok (ts_stream t) ?events (pub, system_world sys) of
      (r, (self', w')) \<Rightarrow> ((r, self'), ts_stream t, w')) = (x, stream', system_world sys')"
    by (rule with_stream_live [OF call [unfolded System_publish_batch_def] arcs, of t]) (use t in simp_all)
  moreover have "\<exists>w'. publish_batch tape_shaq Ok (ts_stream t) ?events (pub, system_world sys) = (Ok (), (pub, w'))"
    using b by (simp add: publish_batch_def Publisher_producer_def pub write_events_def tape_shaq_def)
  ultimately have x: "x = (Ok (), pub)" by auto
  have "current_queue sys 0 = Some (sq_broadcast q)" using t by (simp add: current_queue_def)
  then have sent: "cn_sent (note_sent (\<lambda>p. p) (current_queue sys 0) (Ok ()) pub (sent_items Ok ?events) cn) 0 = [([1], [1]), ([2], [2])]"
    using cn by (simp add: note_sent_def pub sent_items_def)
  have "estep tape_lib tape_spec example_base ?r (?r\<lparr>ru_state := (ru_state ?r)\<lparr>st_system := sys', st_handles := [] @ PublisherOf 0 pub # [Factory 0]\<rparr>,
      ru_connections := map (note_sent (bs_lane tape_spec) (current_queue (st_system (ru_state ?r)) 0) (Ok ()) pub
        (sent_items Ok ?events)) (ru_connections ?r)\<rparr>)"
    by (rule estep.publish_batch [OF refl]) (use call x in simp_all)
  from ereach.step [OF r this]
  have "ereach tape_lib tape_spec example_base 6 (tape_state sys' [PublisherOf 0 pub, Factory 0] found
      [note_sent (\<lambda>p. p) (current_queue sys 0) (Ok ()) pub (sent_items Ok ?events) cn])" by simp
  then show thesis by (rule that) (use sent cn(2) in simp_all)
qed

theorem events_reach_subscribers_witness:
  "\<exists>(r :: tape_run) cn k. ereach tape_lib tape_spec example_base 6 r \<and> cn \<in> set (ru_connections r)
     \<and> map (decode_typed Ok) (cn_received (fst (drain (bl_consumer tape_lib) k (cn, state_world (ru_state r)))) 0)
         = [Ok [1 :: u8], Ok [2]]"
proof -
  obtain r and cn :: "(bytes, nat, bytes) connection" where r: "ereach tape_lib tape_spec example_base 6 r"
    "cn \<in> set (ru_connections r)" "cn_backlog cn 0 = []" "cn_sent cn 0 = [([1], [1]), ([2], [2])]"
    by (rule tape_published)
  obtain cn' w' k where d: "drain (bl_consumer tape_lib) k (cn, state_world (ru_state r)) = (cn', w')"
    and all: "\<And>l deserialize. (\<forall>(e, cell) \<in> set (cn_sent cn l). deserialize cell = Ok e) \<Longrightarrow>
      map (decode_typed deserialize) (drop (length (cn_backlog cn l)) (cn_received cn' l)) = map (\<lambda>(e, cell). Ok e) (cn_sent cn l)"
    using events_reach_subscribers [OF tape_laws r(1) _ r(2)] by fastforce
  have "map (decode_typed Ok) (cn_received cn' 0) = [Ok [1], Ok [2]]" using all [of 0 Ok] r(3,4) by simp
  then show ?thesis using r d by (intro exI [of _ r] exI [of _ cn] exI [of _ k]) simp
qed

end
