(* ===== verification/Event_Macro.thy ===== *)
theory Event_Macro
  imports Event_Dispatch
begin

text \<open>
  What surrounds an event type: the \<open>event\<close> attribute macro that makes a type an event
  (\<open>event-system-derive/src/lib.rs\<close>) and the metadata a producer may put into its events
  (\<open>event-system/src/event_metadata.rs\<close>). Tokens are parsed by the \<open>syn\<close> crate: the macro sees the arguments
  of the attribute as a list of items and the results of parsing their values.
\<close>

section \<open>Arguments of the attribute\<close>

datatype syn_error =
    GenericEvent | DuplicateMaxSerializedSize | UnsupportedEventAttribute | CrateNotFound | Syntax nat

text \<open>
  An item of the attribute: its path, if that is a single identifier, and what parsing its value as an
  integer literal and reading that literal as a \<open>usize\<close> yields. The list ends at the first syntax error.
\<close>

record meta =
  meta_ident :: "str option"
  meta_value :: "(syn_error, usize) outcome"

record attribute =
  attr_metas :: "meta list"
  attr_rest :: "(syn_error, unit) outcome"

record EventArgs =
  ea_max_serialized_size :: "usize option"

fun event_args_loop :: "usize option \<Rightarrow> meta list \<Rightarrow> (syn_error, usize option) outcome" where
  "event_args_loop bound [] = Ok bound"
| "event_args_loop bound (meta # metas) =
     (if meta_ident meta = Some (str_lit ''max_serialized_size'') then
        if bound \<noteq> None then Err DuplicateMaxSerializedSize
        else r_bind (meta_value meta) (\<lambda>value. event_args_loop (Some value) metas)
      else Err UnsupportedEventAttribute)"

definition event_args :: "attribute \<Rightarrow> (syn_error, EventArgs) outcome" where
  "event_args args =
     r_bind (event_args_loop None (attr_metas args)) (\<lambda>bound.
     r_bind (attr_rest args) (\<lambda>_.
     Ok \<lparr>ea_max_serialized_size = bound\<rparr>))"

section \<open>Expansion\<close>

text \<open>
  The path of the event-system crate. \<open>crate_name\<close> looks it up in the manifest of the crate that uses the
  macro; \<open>format_ident\<close> panics on a name that is no identifier.
\<close>

datatype FoundCrate = Itself | Name str

definition event_system_crate :: "(str \<Rightarrow> bool) \<Rightarrow> FoundCrate option \<Rightarrow> (syn_error, str list) outcome" where
  "event_system_crate is_ident crate_name =
     (case crate_name of
        Some Itself \<Rightarrow> Ok [str_lit ''::'', str_lit ''agave_event_system'']
      | Some (Name name) \<Rightarrow>
          (let ident = map (\<lambda>c. if [c] = str_lit ''-'' then hd (str_lit ''_'') else c) name in
           if is_ident ident then Ok [str_lit ''::'', ident] else Panic)
      | None \<Rightarrow> Err CrateNotFound)"

record DeriveInput =
  di_ident :: str
  di_generics :: "str list"

text \<open>
  What the macro adds to the type: the derived schemas and the crate they refer to, and the implementation
  of \<open>Event\<close>, whose queue cell is sized by \<open>event_queue_cell_size\<close>.
\<close>

record expansion =
  ex_derives :: "str list list"
  ex_wincode_crate :: "str list"
  ex_item :: DeriveInput
  ex_impl_for :: str
  ex_cell_bound :: "usize option"

definition event_impl ::
    "(str \<Rightarrow> bool) \<Rightarrow> FoundCrate option \<Rightarrow> attribute \<Rightarrow> DeriveInput \<Rightarrow> (syn_error, expansion) outcome" where
  "event_impl is_ident crate_name args input =
     (if di_generics input \<noteq> [] then Err GenericEvent
      else
        r_bind (event_args args) (\<lambda>parsed.
        r_bind (event_system_crate is_ident crate_name) (\<lambda>event_system.
        Ok \<lparr>ex_derives =
              [event_system @ map str_lit [''::'', ''wincode'', ''::'', ''SchemaRead''],
               event_system @ map str_lit [''::'', ''wincode'', ''::'', ''SchemaWrite''],
               event_system @ map str_lit [''::'', ''wincode_dynamic'', ''::'', ''SchemaDynamic'']],
            ex_wincode_crate = event_system @ map str_lit [''::'', ''__private'', ''::'', ''event_macro''],
            ex_item = input,
            ex_impl_for = di_ident input,
            ex_cell_bound = ea_max_serialized_size parsed\<rparr>)))"

text \<open>
  The size of the type's queue cell, which the compiler evaluates in the expanded code; \<open>sz\<close> is the
  serialized size that the derived schema has. A panic there is a compile-time error.
\<close>

definition event_cell ::
    "(str \<Rightarrow> bool) \<Rightarrow> FoundCrate option \<Rightarrow> attribute \<Rightarrow> DeriveInput \<Rightarrow> SerializedSize \<Rightarrow> (unit, usize) outcome" where
  "event_cell is_ident crate_name args input sz =
     (case event_impl is_ident crate_name args input of
        Ok ex \<Rightarrow> event_queue_cell_size sz (ex_cell_bound ex)
      | Err _ \<Rightarrow> Err ()
      | Panic \<Rightarrow> Panic
      | UB \<Rightarrow> UB)"

section \<open>Which types become events\<close>

lemma event_args_loop_Some:
  "event_args_loop (Some m) metas = Ok r \<longleftrightarrow> metas = [] \<and> r = Some m"
  by (cases metas) auto

text \<open>The attribute may be empty or give one bound; it is never read as anything else.\<close>

lemma event_args_Ok_iff:
  "event_args args = Ok a \<longleftrightarrow> attr_rest args = Ok () \<and>
     (attr_metas args = [] \<and> ea_max_serialized_size a = None
      \<or> (\<exists>meta n. attr_metas args = [meta] \<and> meta_ident meta = Some (str_lit ''max_serialized_size'')
           \<and> meta_value meta = Ok n \<and> ea_max_serialized_size a = Some n))"
proof -
  have "event_args_loop None (attr_metas args) = Ok bound \<longleftrightarrow>
      attr_metas args = [] \<and> bound = None
      \<or> (\<exists>meta n. attr_metas args = [meta] \<and> meta_ident meta = Some (str_lit ''max_serialized_size'')
           \<and> meta_value meta = Ok n \<and> bound = Some n)" for bound
    by (cases "attr_metas args") (auto simp: event_args_loop_Some r_bind_Ok_iff)
  then show ?thesis
    unfolding event_args_def r_bind_Ok_iff by (cases a) auto
qed

lemma event_args_duplicate:
  assumes "attr_metas args = m1 # m2 # ms" "meta_ident m1 = Some (str_lit ''max_serialized_size'')"
    and "meta_ident m2 = Some (str_lit ''max_serialized_size'')" "meta_value m1 = Ok n"
  shows "event_args args = Err DuplicateMaxSerializedSize"
  using assms by (simp add: event_args_def del: One_nat_def)

lemma event_queue_cell_size_Ok_iff:
  "event_queue_cell_size sz bound = Ok n \<longleftrightarrow>
     (case sz of Static k \<Rightarrow> n = k | Dynamic lower_bound \<Rightarrow> bound = Some n \<and> lower_bound < n)"
  by (auto simp: event_queue_cell_size_def split: SerializedSize.splits option.splits)

text \<open>
  A type becomes an event exactly when it has no generic parameters, its attribute is well formed, the
  event-system crate is found under a name that is an identifier, and, if its serialized size is not known
  statically, the attribute gives a bound above the part that is. Its queue cell then has the static size or
  the bound.
\<close>

lemma event_cell_Ok_iff:
  "event_cell is_ident crate_name args input sz = Ok n \<longleftrightarrow>
     di_generics input = [] \<and> (\<exists>a. event_args args = Ok a
       \<and> (\<exists>path. event_system_crate is_ident crate_name = Ok path)
       \<and> (case sz of Static k \<Rightarrow> n = k
            | Dynamic lower_bound \<Rightarrow> ea_max_serialized_size a = Some n \<and> lower_bound < n))"
proof -
  have "event_cell is_ident crate_name args input sz = Ok n \<longleftrightarrow>
      (\<exists>ex. event_impl is_ident crate_name args input = Ok ex \<and> event_queue_cell_size sz (ex_cell_bound ex) = Ok n)"
    by (auto simp: event_cell_def split: outcome.splits)
  also have "\<dots> \<longleftrightarrow> di_generics input = [] \<and> (\<exists>a. event_args args = Ok a
       \<and> (\<exists>path. event_system_crate is_ident crate_name = Ok path)
       \<and> event_queue_cell_size sz (ea_max_serialized_size a) = Ok n)"
    by (auto simp: event_impl_def r_bind_Ok_iff)
  finally show ?thesis unfolding event_queue_cell_size_Ok_iff .
qed

section \<open>Event metadata\<close>

text \<open>
  The clock is read as seconds and nanoseconds; a reading that fails, or that exceeds 64 bits of nanoseconds,
  panics. Outside Linux the timestamp is zero.
\<close>

definition monotonic_timestamp_ns :: "bool \<Rightarrow> (nat, nat \<times> nat) outcome \<Rightarrow> (nat, u64) outcome" where
  "monotonic_timestamp_ns linux clock_gettime =
     (if linux then
        (case clock_gettime of
           Ok (secs, nanos) \<Rightarrow>
             (let n = secs * 1000000000 + nanos in if n < 2 ^ 64 then Ok (of_nat n) else Panic)
         | Err _ \<Rightarrow> Panic
         | Panic \<Rightarrow> Panic
         | UB \<Rightarrow> UB)
      else Ok 0)"

text \<open>
  Thread-local caching of the thread and process identifiers: the operating system is asked on a thread's
  first call.
\<close>

record thread_ids =
  THREAD_AND_PROCESS_ID :: "nat \<rightharpoonup> int \<times> int"
  id_syscalls :: nat

record os_ids =
  os_gettid :: "nat \<Rightarrow> int"
  os_getpid :: int

definition cached_thread_and_process_id ::
    "bool \<Rightarrow> os_ids \<Rightarrow> nat \<Rightarrow> thread_ids \<Rightarrow> (int \<times> int) \<times> thread_ids" where
  "cached_thread_and_process_id linux os thread st =
     (if linux then
        (case THREAD_AND_PROCESS_ID st thread of
           Some ids \<Rightarrow> (ids, st)
         | None \<Rightarrow>
             (let ids = (os_gettid os thread, os_getpid os) in
              (ids, st\<lparr>THREAD_AND_PROCESS_ID := (THREAD_AND_PROCESS_ID st)(thread \<mapsto> ids),
                       id_syscalls := id_syscalls st + 2\<rparr>)))
      else ((0, 0), st))"

lemma monotonic_timestamp_ns_exact:
  "monotonic_timestamp_ns True (Ok (secs, nanos)) = Ok t \<longleftrightarrow>
     secs * 1000000000 + nanos < 2 ^ 64 \<and> unat t = secs * 1000000000 + nanos"
proof -
  define n where "n = secs * 1000000000 + nanos"
  have "monotonic_timestamp_ns True (Ok (secs, nanos)) = (if n < 2 ^ 64 then Ok (of_nat n) else Panic)"
    by (simp add: monotonic_timestamp_ns_def n_def)
  moreover have "of_nat n = t \<longleftrightarrow> unat t = n" if "n < 2 ^ 64"
    using that by (auto simp: unat_of_nat take_bit_nat_eq_self)
  ultimately show ?thesis unfolding n_def [symmetric] by auto
qed

lemma monotonic_timestamp_ns_mono:
  assumes "monotonic_timestamp_ns True (Ok (s1, n1)) = Ok t1" "monotonic_timestamp_ns True (Ok (s2, n2)) = Ok t2"
    and "s1 < s2 \<or> s1 = s2 \<and> n1 \<le> n2" "n1 < 1000000000" "n2 < 1000000000"
  shows "t1 \<le> t2"
  using assms unfolding monotonic_timestamp_ns_exact word_le_nat_alt by auto

text \<open>
  Between two calls of a thread other threads may call, and the process may have forked and the identifiers
  have changed: the second call still returns what the first did, without a system call.
\<close>

lemma cached_ids_stable:
  assumes "cached_thread_and_process_id True os thread st = (ids, st1)"
    and "\<And>t. THREAD_AND_PROCESS_ID st1 t \<noteq> None \<Longrightarrow> THREAD_AND_PROCESS_ID st2 t = THREAD_AND_PROCESS_ID st1 t"
  shows "cached_thread_and_process_id True os' thread st2 = (ids, st2)"
proof -
  have "THREAD_AND_PROCESS_ID st1 thread = Some ids"
    using assms(1) by (auto simp: cached_thread_and_process_id_def Let_def split: option.splits)
  then show ?thesis using assms(2) [of thread] by (simp add: cached_thread_and_process_id_def)
qed

lemma cached_ids_keep:
  assumes "cached_thread_and_process_id linux os thread st = (ids, st')" "THREAD_AND_PROCESS_ID st t \<noteq> None"
  shows "THREAD_AND_PROCESS_ID st' t = THREAD_AND_PROCESS_ID st t"
  using assms by (auto simp: cached_thread_and_process_id_def Let_def split: if_splits option.splits)

end
