(* ===== verification/Handshake_Shared.thy ===== *)
theory Handshake_Shared
  imports Bytes Rust_Strings
begin

text \<open>
  What both sides of the scheduler handshake share (\<open>scheduler-handshake/src/shared.rs\<close>): the logon message
  and the protocol versions with their wire formats, the validation of a logon and the rounding of file
  sizes. The allocator and the queues of the shared memory come from two libraries outside the
  repository; their functions are the fields of a record that is a parameter.
\<close>

section \<open>Constants\<close>

definition MAX_WORKERS :: usize where "MAX_WORKERS = 64"
definition LOGON_SUCCESS :: u8 where "LOGON_SUCCESS = 0x01"
definition LOGON_FAILURE :: u8 where "LOGON_FAILURE = 0x02"
definition GLOBAL_SHMEM :: usize where "GLOBAL_SHMEM = 3"
definition CHECK_SHMEM :: usize where "CHECK_SHMEM = 2"
definition SIMULATE_SHMEM :: usize where "SIMULATE_SHMEM = 2"
definition WORKER_SHMEM :: usize where "WORKER_SHMEM = 2"
definition STANDARD_PAGE_SIZE :: usize where "STANDARD_PAGE_SIZE = 4096"
definition HUGE_PAGE_SIZE :: usize where "HUGE_PAGE_SIZE = 2 * 1024 * 1024"
definition POINTER_OFFSET_LIMIT :: usize where "POINTER_OFFSET_LIMIT = ISIZE_MAX"

datatype PageSize = Standard | Huge

definition page_bytes :: "PageSize \<Rightarrow> usize" where
  "page_bytes self = (case self of Standard \<Rightarrow> STANDARD_PAGE_SIZE | Huge \<Rightarrow> HUGE_PAGE_SIZE)"

section \<open>Wire formats\<close>

record ProtocolVersions =
  pv_handshake :: u64
  pv_scheduler_bindings :: u64
  pv_shaq :: u64
  pv_rts_alloc :: u64

record ClientLogon =
  worker_count :: usize
  check_worker_count :: usize
  simulate_worker_count :: usize
  allocator_size :: usize
  allocator_handles :: usize
  tpu_to_pack_capacity :: usize
  progress_tracker_capacity :: usize
  pack_to_worker_capacity :: usize
  worker_to_pack_capacity :: usize
  pack_to_check_worker_capacity :: usize
  check_worker_to_pack_capacity :: usize
  pack_to_simulate_worker_capacity :: usize
  simulate_worker_to_pack_capacity :: usize

text \<open>
  Both are sent as they lie in memory: eight bytes, least significant first, for each field in the order
  of the declaration. Reading a field of the raw bytes:
\<close>

definition read_word :: "bytes \<Rightarrow> nat \<Rightarrow> nat" where
  "read_word buffer k = le_value (take 8 (drop (8 * k) buffer))"

definition ProtocolVersions_SIZE :: usize where "ProtocolVersions_SIZE = 32"
definition ClientLogon_SIZE :: usize where "ClientLogon_SIZE = 104"

definition ProtocolVersions_write :: "ProtocolVersions \<Rightarrow> bytes" where
  "ProtocolVersions_write v = concat (map (\<lambda>x. le_bytes 8 (unat x))
     [pv_handshake v, pv_scheduler_bindings v, pv_shaq v, pv_rts_alloc v])"

definition ProtocolVersions_try_from_bytes :: "bytes \<Rightarrow> ProtocolVersions option" where
  "ProtocolVersions_try_from_bytes buffer =
     (if length buffer \<noteq> ProtocolVersions_SIZE then None
      else Some \<lparr>pv_handshake = of_nat (read_word buffer 0), pv_scheduler_bindings = of_nat (read_word buffer 1),
                 pv_shaq = of_nat (read_word buffer 2), pv_rts_alloc = of_nat (read_word buffer 3)\<rparr>)"

definition logon_fields :: "ClientLogon \<Rightarrow> usize list" where
  "logon_fields l = [worker_count l, check_worker_count l, simulate_worker_count l, allocator_size l,
     allocator_handles l, tpu_to_pack_capacity l, progress_tracker_capacity l, pack_to_worker_capacity l,
     worker_to_pack_capacity l, pack_to_check_worker_capacity l, check_worker_to_pack_capacity l,
     pack_to_simulate_worker_capacity l, simulate_worker_to_pack_capacity l]"

definition ClientLogon_write :: "ClientLogon \<Rightarrow> bytes" where
  "ClientLogon_write l = concat (map (le_bytes 8) (logon_fields l))"

definition ClientLogon_try_from_bytes :: "bytes \<Rightarrow> ClientLogon option" where
  "ClientLogon_try_from_bytes buffer =
     (if length buffer \<noteq> ClientLogon_SIZE then None
      else Some \<lparr>worker_count = read_word buffer 0, check_worker_count = read_word buffer 1,
        simulate_worker_count = read_word buffer 2, allocator_size = read_word buffer 3,
        allocator_handles = read_word buffer 4, tpu_to_pack_capacity = read_word buffer 5,
        progress_tracker_capacity = read_word buffer 6, pack_to_worker_capacity = read_word buffer 7,
        worker_to_pack_capacity = read_word buffer 8, pack_to_check_worker_capacity = read_word buffer 9,
        check_worker_to_pack_capacity = read_word buffer 10, pack_to_simulate_worker_capacity = read_word buffer 11,
        simulate_worker_to_pack_capacity = read_word buffer 12\<rparr>)"

section \<open>Errors\<close>

datatype socket_error = OsError nat | InvalidInput | UnexpectedEof | Unsupported

text \<open>The errors of the two libraries, which wrap errors of the operating system.\<close>

datatype RtsAllocError = RtsIo socket_error | RtsError nat
datatype ShaqLibError = ShaqIo socket_error | ShaqLibError nat

datatype AgaveHandshakeError =
    AgaveIo socket_error
  | Timeout
  | EofDuringHandshake
  | Version ProtocolVersions ProtocolVersions
  | WorkerCount usize
  | CheckWorkerCount usize
  | SimulateWorkerCount usize
  | AllocatorHandles usize
  | AllocatorSize usize
  | QueueCapacity str usize
  | AgaveRtsAlloc RtsAllocError
  | AgaveShaq ShaqLibError

datatype ClientHandshakeError =
    ClientIo socket_error
  | TimedOut
  | ProtocolViolation
  | Rejected str
  | ClientRtsAlloc RtsAllocError
  | ClientShaq ShaqLibError

datatype SessionSetupError = ServerError AgaveHandshakeError | ClientError ClientHandshakeError

text \<open>The text of an error; how the wrapped errors print is up to their libraries.\<close>

definition versions_fmt :: "ProtocolVersions \<Rightarrow> str" where
  "versions_fmt v =
     str_lit ''handshake='' @ fmt_nat (unat (pv_handshake v))
     @ str_lit '', scheduler-bindings='' @ fmt_nat (unat (pv_scheduler_bindings v))
     @ str_lit '', shaq='' @ fmt_nat (unat (pv_shaq v)) @ str_lit '', rts-alloc='' @ fmt_nat (unat (pv_rts_alloc v))"

record wrapped_fmt =
  io_fmt :: "socket_error \<Rightarrow> str"
  rts_fmt :: "RtsAllocError \<Rightarrow> str"
  shaq_fmt :: "ShaqLibError \<Rightarrow> str"

fun agave_error_fmt :: "wrapped_fmt \<Rightarrow> AgaveHandshakeError \<Rightarrow> str" where
  "agave_error_fmt f (AgaveIo e) = str_lit ''Io; err='' @ io_fmt f e"
| "agave_error_fmt f Timeout = str_lit ''Timeout''"
| "agave_error_fmt f EofDuringHandshake = str_lit ''Close during handshake''"
| "agave_error_fmt f (Version server client) =
     str_lit ''Version; server=('' @ versions_fmt server @ str_lit ''); client=('' @ versions_fmt client @ str_lit '')''"
| "agave_error_fmt f (WorkerCount n) = str_lit ''Worker count; count='' @ fmt_nat n"
| "agave_error_fmt f (CheckWorkerCount n) = str_lit ''Check worker count; count='' @ fmt_nat n"
| "agave_error_fmt f (SimulateWorkerCount n) = str_lit ''Simulate worker count; count='' @ fmt_nat n"
| "agave_error_fmt f (AllocatorHandles n) = str_lit ''Allocator handles; count='' @ fmt_nat n"
| "agave_error_fmt f (AllocatorSize n) = str_lit ''Allocator size cannot be represented; size='' @ fmt_nat n"
| "agave_error_fmt f (QueueCapacity field n) =
     str_lit ''Queue capacity cannot be represented; field='' @ field @ str_lit '', capacity='' @ fmt_nat n"
| "agave_error_fmt f (AgaveRtsAlloc e) = str_lit ''Rts alloc; err='' @ rts_fmt f e"
| "agave_error_fmt f (AgaveShaq e) = str_lit ''Shaq; err='' @ shaq_fmt f e"

section \<open>The libraries of the shared memory\<close>

datatype message =
    TpuToPackMessage | ProgressMessage | PackToExecutionWorkerMessage | ExecutionWorkerToPackMessage
  | PackToCheckWorkerMessage | CheckWorkerToPackMessage

text \<open>
  What a file holds, as far as the safety contracts of the libraries speak of it: an allocator with the
  number of its handles and of those given out, a single-producer single-consumer queue with the
  endpoints that were claimed, or a multi-producer multi-consumer queue.
\<close>

datatype contents =
    AllocatorFile nat nat
  | SpscFile message bool bool
  | MpmcFile message

text \<open>
  The functions of \<open>rts_alloc\<close> and \<open>shaq\<close> that the crate calls, on the bytes \<open>'f\<close> of a file: creating
  takes the file size and gives the bytes, joining may change them. The last field is what the
  documentation says of a file.
\<close>

record 'f shmem_lib =
  allocator_create :: "usize \<Rightarrow> nat \<Rightarrow> nat \<Rightarrow> (RtsAllocError, 'f) outcome"
  allocator_join :: "'f \<Rightarrow> (RtsAllocError, 'f) outcome"
  allocator_join_from_existing :: "'f \<Rightarrow> (RtsAllocError, 'f) outcome"
  spsc_minimum_file_size :: "message \<Rightarrow> usize \<Rightarrow> (ShaqLibError, usize) outcome"
  mpmc_minimum_file_size :: "message \<Rightarrow> usize \<Rightarrow> (ShaqLibError, usize) outcome"
  spsc_producer_create :: "message \<Rightarrow> usize \<Rightarrow> (ShaqLibError, 'f) outcome"
  spsc_consumer_create :: "message \<Rightarrow> usize \<Rightarrow> (ShaqLibError, 'f) outcome"
  spsc_producer_join :: "message \<Rightarrow> 'f \<Rightarrow> (ShaqLibError, 'f) outcome"
  spsc_consumer_join :: "message \<Rightarrow> 'f \<Rightarrow> (ShaqLibError, 'f) outcome"
  mpmc_producer_create :: "message \<Rightarrow> usize \<Rightarrow> (ShaqLibError, 'f) outcome"
  mpmc_consumer_create :: "message \<Rightarrow> usize \<Rightarrow> (ShaqLibError, 'f) outcome"
  mpmc_producer_join :: "message \<Rightarrow> 'f \<Rightarrow> (ShaqLibError, 'f) outcome"
  mpmc_consumer_join :: "message \<Rightarrow> 'f \<Rightarrow> (ShaqLibError, 'f) outcome"
  file_contents :: "'f \<Rightarrow> contents"
  shaq_VERSION :: u32
  rts_alloc_VERSION :: u32

section \<open>Versions\<close>

text \<open>The major versions of the two packages of the repository.\<close>

definition handshake_version :: u64 where "handshake_version = 10"
definition scheduler_bindings_version :: u64 where "scheduler_bindings_version = 8"

definition ProtocolVersions_current :: "'f shmem_lib \<Rightarrow> ProtocolVersions" where
  "ProtocolVersions_current lib =
     \<lparr>pv_handshake = handshake_version, pv_scheduler_bindings = scheduler_bindings_version,
      pv_shaq = ucast (shaq_VERSION lib), pv_rts_alloc = ucast (rts_alloc_VERSION lib)\<rparr>"

section \<open>Validation\<close>

definition usize_checked_next_multiple_of :: "usize \<Rightarrow> usize \<Rightarrow> usize option" where
  "usize_checked_next_multiple_of self rhs =
     (if rhs = 0 then None
      else let r = self mod rhs in if r = 0 then Some self else usize_checked_add self (rhs - r))"

definition checked_file_size :: "usize \<Rightarrow> PageSize \<Rightarrow> usize option" where
  "checked_file_size sz page_size =
     (case usize_checked_next_multiple_of sz (page_bytes page_size) of
        Some n \<Rightarrow> if n \<le> POINTER_OFFSET_LIMIT then Some n else None
      | None \<Rightarrow> None)"

definition expected_file_count :: "ClientLogon \<Rightarrow> usize option" where
  "expected_file_count self =
     (let check_files = (if check_worker_count self > 0 then CHECK_SHMEM else 0);
          simulate_files = (if simulate_worker_count self > 0 then SIMULATE_SHMEM else 0) in
      Option.bind (usize_checked_mul (worker_count self) WORKER_SHMEM) (\<lambda>count.
      Option.bind (usize_checked_add count GLOBAL_SHMEM) (\<lambda>count.
      Option.bind (usize_checked_add count check_files) (\<lambda>count. usize_checked_add count simulate_files))))"

definition u32_try_from :: "usize \<Rightarrow> nat option" where
  "u32_try_from n = (if n < 2 ^ 32 then Some n else None)"

definition allocator_count :: "ClientLogon \<Rightarrow> nat option" where
  "allocator_count self =
     (if allocator_handles self = 0 then None
      else
        Option.bind (usize_checked_add (worker_count self) (check_worker_count self)) (\<lambda>count.
        Option.bind (usize_checked_add count (simulate_worker_count self)) (\<lambda>count.
        Option.bind (usize_checked_add count (allocator_handles self)) (\<lambda>count.
        Option.bind (usize_checked_add count 1) u32_try_from))))"

definition ok_or_err :: "'e \<Rightarrow> 'a option \<Rightarrow> ('e, 'a) outcome" where
  "ok_or_err e x = (case x of Some v \<Rightarrow> Ok v | None \<Rightarrow> Err e)"

definition validate_queue_capacity ::
    "str \<Rightarrow> usize \<Rightarrow> (usize \<Rightarrow> (ShaqLibError, usize) outcome) \<Rightarrow> PageSize \<Rightarrow> (AgaveHandshakeError, unit) outcome" where
  "validate_queue_capacity field capacity minimum_file_size page_size =
     r_bind (case minimum_file_size capacity of
               Err _ \<Rightarrow> Err (QueueCapacity field capacity) | Ok n \<Rightarrow> Ok n | Panic \<Rightarrow> Panic | UB \<Rightarrow> UB) (\<lambda>sz.
     r_bind (ok_or_err (QueueCapacity field capacity) (checked_file_size sz page_size)) (\<lambda>_. Ok ()))"

definition validate :: "'f shmem_lib \<Rightarrow> ClientLogon \<Rightarrow> (AgaveHandshakeError, unit) outcome" where
  "validate lib self =
     (if \<not> (1 \<le> worker_count self \<and> worker_count self \<le> MAX_WORKERS) then Err (WorkerCount (worker_count self))
      else if check_worker_count self > MAX_WORKERS then Err (CheckWorkerCount (check_worker_count self))
      else if simulate_worker_count self > MAX_WORKERS then Err (SimulateWorkerCount (simulate_worker_count self))
      else
        r_bind (ok_or_err (AllocatorHandles (allocator_handles self)) (allocator_count self)) (\<lambda>_.
        r_bind (ok_or_err (AllocatorSize (allocator_size self)) (checked_file_size (allocator_size self) Huge)) (\<lambda>_.
        r_bind (validate_queue_capacity (str_lit ''tpu_to_pack_capacity'') (tpu_to_pack_capacity self)
          (spsc_minimum_file_size lib TpuToPackMessage) Huge) (\<lambda>_.
        r_bind (validate_queue_capacity (str_lit ''progress_tracker_capacity'') (progress_tracker_capacity self)
          (spsc_minimum_file_size lib ProgressMessage) Standard) (\<lambda>_.
        r_bind (validate_queue_capacity (str_lit ''pack_to_worker_capacity'') (pack_to_worker_capacity self)
          (spsc_minimum_file_size lib PackToExecutionWorkerMessage) Huge) (\<lambda>_.
        r_bind (validate_queue_capacity (str_lit ''worker_to_pack_capacity'') (worker_to_pack_capacity self)
          (spsc_minimum_file_size lib ExecutionWorkerToPackMessage) Huge) (\<lambda>_.
        r_bind (if check_worker_count self > 0 then
            r_bind (validate_queue_capacity (str_lit ''pack_to_check_worker_capacity'')
              (pack_to_check_worker_capacity self) (mpmc_minimum_file_size lib PackToCheckWorkerMessage) Huge) (\<lambda>_.
            validate_queue_capacity (str_lit ''check_worker_to_pack_capacity'')
              (check_worker_to_pack_capacity self) (mpmc_minimum_file_size lib CheckWorkerToPackMessage) Huge)
          else Ok ()) (\<lambda>_.
        r_bind (if simulate_worker_count self > 0 then
            r_bind (validate_queue_capacity (str_lit ''pack_to_simulate_worker_capacity'')
              (pack_to_simulate_worker_capacity self) (mpmc_minimum_file_size lib PackToExecutionWorkerMessage) Huge) (\<lambda>_.
            validate_queue_capacity (str_lit ''simulate_worker_to_pack_capacity'')
              (simulate_worker_to_pack_capacity self) (mpmc_minimum_file_size lib ExecutionWorkerToPackMessage) Huge)
          else Ok ()) (\<lambda>_.
        Ok ())))))))))"

section \<open>File sizes\<close>

definition round_up :: "usize \<Rightarrow> PageSize \<Rightarrow> usize" where
  "round_up n p = (n + (page_bytes p - 1)) div page_bytes p * page_bytes p"

lemma page_bytes_pos [simp]: "0 < page_bytes p" "page_bytes p \<noteq> 0"
  by (cases p; simp add: page_bytes_def STANDARD_PAGE_SIZE_def HUGE_PAGE_SIZE_def)+

lemma round_up_mod:
  fixes n :: nat
  assumes "0 < p"
  shows "(n + (p - 1)) div p * p = (if n mod p = 0 then n else n + (p - n mod p))"
proof -
  have n: "n = n div p * p + n mod p" by simp
  have r: "n mod p < p" using assms by simp
  show ?thesis
  proof (cases "n mod p = 0")
    case True
    then have "n + (p - 1) = n div p * p + (p - 1)" using n by simp
    moreover have "(n div p * p + (p - 1)) div p = n div p + (p - 1) div p" using assms by (intro div_mult_self3) simp
    ultimately have "(n + (p - 1)) div p = n div p" using assms by simp
    then show ?thesis using True n by simp
  next
    case False
    have "(n div p + 1) * p = n div p * p + p" by simp
    with False have "n + (p - 1) = (n div p + 1) * p + (n mod p - 1)" using n r by linarith
    moreover have "((n div p + 1) * p + (n mod p - 1)) div p = n div p + 1 + (n mod p - 1) div p"
      using assms by (intro div_mult_self3) simp
    moreover have "(n mod p - 1) div p = 0" using r by simp
    ultimately have "(n + (p - 1)) div p = n div p + 1" by simp
    then have "(n + (p - 1)) div p * p = n div p * p + p" by simp
    also have "\<dots> = n + (p - n mod p)" using n r by linarith
    finally show ?thesis using False by simp
  qed
qed

lemma round_up_bounds: "n \<le> round_up n p" "round_up n p < n + page_bytes p" "page_bytes p dvd round_up n p"
proof -
  have "n mod page_bytes p < page_bytes p" by simp
  then show "n \<le> round_up n p" "round_up n p < n + page_bytes p"
    unfolding round_up_def round_up_mod [OF page_bytes_pos(1)] by (split if_split, linarith)+
  show "page_bytes p dvd round_up n p" by (simp add: round_up_def)
qed

lemma checked_file_size_eq:
  "checked_file_size n p = (if round_up n p \<le> ISIZE_MAX then Some (round_up n p) else None)"
proof -
  have *: "round_up n p = (if n mod page_bytes p = 0 then n else n + (page_bytes p - n mod page_bytes p))"
    unfolding round_up_def by (rule round_up_mod) simp
  show ?thesis
    by (auto simp: * checked_file_size_def usize_checked_next_multiple_of_def usize_checked_add_def Let_def
        POINTER_OFFSET_LIMIT_def)
qed

text \<open>
  Sizes of mappings. \<open>checked_file_size\<close> returns the least multiple of the page size that is not below
  the requested size, and it returns nothing exactly when that multiple exceeds the largest offset a
  pointer can have; the arithmetic never wraps, whatever the request.
\<close>

lemma checked_file_size_least:
  "(\<forall>m. checked_file_size n p = Some m \<longrightarrow>
      n \<le> m \<and> page_bytes p dvd m \<and> m \<le> ISIZE_MAX \<and> (\<forall>k. n \<le> k \<and> page_bytes p dvd k \<longrightarrow> m \<le> k))
   \<and> (checked_file_size n p = None \<longleftrightarrow> (\<forall>k. n \<le> k \<and> page_bytes p dvd k \<longrightarrow> ISIZE_MAX < k))"
proof -
  have least: "round_up n p \<le> k" if "n \<le> k" "page_bytes p dvd k" for k
  proof (rule ccontr)
    assume "\<not> round_up n p \<le> k"
    then have "k < round_up n p" by simp
    moreover obtain b where b: "k = page_bytes p * b" using \<open>page_bytes p dvd k\<close> by (rule dvdE)
    moreover obtain a where a: "round_up n p = page_bytes p * a" using round_up_bounds(3) by (rule dvdE)
    ultimately have "b < a" by simp
    then have "page_bytes p * (b + 1) \<le> page_bytes p * a" by (intro mult_le_mono2) simp
    then have "k + page_bytes p \<le> round_up n p" using a b by simp
    then show False using round_up_bounds(2) [where n = n and p = p] that(1) by simp
  qed
  show ?thesis
  proof (cases "round_up n p \<le> ISIZE_MAX")
    case True
    then have "\<exists>k. n \<le> k \<and> page_bytes p dvd k \<and> \<not> ISIZE_MAX < k"
      using round_up_bounds(1,3) by (intro exI [of _ "round_up n p"]) simp
    then show ?thesis
      using True least round_up_bounds(1,3) by (simp only: checked_file_size_eq) auto
  next
    case False
    then have "ISIZE_MAX < k" if "n \<le> k" "page_bytes p dvd k" for k using least [OF that] by linarith
    then show ?thesis using False by (simp only: checked_file_size_eq) auto
  qed
qed

section \<open>Valid logons\<close>

definition representable :: "(ShaqLibError, usize) outcome \<Rightarrow> PageSize \<Rightarrow> bool" where
  "representable r p \<longleftrightarrow> (\<exists>n. r = Ok n \<and> round_up n p \<le> ISIZE_MAX)"

text \<open>The queues of a logon: the field, its value, the file size the library asks for, and the pages.\<close>

definition logon_queues ::
    "'f shmem_lib \<Rightarrow> ClientLogon \<Rightarrow> (str \<times> usize \<times> (usize \<Rightarrow> (ShaqLibError, usize) outcome) \<times> PageSize) list" where
  "logon_queues lib l =
     [(str_lit ''tpu_to_pack_capacity'', tpu_to_pack_capacity l, spsc_minimum_file_size lib TpuToPackMessage, Huge),
      (str_lit ''progress_tracker_capacity'', progress_tracker_capacity l,
        spsc_minimum_file_size lib ProgressMessage, Standard),
      (str_lit ''pack_to_worker_capacity'', pack_to_worker_capacity l,
        spsc_minimum_file_size lib PackToExecutionWorkerMessage, Huge),
      (str_lit ''worker_to_pack_capacity'', worker_to_pack_capacity l,
        spsc_minimum_file_size lib ExecutionWorkerToPackMessage, Huge)]
     @ (if check_worker_count l = 0 then [] else
        [(str_lit ''pack_to_check_worker_capacity'', pack_to_check_worker_capacity l,
           mpmc_minimum_file_size lib PackToCheckWorkerMessage, Huge),
         (str_lit ''check_worker_to_pack_capacity'', check_worker_to_pack_capacity l,
           mpmc_minimum_file_size lib CheckWorkerToPackMessage, Huge)])
     @ (if simulate_worker_count l = 0 then [] else
        [(str_lit ''pack_to_simulate_worker_capacity'', pack_to_simulate_worker_capacity l,
           mpmc_minimum_file_size lib PackToExecutionWorkerMessage, Huge),
         (str_lit ''simulate_worker_to_pack_capacity'', simulate_worker_to_pack_capacity l,
           mpmc_minimum_file_size lib ExecutionWorkerToPackMessage, Huge)])"

definition logon_valid :: "'f shmem_lib \<Rightarrow> ClientLogon \<Rightarrow> bool" where
  "logon_valid lib l \<longleftrightarrow>
     1 \<le> worker_count l \<and> worker_count l \<le> 64 \<and> check_worker_count l \<le> 64 \<and> simulate_worker_count l \<le> 64
     \<and> 1 \<le> allocator_handles l
     \<and> worker_count l + check_worker_count l + simulate_worker_count l + allocator_handles l + 1 < 2 ^ 32
     \<and> round_up (allocator_size l) Huge \<le> ISIZE_MAX
     \<and> (\<forall>(field, capacity, minimum, p) \<in> set (logon_queues lib l). representable (minimum capacity) p)"

text \<open>An error that names a part of the logon that is indeed wrong.\<close>

fun blames :: "'f shmem_lib \<Rightarrow> ClientLogon \<Rightarrow> AgaveHandshakeError \<Rightarrow> bool" where
  "blames lib l (WorkerCount n) \<longleftrightarrow> n = worker_count l \<and> (n = 0 \<or> 64 < n)"
| "blames lib l (CheckWorkerCount n) \<longleftrightarrow> n = check_worker_count l \<and> 64 < n"
| "blames lib l (SimulateWorkerCount n) \<longleftrightarrow> n = simulate_worker_count l \<and> 64 < n"
| "blames lib l (AllocatorHandles n) \<longleftrightarrow> n = allocator_handles l
     \<and> (n = 0 \<or> 2 ^ 32 \<le> worker_count l + check_worker_count l + simulate_worker_count l + n + 1)"
| "blames lib l (AllocatorSize n) \<longleftrightarrow> n = allocator_size l \<and> ISIZE_MAX < round_up n Huge"
| "blames lib l (QueueCapacity field n) \<longleftrightarrow>
     (\<exists>minimum p. (field, n, minimum, p) \<in> set (logon_queues lib l) \<and> \<not> representable (minimum n) p)"
| "blames lib l _ \<longleftrightarrow> False"

definition sizes_total :: "'f shmem_lib \<Rightarrow> bool" where
  "sizes_total lib \<longleftrightarrow> (\<forall>m n. no_fault (spsc_minimum_file_size lib m n) \<and> no_fault (mpmc_minimum_file_size lib m n))"

fun validate_queues ::
    "(str \<times> usize \<times> (usize \<Rightarrow> (ShaqLibError, usize) outcome) \<times> PageSize) list
      \<Rightarrow> (AgaveHandshakeError, unit) outcome" where
  "validate_queues [] = Ok ()"
| "validate_queues ((field, capacity, minimum, p) # qs) =
     r_bind (validate_queue_capacity field capacity minimum p) (\<lambda>_. validate_queues qs)"

lemma r_bind_assoc: "r_bind (r_bind m f) g = r_bind m (\<lambda>x. r_bind (f x) g)"
  by (cases m) auto

lemma r_bind_unit: "r_bind m (\<lambda>_. Ok ()) = m"
  by (cases m) auto

lemma validate_list:
  "validate lib l =
     (if \<not> (1 \<le> worker_count l \<and> worker_count l \<le> 64) then Err (WorkerCount (worker_count l))
      else if check_worker_count l > 64 then Err (CheckWorkerCount (check_worker_count l))
      else if simulate_worker_count l > 64 then Err (SimulateWorkerCount (simulate_worker_count l))
      else
        r_bind (ok_or_err (AllocatorHandles (allocator_handles l)) (allocator_count l)) (\<lambda>_.
        r_bind (ok_or_err (AllocatorSize (allocator_size l)) (checked_file_size (allocator_size l) Huge)) (\<lambda>_.
        validate_queues (logon_queues lib l))))"
  by (simp add: validate_def logon_queues_def r_bind_assoc r_bind_unit MAX_WORKERS_def)

lemma validate_queue_capacity_cases:
  "validate_queue_capacity field n minimum p =
     (if representable (minimum n) p then Ok ()
      else case minimum n of Panic \<Rightarrow> Panic | UB \<Rightarrow> UB | _ \<Rightarrow> Err (QueueCapacity field n))"
  by (auto simp: validate_queue_capacity_def representable_def checked_file_size_eq ok_or_err_def
      split: outcome.splits)

lemma validate_queues_Ok:
  "validate_queues qs = Ok () \<longleftrightarrow> (\<forall>(field, n, minimum, p) \<in> set qs. representable (minimum n) p)"
  by (induction qs rule: validate_queues.induct)
    (auto simp: validate_queue_capacity_cases r_bind_Ok_iff split: outcome.splits)

lemma validate_queues_Err:
  assumes "\<forall>(field, n, minimum, p) \<in> set qs. no_fault (minimum n)"
  shows "validate_queues qs = Ok () \<or> (\<exists>field n minimum p. validate_queues qs = Err (QueueCapacity field n)
    \<and> (field, n, minimum, p) \<in> set qs \<and> \<not> representable (minimum n) p)"
  using assms
proof (induction qs rule: validate_queues.induct)
  case (2 field n minimum p qs)
  show ?case
  proof (cases "representable (minimum n) p")
    case True
    then have "validate_queues ((field, n, minimum, p) # qs) = validate_queues qs"
      by (simp add: validate_queue_capacity_cases)
    then show ?thesis using 2 by (simp only: set_simps) fastforce
  next
    case False
    have "no_fault (minimum n)" using 2(2) by simp
    then have "validate_queues ((field, n, minimum, p) # qs) = Err (QueueCapacity field n)"
      using False by (cases "minimum n") (simp_all add: validate_queue_capacity_cases)
    then show ?thesis using False by (metis list.set_intros(1))
  qed
qed simp

lemma allocator_count_eq:
  "allocator_count l =
     (let n = worker_count l + check_worker_count l + simulate_worker_count l + allocator_handles l + 1 in
      if allocator_handles l \<noteq> 0 \<and> n < 2 ^ 32 then Some n else None)"
  by (simp add: allocator_count_def usize_checked_add_def u32_try_from_def Let_def)

lemma expected_file_count_eq:
  assumes "worker_count l \<le> 64"
  shows "expected_file_count l = Some (3 + 2 * worker_count l
    + (if check_worker_count l = 0 then 0 else 2) + (if simulate_worker_count l = 0 then 0 else 2))"
  using assms by (simp add: expected_file_count_def usize_checked_add_def usize_checked_mul_def Let_def
      WORKER_SHMEM_def GLOBAL_SHMEM_def CHECK_SHMEM_def SIMULATE_SHMEM_def)

lemma validate_Ok_iff: "validate lib l = Ok () \<longleftrightarrow> logon_valid lib l"
  by (simp add: validate_list logon_valid_def ok_or_err_def allocator_count_eq checked_file_size_eq
      validate_queues_Ok Let_def) linarith

lemma validate_blames:
  assumes "sizes_total lib" "\<not> logon_valid lib l"
  shows "\<exists>e. validate lib l = Err e \<and> blames lib l e"
proof (cases "1 \<le> worker_count l \<and> worker_count l \<le> 64 \<and> check_worker_count l \<le> 64
    \<and> simulate_worker_count l \<le> 64 \<and> allocator_count l \<noteq> None \<and> checked_file_size (allocator_size l) Huge \<noteq> None")
  case True
  then have v: "validate lib l = validate_queues (logon_queues lib l)"
    by (auto simp: validate_list ok_or_err_def)
  have "\<forall>(field, n, minimum, p) \<in> set (logon_queues lib l). no_fault (minimum n)"
    using assms(1) by (auto simp: logon_queues_def sizes_total_def)
  from validate_queues_Err [OF this] v assms(2) show ?thesis
    unfolding validate_Ok_iff [symmetric] by fastforce
next
  case False
  then show ?thesis
    by (auto simp: validate_list ok_or_err_def allocator_count_eq checked_file_size_eq Let_def not_le
        split: option.splits if_splits)
qed

text \<open>
  C36. Validation of a logon is exact. \<open>validate\<close> succeeds exactly when all counts are within their limits,
  the allocator handles add up to a 32-bit number without overflow, and every file size can be
  represented; then the number of files both sides expect is at most 135, which the client's control
  buffer is made for. Otherwise it returns an error that names a field which violates its limit. (The
  queue library's size functions do not panic.)
\<close>

theorem validate_exact:
  assumes "sizes_total lib"
  shows "(validate lib l = Ok () \<longleftrightarrow> logon_valid lib l)
    \<and> (logon_valid lib l \<longrightarrow> (\<exists>n. expected_file_count l = Some n \<and> n \<le> 135)
        \<and> allocator_count l = Some (worker_count l + check_worker_count l + simulate_worker_count l
            + allocator_handles l + 1))
    \<and> (\<not> logon_valid lib l \<longrightarrow> (\<exists>e. validate lib l = Err e \<and> blames lib l e))"
proof (intro conjI impI)
  show "validate lib l = Ok () \<longleftrightarrow> logon_valid lib l" by (rule validate_Ok_iff)
  assume v: "logon_valid lib l"
  then show "\<exists>n. expected_file_count l = Some n \<and> n \<le> 135"
    by (simp add: logon_valid_def expected_file_count_eq)
  show "allocator_count l = Some (worker_count l + check_worker_count l + simulate_worker_count l
      + allocator_handles l + 1)"
    using v by (simp add: logon_valid_def allocator_count_eq)
qed (rule validate_blames [OF assms])

definition example_sizes :: "nat \<Rightarrow> (ShaqLibError, usize) outcome" where
  "example_sizes n = (if n < 2 ^ 40 then Ok (64 * n + 128) else Err (ShaqLibError 0))"

text \<open>A library that keeps in a file just what the contracts speak of.\<close>

definition plain_join :: "contents \<Rightarrow> (RtsAllocError, contents) outcome" where
  "plain_join f = (case f of
     AllocatorFile n k \<Rightarrow> if k < n then Ok (AllocatorFile n (Suc k)) else Err (RtsError 1)
   | _ \<Rightarrow> Err (RtsError 2))"

definition plain_lib :: "contents shmem_lib" where
  "plain_lib =
     \<lparr>allocator_create = (\<lambda>sz n slab. if sz = 0 then Err (RtsError 0) else Ok (AllocatorFile n 1)),
      allocator_join = plain_join, allocator_join_from_existing = plain_join,
      spsc_minimum_file_size = (\<lambda>m. example_sizes), mpmc_minimum_file_size = (\<lambda>m. example_sizes),
      spsc_producer_create = (\<lambda>m sz. Ok (SpscFile m True False)),
      spsc_consumer_create = (\<lambda>m sz. Ok (SpscFile m False True)),
      spsc_producer_join = (\<lambda>m f. case f of SpscFile m' p c \<Rightarrow> Ok (SpscFile m' True c) | _ \<Rightarrow> Err (ShaqLibError 1)),
      spsc_consumer_join = (\<lambda>m f. case f of SpscFile m' p c \<Rightarrow> Ok (SpscFile m' p True) | _ \<Rightarrow> Err (ShaqLibError 1)),
      mpmc_producer_create = (\<lambda>m sz. Ok (MpmcFile m)), mpmc_consumer_create = (\<lambda>m sz. Ok (MpmcFile m)),
      mpmc_producer_join = (\<lambda>m f. Ok f), mpmc_consumer_join = (\<lambda>m f. Ok f),
      file_contents = (\<lambda>f. f), shaq_VERSION = 5, rts_alloc_VERSION = 2\<rparr>"

definition example_logon :: ClientLogon where
  "example_logon = \<lparr>worker_count = 2, check_worker_count = 1, simulate_worker_count = 0,
     allocator_size = 4096, allocator_handles = 3, tpu_to_pack_capacity = 16, progress_tracker_capacity = 16,
     pack_to_worker_capacity = 8, worker_to_pack_capacity = 8, pack_to_check_worker_capacity = 4,
     check_worker_to_pack_capacity = 4, pack_to_simulate_worker_capacity = 0,
     simulate_worker_to_pack_capacity = 0\<rparr>"

lemma plain_sizes: "sizes_total plain_lib"
  by (simp add: sizes_total_def plain_lib_def example_sizes_def)

lemma example_logon_valid: "logon_valid plain_lib example_logon"
  by (simp add: logon_valid_def example_logon_def logon_queues_def representable_def round_up_def page_bytes_def
      plain_lib_def example_sizes_def STANDARD_PAGE_SIZE_def HUGE_PAGE_SIZE_def)

theorem validate_exact_witness:
  "validate plain_lib example_logon = Ok () \<and> allocator_count example_logon = Some 7
   \<and> (\<exists>e. validate plain_lib (example_logon\<lparr>worker_count := 65\<rparr>) = Err e
        \<and> blames plain_lib (example_logon\<lparr>worker_count := 65\<rparr>) e)"
proof (intro conjI)
  show "validate plain_lib example_logon = Ok ()"
    using validate_exact [OF plain_sizes, of example_logon] example_logon_valid by blast
  show "allocator_count example_logon = Some 7"
    using validate_exact [OF plain_sizes, of example_logon] example_logon_valid by (simp add: example_logon_def)
  have "\<not> logon_valid plain_lib (example_logon\<lparr>worker_count := 65\<rparr>)" by (simp add: logon_valid_def)
  then show "\<exists>e. validate plain_lib (example_logon\<lparr>worker_count := 65\<rparr>) = Err e
      \<and> blames plain_lib (example_logon\<lparr>worker_count := 65\<rparr>) e"
    using validate_exact [OF plain_sizes] by blast
qed

end
