(* ===== verification/Scheduler_Bindings.thy ===== *)
theory Scheduler_Bindings
  imports Handshake_Shared
begin

text \<open>
  The messages between the validator and an external scheduler (\<open>scheduler-bindings/src/lib.rs\<close>). They are
  \<open>repr(C)\<close> structures in shared memory, so what the two processes have to agree on is their layout: a
  structure is given by the types of its fields in order, and its layout follows the C rules on a 64-bit
  target. Flags and codes are the constants of the modules they are declared in.
\<close>

section \<open>The layout of a structure\<close>

datatype ctype = Scalar nat | Arr nat ctype | Struct "ctype list"

abbreviation U8 :: ctype where "U8 \<equiv> Scalar 1"
abbreviation U16 :: ctype where "U16 \<equiv> Scalar 2"
abbreviation U32 :: ctype where "U32 \<equiv> Scalar 4"
abbreviation U64 :: ctype where "U64 \<equiv> Scalar 8"
abbreviation Usize :: ctype where "Usize \<equiv> Scalar 8"

definition align_up :: "nat \<Rightarrow> nat \<Rightarrow> nat" where
  "align_up a n = (n + (a - 1)) div a * a"

fun align_of :: "ctype \<Rightarrow> nat" where
  "align_of (Scalar n) = n"
| "align_of (Arr n t) = align_of t"
| "align_of (Struct ts) = foldr max (map align_of ts) 1"

fun size_of :: "ctype \<Rightarrow> nat" where
  "size_of (Scalar n) = n"
| "size_of (Arr n t) = n * size_of t"
| "size_of (Struct ts) =
     align_up (align_of (Struct ts)) (fold (\<lambda>t off. align_up (align_of t) off + size_of t) ts 0)"

text \<open>The offsets of the fields of a structure.\<close>

fun offsets_from :: "nat \<Rightarrow> ctype list \<Rightarrow> nat list" where
  "offsets_from off [] = []"
| "offsets_from off (t # ts) = (let o1 = align_up (align_of t) off in o1 # offsets_from (o1 + size_of t) ts)"

fun fields_of :: "ctype \<Rightarrow> ctype list" where
  "fields_of (Struct ts) = ts"
| "fields_of t = []"

definition offsets :: "ctype \<Rightarrow> nat list" where
  "offsets t = offsets_from 0 (fields_of t)"

definition no_padding :: "ctype \<Rightarrow> bool" where
  "no_padding t \<longleftrightarrow> size_of t = sum_list (map size_of (fields_of t))"

section \<open>The messages\<close>

definition SharableTransactionRegion :: ctype where
  "SharableTransactionRegion = Struct [Usize, U32]"

definition SharablePubkeys :: ctype where
  "SharablePubkeys = Struct [Usize, U32]"

definition SharableTransactionBatchRegion :: ctype where
  "SharableTransactionBatchRegion = Struct [U8, Usize]"

definition ExecutionResponseRegion :: ctype where
  "ExecutionResponseRegion = Struct [U8, Usize]"

definition CheckResponseRegion :: ctype where
  "CheckResponseRegion = Struct [U8, Usize]"

definition TpuToPackMessage_type :: ctype where
  "TpuToPackMessage_type = Struct [SharableTransactionRegion, U8, Arr 16 U8]"

definition ProgressMessage_type :: ctype where
  "ProgressMessage_type = Struct [U8, U8, U64, U64, U64, U64, U64, U64, Arr 32 U8, U16]"

definition PackToExecutionWorkerMessage_type :: ctype where
  "PackToExecutionWorkerMessage_type = Struct [U16, U64, SharableTransactionBatchRegion]"

definition PackToCheckWorkerMessage_type :: ctype where
  "PackToCheckWorkerMessage_type = Struct [U16, SharableTransactionBatchRegion]"

definition ExecutionWorkerToPackMessage_type :: ctype where
  "ExecutionWorkerToPackMessage_type = Struct [SharableTransactionBatchRegion, U8, ExecutionResponseRegion]"

definition CheckWorkerToPackMessage_type :: ctype where
  "CheckWorkerToPackMessage_type = Struct [SharableTransactionBatchRegion, U8, CheckResponseRegion]"

definition ExecutionResponse :: ctype where
  "ExecutionResponse = Struct [U64, U8, U8, U64, U64]"

definition CheckResponse :: ctype where
  "CheckResponse = Struct [U8, U8, U8, U8, U8, U8, U64, U64, U64, U64, U64, U64, U64, U64, U64, SharablePubkeys]"

definition MAX_TRANSACTIONS_PER_MESSAGE :: usize where "MAX_TRANSACTIONS_PER_MESSAGE = 64"

text \<open>The two structures of the handshake, which go over the socket as they lie in memory.\<close>

definition ProtocolVersions_type :: ctype where
  "ProtocolVersions_type = Struct [U64, U64, U64, U64]"

definition ClientLogon_type :: ctype where
  "ClientLogon_type = Struct (replicate 13 Usize)"

definition bindings_structs :: "ctype list" where
  "bindings_structs = [SharableTransactionRegion, SharablePubkeys, SharableTransactionBatchRegion,
     ExecutionResponseRegion, CheckResponseRegion, TpuToPackMessage_type, ProgressMessage_type,
     PackToExecutionWorkerMessage_type, PackToCheckWorkerMessage_type, ExecutionWorkerToPackMessage_type,
     CheckWorkerToPackMessage_type, ExecutionResponse, CheckResponse, ProtocolVersions_type, ClientLogon_type]"

text \<open>The message types of the queues of a session.\<close>

fun message_type :: "message \<Rightarrow> ctype" where
  "message_type TpuToPackMessage = TpuToPackMessage_type"
| "message_type ProgressMessage = ProgressMessage_type"
| "message_type PackToExecutionWorkerMessage = PackToExecutionWorkerMessage_type"
| "message_type ExecutionWorkerToPackMessage = ExecutionWorkerToPackMessage_type"
| "message_type PackToCheckWorkerMessage = PackToCheckWorkerMessage_type"
| "message_type CheckWorkerToPackMessage = CheckWorkerToPackMessage_type"

section \<open>Flags and codes\<close>

definition flag :: "nat \<Rightarrow> 'a :: len word" where
  "flag n = push_bit n 1"

definition tpu_message_flags :: "(string \<times> u8) list" where
  "tpu_message_flags = [(''IS_SIMPLE_VOTE'', flag 0), (''FORWARDED'', flag 1), (''FROM_STAKED_NODE'', flag 2)]"

definition check_message_flags :: "(string \<times> u16) list" where
  "check_message_flags = [(''STATUS_CACHE_CHECKS'', flag 0), (''LOAD_FEE_PAYER_BALANCE'', flag 1),
     (''LOAD_ADDRESS_LOOKUP_TABLES'', flag 2), (''CALCULATE_SCHEDULING_DETAILS'', flag 3), (''AGE_NONCE_CHECKS'', flag 4)]"

definition execution_message_flags :: "(string \<times> u16) list" where
  "execution_message_flags = [(''DROP_ON_FAILURE'', flag 0), (''ALL_OR_NOTHING'', flag 1)]"

definition parsing_and_sanitization_flags :: "(string \<times> u8) list" where
  "parsing_and_sanitization_flags = [(''FAILED'', flag 0)]"

definition status_cache_check_flags :: "(string \<times> u8) list" where
  "status_cache_check_flags = [(''REQUESTED'', flag 0), (''PERFORMED'', flag 1), (''ALREADY_PROCESSED'', flag 2)]"

definition age_nonce_check_flags :: "(string \<times> u8) list" where
  "age_nonce_check_flags = [(''REQUESTED'', flag 0), (''PERFORMED'', flag 1), (''TOO_OLD'', flag 2),
     (''INVALID_NONCE'', flag 3), (''UNSUPPORTED_VERSION'', flag 4), (''VALIDATED_NONCE'', flag 5)]"

definition fee_payer_balance_flags :: "(string \<times> u8) list" where
  "fee_payer_balance_flags = [(''REQUESTED'', flag 0), (''PERFORMED'', flag 1)]"

definition resolve_flags :: "(string \<times> u8) list" where
  "resolve_flags = [(''REQUESTED'', flag 0), (''PERFORMED'', flag 1), (''FAILED'', flag 2)]"

definition scheduling_details_flags :: "(string \<times> u8) list" where
  "scheduling_details_flags = [(''REQUESTED'', flag 0), (''PERFORMED'', flag 1), (''FAILED'', flag 2)]"

definition leader_states :: "(string \<times> u8) list" where
  "leader_states = [(''NOT_LEADER'', 0), (''LEADER_STARTING'', 1), (''LEADER_READY'', 2)]"

definition processed_codes :: "(string \<times> u8) list" where
  "processed_codes = [(''PROCESSED'', 0), (''INVALID'', 1), (''MAX_WORKING_SLOT_EXCEEDED'', 2)]"

definition execution_statuses :: "(string \<times> u8) list" where
  "execution_statuses = [(''NOT_INCLUDED'', 0), (''SUCCESS'', 1), (''FAILED'', 2)]"

definition scheduling_reasons :: "(string \<times> u8) list" where
  "scheduling_reasons = [(''NONE'', 0), (''BANK_NOT_AVAILABLE'', 1), (''PARTIAL_BATCH_CANCELLED'', 2),
     (''ALL_OR_NOTHING_BATCH_FAILURE'', 3)]"

definition sdk_reasons :: "(string \<times> u8) list" where
  "sdk_reasons = [(''ACCOUNT_IN_USE'', 64), (''ACCOUNT_LOADED_TWICE'', 65), (''ACCOUNT_NOT_FOUND'', 66),
     (''PROGRAM_ACCOUNT_NOT_FOUND'', 67), (''INSUFFICIENT_FUNDS_FOR_FEE'', 68), (''INVALID_ACCOUNT_FOR_FEE'', 69),
     (''ALREADY_PROCESSED'', 70), (''BLOCKHASH_NOT_FOUND'', 71), (''INSTRUCTION_ERROR'', 72),
     (''CALL_CHAIN_TOO_DEEP'', 73), (''MISSING_SIGNATURE_FOR_FEE'', 74), (''INVALID_ACCOUNT_INDEX'', 75),
     (''SIGNATURE_FAILURE'', 76), (''INVALID_PROGRAM_FOR_EXECUTION'', 77), (''SANITIZE_FAILURE'', 78),
     (''CLUSTER_MAINTENANCE'', 79), (''ACCOUNT_BORROW_OUTSTANDING'', 80), (''WOULD_EXCEED_MAX_BLOCK_COST_LIMIT'', 81),
     (''UNSUPPORTED_VERSION'', 82), (''INVALID_WRITABLE_ACCOUNT'', 83), (''WOULD_EXCEED_MAX_ACCOUNT_COST_LIMIT'', 84),
     (''WOULD_EXCEED_ACCOUNT_DATA_BLOCK_LIMIT'', 85), (''TOO_MANY_ACCOUNT_LOCKS'', 86),
     (''ADDRESS_LOOKUP_TABLE_NOT_FOUND'', 87), (''INVALID_ADDRESS_LOOKUP_TABLE_OWNER'', 88),
     (''INVALID_ADDRESS_LOOKUP_TABLE_DATA'', 89), (''INVALID_ADDRESS_LOOKUP_TABLE_INDEX'', 90),
     (''INVALID_RENT_PAYING_ACCOUNT'', 91), (''WOULD_EXCEED_MAX_VOTE_COST_LIMIT'', 92),
     (''WOULD_EXCEED_ACCOUNT_DATA_TOTAL_LIMIT'', 93), (''DUPLICATE_INSTRUCTION'', 94),
     (''INSUFFICIENT_FUNDS_FOR_RENT'', 95), (''MAX_LOADED_ACCOUNTS_DATA_SIZE_EXCEEDED'', 96),
     (''INVALID_LOADED_ACCOUNTS_DATA_SIZE_LIMIT'', 97), (''RESANITIZATION_NEEDED'', 98),
     (''PROGRAM_EXECUTION_TEMPORARILY_RESTRICTED'', 99), (''UNBALANCED_TRANSACTION'', 100),
     (''PROGRAM_CACHE_HIT_MAX_LIMIT'', 101)]"

definition not_included_reasons :: "(string \<times> u8) list" where
  "not_included_reasons = scheduling_reasons @ sdk_reasons"

section \<open>Lemmas\<close>

lemma align_up_bounds: "0 < a \<Longrightarrow> n \<le> align_up a n" "a dvd align_up a n"
proof -
  assume "0 < a"
  then have "n + (a - 1) < (n + (a - 1)) div a * a + a"
    using mod_less_divisor [of a "n + (a - 1)"] div_mult_mod_eq [of "n + (a - 1)" a] by linarith
  then show "n \<le> align_up a n" using \<open>0 < a\<close> by (simp add: align_up_def)
qed (simp add: align_up_def)

text \<open>
  The layout both processes have to agree on: the offset of every field and the size of every structure. The
  alignment of each is 8.
\<close>

lemma region_layouts:
  "offsets SharableTransactionRegion = [0, 8]" "size_of SharableTransactionRegion = 16"
  "offsets SharablePubkeys = [0, 8]" "size_of SharablePubkeys = 16"
  "offsets SharableTransactionBatchRegion = [0, 8]" "size_of SharableTransactionBatchRegion = 16"
  "offsets ExecutionResponseRegion = [0, 8]" "size_of ExecutionResponseRegion = 16"
  "offsets CheckResponseRegion = [0, 8]" "size_of CheckResponseRegion = 16"
  by code_simp+

lemma message_layouts:
  "offsets (message_type TpuToPackMessage) = [0, 16, 17]" "size_of (message_type TpuToPackMessage) = 40"
  "offsets (message_type ProgressMessage) = [0, 1, 8, 16, 24, 32, 40, 48, 56, 88]"
  "size_of (message_type ProgressMessage) = 96"
  "offsets (message_type PackToExecutionWorkerMessage) = [0, 8, 16]"
  "size_of (message_type PackToExecutionWorkerMessage) = 32"
  "offsets (message_type PackToCheckWorkerMessage) = [0, 8]" "size_of (message_type PackToCheckWorkerMessage) = 24"
  "offsets (message_type ExecutionWorkerToPackMessage) = [0, 16, 24]"
  "size_of (message_type ExecutionWorkerToPackMessage) = 40"
  "offsets (message_type CheckWorkerToPackMessage) = [0, 16, 24]"
  "size_of (message_type CheckWorkerToPackMessage) = 40"
  by code_simp+

lemma response_layouts:
  "offsets ExecutionResponse = [0, 8, 9, 16, 24]" "size_of ExecutionResponse = 32"
  "offsets CheckResponse = [0, 1, 2, 3, 4, 5, 8, 16, 24, 32, 40, 48, 56, 64, 72, 80]" "size_of CheckResponse = 96"
  by code_simp+

lemma structures_aligned: "list_all (\<lambda>t. align_of t = 8) bindings_structs"
  by code_simp

text \<open>The structures of the handshake have no padding and the sizes of their wire formats.\<close>

lemma socket_structures:
  "no_padding ProtocolVersions_type" "size_of ProtocolVersions_type = ProtocolVersions_SIZE"
  "no_padding ClientLogon_type" "size_of ClientLogon_type = ClientLogon_SIZE"
  by code_simp+

text \<open>A module of flags: none is zero and no two share a bit.\<close>

definition flags_ok :: "(string \<times> 'a :: len word) list \<Rightarrow> bool" where
  "flags_ok fs \<longleftrightarrow> list_all (\<lambda>(name, v). v \<noteq> 0) fs
     \<and> sorted_wrt (\<lambda>(name, v) (name', v'). name \<noteq> name' \<and> and v v' = 0) fs"

lemma flag_and: "i \<noteq> j \<Longrightarrow> and (flag i) (flag j) = (0 :: 'a :: len word)"
  by (rule bit_eqI) (auto simp: flag_def bit_and_iff bit_exp_iff)

lemma flag_nonzero: "i < LENGTH('a) \<Longrightarrow> flag i \<noteq> (0 :: 'a :: len word)"
proof
  assume "i < LENGTH('a)" "flag i = (0 :: 'a word)"
  moreover have "bit (flag i :: 'a word) i" using \<open>i < LENGTH('a)\<close> by (simp add: flag_def bit_exp_iff)
  ultimately show False by simp
qed

lemmas flag_modules = tpu_message_flags_def check_message_flags_def execution_message_flags_def
  parsing_and_sanitization_flags_def status_cache_check_flags_def age_nonce_check_flags_def
  fee_payer_balance_flags_def resolve_flags_def scheduling_details_flags_def

lemma modules_ok:
  "flags_ok tpu_message_flags" "flags_ok check_message_flags" "flags_ok execution_message_flags"
  "flags_ok parsing_and_sanitization_flags" "flags_ok status_cache_check_flags" "flags_ok age_nonce_check_flags"
  "flags_ok fee_payer_balance_flags" "flags_ok resolve_flags" "flags_ok scheduling_details_flags"
  by (simp_all add: flags_ok_def flag_modules flag_and flag_nonzero)

text \<open>
  The codes of each module are told apart, and among the reasons those of the scheduler from those of the SDK.
\<close>

lemma codes_distinct:
  "distinct (map snd leader_states)" "distinct (map snd processed_codes)" "distinct (map snd execution_statuses)"
  "distinct (map snd not_included_reasons)"
  "list_all (\<lambda>(name, v). v < 64) scheduling_reasons" "list_all (\<lambda>(name, v). 64 \<le> v) sdk_reasons"
  by code_simp+

text \<open>
  Within 4096 bytes, the largest allocation the comment on the limit assumes, a message of at most 64
  transactions has room for its batch and for its execution responses; for its check responses it has room
  exactly up to 42 transactions.
\<close>

lemma responses_in_allocation:
  "MAX_TRANSACTIONS_PER_MESSAGE * size_of SharableTransactionRegion \<le> 4096"
  "MAX_TRANSACTIONS_PER_MESSAGE * size_of ExecutionResponse \<le> 4096"
  "n * size_of CheckResponse \<le> 4096 \<longleftrightarrow> n \<le> 42"
  by (simp_all only: region_layouts response_layouts MAX_TRANSACTIONS_PER_MESSAGE_def) linarith+

end
