(* ===== verification/Cache_Padding.thy ===== *)
theory Cache_Padding
  imports Scheduler_Bindings
begin

text \<open>
  The wrapper of \<open>event-system/src/cache_padded.rs\<close>, which keeps the generation of a stream, loaded on every
  publish, on a cache line of its own. The wrapper is transparent to the value; what it promises is about
  addresses, so its layout is modelled: \<open>repr(C, align(64))\<close> around one field.
\<close>

record 'a CachePadded =
  cp_value :: 'a

definition CachePadded_new :: "'a \<Rightarrow> 'a CachePadded" where
  "CachePadded_new t = \<lparr>cp_value = t\<rparr>"

definition CachePadded_deref :: "'a CachePadded \<Rightarrow> 'a" where
  "CachePadded_deref self = cp_value self"

text \<open>The attribute raises the alignment, and the size is a multiple of the alignment.\<close>

definition cache_padded_align :: "ctype \<Rightarrow> nat" where
  "cache_padded_align t = max 64 (align_of (Struct [t]))"

definition cache_padded_size :: "ctype \<Rightarrow> nat" where
  "cache_padded_size t = align_up (cache_padded_align t) (size_of (Struct [t]))"

text \<open>The bytes of an object of some size at some address, and the cache line of a byte.\<close>

definition occupies :: "nat \<Rightarrow> nat \<Rightarrow> nat \<Rightarrow> bool" where
  "occupies address n i \<longleftrightarrow> address \<le> i \<and> i < address + n"

definition cache_line :: "nat \<Rightarrow> nat" where
  "cache_line i = i div 64"

lemma aligned_block_line:
  assumes "64 dvd address" "64 dvd n" "occupies address n i" "cache_line i = cache_line j"
  shows "occupies address n j"
proof -
  obtain m k where "address = 64 * m" "n = 64 * k" using assms(1,2) by (auto elim!: dvdE)
  moreover have "m \<le> i div 64" "i div 64 < m + k"
    using assms(3) calculation by (auto simp: occupies_def)
  ultimately show ?thesis
    using assms(4) unfolding occupies_def cache_line_def by linarith
qed

text \<open>
  A padded value shares no cache line with anything outside it, wherever it is placed at its alignment: the
  reason for the wrapper. The alignments of the fields are powers of two.
\<close>

lemma cache_padded_own_line:
  assumes "align_of (Struct [t]) = 2 ^ k" "cache_padded_align t dvd address"
    and "occupies address (cache_padded_size t) i" "\<not> occupies address (cache_padded_size t) j"
  shows "cache_line i \<noteq> cache_line j"
proof -
  have "64 dvd cache_padded_align t"
  proof (cases "k \<le> 6")
    case True
    then have "(2 :: nat) ^ k \<le> 2 ^ 6" by (rule power_increasing) simp
    then have "cache_padded_align t = 64" using assms(1) by (simp only: cache_padded_align_def) simp
    then show ?thesis by simp
  next
    case False
    then have "6 \<le> k" by simp
    from le_imp_power_dvd [OF this, of "2 :: nat"] power_increasing [OF this, of "2 :: nat"]
    show ?thesis using assms(1) by (simp only: cache_padded_align_def) simp
  qed
  then have "64 dvd address" "64 dvd cache_padded_size t"
    using assms(2) align_up_bounds(2) [of "cache_padded_align t"] unfolding cache_padded_size_def
    by (auto intro: dvd_trans)
  from aligned_block_line [OF this assms(3)] assms(4) show ?thesis by blast
qed

text \<open>The generation of a stream takes one cache line, and reads back as it was put in.\<close>

lemma generation_line:
  "cache_padded_size U64 = 64" "cache_padded_align U64 = 64"
  by (simp_all add: cache_padded_size_def cache_padded_align_def align_up_def)

lemma CachePadded_transparent: "CachePadded_deref (CachePadded_new t) = t"
  by (simp add: CachePadded_deref_def CachePadded_new_def)

end
