(* ===== verification/Handshake_Session.thy ===== *)
theory Handshake_Session
  imports Handshake_Shared
begin

text \<open>
  Setting up a scheduling session: the server creates the shared memory and its endpoints
  (\<open>scheduler-handshake/src/server.rs\<close>), the client joins the other endpoints from the files it is given
  (\<open>client.rs\<close>), and a local session does both (\<open>lib.rs\<close>). Joining a queue is unsafe in the code: here it is
  undefined behaviour unless the file holds a queue of the message type whose endpoint is unclaimed.
\<close>

section \<open>Shared memory\<close>

text \<open>
  The files by number, with nothing in them until a library function initialises them, and the coming
  faults of \<open>memfd_create\<close> (huge pages may be missing).
\<close>

record 'f shm_world =
  sm_files :: "nat \<rightharpoonup> 'f option"
  sm_next :: nat
  sm_faults :: "socket_error option list"

type_synonym ('f, 'e, 'a) shm = "('f shm_world, 'e, 'a) comp"

fun result_map_err :: "('e \<Rightarrow> 'g) \<Rightarrow> ('e, 'a) outcome \<Rightarrow> ('g, 'a) outcome" where
  "result_map_err f (Ok x) = Ok x"
| "result_map_err f (Err e) = Err (f e)"
| "result_map_err f Panic = Panic"
| "result_map_err f UB = UB"

definition shm_map_err :: "('e \<Rightarrow> 'g) \<Rightarrow> ('f, 'e, 'a) shm \<Rightarrow> ('f, 'g, 'a) shm" where
  "shm_map_err f m w = (case m w of (r, w') \<Rightarrow> (result_map_err f r, w'))"

definition or_else :: "('f, 'e, 'a) shm \<Rightarrow> ('f, 'e, 'a) shm \<Rightarrow> ('f, 'e, 'a) shm" where
  "or_else m m' w = (case m w of (Err _, w') \<Rightarrow> m' w' | (r, w') \<Rightarrow> (r, w'))"

definition create_shmem :: "PageSize \<Rightarrow> ('f, socket_error, nat) shm" where
  "create_shmem page_size w =
     (let created = (Ok (sm_next w), w\<lparr>sm_files := (sm_files w)(sm_next w \<mapsto> None), sm_next := Suc (sm_next w),
            sm_faults := tl (sm_faults w)\<rparr>) in
      case sm_faults w of
        Some e # faults \<Rightarrow> (Err e, w\<lparr>sm_faults := faults\<rparr>)
      | _ \<Rightarrow> created)"

definition initialise :: "nat \<Rightarrow> 'f \<Rightarrow> ('f, 'e, unit) shm" where
  "initialise i f = p_modify (\<lambda>w. w\<lparr>sm_files := (sm_files w)(i \<mapsto> Some f)\<rparr>)"

definition align_file_size :: "usize \<Rightarrow> PageSize \<Rightarrow> (socket_error, usize) outcome" where
  "align_file_size sz page_size = ok_or_err InvalidInput (checked_file_size sz page_size)"

section \<open>The server's side\<close>

text \<open>The closure of \<open>create_allocator\<close>, and that of the four functions that create a queue.\<close>

definition create_allocator_file ::
    "'f shmem_lib \<Rightarrow> ClientLogon \<Rightarrow> nat \<Rightarrow> PageSize \<Rightarrow> ('f, RtsAllocError, nat) shm" where
  "create_allocator_file lib logon count page_size =
     p_bind (shm_map_err RtsIo (create_shmem page_size)) (\<lambda>file.
     p_bind (p_lift (result_map_err RtsIo (align_file_size (allocator_size logon) page_size))) (\<lambda>file_size.
     p_bind (p_lift (allocator_create lib file_size count HUGE_PAGE_SIZE)) (\<lambda>f.
     p_bind (initialise file f) (\<lambda>_. p_return file))))"

definition create_allocator :: "'f shmem_lib \<Rightarrow> ClientLogon \<Rightarrow> ('f, RtsAllocError, nat) shm" where
  "create_allocator lib logon =
     (case allocator_count logon of
        None \<Rightarrow> p_lift Panic
      | Some count \<Rightarrow>
          or_else (create_allocator_file lib logon count Huge) (create_allocator_file lib logon count Standard))"

definition create_queue_file ::
    "(ShaqLibError, usize) outcome \<Rightarrow> (usize \<Rightarrow> (ShaqLibError, 'f) outcome) \<Rightarrow> PageSize \<Rightarrow> ('f, ShaqLibError, nat) shm" where
  "create_queue_file minimum_file_size create page_size =
     p_bind (shm_map_err ShaqIo (create_shmem page_size)) (\<lambda>file.
     p_bind (p_lift minimum_file_size) (\<lambda>minimum.
     p_bind (p_lift (result_map_err ShaqIo (align_file_size minimum page_size))) (\<lambda>file_size.
     p_bind (p_lift (create file_size)) (\<lambda>f.
     p_bind (initialise file f) (\<lambda>_. p_return file)))))"

definition create_producer :: "'f shmem_lib \<Rightarrow> message \<Rightarrow> usize \<Rightarrow> PageSize \<Rightarrow> ('f, ShaqLibError, nat) shm" where
  "create_producer lib T capacity page_size =
     (let create = create_queue_file (spsc_minimum_file_size lib T capacity) (spsc_producer_create lib T) in
      case page_size of Huge \<Rightarrow> or_else (create Huge) (create Standard) | Standard \<Rightarrow> create Standard)"

definition create_consumer :: "'f shmem_lib \<Rightarrow> usize \<Rightarrow> ('f, ShaqLibError, nat) shm" where
  "create_consumer lib capacity =
     (let create = create_queue_file (spsc_minimum_file_size lib PackToExecutionWorkerMessage capacity)
            (spsc_consumer_create lib PackToExecutionWorkerMessage) in
      or_else (create Huge) (create Standard))"

definition create_mpmc_producer :: "'f shmem_lib \<Rightarrow> message \<Rightarrow> usize \<Rightarrow> PageSize \<Rightarrow> ('f, ShaqLibError, nat) shm" where
  "create_mpmc_producer lib T capacity page_size =
     (let create = create_queue_file (mpmc_minimum_file_size lib T capacity) (mpmc_producer_create lib T) in
      case page_size of Huge \<Rightarrow> or_else (create Huge) (create Standard) | Standard \<Rightarrow> create Standard)"

definition create_mpmc_consumer :: "'f shmem_lib \<Rightarrow> message \<Rightarrow> usize \<Rightarrow> ('f, ShaqLibError, nat) shm" where
  "create_mpmc_consumer lib T capacity =
     (let create = create_queue_file (mpmc_minimum_file_size lib T capacity) (mpmc_consumer_create lib T) in
      or_else (create Huge) (create Standard))"

text \<open>An operation on the bytes of a file.\<close>

definition on_file :: "('f \<Rightarrow> ('e, 'f) outcome) \<Rightarrow> nat \<Rightarrow> ('f, 'e, unit) shm" where
  "on_file join i w =
     (case sm_files w i of
        Some (Some f) \<Rightarrow> p_bind (p_lift (join f)) (initialise i) w
      | _ \<Rightarrow> (UB, w))"

definition join_from_existing :: "'f shmem_lib \<Rightarrow> nat \<Rightarrow> ('f, RtsAllocError, unit) shm" where
  "join_from_existing lib allocator = on_file (allocator_join_from_existing lib) allocator"

text \<open>Sessions name the files behind their endpoints; a session's allocator handle names its allocator.\<close>

record AgaveWorkerSession =
  aw_allocator :: nat
  aw_pack_to_worker :: nat
  aw_worker_to_pack :: nat

record AgaveSharedWorkerSession =
  asw_allocator :: nat
  asw_request :: nat
  asw_response :: nat

record AgaveSession =
  ag_allocator :: nat
  ag_tpu_to_pack :: nat
  ag_progress_tracker :: nat
  ag_workers :: "AgaveWorkerSession list"
  ag_check_workers :: "AgaveSharedWorkerSession list"
  ag_simulate_workers :: "AgaveSharedWorkerSession list"

fun create_workers ::
    "'f shmem_lib \<Rightarrow> ClientLogon \<Rightarrow> nat \<Rightarrow> nat \<Rightarrow> ('f, AgaveHandshakeError, nat list \<times> AgaveWorkerSession list) shm" where
  "create_workers lib logon allocator 0 = p_return ([], [])"
| "create_workers lib logon allocator (Suc n) =
     p_bind (shm_map_err AgaveRtsAlloc (join_from_existing lib allocator)) (\<lambda>_.
     p_bind (shm_map_err AgaveShaq (create_consumer lib (pack_to_worker_capacity logon))) (\<lambda>pack_to_worker_file.
     p_bind (shm_map_err AgaveShaq (create_producer lib ExecutionWorkerToPackMessage
         (worker_to_pack_capacity logon) Huge)) (\<lambda>worker_to_pack_file.
     p_bind (create_workers lib logon allocator n) (\<lambda>(fds, workers).
     p_return ([pack_to_worker_file, worker_to_pack_file] @ fds,
       \<lparr>aw_allocator = allocator, aw_pack_to_worker = pack_to_worker_file,
        aw_worker_to_pack = worker_to_pack_file\<rparr> # workers)))))"

fun join_workers ::
    "'f shmem_lib \<Rightarrow> nat \<Rightarrow> nat \<Rightarrow> nat \<Rightarrow> nat \<Rightarrow> ('f, AgaveHandshakeError, AgaveSharedWorkerSession list) shm" where
  "join_workers lib allocator request response 0 = p_return []"
| "join_workers lib allocator request response (Suc n) =
     p_bind (shm_map_err AgaveRtsAlloc (join_from_existing lib allocator)) (\<lambda>_.
     p_bind (join_workers lib allocator request response n) (\<lambda>workers.
     p_return (\<lparr>asw_allocator = allocator, asw_request = request, asw_response = response\<rparr> # workers)))"

text \<open>The blocks for the check workers and for the simulate workers differ in types and capacities.\<close>

definition create_shared_workers ::
    "'f shmem_lib \<Rightarrow> message \<Rightarrow> usize \<Rightarrow> message \<Rightarrow> usize \<Rightarrow> nat \<Rightarrow> nat
      \<Rightarrow> ('f, AgaveHandshakeError, nat list \<times> AgaveSharedWorkerSession list) shm" where
  "create_shared_workers lib Request request_capacity Response response_capacity allocator n =
     (if n = 0 then p_return ([], [])
      else
        p_bind (shm_map_err AgaveShaq (create_mpmc_consumer lib Request request_capacity)) (\<lambda>request_file.
        p_bind (shm_map_err AgaveShaq (create_mpmc_producer lib Response response_capacity Huge)) (\<lambda>response_file.
        p_bind (join_workers lib allocator request_file response_file n) (\<lambda>workers.
        p_return ([request_file, response_file], workers)))))"

definition Server_setup_session ::
    "'f shmem_lib \<Rightarrow> ClientLogon \<Rightarrow> ('f, AgaveHandshakeError, AgaveSession \<times> nat list) shm" where
  "Server_setup_session lib logon =
     p_bind (p_lift (validate lib logon)) (\<lambda>_.
     p_bind (shm_map_err AgaveRtsAlloc (create_allocator lib logon)) (\<lambda>allocator.
     p_bind (shm_map_err AgaveShaq (create_producer lib TpuToPackMessage (tpu_to_pack_capacity logon) Huge)) (\<lambda>tpu_to_pack.
     p_bind (shm_map_err AgaveShaq (create_producer lib ProgressMessage (progress_tracker_capacity logon) Standard))
       (\<lambda>progress_tracker.
     p_bind (create_workers lib logon allocator (worker_count logon)) (\<lambda>(worker_files, workers).
     p_bind (create_shared_workers lib PackToCheckWorkerMessage (pack_to_check_worker_capacity logon)
         CheckWorkerToPackMessage (check_worker_to_pack_capacity logon) allocator (check_worker_count logon))
       (\<lambda>(check_files, check_workers).
     p_bind (create_shared_workers lib PackToExecutionWorkerMessage (pack_to_simulate_worker_capacity logon)
         ExecutionWorkerToPackMessage (simulate_worker_to_pack_capacity logon) allocator (simulate_worker_count logon))
       (\<lambda>(simulate_files, simulate_workers).
     p_return (\<lparr>ag_allocator = allocator, ag_tpu_to_pack = tpu_to_pack, ag_progress_tracker = progress_tracker,
         ag_workers = workers, ag_check_workers = check_workers, ag_simulate_workers = simulate_workers\<rparr>,
       [allocator, tpu_to_pack, progress_tracker] @ worker_files @ check_files @ simulate_files))))))))"

section \<open>The client's side\<close>

text \<open>The safety contract of joining a queue.\<close>

fun producer_free :: "message \<Rightarrow> contents \<Rightarrow> bool" where
  "producer_free m (SpscFile m' p c) = (m' = m \<and> \<not> p)"
| "producer_free m _ = False"

fun consumer_free :: "message \<Rightarrow> contents \<Rightarrow> bool" where
  "consumer_free m (SpscFile m' p c) = (m' = m \<and> \<not> c)"
| "consumer_free m _ = False"

definition unsafe_join ::
    "'f shmem_lib \<Rightarrow> (contents \<Rightarrow> bool) \<Rightarrow> ('f \<Rightarrow> ('e, 'f) outcome) \<Rightarrow> 'f \<Rightarrow> ('e, 'f) outcome" where
  "unsafe_join lib contract join f = (if contract (file_contents lib f) then join f else UB)"

definition join_spsc_producer :: "'f shmem_lib \<Rightarrow> message \<Rightarrow> nat \<Rightarrow> ('f, ClientHandshakeError, nat) shm" where
  "join_spsc_producer lib T file =
     p_bind (shm_map_err ClientShaq (on_file (unsafe_join lib (producer_free T) (spsc_producer_join lib T)) file))
       (\<lambda>_. p_return file)"

definition join_spsc_consumer :: "'f shmem_lib \<Rightarrow> message \<Rightarrow> nat \<Rightarrow> ('f, ClientHandshakeError, nat) shm" where
  "join_spsc_consumer lib T file =
     p_bind (shm_map_err ClientShaq (on_file (unsafe_join lib (consumer_free T) (spsc_consumer_join lib T)) file))
       (\<lambda>_. p_return file)"

definition join_mpmc_producer :: "'f shmem_lib \<Rightarrow> message \<Rightarrow> nat \<Rightarrow> ('f, ClientHandshakeError, nat) shm" where
  "join_mpmc_producer lib T file =
     p_bind (shm_map_err ClientShaq (on_file (unsafe_join lib (\<lambda>c. c = MpmcFile T) (mpmc_producer_join lib T)) file))
       (\<lambda>_. p_return file)"

definition join_mpmc_consumer :: "'f shmem_lib \<Rightarrow> message \<Rightarrow> nat \<Rightarrow> ('f, ClientHandshakeError, nat) shm" where
  "join_mpmc_consumer lib T file =
     p_bind (shm_map_err ClientShaq (on_file (unsafe_join lib (\<lambda>c. c = MpmcFile T) (mpmc_consumer_join lib T)) file))
       (\<lambda>_. p_return file)"

record ClientWorkerSession =
  cw_pack_to_worker :: nat
  cw_worker_to_pack :: nat

record ClientSharedWorkerSession =
  csw_request :: nat
  csw_response :: nat

record ClientSession =
  cs_allocator :: nat
  cs_tpu_to_pack :: nat
  cs_progress_tracker :: nat
  cs_workers :: "ClientWorkerSession list"
  cs_check_workers :: "ClientSharedWorkerSession option"
  cs_simulate_workers :: "ClientSharedWorkerSession option"

text \<open>\<open>split_at\<close> panics when the index is behind the end; \<open>chunks(2)\<close> may leave one file over.\<close>

definition split_at :: "nat \<Rightarrow> 'a list \<Rightarrow> ('e, 'a list \<times> 'a list) outcome" where
  "split_at k xs = (if k \<le> length xs then Ok (take k xs, drop k xs) else Panic)"

fun join_client_workers ::
    "'f shmem_lib \<Rightarrow> nat list \<Rightarrow> ('f, ClientHandshakeError, ClientWorkerSession list) shm" where
  "join_client_workers lib [] = p_return []"
| "join_client_workers lib [file] = p_lift Panic"
| "join_client_workers lib (pack_to_worker # worker_to_pack # files) =
     p_bind (join_spsc_producer lib PackToExecutionWorkerMessage pack_to_worker) (\<lambda>producer.
     p_bind (join_spsc_consumer lib ExecutionWorkerToPackMessage worker_to_pack) (\<lambda>consumer.
     p_bind (join_client_workers lib files) (\<lambda>workers.
     p_return (\<lparr>cw_pack_to_worker = producer, cw_worker_to_pack = consumer\<rparr> # workers))))"

definition join_shared_workers ::
    "'f shmem_lib \<Rightarrow> message \<Rightarrow> message \<Rightarrow> nat list \<Rightarrow> ('f, ClientHandshakeError, ClientSharedWorkerSession option) shm" where
  "join_shared_workers lib Request Response files =
     (case files of
        [request_file, response_file] \<Rightarrow>
          p_bind (join_mpmc_producer lib Request request_file) (\<lambda>request.
          p_bind (join_mpmc_consumer lib Response response_file) (\<lambda>response.
          p_return (Some \<lparr>csw_request = request, csw_response = response\<rparr>)))
      | _ \<Rightarrow> p_return None)"

definition client_setup_session ::
    "'f shmem_lib \<Rightarrow> ClientLogon \<Rightarrow> nat list \<Rightarrow> ('f, ClientHandshakeError, ClientSession) shm" where
  "client_setup_session lib logon files =
     p_bind (p_lift (ok_or_err ProtocolViolation (expected_file_count logon))) (\<lambda>expected_file_count.
     if length files \<noteq> expected_file_count then p_lift (Err ProtocolViolation)
     else
       p_bind (p_lift (split_at GLOBAL_SHMEM files)) (\<lambda>(global_files, remaining_files).
       p_bind (p_lift (ok_or_err ProtocolViolation (usize_checked_mul (worker_count logon) WORKER_SHMEM)))
         (\<lambda>worker_file_count.
       p_bind (p_lift (split_at worker_file_count remaining_files)) (\<lambda>(worker_files, remaining_files).
       p_bind (p_lift (split_at (if check_worker_count logon > 0 then CHECK_SHMEM else 0) remaining_files))
         (\<lambda>(check_files, simulate_files).
       case global_files of
         [allocator_file, tpu_to_pack_file, progress_tracker_file] \<Rightarrow>
           p_bind (shm_map_err ClientRtsAlloc (on_file (allocator_join lib) allocator_file)) (\<lambda>_.
           p_bind (join_shared_workers lib PackToCheckWorkerMessage CheckWorkerToPackMessage check_files)
             (\<lambda>check_workers.
           p_bind (join_shared_workers lib PackToExecutionWorkerMessage ExecutionWorkerToPackMessage simulate_files)
             (\<lambda>simulate_workers.
           p_bind (join_spsc_consumer lib TpuToPackMessage tpu_to_pack_file) (\<lambda>tpu_to_pack.
           p_bind (join_spsc_consumer lib ProgressMessage progress_tracker_file) (\<lambda>progress_tracker.
           p_bind (join_client_workers lib worker_files) (\<lambda>workers.
           p_return \<lparr>cs_allocator = allocator_file, cs_tpu_to_pack = tpu_to_pack,
             cs_progress_tracker = progress_tracker, cs_workers = workers, cs_check_workers = check_workers,
             cs_simulate_workers = simulate_workers\<rparr>))))))
       | _ \<Rightarrow> p_lift Panic)))))"

section \<open>A local session\<close>

definition setup_local_session ::
    "'f shmem_lib \<Rightarrow> ClientLogon \<Rightarrow> ('f, SessionSetupError, AgaveSession \<times> ClientSession) shm" where
  "setup_local_session lib logon =
     p_bind (shm_map_err ServerError (Server_setup_session lib logon)) (\<lambda>(agave, files).
     p_bind (shm_map_err ClientError (client_setup_session lib logon files)) (\<lambda>client.
     p_return (agave, client)))"

section \<open>The contract of the libraries\<close>

text \<open>
  What the documentation of the libraries promises: a created file holds what was created with the
  creator's endpoint claimed; a join within the contract succeeds and claims the endpoint; an allocator
  gives out as many handles as it was created with, the creator's included. That a join succeeds supposes that
  the system grants the mapping; creating a file may fail.
\<close>

definition allocator_laws :: "'f shmem_lib \<Rightarrow> bool" where
  "allocator_laws lib \<longleftrightarrow>
     (\<forall>sz n slab f. allocator_create lib sz n slab = Ok f \<longrightarrow> file_contents lib f = AllocatorFile n 1)
     \<and> (\<forall>f n k. file_contents lib f = AllocatorFile n k \<and> k < n \<longrightarrow>
          (\<exists>f'. allocator_join lib f = Ok f' \<and> file_contents lib f' = AllocatorFile n (Suc k))
          \<and> (\<exists>f'. allocator_join_from_existing lib f = Ok f' \<and> file_contents lib f' = AllocatorFile n (Suc k)))"

definition spsc_laws :: "'f shmem_lib \<Rightarrow> bool" where
  "spsc_laws lib \<longleftrightarrow>
     (\<forall>m sz f. spsc_producer_create lib m sz = Ok f \<longrightarrow> file_contents lib f = SpscFile m True False)
     \<and> (\<forall>m sz f. spsc_consumer_create lib m sz = Ok f \<longrightarrow> file_contents lib f = SpscFile m False True)
     \<and> (\<forall>m f c. file_contents lib f = SpscFile m False c \<longrightarrow>
          (\<exists>f'. spsc_producer_join lib m f = Ok f' \<and> file_contents lib f' = SpscFile m True c))
     \<and> (\<forall>m f p. file_contents lib f = SpscFile m p False \<longrightarrow>
          (\<exists>f'. spsc_consumer_join lib m f = Ok f' \<and> file_contents lib f' = SpscFile m p True))"

definition mpmc_laws :: "'f shmem_lib \<Rightarrow> bool" where
  "mpmc_laws lib \<longleftrightarrow>
     (\<forall>m sz f. mpmc_producer_create lib m sz = Ok f \<longrightarrow> file_contents lib f = MpmcFile m)
     \<and> (\<forall>m sz f. mpmc_consumer_create lib m sz = Ok f \<longrightarrow> file_contents lib f = MpmcFile m)
     \<and> (\<forall>m f. file_contents lib f = MpmcFile m \<longrightarrow>
          (\<exists>f'. mpmc_producer_join lib m f = Ok f' \<and> file_contents lib f' = MpmcFile m)
          \<and> (\<exists>f'. mpmc_consumer_join lib m f = Ok f' \<and> file_contents lib f' = MpmcFile m))"

definition shmem_laws :: "'f shmem_lib \<Rightarrow> bool" where
  "shmem_laws lib \<longleftrightarrow> allocator_laws lib \<and> spsc_laws lib \<and> mpmc_laws lib"

lemmas shmem_laws_defs = shmem_laws_def allocator_laws_def spsc_laws_def mpmc_laws_def

text \<open>No library function panics.\<close>

definition shmem_total :: "'f shmem_lib \<Rightarrow> bool" where
  "shmem_total lib \<longleftrightarrow> sizes_total lib \<and> (\<forall>sz n slab. no_fault (allocator_create lib sz n slab))
     \<and> (\<forall>f. no_fault (allocator_join_from_existing lib f))
     \<and> (\<forall>m sz. no_fault (spsc_producer_create lib m sz) \<and> no_fault (spsc_consumer_create lib m sz)
          \<and> no_fault (mpmc_producer_create lib m sz) \<and> no_fault (mpmc_consumer_create lib m sz))"

section \<open>What the server leaves in the files\<close>

definition file_is :: "'f shmem_lib \<Rightarrow> 'f shm_world \<Rightarrow> nat \<Rightarrow> contents \<Rightarrow> bool" where
  "file_is lib w i c \<longleftrightarrow> (\<exists>f. sm_files w i = Some (Some f) \<and> file_contents lib f = c)"

definition stored :: "'f shmem_lib \<Rightarrow> 'f shm_world \<Rightarrow> nat list \<Rightarrow> contents list \<Rightarrow> bool" where
  "stored lib w fs cs \<longleftrightarrow> distinct fs \<and> (\<forall>i \<in> set fs. i < sm_next w) \<and> list_all2 (file_is lib w) fs cs"

lemma stored_cong:
  assumes "stored lib w fs cs" "sm_next w \<le> sm_next w'" "\<And>i. i \<in> set fs \<Longrightarrow> sm_files w' i = sm_files w i"
  shows "stored lib w' fs cs"
proof -
  have "list_all2 (file_is lib w') fs cs"
    using assms(1,3) unfolding stored_def by (auto simp: file_is_def elim!: list.rel_mono_strong)
  then show ?thesis using assms by (auto simp: stored_def)
qed

text \<open>A call that creates a file with given contents and otherwise leaves what is stored alone.\<close>

definition keeps :: "'f shmem_lib \<Rightarrow> ('f, 'e, 'a) shm \<Rightarrow> bool" where
  "keeps lib m \<longleftrightarrow> (\<forall>w r w' fs cs. m w = (r, w') \<longrightarrow> stored lib w fs cs \<longrightarrow> stored lib w' fs cs)"

definition creates :: "'f shmem_lib \<Rightarrow> contents \<Rightarrow> ('f, 'e, nat) shm \<Rightarrow> bool" where
  "creates lib c m \<longleftrightarrow> keeps lib m
     \<and> (\<forall>w i w' fs cs. m w = (Ok i, w') \<longrightarrow> stored lib w fs cs \<longrightarrow> stored lib w' (fs @ [i]) (cs @ [c]))"

lemma creates_or_else: "creates lib c m \<Longrightarrow> creates lib c m' \<Longrightarrow> creates lib c (or_else m m')"
  unfolding creates_def keeps_def or_else_def by (auto split: prod.splits outcome.splits)

lemma creates_map_err: "creates lib c m \<Longrightarrow> creates lib c (shm_map_err f m)"
proof -
  have "shm_map_err f m w = (Ok i, w') \<longleftrightarrow> m w = (Ok i, w')" for w i w'
    by (cases "fst (m w)") (auto simp: shm_map_err_def split: prod.splits)
  moreover have "\<exists>r'. m w = (r', w')" if "shm_map_err f m w = (r, w')" for w r w'
    using that by (auto simp: shm_map_err_def split: prod.splits)
  ultimately show "creates lib c m \<Longrightarrow> creates lib c (shm_map_err f m)"
    unfolding creates_def keeps_def by metis
qed

lemma create_shmem_Ok:
  assumes "create_shmem p w = (Ok i, w')"
  shows "i = sm_next w" "sm_next w' = Suc i" "sm_files w' = (sm_files w)(i \<mapsto> None)"
  using assms by (auto simp: create_shmem_def Let_def split: list.splits option.splits)

lemma create_shmem_world:
  assumes "create_shmem p w = (r, w')" "i < sm_next w"
  shows "sm_files w' i = sm_files w i" "sm_next w \<le> sm_next w'"
  using assms by (auto simp: create_shmem_def Let_def split: list.splits option.splits)

text \<open>The shape of both closures: make a file, compute something, initialise the file.\<close>

lemma creates_file:
  assumes "\<And>f. r = Ok f \<Longrightarrow> file_contents lib f = c"
  shows "creates lib c (p_bind (shm_map_err e (create_shmem p)) (\<lambda>i. p_bind (p_lift r) (\<lambda>f.
    p_bind (initialise i f) (\<lambda>_. p_return i))))" (is "creates lib c ?m")
proof -
  have run: "\<exists>x w1. create_shmem p w = (x, w1) \<and> (w' = w1 \<and> \<not> is_ok s
        \<or> (\<exists>i f. x = Ok i \<and> r = Ok f \<and> s = Ok i \<and> w' = w1\<lparr>sm_files := (sm_files w1)(i \<mapsto> Some f)\<rparr>))"
    if "?m w = (s, w')" for w s w'
  proof -
    obtain x w1 where x: "create_shmem p w = (x, w1)" by fastforce
    show ?thesis
      using that x by (cases x; cases r)
        (auto simp: p_bind_def shm_map_err_def initialise_def comp_unfold)
  qed
  have "keeps lib ?m"
    unfolding keeps_def
  proof (intro allI impI)
    fix w s w' fs cs
    assume m: "?m w = (s, w')" and st: "stored lib w fs cs"
    obtain x w1 where x: "create_shmem p w = (x, w1)" and w': "w' = w1
        \<or> (\<exists>i f. x = Ok i \<and> w' = w1\<lparr>sm_files := (sm_files w1)(i \<mapsto> Some f)\<rparr>)"
      using run [OF m] by blast
    show "stored lib w' fs cs"
    proof (rule stored_cong [OF st])
      show "sm_next w \<le> sm_next w'"
        using w' x by (auto simp: create_shmem_def Let_def split: list.splits option.splits)
      fix i
      assume "i \<in> set fs"
      then have "i < sm_next w" using st by (simp add: stored_def)
      then show "sm_files w' i = sm_files w i"
        using w' x create_shmem_world(1) [OF x] create_shmem_Ok(1) [of p w] by auto
    qed
  qed
  moreover have "stored lib w' (fs @ [i]) (cs @ [c])" if m: "?m w = (Ok i, w')" and st: "stored lib w fs cs"
    for w i w' fs cs
  proof -
    obtain w1 f where x: "create_shmem p w = (Ok i, w1)" and f: "r = Ok f"
      and w': "w' = w1\<lparr>sm_files := (sm_files w1)(i \<mapsto> Some f)\<rparr>"
      using run [OF m] by auto
    have "file_is lib w' i c" using assms [OF f] w' by (simp add: file_is_def)
    moreover have "i \<notin> set fs" "i < sm_next w'"
      using create_shmem_Ok [OF x] st w' by (auto simp: stored_def)
    moreover have "stored lib w' fs cs" using \<open>keeps lib ?m\<close> m st unfolding keeps_def by blast
    ultimately show ?thesis by (auto simp: stored_def list_all2_appendI)
  qed
  ultimately show ?thesis by (simp add: creates_def)
qed

lemma p_lift_r_bind: "p_bind (p_lift a) (\<lambda>x. p_bind (p_lift (b x)) g) = p_bind (p_lift (r_bind a b)) g"
  by (rule ext) (cases a; simp add: p_bind_def p_lift_def)

lemma creates_queue_file:
  assumes "\<And>sz f. create sz = Ok f \<Longrightarrow> file_contents lib f = c"
  shows "creates lib c (create_queue_file minimum create p)"
  unfolding create_queue_file_def p_lift_r_bind
  by (rule creates_file) (auto simp: r_bind_Ok_iff assms)

lemma creates_calls:
  assumes "shmem_laws lib"
  shows "creates lib (SpscFile T True False) (create_producer lib T n p)"
    "creates lib (SpscFile PackToExecutionWorkerMessage False True) (create_consumer lib n)"
    "creates lib (MpmcFile T) (create_mpmc_producer lib T n p)"
    "creates lib (MpmcFile T) (create_mpmc_consumer lib T n)"
proof -
  have c: "creates lib (SpscFile T True False) (create_queue_file s (spsc_producer_create lib T) q)"
    "creates lib (SpscFile PackToExecutionWorkerMessage False True)
       (create_queue_file s (spsc_consumer_create lib PackToExecutionWorkerMessage) q)"
    "creates lib (MpmcFile T) (create_queue_file s (mpmc_producer_create lib T) q)"
    "creates lib (MpmcFile T) (create_queue_file s (mpmc_consumer_create lib T) q)" for s q
    by (rule creates_queue_file, use assms in \<open>simp add: shmem_laws_defs\<close>)+
  show "creates lib (SpscFile T True False) (create_producer lib T n p)"
    "creates lib (SpscFile PackToExecutionWorkerMessage False True) (create_consumer lib n)"
    "creates lib (MpmcFile T) (create_mpmc_producer lib T n p)"
    "creates lib (MpmcFile T) (create_mpmc_consumer lib T n)"
    unfolding create_producer_def create_consumer_def create_mpmc_producer_def create_mpmc_consumer_def Let_def
    by (auto split: PageSize.splits intro!: creates_or_else c)
qed

lemma creates_allocator:
  assumes "shmem_laws lib" "allocator_count logon = Some n"
  shows "creates lib (AllocatorFile n 1) (create_allocator lib logon)"
proof -
  have "creates lib (AllocatorFile n 1) (create_allocator_file lib logon n p)" for p
    unfolding create_allocator_file_def p_lift_r_bind
    by (rule creates_file) (use assms(1) in \<open>auto simp: r_bind_Ok_iff shmem_laws_defs\<close>)
  then show ?thesis using assms(2) by (simp add: create_allocator_def creates_or_else)
qed

lemma createsD:
  "creates lib c m \<Longrightarrow> m w = (Ok i, w') \<Longrightarrow> stored lib w fs cs \<Longrightarrow> stored lib w' (fs @ [i]) (cs @ [c])"
  unfolding creates_def by blast

text \<open>Changing one stored file.\<close>

lemma stored_update:
  assumes st: "stored lib w (xs @ i # ys) (cs @ c # ds)" and len: "length cs = length xs"
    and f: "file_contents lib f' = c'"
  shows "stored lib (w\<lparr>sm_files := (sm_files w)(i \<mapsto> Some f')\<rparr>) (xs @ i # ys) (cs @ c' # ds)"
proof -
  let ?w = "w\<lparr>sm_files := (sm_files w)(i \<mapsto> Some f')\<rparr>"
  have d: "i \<notin> set xs" "i \<notin> set ys" using st by (auto simp: stored_def)
  have parts: "list_all2 (file_is lib w) xs cs" "list_all2 (file_is lib w) ys ds"
    using st len by (auto simp: stored_def list_all2_append)
  have "list_all2 (file_is lib ?w) xs cs" "list_all2 (file_is lib ?w) ys ds"
    using parts d by (auto simp: file_is_def elim!: list.rel_mono_strong)
  moreover have "file_is lib ?w i c'" using f by (simp add: file_is_def)
  ultimately show ?thesis using st len by (simp add: stored_def list_all2_append)
qed

text \<open>A join within the contract: the file changes from one contents to another.\<close>

lemma on_file_stored:
  assumes st: "stored lib w (xs @ i # ys) (cs @ c # ds)" and len: "length cs = length xs"
    and join: "\<And>f. file_contents lib f = c \<Longrightarrow> \<exists>f'. join f = Ok f' \<and> file_contents lib f' = c'"
  shows "\<exists>w'. on_file join i w = (Ok (), w') \<and> stored lib w' (xs @ i # ys) (cs @ c' # ds)"
proof -
  have "file_is lib w i c" using st len by (simp add: stored_def list_all2_append)
  then obtain f where f: "sm_files w i = Some (Some f)" "file_contents lib f = c" by (auto simp: file_is_def)
  obtain f' where f': "join f = Ok f'" "file_contents lib f' = c'" using join [OF f(2)] by blast
  have "on_file join i w = (Ok (), w\<lparr>sm_files := (sm_files w)(i \<mapsto> Some f')\<rparr>)"
    using f f' by (simp add: on_file_def p_bind_def initialise_def comp_unfold)
  then show ?thesis using stored_update [OF st len f'(2)] by blast
qed

lemma shm_map_err_Ok: "m w = (Ok x, w') \<Longrightarrow> shm_map_err e m w = (Ok x, w')"
  by (simp add: shm_map_err_def)

lemma shm_map_err_Ok_iff: "shm_map_err e m w = (Ok x, w') \<longleftrightarrow> m w = (Ok x, w')"
  by (cases "fst (m w)") (auto simp: shm_map_err_def split: prod.splits)

lemma join_from_existing_stored:
  assumes "shmem_laws lib" "stored lib w (a # fs) (AllocatorFile n k # cs)" "k < n"
  shows "\<exists>w'. join_from_existing lib a w = (Ok (), w') \<and> stored lib w' (a # fs) (AllocatorFile n (Suc k) # cs)"
  using on_file_stored [of lib w "[]" a fs "[]" "AllocatorFile n k" cs "allocator_join_from_existing lib"
      "AllocatorFile n (Suc k)"] assms by (simp add: shmem_laws_defs join_from_existing_def)

abbreviation worker_contents :: "contents list" where
  "worker_contents \<equiv> [SpscFile PackToExecutionWorkerMessage False True, SpscFile ExecutionWorkerToPackMessage True False]"

lemma create_workers_stored:
  assumes laws: "shmem_laws lib" and "create_workers lib logon a m w = (Ok (wfs, ws), w')"
    and "stored lib w (a # fs) (AllocatorFile n k # cs)" "k + m \<le> n"
  shows "stored lib w' (a # fs @ wfs) (AllocatorFile n (k + m) # cs @ concat (replicate m worker_contents))
    \<and> length ws = m \<and> wfs = concat (map (\<lambda>s. [aw_pack_to_worker s, aw_worker_to_pack s]) ws)
    \<and> (\<forall>s \<in> set ws. aw_allocator s = a)"
  using assms(2-4)
proof (induction m arbitrary: w fs cs k wfs ws)
  case 0
  then show ?case by simp
next
  case (Suc m)
  from Suc.prems(1) obtain w1 p w2 c w3 fds ws' where
    1: "join_from_existing lib a w = (Ok (), w1)" and 2: "create_consumer lib (pack_to_worker_capacity logon) w1 = (Ok p, w2)"
    and 3: "create_producer lib ExecutionWorkerToPackMessage (worker_to_pack_capacity logon) Huge w2 = (Ok c, w3)"
    and 4: "create_workers lib logon a m w3 = (Ok (fds, ws'), w')"
    and r: "wfs = [p, c] @ fds" "ws = \<lparr>aw_allocator = a, aw_pack_to_worker = p, aw_worker_to_pack = c\<rparr> # ws'"
    by (auto simp: p_bind_Ok_iff shm_map_err_Ok_iff)
  have "k < n" using Suc.prems(3) by simp
  from join_from_existing_stored [OF laws Suc.prems(2) this] 1
  have s1: "stored lib w1 (a # fs) (AllocatorFile n (Suc k) # cs)" by simp
  note s2 = createsD [OF creates_calls(2) [OF laws] 2 s1]
  note s3 = createsD [OF creates_calls(1) [OF laws] 3 s2]
  have "stored lib w3 (a # (fs @ [p, c])) (AllocatorFile n (Suc k) # (cs @ worker_contents))" using s3 by simp
  from Suc.IH [OF 4 this] Suc.prems(3) r show ?case by auto
qed

lemma join_workers_stored:
  assumes laws: "shmem_laws lib" and "join_workers lib a req resp m w = (Ok ws, w')"
    and "stored lib w (a # fs) (AllocatorFile n k # cs)" "k + m \<le> n"
  shows "stored lib w' (a # fs) (AllocatorFile n (k + m) # cs)
    \<and> ws = replicate m \<lparr>asw_allocator = a, asw_request = req, asw_response = resp\<rparr>"
  using assms(2-4)
proof (induction m arbitrary: w k ws)
  case 0
  then show ?case by simp
next
  case (Suc m)
  from Suc.prems(1) obtain w1 ws' where 1: "join_from_existing lib a w = (Ok (), w1)"
    and 2: "join_workers lib a req resp m w1 = (Ok ws', w')"
    and r: "ws = \<lparr>asw_allocator = a, asw_request = req, asw_response = resp\<rparr> # ws'"
    by (auto simp: p_bind_Ok_iff shm_map_err_Ok_iff)
  have "k < n" using Suc.prems(3) by simp
  from join_from_existing_stored [OF laws Suc.prems(2) this] 1
  have "stored lib w1 (a # fs) (AllocatorFile n (Suc k) # cs)" by simp
  from Suc.IH [OF 2 this] Suc.prems(3) r show ?case by simp
qed

text \<open>The pair of shared queues of the check or simulate workers, when there are any.\<close>

definition shared_contents :: "message \<Rightarrow> message \<Rightarrow> nat \<Rightarrow> contents list" where
  "shared_contents Request Response n = (if n = 0 then [] else [MpmcFile Request, MpmcFile Response])"

definition shared_files :: "AgaveSharedWorkerSession list \<Rightarrow> nat list" where
  "shared_files ws = (case ws of [] \<Rightarrow> [] | s # _ \<Rightarrow> [asw_request s, asw_response s])"

definition shared_by_all :: "nat \<Rightarrow> AgaveSharedWorkerSession list \<Rightarrow> bool" where
  "shared_by_all a ws \<longleftrightarrow>
     (\<exists>q r. ws = replicate (length ws) \<lparr>asw_allocator = a, asw_request = q, asw_response = r\<rparr>)"

lemma create_shared_workers_stored:
  assumes laws: "shmem_laws lib" and run: "create_shared_workers lib Q qn R rn a m w = (Ok (sfs, ws), w')"
    and st: "stored lib w (a # fs) (AllocatorFile n k # cs)" and "k + m \<le> n"
  shows "stored lib w' (a # fs @ sfs) (AllocatorFile n (k + m) # cs @ shared_contents Q R m)
    \<and> length ws = m \<and> sfs = shared_files ws \<and> shared_by_all a ws"
proof (cases m)
  case 0
  then show ?thesis
    using run st by (simp add: create_shared_workers_def shared_contents_def shared_files_def shared_by_all_def)
next
  case (Suc m')
  from run Suc obtain q w1 r w2 where 1: "create_mpmc_consumer lib Q qn w = (Ok q, w1)"
    and 2: "create_mpmc_producer lib R rn Huge w1 = (Ok r, w2)" and 3: "join_workers lib a q r m w2 = (Ok ws, w')"
    and sfs: "sfs = [q, r]"
    by (auto simp: create_shared_workers_def p_bind_Ok_iff shm_map_err_Ok_iff simp del: join_workers.simps)
  note s1 = createsD [OF creates_calls(4) [OF laws] 1 st]
  note s2 = createsD [OF creates_calls(3) [OF laws] 2 s1]
  have "stored lib w2 (a # (fs @ [q, r])) (AllocatorFile n k # (cs @ [MpmcFile Q, MpmcFile R]))" using s2 by simp
  from join_workers_stored [OF laws 3 this assms(4)]
  have "stored lib w' (a # fs @ sfs) (AllocatorFile n (k + m) # cs @ shared_contents Q R m)"
    and ws: "ws = replicate m \<lparr>asw_allocator = a, asw_request = q, asw_response = r\<rparr>"
    using Suc sfs by (auto simp: shared_contents_def)
  then show ?thesis using Suc sfs by (auto simp: shared_files_def shared_by_all_def)
qed

text \<open>The files of a session and what they hold once the server has set it up.\<close>

definition worker_files :: "AgaveWorkerSession list \<Rightarrow> nat list" where
  "worker_files ws = concat (map (\<lambda>s. [aw_pack_to_worker s, aw_worker_to_pack s]) ws)"

definition session_files :: "AgaveSession \<Rightarrow> nat list" where
  "session_files s = [ag_allocator s, ag_tpu_to_pack s, ag_progress_tracker s] @ worker_files (ag_workers s)
     @ shared_files (ag_check_workers s) @ shared_files (ag_simulate_workers s)"

definition session_contents :: "ClientLogon \<Rightarrow> nat \<Rightarrow> contents \<Rightarrow> contents \<Rightarrow> contents list \<Rightarrow> contents list" where
  "session_contents l given tpu progress worker =
     [AllocatorFile (worker_count l + check_worker_count l + simulate_worker_count l + allocator_handles l + 1)
        (worker_count l + check_worker_count l + simulate_worker_count l + given), tpu, progress]
     @ concat (replicate (worker_count l) worker)
     @ shared_contents PackToCheckWorkerMessage CheckWorkerToPackMessage (check_worker_count l)
     @ shared_contents PackToExecutionWorkerMessage ExecutionWorkerToPackMessage (simulate_worker_count l)"

definition session_shape :: "ClientLogon \<Rightarrow> AgaveSession \<Rightarrow> bool" where
  "session_shape l s \<longleftrightarrow>
     length (ag_workers s) = worker_count l \<and> (\<forall>v \<in> set (ag_workers s). aw_allocator v = ag_allocator s)
     \<and> length (ag_check_workers s) = check_worker_count l \<and> shared_by_all (ag_allocator s) (ag_check_workers s)
     \<and> length (ag_simulate_workers s) = simulate_worker_count l
     \<and> shared_by_all (ag_allocator s) (ag_simulate_workers s)"

lemma global_files_stored:
  assumes laws: "shmem_laws lib" and v: "logon_valid lib l"
    and 1: "create_allocator lib l w = (Ok a, w1)"
    and 2: "create_producer lib TpuToPackMessage (tpu_to_pack_capacity l) Huge w1 = (Ok t, w2)"
    and 3: "create_producer lib ProgressMessage (progress_tracker_capacity l) Standard w2 = (Ok p, w3)"
  shows "stored lib w3 (a # [t, p])
    (AllocatorFile (worker_count l + check_worker_count l + simulate_worker_count l + allocator_handles l + 1) 1 #
     [SpscFile TpuToPackMessage True False, SpscFile ProgressMessage True False])"
proof -
  have count: "allocator_count l =
      Some (worker_count l + check_worker_count l + simulate_worker_count l + allocator_handles l + 1)"
    using v by (simp add: logon_valid_def allocator_count_eq)
  have "stored lib w [] []" by (simp add: stored_def)
  note s1 = createsD [OF creates_allocator [OF laws count] 1 this]
  note s2 = createsD [OF creates_calls(1) [OF laws] 2 s1]
  show ?thesis using createsD [OF creates_calls(1) [OF laws] 3 s2] by simp
qed

lemma Server_setup_session_stored:
  assumes laws: "shmem_laws lib" and run: "Server_setup_session lib l w = (Ok (s, files), w')"
  shows "logon_valid lib l \<and> files = session_files s \<and> session_shape l s
    \<and> stored lib w' files (session_contents l 1 (SpscFile TpuToPackMessage True False)
         (SpscFile ProgressMessage True False) worker_contents)"
proof -
  let ?n = "worker_count l + check_worker_count l + simulate_worker_count l + allocator_handles l + 1"
  from run obtain w0 a w1 t w2 p w3 wfs ws w4 cfs cws w5 sfs sws where 0: "validate lib l = Ok ()" "w0 = w"
    and 1: "create_allocator lib l w0 = (Ok a, w1)"
    and 2: "create_producer lib TpuToPackMessage (tpu_to_pack_capacity l) Huge w1 = (Ok t, w2)"
    and 3: "create_producer lib ProgressMessage (progress_tracker_capacity l) Standard w2 = (Ok p, w3)"
    and 4: "create_workers lib l a (worker_count l) w3 = (Ok (wfs, ws), w4)"
    and 5: "create_shared_workers lib PackToCheckWorkerMessage (pack_to_check_worker_capacity l)
      CheckWorkerToPackMessage (check_worker_to_pack_capacity l) a (check_worker_count l) w4 = (Ok (cfs, cws), w5)"
    and 6: "create_shared_workers lib PackToExecutionWorkerMessage (pack_to_simulate_worker_capacity l)
      ExecutionWorkerToPackMessage (simulate_worker_to_pack_capacity l) a (simulate_worker_count l) w5
        = (Ok (sfs, sws), w')"
    and r: "s = \<lparr>ag_allocator = a, ag_tpu_to_pack = t, ag_progress_tracker = p, ag_workers = ws,
      ag_check_workers = cws, ag_simulate_workers = sws\<rparr>" "files = [a, t, p] @ wfs @ cfs @ sfs"
    by (auto simp: Server_setup_session_def p_bind_Ok_iff shm_map_err_Ok_iff p_lift_def)
  have v: "logon_valid lib l" using 0 validate_Ok_iff by blast
  note s3 = global_files_stored [OF laws v 1 2 3]
  from create_workers_stored [OF laws 4 s3]
  have s4: "stored lib w4 (a # ([t, p] @ wfs)) (AllocatorFile ?n (1 + worker_count l) #
      ([SpscFile TpuToPackMessage True False, SpscFile ProgressMessage True False]
       @ concat (replicate (worker_count l) worker_contents)))"
    and w: "length ws = worker_count l" "wfs = worker_files ws" "\<forall>v \<in> set ws. aw_allocator v = a"
    by (auto simp: worker_files_def)
  note s5 = create_shared_workers_stored [OF laws 5 s4]
  have s5': "stored lib w5 (a # ([t, p] @ wfs) @ cfs) (AllocatorFile ?n (1 + worker_count l + check_worker_count l) #
      ([SpscFile TpuToPackMessage True False, SpscFile ProgressMessage True False]
       @ concat (replicate (worker_count l) worker_contents))
      @ shared_contents PackToCheckWorkerMessage CheckWorkerToPackMessage (check_worker_count l))"
    and c: "length cws = check_worker_count l" "cfs = shared_files cws" "shared_by_all a cws"
    using s5 by auto
  note s6 = create_shared_workers_stored [OF laws 6 s5']
  have "stored lib w' files (session_contents l 1 (SpscFile TpuToPackMessage True False)
      (SpscFile ProgressMessage True False) worker_contents)"
    and "length sws = simulate_worker_count l" "sfs = shared_files sws" "shared_by_all a sws"
    using s6 by (auto simp: session_contents_def r(2) ac_simps)
  then show ?thesis using v w c r by (simp add: session_files_def session_shape_def)
qed

section \<open>Setting up never faults\<close>

lemma no_fault_p_bind:
  "no_fault (fst (m w)) \<Longrightarrow> (\<And>x w1. m w = (Ok x, w1) \<Longrightarrow> no_fault (fst (f x w1))) \<Longrightarrow> no_fault (fst (p_bind m f w))"
  by (cases "m w"; cases "fst (m w)") (auto simp: p_bind_def)

lemma no_fault_map_err: "no_fault (fst (m w)) \<Longrightarrow> no_fault (fst (shm_map_err e m w))"
  by (cases "m w"; cases "fst (m w)") (auto simp: shm_map_err_def)

lemma no_fault_or_else: "(\<And>w. no_fault (fst (m w))) \<Longrightarrow> (\<And>w. no_fault (fst (m' w))) \<Longrightarrow> no_fault (fst (or_else m m' w))"
  by (auto simp: or_else_def split: prod.splits outcome.splits) (metis fst_conv no_fault.simps)+

lemma no_fault_shm [simp]:
  "no_fault (fst (p_lift r w)) = no_fault r" "no_fault (fst (p_return x w))" "no_fault (fst (initialise i f w))"
  by (simp_all add: comp_unfold initialise_def)

lemma no_fault_steps [simp]:
  "no_fault (fst (create_shmem p w))" "no_fault (align_file_size n p)" "no_fault (ok_or_err e x)"
  "no_fault (result_map_err g r) = no_fault r"
  by (simp_all add: create_shmem_def align_file_size_def ok_or_err_def Let_def split: list.split option.split)
    (cases r; simp)

lemma no_fault_queue_file:
  assumes "no_fault minimum" "\<And>sz. no_fault (create sz)"
  shows "no_fault (fst (create_queue_file minimum create p w))"
  unfolding create_queue_file_def by (intro no_fault_p_bind no_fault_map_err) (simp_all add: assms)

lemma no_fault_creates:
  assumes "shmem_total lib"
  shows "no_fault (fst (create_producer lib T n p w))" "no_fault (fst (create_consumer lib n w))"
    "no_fault (fst (create_mpmc_producer lib T n p w))" "no_fault (fst (create_mpmc_consumer lib T n w))"
proof -
  have "no_fault (fst (create_queue_file (spsc_minimum_file_size lib T n) (spsc_producer_create lib T) q w))"
    "no_fault (fst (create_queue_file (spsc_minimum_file_size lib T n) (spsc_consumer_create lib T) q w))"
    "no_fault (fst (create_queue_file (mpmc_minimum_file_size lib T n) (mpmc_producer_create lib T) q w))"
    "no_fault (fst (create_queue_file (mpmc_minimum_file_size lib T n) (mpmc_consumer_create lib T) q w))" for T q w
    by (rule no_fault_queue_file, use assms in \<open>simp_all add: shmem_total_def sizes_total_def\<close>)+
  then show "no_fault (fst (create_producer lib T n p w))" "no_fault (fst (create_consumer lib n w))"
    "no_fault (fst (create_mpmc_producer lib T n p w))" "no_fault (fst (create_mpmc_consumer lib T n w))"
    unfolding create_producer_def create_consumer_def create_mpmc_producer_def create_mpmc_consumer_def Let_def
    by (auto split: PageSize.splits intro!: no_fault_or_else)
qed

lemma no_fault_create_allocator:
  assumes "shmem_total lib" "logon_valid lib l"
  shows "no_fault (fst (create_allocator lib l w))"
proof -
  obtain n where n: "allocator_count l = Some n"
    using assms(2) by (simp add: logon_valid_def allocator_count_eq)
  have "no_fault (fst (create_allocator_file lib l n p w))" for p w
    unfolding create_allocator_file_def
    by (intro no_fault_p_bind no_fault_map_err) (use assms(1) in \<open>simp_all add: shmem_total_def\<close>)
  then show ?thesis using n by (simp add: create_allocator_def no_fault_or_else)
qed

lemma no_fault_create_workers:
  assumes laws: "shmem_laws lib" "shmem_total lib"
    and "stored lib w (a # fs) (AllocatorFile n k # cs)" "k + m \<le> n"
  shows "no_fault (fst (create_workers lib l a m w))"
  using assms(3,4)
proof (induction m arbitrary: w fs cs k)
  case (Suc m)
  then obtain w1 where 1: "join_from_existing lib a w = (Ok (), w1)"
    and s1: "stored lib w1 (a # fs) (AllocatorFile n (Suc k) # cs)"
    using join_from_existing_stored [OF laws(1) Suc.prems(1)] by auto
  have rest: "no_fault (fst (create_workers lib l a m w3))"
    if 2: "create_consumer lib (pack_to_worker_capacity l) w1 = (Ok p, w2)"
      and 3: "create_producer lib ExecutionWorkerToPackMessage (worker_to_pack_capacity l) Huge w2 = (Ok c, w3)"
    for p w2 c w3
  proof -
    note s2 = createsD [OF creates_calls(2) [OF laws(1)] 2 s1]
    note s3 = createsD [OF creates_calls(1) [OF laws(1)] 3 s2]
    show ?thesis using Suc.IH [of w3 "fs @ [p, c]" "Suc k" "cs @ worker_contents"] s3 Suc.prems(2) by simp
  qed
  show ?case
    unfolding create_workers.simps
    by (intro no_fault_p_bind no_fault_map_err)
      (auto simp: 1 shm_map_err_Ok_iff no_fault_creates [OF laws(2)] dest: rest)
qed simp

lemma no_fault_join_workers:
  assumes laws: "shmem_laws lib" and "stored lib w (a # fs) (AllocatorFile n k # cs)" "k + m \<le> n"
  shows "no_fault (fst (join_workers lib a q r m w))"
  using assms(2,3)
proof (induction m arbitrary: w k)
  case (Suc m)
  then obtain w1 where 1: "join_from_existing lib a w = (Ok (), w1)"
    and s1: "stored lib w1 (a # fs) (AllocatorFile n (Suc k) # cs)"
    using join_from_existing_stored [OF laws Suc.prems(1)] by auto
  have rest: "no_fault (fst (join_workers lib a q r m w1))" using Suc.IH [OF s1] Suc.prems(2) by simp
  show ?case
    unfolding join_workers.simps
    by (intro no_fault_p_bind no_fault_map_err) (auto simp: 1 shm_map_err_Ok_iff rest)
qed simp

lemma no_fault_create_shared_workers:
  assumes laws: "shmem_laws lib" "shmem_total lib"
    and st: "stored lib w (a # fs) (AllocatorFile n k # cs)" and "k + m \<le> n"
  shows "no_fault (fst (create_shared_workers lib Q qn R rn a m w))"
proof -
  have rest: "no_fault (fst (join_workers lib a q r m w2))"
    if 1: "create_mpmc_consumer lib Q qn w = (Ok q, w1)" and 2: "create_mpmc_producer lib R rn Huge w1 = (Ok r, w2)"
    for q w1 r w2
  proof -
    note s1 = createsD [OF creates_calls(4) [OF laws(1)] 1 st]
    note s2 = createsD [OF creates_calls(3) [OF laws(1)] 2 s1]
    show ?thesis
      using no_fault_join_workers [of lib w2 a "fs @ [q, r]" n k "cs @ [MpmcFile Q, MpmcFile R]"] s2 laws(1) assms(4)
      by simp
  qed
  show ?thesis
    unfolding create_shared_workers_def
    by (cases "m = 0") (auto intro!: no_fault_p_bind no_fault_map_err simp: shm_map_err_Ok_iff
        no_fault_creates [OF laws(2)] dest: rest)
qed

lemma Server_setup_session_no_fault:
  assumes laws: "shmem_laws lib" "shmem_total lib"
  shows "no_fault (fst (Server_setup_session lib l w))"
proof (cases "logon_valid lib l")
  case False
  have "sizes_total lib" using laws(2) by (simp add: shmem_total_def)
  from validate_blames [OF this False] obtain e where "validate lib l = Err e" by blast
  then show ?thesis by (simp add: Server_setup_session_def p_bind_def p_lift_def)
next
  case v: True
  let ?n = "worker_count l + check_worker_count l + simulate_worker_count l + allocator_handles l + 1"
  let ?q = "[SpscFile TpuToPackMessage True False, SpscFile ProgressMessage True False]"
  note s3 = global_files_stored [OF laws(1) v]
  have s4: "stored lib w4 (a # [t, p] @ wfs) (AllocatorFile ?n (1 + worker_count l) #
      ?q @ concat (replicate (worker_count l) worker_contents))"
    if "stored lib w3 (a # [t, p]) (AllocatorFile ?n 1 # ?q)"
      "create_workers lib l a (worker_count l) w3 = (Ok (wfs, ws), w4)" for a t p w3 wfs ws w4
    using create_workers_stored [OF laws(1) that(2) that(1)] by auto
  show ?thesis
    unfolding Server_setup_session_def
    apply (intro no_fault_p_bind no_fault_map_err)
    subgoal using v validate_Ok_iff [of lib l] by simp
    subgoal using no_fault_create_allocator [OF laws(2) v] by simp
    subgoal by (rule no_fault_creates [OF laws(2)])
    subgoal by (rule no_fault_creates [OF laws(2)])
    subgoal by (rule no_fault_create_workers [OF laws], rule s3) (simp_all add: shm_map_err_Ok_iff)
    subgoal for _ _ a w1 t w2 p w3 fw w4
      apply (cases fw, simp, intro no_fault_p_bind conjI)
      subgoal for wfs ws
        by (rule no_fault_create_shared_workers [OF laws s4 [OF s3]]) (simp_all add: shm_map_err_Ok_iff)
      subgoal for wfs ws fc w5
        apply (cases fc, simp, intro no_fault_p_bind)
        subgoal for cfs cws
          by (rule no_fault_create_shared_workers [OF laws conjunct1 [OF create_shared_workers_stored
                  [OF laws(1) _ s4 [OF s3]]]]) (simp_all add: shm_map_err_Ok_iff, auto)
        subgoal by (simp split: prod.split)
        done
      done
    done
qed

section \<open>The client joins what the server created\<close>

lemma join_laws:
  assumes "shmem_laws lib"
  shows "file_contents lib f = SpscFile m False c \<Longrightarrow>
      \<exists>f'. spsc_producer_join lib m f = Ok f' \<and> file_contents lib f' = SpscFile m True c"
    and "file_contents lib f = SpscFile m p False \<Longrightarrow>
      \<exists>f'. spsc_consumer_join lib m f = Ok f' \<and> file_contents lib f' = SpscFile m p True"
    and "file_contents lib f = MpmcFile m \<Longrightarrow>
      \<exists>f'. mpmc_producer_join lib m f = Ok f' \<and> file_contents lib f' = MpmcFile m"
    and "file_contents lib f = MpmcFile m \<Longrightarrow>
      \<exists>f'. mpmc_consumer_join lib m f = Ok f' \<and> file_contents lib f' = MpmcFile m"
    and "file_contents lib f = AllocatorFile n k \<Longrightarrow> k < n \<Longrightarrow>
      \<exists>f'. allocator_join lib f = Ok f' \<and> file_contents lib f' = AllocatorFile n (Suc k)"
proof -
  have "allocator_laws lib" "spsc_laws lib" "mpmc_laws lib" using assms by (simp_all add: shmem_laws_def)
  note laws = this(1) [unfolded allocator_laws_def] this(2) [unfolded spsc_laws_def] this(3) [unfolded mpmc_laws_def]
  show "file_contents lib f = SpscFile m False c \<Longrightarrow>
      \<exists>f'. spsc_producer_join lib m f = Ok f' \<and> file_contents lib f' = SpscFile m True c"
    "file_contents lib f = SpscFile m p False \<Longrightarrow>
      \<exists>f'. spsc_consumer_join lib m f = Ok f' \<and> file_contents lib f' = SpscFile m p True"
    using laws(2) by blast+
  show "file_contents lib f = MpmcFile m \<Longrightarrow>
      \<exists>f'. mpmc_producer_join lib m f = Ok f' \<and> file_contents lib f' = MpmcFile m"
    "file_contents lib f = MpmcFile m \<Longrightarrow>
      \<exists>f'. mpmc_consumer_join lib m f = Ok f' \<and> file_contents lib f' = MpmcFile m"
    using laws(3) by blast+
  show "file_contents lib f = AllocatorFile n k \<Longrightarrow> k < n \<Longrightarrow>
      \<exists>f'. allocator_join lib f = Ok f' \<and> file_contents lib f' = AllocatorFile n (Suc k)"
    using laws(1) by blast
qed

lemma client_joins:
  assumes laws: "shmem_laws lib" and len: "length cs = length xs"
  shows "stored lib w (xs @ i # ys) (cs @ SpscFile T False c # ds) \<Longrightarrow>
      \<exists>w'. join_spsc_producer lib T i w = (Ok i, w') \<and> stored lib w' (xs @ i # ys) (cs @ SpscFile T True c # ds)"
    and "stored lib w (xs @ i # ys) (cs @ SpscFile T p False # ds) \<Longrightarrow>
      \<exists>w'. join_spsc_consumer lib T i w = (Ok i, w') \<and> stored lib w' (xs @ i # ys) (cs @ SpscFile T p True # ds)"
    and "stored lib w (xs @ i # ys) (cs @ MpmcFile T # ds) \<Longrightarrow>
      \<exists>w'. join_mpmc_producer lib T i w = (Ok i, w') \<and> stored lib w' (xs @ i # ys) (cs @ MpmcFile T # ds)"
    and "stored lib w (xs @ i # ys) (cs @ MpmcFile T # ds) \<Longrightarrow>
      \<exists>w'. join_mpmc_consumer lib T i w = (Ok i, w') \<and> stored lib w' (xs @ i # ys) (cs @ MpmcFile T # ds)"
proof -
  have go: "\<exists>w'. p_bind (shm_map_err e (on_file (unsafe_join lib ok join) i)) (\<lambda>_. p_return i) w = (Ok i, w')
      \<and> stored lib w' (xs @ i # ys) (cs @ b' # ds)"
    if st: "stored lib w (xs @ i # ys) (cs @ b # ds)" and "ok b"
      and "\<And>f. file_contents lib f = b \<Longrightarrow> \<exists>f'. join f = Ok f' \<and> file_contents lib f' = b'"
    for e :: "'e \<Rightarrow> ClientHandshakeError" and ok join b b'
  proof -
    have "\<exists>w'. on_file (unsafe_join lib ok join) i w = (Ok (), w') \<and> stored lib w' (xs @ i # ys) (cs @ b' # ds)"
      by (rule on_file_stored [OF st len]) (use that(2,3) in \<open>simp add: unsafe_join_def\<close>)
    then show ?thesis by (auto simp: p_bind_def p_return_def dest: shm_map_err_Ok [where e = e])
  qed
  show "stored lib w (xs @ i # ys) (cs @ SpscFile T False c # ds) \<Longrightarrow>
      \<exists>w'. join_spsc_producer lib T i w = (Ok i, w') \<and> stored lib w' (xs @ i # ys) (cs @ SpscFile T True c # ds)"
    unfolding join_spsc_producer_def by (rule go [OF _ _ join_laws(1) [OF laws]]) simp_all
  show "stored lib w (xs @ i # ys) (cs @ SpscFile T p False # ds) \<Longrightarrow>
      \<exists>w'. join_spsc_consumer lib T i w = (Ok i, w') \<and> stored lib w' (xs @ i # ys) (cs @ SpscFile T p True # ds)"
    unfolding join_spsc_consumer_def by (rule go [OF _ _ join_laws(2) [OF laws]]) simp_all
  show "stored lib w (xs @ i # ys) (cs @ MpmcFile T # ds) \<Longrightarrow>
      \<exists>w'. join_mpmc_producer lib T i w = (Ok i, w') \<and> stored lib w' (xs @ i # ys) (cs @ MpmcFile T # ds)"
    unfolding join_mpmc_producer_def by (rule go [OF _ _ join_laws(3) [OF laws]]) simp_all
  show "stored lib w (xs @ i # ys) (cs @ MpmcFile T # ds) \<Longrightarrow>
      \<exists>w'. join_mpmc_consumer lib T i w = (Ok i, w') \<and> stored lib w' (xs @ i # ys) (cs @ MpmcFile T # ds)"
    unfolding join_mpmc_consumer_def by (rule go [OF _ _ join_laws(4) [OF laws]]) simp_all
qed

abbreviation joined_contents :: "contents list" where
  "joined_contents \<equiv> [SpscFile PackToExecutionWorkerMessage True True, SpscFile ExecutionWorkerToPackMessage True True]"

definition client_worker :: "AgaveWorkerSession \<Rightarrow> ClientWorkerSession" where
  "client_worker s = \<lparr>cw_pack_to_worker = aw_pack_to_worker s, cw_worker_to_pack = aw_worker_to_pack s\<rparr>"

definition client_shared :: "AgaveSharedWorkerSession list \<Rightarrow> ClientSharedWorkerSession option" where
  "client_shared ws =
     (case ws of [] \<Rightarrow> None | s # _ \<Rightarrow> Some \<lparr>csw_request = asw_request s, csw_response = asw_response s\<rparr>)"

lemma join_client_workers_stored:
  assumes laws: "shmem_laws lib" and "length cs = length xs"
    and "stored lib w (xs @ worker_files ws @ ys) (cs @ concat (replicate (length ws) worker_contents) @ ds)"
  shows "\<exists>w'. join_client_workers lib (worker_files ws) w = (Ok (map client_worker ws), w')
    \<and> stored lib w' (xs @ worker_files ws @ ys) (cs @ concat (replicate (length ws) joined_contents) @ ds)"
  using assms(2,3)
proof (induction ws arbitrary: w xs cs)
  case Nil
  then show ?case by (simp add: worker_files_def p_return_def)
next
  case (Cons s ws)
  let ?p = "aw_pack_to_worker s" and ?c = "aw_worker_to_pack s"
  have files: "worker_files (s # ws) = ?p # ?c # worker_files ws" by (simp add: worker_files_def)
  from client_joins(1) [OF laws Cons.prems(1), of w ?p "?c # worker_files ws @ ys" PackToExecutionWorkerMessage True
      "SpscFile ExecutionWorkerToPackMessage True False # concat (replicate (length ws) worker_contents) @ ds"]
  obtain w1 where 1: "join_spsc_producer lib PackToExecutionWorkerMessage ?p w = (Ok ?p, w1)"
    and s1: "stored lib w1 ((xs @ [?p]) @ ?c # worker_files ws @ ys) ((cs @ [SpscFile PackToExecutionWorkerMessage True True])
      @ SpscFile ExecutionWorkerToPackMessage True False # concat (replicate (length ws) worker_contents) @ ds)"
    using Cons.prems(2) by (auto simp: files)
  have "length (cs @ [SpscFile PackToExecutionWorkerMessage True True]) = length (xs @ [?p])" using Cons.prems(1) by simp
  from client_joins(2) [OF laws this s1]
  obtain w2 where 2: "join_spsc_consumer lib ExecutionWorkerToPackMessage ?c w1 = (Ok ?c, w2)"
    and s2: "stored lib w2 ((xs @ [?p, ?c]) @ worker_files ws @ ys)
      ((cs @ joined_contents) @ concat (replicate (length ws) worker_contents) @ ds)" by auto
  have "length (cs @ joined_contents) = length (xs @ [?p, ?c])" using Cons.prems(1) by simp
  from Cons.IH [OF this s2] 1 2 show ?case
    by (auto simp: files p_bind_def p_return_def client_worker_def)
qed

lemma join_shared_workers_stored:
  assumes laws: "shmem_laws lib" and len: "length cs = length xs"
    and st: "stored lib w (xs @ shared_files ws @ ys) (cs @ shared_contents Q R (length ws) @ ds)"
  shows "\<exists>w'. join_shared_workers lib Q R (shared_files ws) w = (Ok (client_shared ws), w')
    \<and> stored lib w' (xs @ shared_files ws @ ys) (cs @ shared_contents Q R (length ws) @ ds)"
proof (cases ws)
  case Nil
  then show ?thesis using st by (simp add: join_shared_workers_def shared_files_def client_shared_def p_return_def)
next
  case (Cons s ws')
  let ?q = "asw_request s" and ?r = "asw_response s"
  have files: "shared_files ws = [?q, ?r]" "shared_contents Q R (length ws) = [MpmcFile Q, MpmcFile R]"
    by (simp_all add: Cons shared_files_def shared_contents_def)
  from client_joins(3) [OF laws len, of w ?q "?r # ys" Q "MpmcFile R # ds"]
  obtain w1 where 1: "join_mpmc_producer lib Q ?q w = (Ok ?q, w1)"
    and s1: "stored lib w1 ((xs @ [?q]) @ ?r # ys) ((cs @ [MpmcFile Q]) @ MpmcFile R # ds)"
    using st by (auto simp: files)
  have "length (cs @ [MpmcFile Q]) = length (xs @ [?q])" using len by simp
  from client_joins(4) [OF laws this s1]
  obtain w2 where 2: "join_mpmc_consumer lib R ?r w1 = (Ok ?r, w2)"
    and "stored lib w2 ((xs @ [?q]) @ ?r # ys) ((cs @ [MpmcFile Q]) @ MpmcFile R # ds)" by auto
  then show ?thesis using 1 files Cons by (simp add: join_shared_workers_def p_bind_def p_return_def client_shared_def)
qed

text \<open>The client's session that matches a server's session.\<close>

definition client_session :: "AgaveSession \<Rightarrow> ClientSession" where
  "client_session s = \<lparr>cs_allocator = ag_allocator s, cs_tpu_to_pack = ag_tpu_to_pack s,
     cs_progress_tracker = ag_progress_tracker s, cs_workers = map client_worker (ag_workers s),
     cs_check_workers = client_shared (ag_check_workers s),
     cs_simulate_workers = client_shared (ag_simulate_workers s)\<rparr>"

definition server_contents :: "ClientLogon \<Rightarrow> contents list" where
  "server_contents l = session_contents l 1 (SpscFile TpuToPackMessage True False)
     (SpscFile ProgressMessage True False) worker_contents"

definition final_contents :: "ClientLogon \<Rightarrow> contents list" where
  "final_contents l = session_contents l 2 (SpscFile TpuToPackMessage True True)
     (SpscFile ProgressMessage True True) joined_contents"

lemma length_worker_files: "length (worker_files ws) = 2 * length ws"
  by (induction ws) (simp_all add: worker_files_def)

lemma length_shared_files: "length (shared_files ws) = (if ws = [] then 0 else 2)"
  by (simp add: shared_files_def split: list.split)

lemma client_splits:
  assumes "logon_valid lib l" "session_shape l s"
  shows "expected_file_count l = Some (length (session_files s))"
    "split_at GLOBAL_SHMEM (session_files s) = Ok ([ag_allocator s, ag_tpu_to_pack s, ag_progress_tracker s],
       worker_files (ag_workers s) @ shared_files (ag_check_workers s) @ shared_files (ag_simulate_workers s))"
    "usize_checked_mul (worker_count l) WORKER_SHMEM = Some (2 * worker_count l)"
    "split_at (2 * worker_count l) (worker_files (ag_workers s) @ fs) = Ok (worker_files (ag_workers s), fs)"
    "split_at (if check_worker_count l > 0 then CHECK_SHMEM else 0) (shared_files (ag_check_workers s) @ fs)
       = Ok (shared_files (ag_check_workers s), fs)"
proof -
  have n: "worker_count l = length (ag_workers s)" "check_worker_count l = length (ag_check_workers s)"
    "simulate_worker_count l = length (ag_simulate_workers s)" using assms(2) by (simp_all add: session_shape_def)
  have w: "worker_count l \<le> 64" using assms(1) by (simp add: logon_valid_def)
  show "expected_file_count l = Some (length (session_files s))"
    using expected_file_count_eq [OF w] n
    by (simp add: session_files_def length_worker_files length_shared_files)
  show "split_at GLOBAL_SHMEM (session_files s) = Ok ([ag_allocator s, ag_tpu_to_pack s, ag_progress_tracker s],
       worker_files (ag_workers s) @ shared_files (ag_check_workers s) @ shared_files (ag_simulate_workers s))"
    by (simp add: split_at_def session_files_def GLOBAL_SHMEM_def)
  show "usize_checked_mul (worker_count l) WORKER_SHMEM = Some (2 * worker_count l)"
    using w by (simp add: usize_checked_mul_def WORKER_SHMEM_def)
  show "split_at (2 * worker_count l) (worker_files (ag_workers s) @ fs) = Ok (worker_files (ag_workers s), fs)"
    by (simp add: split_at_def n length_worker_files)
  show "split_at (if check_worker_count l > 0 then CHECK_SHMEM else 0) (shared_files (ag_check_workers s) @ fs)
       = Ok (shared_files (ag_check_workers s), fs)"
    by (simp add: split_at_def n CHECK_SHMEM_def length_shared_files)
qed

lemma client_setup_session_stored:
  assumes laws: "shmem_laws lib" and v: "logon_valid lib l" and shape: "session_shape l s"
    and st: "stored lib w (session_files s) (server_contents l)"
  shows "\<exists>w'. client_setup_session lib l (session_files s) w = (Ok (client_session s), w')
    \<and> stored lib w' (session_files s) (final_contents l)"
proof -
  let ?a = "ag_allocator s" and ?t = "ag_tpu_to_pack s" and ?p = "ag_progress_tracker s"
  let ?ws = "worker_files (ag_workers s)" and ?cw = "shared_files (ag_check_workers s)"
    and ?sw = "shared_files (ag_simulate_workers s)"
  let ?k = "worker_count l + check_worker_count l + simulate_worker_count l"
  let ?A = "AllocatorFile (?k + allocator_handles l + 1) (?k + 2)"
  let ?W = "\<lambda>c. concat (replicate (length (ag_workers s)) c)"
  let ?C = "shared_contents PackToCheckWorkerMessage CheckWorkerToPackMessage (length (ag_check_workers s))"
  let ?S = "shared_contents PackToExecutionWorkerMessage ExecutionWorkerToPackMessage (length (ag_simulate_workers s))"
  let ?T = "SpscFile TpuToPackMessage True" and ?P = "SpscFile ProgressMessage True"
  have n: "worker_count l = length (ag_workers s)" "check_worker_count l = length (ag_check_workers s)"
    "simulate_worker_count l = length (ag_simulate_workers s)" using shape by (simp_all add: session_shape_def)
  have files: "session_files s = ?a # ?t # ?p # ?ws @ ?cw @ ?sw" by (simp add: session_files_def)
  have s0: "stored lib w ([] @ ?a # ?t # ?p # ?ws @ ?cw @ ?sw) ([] @ AllocatorFile (?k + allocator_handles l + 1) (?k + 1)
      # ?T False # ?P False # ?W worker_contents @ ?C @ ?S)"
    using st by (simp add: files server_contents_def session_contents_def n)
  have "?k + 1 < ?k + allocator_handles l + 1" using v by (simp add: logon_valid_def)
  then have join: "\<exists>f'. allocator_join lib f = Ok f' \<and> file_contents lib f' = ?A"
    if "file_contents lib f = AllocatorFile (?k + allocator_handles l + 1) (?k + 1)" for f
    using join_laws(5) [OF laws that] by simp
  from on_file_stored [OF s0, where join = "allocator_join lib" and c' = ?A] join obtain w1 where 1: "on_file (allocator_join lib) ?a w = (Ok (), w1)"
    and s1: "stored lib w1 ((?a # ?t # ?p # ?ws) @ ?cw @ ?sw) ((?A # ?T False # ?P False # ?W worker_contents) @ ?C @ ?S)"
    by auto
  have "length (?A # ?T False # ?P False # ?W worker_contents) = length (?a # ?t # ?p # ?ws)"
    by (simp add: length_worker_files length_concat sum_list_replicate)
  note 2 = join_shared_workers_stored [OF laws this s1]
  then obtain w2 where 2: "join_shared_workers lib PackToCheckWorkerMessage CheckWorkerToPackMessage ?cw w1
      = (Ok (client_shared (ag_check_workers s)), w2)"
    and s2: "stored lib w2 ((?a # ?t # ?p # ?ws @ ?cw) @ ?sw @ [])
      ((?A # ?T False # ?P False # ?W worker_contents @ ?C) @ ?S @ [])" by auto
  have "length (?A # ?T False # ?P False # ?W worker_contents @ ?C) = length (?a # ?t # ?p # ?ws @ ?cw)"
    by (simp add: length_worker_files length_concat sum_list_replicate length_shared_files shared_contents_def)
  note 3 = join_shared_workers_stored [OF laws this s2]
  then obtain w3 where 3: "join_shared_workers lib PackToExecutionWorkerMessage ExecutionWorkerToPackMessage ?sw w2
      = (Ok (client_shared (ag_simulate_workers s)), w3)"
    and s3: "stored lib w3 ([?a] @ ?t # ?p # ?ws @ ?cw @ ?sw) ([?A] @ ?T False # ?P False # ?W worker_contents @ ?C @ ?S)"
    by auto
  from client_joins(2) [OF laws _ s3] obtain w4 where 4: "join_spsc_consumer lib TpuToPackMessage ?t w3 = (Ok ?t, w4)"
    and s4: "stored lib w4 ([?a, ?t] @ ?p # ?ws @ ?cw @ ?sw) ([?A, ?T True] @ ?P False # ?W worker_contents @ ?C @ ?S)"
    by auto
  from client_joins(2) [OF laws _ s4] obtain w5 where 5: "join_spsc_consumer lib ProgressMessage ?p w4 = (Ok ?p, w5)"
    and s5: "stored lib w5 ([?a, ?t, ?p] @ ?ws @ ?cw @ ?sw) ([?A, ?T True, ?P True] @ ?W worker_contents @ ?C @ ?S)"
    by auto
  from join_client_workers_stored [OF laws _ s5] obtain w6 where
    6: "join_client_workers lib ?ws w5 = (Ok (map client_worker (ag_workers s)), w6)"
    and s6: "stored lib w6 ([?a, ?t, ?p] @ ?ws @ ?cw @ ?sw) ([?A, ?T True, ?P True] @ ?W joined_contents @ ?C @ ?S)"
    by auto
  have "client_setup_session lib l (session_files s) w = (Ok (client_session s), w6)"
    unfolding client_setup_session_def
    by (simp add: client_splits [OF v shape] p_bind_def comp_unfold ok_or_err_def client_session_def
        shm_map_err_Ok 1 2 3 4 5 6)
  moreover have "stored lib w6 (session_files s) (final_contents l)"
    using s6 by (simp add: files final_contents_def session_contents_def n)
  ultimately show ?thesis by blast
qed

section \<open>The two sides agree\<close>

lemma local_session_cases:
  assumes "shmem_laws lib" "shmem_total lib" and "setup_local_session lib l w = (r, w')"
  shows "(\<exists>s. r = Ok (s, client_session s) \<and> logon_valid lib l \<and> session_shape l s
      \<and> stored lib w' (session_files s) (final_contents l))
    \<or> (\<exists>e. r = Err (ServerError e) \<and> (\<not> logon_valid lib l \<longrightarrow> blames lib l e \<and> w' = w))"
proof -
  obtain q w1 where q: "Server_setup_session lib l w = (q, w1)" by fastforce
  have "no_fault q" using Server_setup_session_no_fault [OF assms(1,2), of l w] q by simp
  then consider s files where "q = Ok (s, files)" | e where "q = Err e" by (cases q) auto
  then show ?thesis
  proof cases
    case 1
    with Server_setup_session_stored [OF assms(1)] q
    have v: "logon_valid lib l" and files: "files = session_files s" and shape: "session_shape l s"
      and st: "stored lib w1 (session_files s) (server_contents l)"
      by (fastforce simp: server_contents_def)+
    from client_setup_session_stored [OF assms(1) v shape st]
    obtain w2 where w2: "client_setup_session lib l (session_files s) w1 = (Ok (client_session s), w2)"
      "stored lib w2 (session_files s) (final_contents l)" by blast
    then have "r = Ok (s, client_session s)" "w' = w2"
      using assms(3) q 1 files by (auto simp: setup_local_session_def p_bind_def shm_map_err_def p_return_def)
    then show ?thesis using v shape w2(2) by blast
  next
    case 2
    then have r: "r = Err (ServerError e)" "w' = w1"
      using assms(3) q by (auto simp: setup_local_session_def p_bind_def shm_map_err_def)
    have "blames lib l e \<and> w1 = w" if "\<not> logon_valid lib l"
    proof -
      have "sizes_total lib" using assms(2) by (simp add: shmem_total_def)
      from validate_blames [OF this that] q 2 show ?thesis
        by (auto simp: Server_setup_session_def p_bind_def p_lift_def)
    qed
    then show ?thesis using r by blast
  qed
qed

text \<open>
  C34. A local session pairs every endpoint. Setting one up never panics, never joins a queue outside its
  safety contract, and its client half never fails: either it returns a server session \<open>s\<close> and the client
  session over the same files, endpoint by endpoint, or the server half failed. In the first case the
  logon is valid; the server has as many sessions of each kind as the logon asks for, all on the one
  allocator, the check and the simulate workers each sharing one pair of queues; all files are distinct;
  every single-producer single-consumer queue has the message type both sides use and both endpoints
  claimed once; and the allocator has given out a handle to each worker, the server and the client, so
  that \<open>allocator_handles - 1\<close> are left. In the second case, an invalid logon is blamed for a field that is
  wrong, before any file is made. (The allocator and queue libraries keep their contracts and do not panic.)
\<close>

theorem local_session_agrees:
  assumes "shmem_laws lib" "shmem_total lib" and "setup_local_session lib l w = (r, w')"
  shows "(\<exists>s. r = Ok (s, client_session s) \<and> logon_valid lib l \<and> session_shape l s
      \<and> stored lib w' (session_files s) (final_contents l))
    \<or> (\<exists>e. r = Err (ServerError e) \<and> (\<not> logon_valid lib l \<longrightarrow> blames lib l e \<and> w' = w))"
  using assms by (rule local_session_cases)

lemma plain_laws: "shmem_laws plain_lib" "shmem_total plain_lib"
  by (auto simp: shmem_laws_defs shmem_total_def plain_sizes)
    (auto simp: plain_lib_def plain_join_def split: contents.splits if_splits)

text \<open>No huge page is to be had for the first file; every other file is made at once.\<close>

definition example_world :: "contents shm_world" where
  "example_world = \<lparr>sm_files = Map.empty, sm_next = 0, sm_faults = [Some (OsError 12)]\<rparr>"

definition made :: "contents \<Rightarrow> contents shm_world \<Rightarrow> contents shm_world" where
  "made c w = w\<lparr>sm_files := (sm_files w)(sm_next w \<mapsto> Some c), sm_next := Suc (sm_next w)\<rparr>"

lemma made_simps [simp]:
  "sm_files (made c w) = (sm_files w)(sm_next w \<mapsto> Some c)" "sm_next (made c w) = Suc (sm_next w)"
  "sm_faults (made c w) = sm_faults w"
  by (simp_all add: made_def)

lemma plain_queue_file:
  assumes "n \<le> 100" "sm_faults w = []" "\<And>sz. create sz = Ok c"
  shows "create_queue_file (example_sizes n) create p w = (Ok (sm_next w), made c w)"
proof -
  have "round_up (64 * n + 128) p < 64 * n + 128 + page_bytes p" by (rule round_up_bounds(2))
  then have "checked_file_size (64 * n + 128) p = Some (round_up (64 * n + 128) p)"
    using assms(1) by (cases p) (simp_all add: checked_file_size_eq page_bytes_def STANDARD_PAGE_SIZE_def HUGE_PAGE_SIZE_def)
  then show ?thesis
    using assms by (simp add: create_queue_file_def create_shmem_def align_file_size_def ok_or_err_def p_bind_def
        comp_unfold initialise_def shm_map_err_def example_sizes_def made_def)
qed

lemma plain_creates:
  assumes "n \<le> 100" "sm_faults w = []"
  shows "create_producer plain_lib T n p w = (Ok (sm_next w), made (SpscFile T True False) w)"
    "create_consumer plain_lib n w = (Ok (sm_next w), made (SpscFile PackToExecutionWorkerMessage False True) w)"
    "create_mpmc_producer plain_lib T n p w = (Ok (sm_next w), made (MpmcFile T) w)"
    "create_mpmc_consumer plain_lib T n w = (Ok (sm_next w), made (MpmcFile T) w)"
  using assms by (simp_all add: create_producer_def create_consumer_def create_mpmc_producer_def
      create_mpmc_consumer_def plain_lib_def plain_queue_file or_else_def Let_def split: PageSize.split)

lemma plain_allocator:
  "create_allocator plain_lib example_logon example_world = (Ok 0, (made (AllocatorFile 7 1) example_world)\<lparr>sm_faults := []\<rparr>)"
  by (simp add: create_allocator_def create_allocator_file_def allocator_count_eq example_logon_def plain_lib_def
      or_else_def create_shmem_def align_file_size_def ok_or_err_def p_bind_def comp_unfold initialise_def
      shm_map_err_def example_world_def made_def checked_file_size_eq round_up_def page_bytes_def
      STANDARD_PAGE_SIZE_def)

lemma plain_join_existing:
  assumes "sm_files w a = Some (Some (AllocatorFile n k))" "k < n"
  shows "join_from_existing plain_lib a w = (Ok (), w\<lparr>sm_files := (sm_files w)(a \<mapsto> Some (AllocatorFile n (Suc k)))\<rparr>)"
  using assms by (simp add: join_from_existing_def on_file_def plain_lib_def plain_join_def p_bind_def comp_unfold
      initialise_def)

lemma example_server:
  "\<exists>s w'. Server_setup_session plain_lib example_logon example_world = (Ok (s, [0, 1, 2, 3, 4, 5, 6, 7, 8]), w')"
proof -
  have v: "validate plain_lib example_logon = Ok ()" using example_logon_valid validate_Ok_iff by blast
  have n: "worker_count example_logon = Suc (Suc 0)" "check_worker_count example_logon = Suc 0"
    "simulate_worker_count example_logon = 0" by (simp_all add: example_logon_def)
  have q: "tpu_to_pack_capacity example_logon \<le> 100" "progress_tracker_capacity example_logon \<le> 100"
    "pack_to_worker_capacity example_logon \<le> 100" "worker_to_pack_capacity example_logon \<le> 100"
    "pack_to_check_worker_capacity example_logon \<le> 100" "check_worker_to_pack_capacity example_logon \<le> 100"
    by (simp_all add: example_logon_def)
  have w: "sm_next example_world = 0" by (simp add: example_world_def)
  show ?thesis
    unfolding Server_setup_session_def n create_shared_workers_def create_workers.simps join_workers.simps
    by (simp add: v plain_allocator p_bind_def p_lift_def p_return_def shm_map_err_def plain_creates
        plain_join_existing q w)
qed

theorem local_session_agrees_witness:
  "(\<exists>s w'. setup_local_session plain_lib example_logon example_world = (Ok (s, client_session s), w')
      \<and> session_files s = [0, 1, 2, 3, 4, 5, 6, 7, 8]
      \<and> stored plain_lib w' (session_files s) (final_contents example_logon))
   \<and> (\<exists>e. setup_local_session plain_lib (example_logon\<lparr>allocator_handles := 0\<rparr>) example_world
        = (Err (ServerError e), example_world))"
proof
  obtain r w' where run: "setup_local_session plain_lib example_logon example_world = (r, w')" by fastforce
  obtain s0 w1 where server: "Server_setup_session plain_lib example_logon example_world
      = (Ok (s0, [0, 1, 2, 3, 4, 5, 6, 7, 8]), w1)" using example_server by blast
  then have files: "session_files s0 = [0, 1, 2, 3, 4, 5, 6, 7, 8]"
    using Server_setup_session_stored [OF plain_laws(1)] by metis
  have "r \<noteq> Err (ServerError e)" "r = Ok (s, c) \<Longrightarrow> s = s0" for e s c
    using run server by (auto simp: setup_local_session_def p_bind_def shm_map_err_def p_return_def
        split: outcome.splits prod.splits elim!: result_map_err.elims)
  with local_session_agrees [OF plain_laws run] run files
  show "\<exists>s w'. setup_local_session plain_lib example_logon example_world = (Ok (s, client_session s), w')
      \<and> session_files s = [0, 1, 2, 3, 4, 5, 6, 7, 8]
      \<and> stored plain_lib w' (session_files s) (final_contents example_logon)" by blast
next
  obtain r w' where run: "setup_local_session plain_lib (example_logon\<lparr>allocator_handles := 0\<rparr>) example_world = (r, w')"
    by fastforce
  have "\<not> logon_valid plain_lib (example_logon\<lparr>allocator_handles := 0\<rparr>)" by (simp add: logon_valid_def)
  then show "\<exists>e. setup_local_session plain_lib (example_logon\<lparr>allocator_handles := 0\<rparr>) example_world
        = (Err (ServerError e), example_world)"
    using local_session_agrees [OF plain_laws run] run by auto
qed

lemma example_local:
  "\<exists>s w'. setup_local_session plain_lib example_logon example_world = (Ok (s, client_session s), w')"
proof -
  obtain r w' where run: "setup_local_session plain_lib example_logon example_world = (r, w')" by fastforce
  obtain s0 w1 where server: "Server_setup_session plain_lib example_logon example_world
      = (Ok (s0, [0, 1, 2, 3, 4, 5, 6, 7, 8]), w1)" using example_server by blast
  have "r \<noteq> Err (ServerError e)" for e
    using run server by (auto simp: setup_local_session_def p_bind_def shm_map_err_def p_return_def
        split: outcome.splits prod.splits elim!: result_map_err.elims)
  with local_session_cases [OF plain_laws run] run show ?thesis by blast
qed

end
