(* ===== verification/Handshake_Protocol.thy ===== *)
theory Handshake_Protocol
  imports Handshake_Session
begin

text \<open>
  The scheduler handshake over a Unix-domain socket: the client sends a 1024-byte logon, the server reads
  it in as many pieces as the socket delivers, checks the versions, sets the session up and answers with
  the files or with the text of its error (\<open>Server::accept\<close> in \<open>scheduler-handshake/src/server.rs\<close>, \<open>connect\<close> in
  \<open>client.rs\<close>).
\<close>

section \<open>Decoding UTF-8 with replacement\<close>

text \<open>
  \<open>String::from_utf8_lossy\<close>. A lead byte determines the first bits, the number of continuation bytes and
  the range of the first of them; a sequence that breaks off is replaced, up to where it breaks off, by
  one U+FFFD.
\<close>

definition utf8_lead :: "nat \<Rightarrow> (nat \<times> nat \<times> nat \<times> nat) option" where
  "utf8_lead b =
     (if 0xC2 \<le> b \<and> b \<le> 0xDF then Some (b - 0xC0, 1, 0x80, 0xBF)
      else if b = 0xE0 then Some (0, 2, 0xA0, 0xBF)
      else if b = 0xED then Some (0xD, 2, 0x80, 0x9F)
      else if 0xE1 \<le> b \<and> b \<le> 0xEF then Some (b - 0xE0, 2, 0x80, 0xBF)
      else if b = 0xF0 then Some (0, 3, 0x90, 0xBF)
      else if 0xF1 \<le> b \<and> b \<le> 0xF3 then Some (b - 0xF0, 3, 0x80, 0xBF)
      else if b = 0xF4 then Some (4, 3, 0x80, 0x8F)
      else None)"

fun utf8_tail :: "nat \<Rightarrow> nat \<Rightarrow> nat \<Rightarrow> bytes \<Rightarrow> nat list" where
  "utf8_tail (Suc k) lo hi (b # bs) =
     (if lo \<le> unat b \<and> unat b \<le> hi then (unat b - 0x80) # utf8_tail k 0x80 0xBF bs else [])"
| "utf8_tail k lo hi bs = []"

fun from_utf8_lossy :: "bytes \<Rightarrow> str" where
  "from_utf8_lossy [] = []"
| "from_utf8_lossy (b # bs) =
     (if unat b < 0x80 then unat b # from_utf8_lossy bs
      else case utf8_lead (unat b) of
        None \<Rightarrow> 0xFFFD # from_utf8_lossy bs
      | Some (v, k, lo, hi) \<Rightarrow>
          (let cs = utf8_tail k lo hi bs in
           (if length cs = k then foldl (\<lambda>a c. 64 * a + c) v cs else 0xFFFD)
             # from_utf8_lossy (drop (length cs) bs)))"

section \<open>Sockets\<close>

text \<open>
  A connection from the server's side: the bytes the peer sends before it closes, how the coming reads
  turn out (each may give fewer bytes than there is room for, be late, or fail), which of the other calls
  fail, and what the server has sent in answer. Once the reads run out, the peer is silent and a read ends with
  the read timeout.
\<close>

datatype read_result = Deliver nat bool | Fail socket_error

definition read_timed_out :: socket_error where "read_timed_out = OsError 11"

datatype cmsg = ScmRights "nat list" | OtherCmsg

record conn =
  co_accept :: "socket_error option"
  co_incoming :: bytes
  co_reads :: "read_result list"
  co_send :: "socket_error option"
  co_nonblocking :: "socket_error option"
  co_write :: "(socket_error, usize) outcome"

record 'f server =
  sv_buffer :: bytes
  sv_shm :: "'f shm_world"
  sv_reply :: "bytes \<times> cmsg list"

type_synonym ('f, 'e, 'a) serving = "('f server, 'e, 'a) comp"

definition fails_with :: "('x \<Rightarrow> 'e) \<Rightarrow> 'x option \<Rightarrow> ('e, unit) outcome" where
  "fails_with f e = (case e of None \<Rightarrow> Ok () | Some x \<Rightarrow> Err (f x))"

definition on_shm :: "('f, 'e, 'a) shm \<Rightarrow> ('f, 'e, 'a) serving" where
  "on_shm m s = (case m (sv_shm s) of (r, w) \<Rightarrow> (r, s\<lparr>sv_shm := w\<rparr>))"

section \<open>The server\<close>

text \<open>The loop of \<open>recv_logon\<close>.\<close>

fun recv_loop :: "bytes \<Rightarrow> usize \<Rightarrow> bytes \<Rightarrow> read_result list \<Rightarrow> (AgaveHandshakeError, unit) outcome \<times> bytes" where
  "recv_loop buffer buffer_len incoming reads =
     (if buffer_len < length buffer then
        (case reads of
           [] \<Rightarrow> (Err (AgaveIo read_timed_out), buffer)
         | Fail e # _ \<Rightarrow> (Err (AgaveIo e), buffer)
         | Deliver n late # reads' \<Rightarrow>
             (let chunk = take (min (max 1 n) (length buffer - buffer_len)) incoming in
              if length chunk = 0 then (Err EofDuringHandshake, buffer)
              else
                (let buffer' = take buffer_len buffer @ chunk @ drop (buffer_len + length chunk) buffer in
                 case usize_checked_add buffer_len (length chunk) of
                   None \<Rightarrow> (Panic, buffer')
                 | Some buffer_len' \<Rightarrow>
                     if late then (Err Timeout, buffer')
                     else recv_loop buffer' buffer_len' (drop (length chunk) incoming) reads')))
      else (Ok (), buffer))"

declare recv_loop.simps [simp del]

definition unwrap :: "'a option \<Rightarrow> ('e, 'a) outcome" where
  "unwrap x = (case x of Some v \<Rightarrow> Ok v | None \<Rightarrow> Panic)"

definition LOGON_END :: usize where "LOGON_END = ProtocolVersions_SIZE + ClientLogon_SIZE"

definition recv_logon :: "'f shmem_lib \<Rightarrow> conn \<Rightarrow> ('f, AgaveHandshakeError, ClientLogon) serving" where
  "recv_logon lib stream =
     p_bind (\<lambda>s. case recv_loop (sv_buffer s) 0 (co_incoming stream) (co_reads stream) of
                   (r, buffer) \<Rightarrow> (r, s\<lparr>sv_buffer := buffer\<rparr>)) (\<lambda>_.
     p_bind p_get (\<lambda>s.
     p_bind (p_lift (unwrap (ProtocolVersions_try_from_bytes (take ProtocolVersions_SIZE (sv_buffer s)))))
       (\<lambda>client_versions.
     let server_versions = ProtocolVersions_current lib in
     if client_versions \<noteq> server_versions then p_lift (Err (Version server_versions client_versions))
     else p_lift (unwrap (ClientLogon_try_from_bytes
            (take (LOGON_END - ProtocolVersions_SIZE) (drop ProtocolVersions_SIZE (sv_buffer s))))))))"

definition handle_logon :: "'f shmem_lib \<Rightarrow> conn \<Rightarrow> ('f, AgaveHandshakeError, AgaveSession) serving" where
  "handle_logon lib stream =
     p_bind (recv_logon lib stream) (\<lambda>logon.
     p_bind (on_shm (Server_setup_session lib logon)) (\<lambda>(session, files).
     p_bind (p_lift (fails_with AgaveIo (co_send stream))) (\<lambda>_.
     p_bind (p_modify (\<lambda>s. s\<lparr>sv_reply := ([LOGON_SUCCESS], [ScmRights files])\<rparr>)) (\<lambda>_.
     p_return session))))"

text \<open>The answer to a logon that failed; \<open>write\<close> may take fewer bytes than it is given.\<close>

definition u8_try_from_or_max :: "usize \<Rightarrow> nat" where
  "u8_try_from_or_max n = (if n \<le> 255 then n else 255)"

definition reject :: "wrapped_fmt \<Rightarrow> conn \<Rightarrow> AgaveHandshakeError \<Rightarrow> ('f, AgaveHandshakeError, AgaveSession) serving" where
  "reject fmt stream err =
     (let reason = as_bytes (agave_error_fmt fmt err);
          reason_len = u8_try_from_or_max (length reason);
          buffer_len = 2 + reason_len in
      p_bind (p_modify (\<lambda>s. s\<lparr>sv_buffer := LOGON_FAILURE # of_nat reason_len # take reason_len reason
                                    @ drop buffer_len (sv_buffer s)\<rparr>)) (\<lambda>_.
      p_bind (p_lift (fails_with AgaveIo (co_nonblocking stream))) (\<lambda>_.
      p_bind (p_lift (result_map_err AgaveIo (co_write stream))) (\<lambda>written.
      p_bind (p_modify (\<lambda>s. s\<lparr>sv_reply := (take written (take buffer_len (sv_buffer s)), [])\<rparr>)) (\<lambda>_.
      p_lift (Err err))))))"

definition Server_accept ::
    "'f shmem_lib \<Rightarrow> wrapped_fmt \<Rightarrow> conn \<Rightarrow> ('f, AgaveHandshakeError, AgaveSession) serving" where
  "Server_accept lib fmt stream =
     p_bind (p_lift (fails_with AgaveIo (co_accept stream))) (\<lambda>_ s.
     case handle_logon lib stream s of
       (Ok session, s') \<Rightarrow> (Ok session, s')
     | (Err err, s') \<Rightarrow> reject fmt stream err s'
     | (Panic, s') \<Rightarrow> (Panic, s')
     | (UB, s') \<Rightarrow> (UB, s'))"

definition Server_new :: "'f shm_world \<Rightarrow> 'f server" where
  "Server_new w = \<lparr>sv_buffer = replicate 1024 0, sv_shm = w, sv_reply = ([], [])\<rparr>"

section \<open>The client\<close>

definition send_logon :: "ClientLogon \<Rightarrow> ProtocolVersions \<Rightarrow> bytes" where
  "send_logon logon versions =
     ProtocolVersions_write versions @ ClientLogon_write logon @ replicate (1024 - LOGON_END) 0"

definition CMSG_MAX_FDS :: usize where
  "CMSG_MAX_FDS = GLOBAL_SHMEM + MAX_WORKERS * WORKER_SHMEM + CHECK_SHMEM + SIMULATE_SHMEM"

text \<open>
  \<open>recv_response\<close> on what \<open>recvmsg\<close> gives: the bytes received, none when the server closed the connection,
  and the control messages. Indexing behind what was received panics, and so does the list of control
  messages when it did not fit the buffer.
\<close>

definition recv_response :: "bytes \<times> cmsg list \<Rightarrow> (ClientHandshakeError, nat list) outcome" where
  "recv_response msg =
     (case msg of (received, cmsgs) \<Rightarrow>
        (let buf = take 1024 received in
         case buf of
           [] \<Rightarrow> Err (ClientIo UnexpectedEof)
         | b # rest \<Rightarrow>
             if b = LOGON_FAILURE then
               (case rest of
                  [] \<Rightarrow> Panic
                | n # text \<Rightarrow>
                    if unat n \<le> length text then Err (Rejected (from_utf8_lossy (take (unat n) text))) else Panic)
             else
               (case cmsgs of
                  ScmRights fds # _ \<Rightarrow> if length fds \<le> CMSG_MAX_FDS then Ok fds else Panic
                | _ \<Rightarrow> Panic)))"

text \<open>
  The other end of the client's connection: which calls fail, and what it answers to the bytes it is
  sent; the server it stands for works on the same shared memory.
\<close>

record 'f peer =
  pe_connect :: "socket_error option"
  pe_write :: "socket_error option"
  pe_answer :: "bytes \<Rightarrow> 'f shm_world \<Rightarrow> (socket_error, bytes \<times> cmsg list) outcome \<times> 'f shm_world"

definition connect_path ::
    "'f shmem_lib \<Rightarrow> 'f peer \<Rightarrow> ClientLogon \<Rightarrow> ProtocolVersions \<Rightarrow> ('f, ClientHandshakeError, ClientSession) shm" where
  "connect_path lib peer logon versions =
     p_bind (p_lift (fails_with ClientIo (pe_connect peer))) (\<lambda>_.
     p_bind (p_lift (fails_with ClientIo (pe_write peer))) (\<lambda>_.
     p_bind (shm_map_err ClientIo (pe_answer peer (send_logon logon versions))) (\<lambda>msg.
     p_bind (p_lift (recv_response msg)) (\<lambda>files.
     client_setup_session lib logon files))))"

definition connect :: "'f shmem_lib \<Rightarrow> 'f peer \<Rightarrow> ClientLogon \<Rightarrow> ('f, ClientHandshakeError, ClientSession) shm" where
  "connect lib peer logon = connect_path lib peer logon (ProtocolVersions_current lib)"

section \<open>Decoding what was encoded\<close>

definition scalar :: "nat \<Rightarrow> bool" where
  "scalar c \<longleftrightarrow> c < 0xD800 \<or> 0xE000 \<le> c \<and> c < 0x110000"

lemma utf8_tail_cont:
  "k < 64 \<Longrightarrow> lo \<le> 0x80 + k \<Longrightarrow> 0x80 + k \<le> hi \<Longrightarrow>
    utf8_tail (Suc n) lo hi (of_nat (0x80 + k) # bs) = k # utf8_tail n 0x80 0xBF bs"
  by (simp add: unat_of_nat_u8 del: of_nat_add of_nat_numeral)

lemma utf8_tail_0: "utf8_tail 0 lo hi bs = []"
  by simp

lemma from_utf8_lossy_lead:
  assumes "0x80 \<le> b" "b < 256" "utf8_lead b = Some (v, k, lo, hi)" "utf8_tail k lo hi bs = cs" "length cs = k"
  shows "from_utf8_lossy (of_nat b # bs) = foldl (\<lambda>a c. 64 * a + c) v cs # from_utf8_lossy (drop k bs)"
  using assms by (simp add: unat_of_nat_u8)

lemma from_utf8_lossy_2:
  assumes "0x80 \<le> c" "c < 0x800"
  shows "from_utf8_lossy ([of_nat (0xC0 + c div 64), of_nat (0x80 + c mod 64)] @ bs) = c # from_utf8_lossy bs"
proof -
  have d: "2 \<le> c div 64" "c div 64 < 32" using assms by (simp_all add: less_mult_imp_div_less)
  have "utf8_lead (0xC0 + c div 64) = Some (c div 64, 1, 0x80, 0xBF)" using d by (simp add: utf8_lead_def)
  moreover have "utf8_tail 1 0x80 0xBF (of_nat (0x80 + c mod 64) # bs) = [c mod 64]"
    using utf8_tail_cont [of "c mod 64" "0x80" "0xBF" 0 bs] by simp
  moreover have "64 * (c div 64) + c mod 64 = c" by simp
  ultimately show ?thesis
    using from_utf8_lossy_lead [of "0xC0 + c div 64"] d by (simp del: of_nat_add of_nat_numeral from_utf8_lossy.simps)
qed

lemma div64: "c div 64 div 64 = c div 4096" "c div 4096 div 64 = c div 262144" for c :: nat
  by (simp_all add: div_mult2_eq [symmetric])

lemma from_utf8_lossy_3:
  assumes "0x800 \<le> c" "c < 0x10000" "scalar c"
  shows "from_utf8_lossy ([of_nat (0xE0 + c div 4096), of_nat (0x80 + c div 64 mod 64), of_nat (0x80 + c mod 64)] @ bs)
    = c # from_utf8_lossy bs"
proof -
  let ?a = "c div 4096" and ?b = "c div 64 mod 64"
  have d: "?a < 16" using assms by (simp add: less_mult_imp_div_less)
  have c: "c = 4096 * ?a + 64 * ?b + c mod 64"
    using div_mult_mod_eq [of c 64] div_mult_mod_eq [of "c div 64" 64] div64(1) [of c] by linarith
  have bc: "?b < 64" "c mod 64 < 64" by simp_all
  obtain lo hi where l: "utf8_lead (0xE0 + ?a) = Some (?a, 2, lo, hi)" "lo \<le> 0x80 + ?b" "0x80 + ?b \<le> hi"
  proof -
    consider "?a = 0" | "?a = 13" | "?a \<noteq> 0" "?a \<noteq> 13" by blast
    then show thesis
    proof cases
      case 1
      then have "32 \<le> ?b" using c bc assms(1) by linarith
      then show thesis using 1 bc that [of "0xA0" "0xBF"] by (simp add: utf8_lead_def)
    next
      case 2
      then have "?b < 32" using c bc assms(3) unfolding scalar_def by linarith
      then show thesis using 2 that [of "0x80" "0x9F"] by (simp add: utf8_lead_def)
    next
      case 3
      then show thesis using d bc that [of "0x80" "0xBF"] by (simp add: utf8_lead_def)
    qed
  qed
  have "utf8_tail 2 lo hi (of_nat (0x80 + ?b) # of_nat (0x80 + c mod 64) # bs) = [?b, c mod 64]"
    using utf8_tail_cont [OF bc(1) l(2,3), of 1] utf8_tail_cont [of "c mod 64" "0x80" "0xBF" 0 bs]
    by (simp add: numeral_2_eq_2 del: of_nat_add of_nat_numeral)
  from from_utf8_lossy_lead [OF _ _ l(1) this] d c show ?thesis
    by (simp del: of_nat_add of_nat_numeral from_utf8_lossy.simps)
qed

lemma from_utf8_lossy_4:
  assumes "0x10000 \<le> c" "c < 0x110000"
  shows "from_utf8_lossy ([of_nat (0xF0 + c div 262144), of_nat (0x80 + c div 4096 mod 64),
      of_nat (0x80 + c div 64 mod 64), of_nat (0x80 + c mod 64)] @ bs) = c # from_utf8_lossy bs"
proof -
  let ?a = "c div 262144" and ?b = "c div 4096 mod 64" and ?d = "c div 64 mod 64"
  have d: "?a < 5" using assms by (simp add: less_mult_imp_div_less)
  have c: "c = 262144 * ?a + 4096 * ?b + 64 * ?d + c mod 64"
    using div_mult_mod_eq [of c 64] div_mult_mod_eq [of "c div 64" 64] div_mult_mod_eq [of "c div 4096" 64]
      div64 [of c] by linarith
  have bc: "?b < 64" "?d < 64" "c mod 64 < 64" by simp_all
  obtain lo hi where l: "utf8_lead (0xF0 + ?a) = Some (?a, 3, lo, hi)" "lo \<le> 0x80 + ?b" "0x80 + ?b \<le> hi"
  proof -
    consider "?a = 0" | "?a = 4" | "?a \<noteq> 0" "?a \<noteq> 4" by blast
    then show thesis
    proof cases
      case 1
      then have "16 \<le> ?b" using c bc assms(1) by linarith
      then show thesis using 1 bc that [of "0x90" "0xBF"] by (simp add: utf8_lead_def)
    next
      case 2
      then have "?b < 16" using c bc assms(2) by linarith
      then show thesis using 2 that [of "0x80" "0x8F"] by (simp add: utf8_lead_def)
    next
      case 3
      then show thesis using d bc that [of "0x80" "0xBF"] by (simp add: utf8_lead_def)
    qed
  qed
  have "utf8_tail 3 lo hi (of_nat (0x80 + ?b) # of_nat (0x80 + ?d) # of_nat (0x80 + c mod 64) # bs) = [?b, ?d, c mod 64]"
    using utf8_tail_cont [OF bc(1) l(2,3), of 2] utf8_tail_cont [of ?d "0x80" "0xBF" 1]
      utf8_tail_cont [of "c mod 64" "0x80" "0xBF" 0 bs] bc
    by (simp add: numeral_3_eq_3 numeral_2_eq_2 del: of_nat_add of_nat_numeral)
  from from_utf8_lossy_lead [OF _ _ l(1) this] d c show ?thesis
    by (simp del: of_nat_add of_nat_numeral from_utf8_lossy.simps)
qed

lemma from_utf8_lossy_char: "scalar c \<Longrightarrow> from_utf8_lossy (utf8_char c @ bs) = c # from_utf8_lossy bs"
  using from_utf8_lossy_2 [of c bs] from_utf8_lossy_3 [of c bs] from_utf8_lossy_4 [of c bs]
  by (auto simp: utf8_char_def scalar_def unat_of_nat_u8 not_less simp del: of_nat_add of_nat_numeral)

lemma from_utf8_lossy_as_bytes: "list_all scalar s \<Longrightarrow> from_utf8_lossy (as_bytes s) = s"
  by (induction s) (simp_all add: from_utf8_lossy_char)

section \<open>Reading what was written\<close>

lemma drop_words: "drop (8 * k) (concat (map (le_bytes 8) xs)) = concat (map (le_bytes 8) (drop k xs))"
proof (induction xs arbitrary: k)
  case (Cons x xs)
  then show ?case by (cases k) simp_all
qed simp

lemma read_word_words: "k < length xs \<Longrightarrow> read_word (concat (map (le_bytes 8) xs)) k = xs ! k mod 2 ^ 64"
  by (simp add: read_word_def drop_words Cons_nth_drop_Suc [symmetric] le_value_le_bytes)

lemma length_words: "length (concat (map (le_bytes 8) xs)) = 8 * length xs"
  by (induction xs) simp_all

lemma length_ProtocolVersions_write [simp]: "length (ProtocolVersions_write v) = ProtocolVersions_SIZE"
  by (simp add: ProtocolVersions_write_def ProtocolVersions_SIZE_def)

lemma length_ClientLogon_write [simp]: "length (ClientLogon_write l) = ClientLogon_SIZE"
  by (simp add: ClientLogon_write_def length_words logon_fields_def ClientLogon_SIZE_def)

lemma length_send_logon [simp]: "length (send_logon l v) = 1024"
  by (simp add: send_logon_def LOGON_END_def ProtocolVersions_SIZE_def ClientLogon_SIZE_def)

lemma ProtocolVersions_round_trip: "ProtocolVersions_try_from_bytes (ProtocolVersions_write v) = Some v"
proof -
  let ?xs = "map unat [pv_handshake v, pv_scheduler_bindings v, pv_shaq v, pv_rts_alloc v]"
  have w: "ProtocolVersions_write v = concat (map (le_bytes 8) ?xs)" by (simp add: ProtocolVersions_write_def)
  have u: "unat (x :: u64) mod 18446744073709551616 = unat x" for x
    using unsigned_less [of x, where 'a = nat] by simp
  have "read_word (ProtocolVersions_write v) 0 = unat (pv_handshake v)"
    "read_word (ProtocolVersions_write v) 1 = unat (pv_scheduler_bindings v)"
    "read_word (ProtocolVersions_write v) 2 = unat (pv_shaq v)"
    "read_word (ProtocolVersions_write v) 3 = unat (pv_rts_alloc v)"
    unfolding w by (subst read_word_words; simp add: u)+
  then show ?thesis by (simp add: ProtocolVersions_try_from_bytes_def)
qed

text \<open>The fields of a logon are 64-bit numbers.\<close>

definition logon_in_range :: "ClientLogon \<Rightarrow> bool" where
  "logon_in_range l \<longleftrightarrow> (\<forall>n \<in> set (logon_fields l). n \<le> USIZE_MAX)"

lemma ClientLogon_round_trip:
  assumes "logon_in_range l"
  shows "ClientLogon_try_from_bytes (ClientLogon_write l) = Some l"
proof -
  have r: "read_word (ClientLogon_write l) k = logon_fields l ! k" if "k < 13" for k
  proof -
    have k: "k < length (logon_fields l)" using that by (simp add: logon_fields_def)
    then have "logon_fields l ! k \<le> USIZE_MAX" using assms nth_mem unfolding logon_in_range_def by blast
    then show ?thesis using read_word_words [OF k] by (simp add: ClientLogon_write_def)
  qed
  show ?thesis by (simp add: ClientLogon_try_from_bytes_def r) (simp add: logon_fields_def eval_nat_numeral)
qed

text \<open>
  Both parts of the logon message have a fixed size: what is written is read back, and reading cannot fail on
  that many bytes.
\<close>

locale fixed_codec =
  fixes put :: "'a \<Rightarrow> bytes" and get :: "bytes \<Rightarrow> 'a option" and len :: nat and valid :: "'a \<Rightarrow> bool"
  assumes put_length: "length (put x) = len"
    and get_put: "valid x \<Longrightarrow> get (put x) = Some x"
    and get_total: "length b = len \<Longrightarrow> \<exists>x. get b = Some x"
begin

lemma get_field: "valid x \<Longrightarrow> length pre = pos \<Longrightarrow> get (take len (drop pos (pre @ put x @ post))) = Some x"
  using put_length [of x] get_put by auto

lemma get_field_total: "pos + len \<le> length b \<Longrightarrow> \<exists>x. get (take len (drop pos b)) = Some x"
  by (rule get_total) simp

end

interpretation versions_codec: fixed_codec ProtocolVersions_write ProtocolVersions_try_from_bytes ProtocolVersions_SIZE
    "\<lambda>_. True"
  by unfold_locales (simp, rule ProtocolVersions_round_trip, simp add: ProtocolVersions_try_from_bytes_def)

interpretation logon_codec: fixed_codec ClientLogon_write ClientLogon_try_from_bytes ClientLogon_SIZE logon_in_range
  by unfold_locales (simp, erule ClientLogon_round_trip, simp add: ClientLogon_try_from_bytes_def)

lemma logon_end: "LOGON_END - ProtocolVersions_SIZE = ClientLogon_SIZE" by (simp add: LOGON_END_def)

text \<open>Reads that arrive in time; together they take in the whole message.\<close>

definition timely :: "read_result list \<Rightarrow> bool" where
  "timely reads \<longleftrightarrow> (\<forall>r \<in> set reads. case r of Deliver n late \<Rightarrow> \<not> late | Fail e \<Rightarrow> False)"

definition capacity_of :: "read_result list \<Rightarrow> nat" where
  "capacity_of reads = sum_list (map (\<lambda>r. case r of Deliver n late \<Rightarrow> max 1 n | Fail e \<Rightarrow> 0) reads)"

lemma recv_loop_step:
  assumes "k < length buffer" "length buffer \<le> 1024" "chunk = take (min (max 1 n) (length buffer - k)) incoming"
  shows "recv_loop buffer k incoming (Deliver n late # reads) = (if chunk = [] then (Err EofDuringHandshake, buffer)
     else let b = take k buffer @ chunk @ drop (k + length chunk) buffer in
       if late then (Err Timeout, b) else recv_loop b (k + length chunk) (drop (length chunk) incoming) reads)"
    and "k + length chunk \<le> length buffer"
    and "length (take k buffer @ chunk @ drop (k + length chunk) buffer) = length buffer"
proof -
  show c: "k + length chunk \<le> length buffer" using assms(1,3) by simp
  then show "length (take k buffer @ chunk @ drop (k + length chunk) buffer) = length buffer" by simp
  have "usize_checked_add k (length chunk) = Some (k + length chunk)"
    using c assms(2) by (simp add: usize_checked_add_def)
  then show "recv_loop buffer k incoming (Deliver n late # reads) = (if chunk = [] then (Err EofDuringHandshake, buffer)
     else let b = take k buffer @ chunk @ drop (k + length chunk) buffer in
       if late then (Err Timeout, b) else recv_loop b (k + length chunk) (drop (length chunk) incoming) reads)"
    using assms(1) by (subst recv_loop.simps) (simp add: assms(3) [symmetric] Let_def del: One_nat_def)
qed

lemma recv_loop_reads:
  assumes "length buffer = 1024" "k \<le> 1024" "length incoming = 1024 - k" "timely reads" "1024 - k \<le> capacity_of reads"
  shows "recv_loop buffer k incoming reads = (Ok (), take k buffer @ incoming)"
  using assms
proof (induction reads arbitrary: buffer k incoming)
  case Nil
  then show ?case by (simp add: recv_loop.simps capacity_of_def)
next
  case (Cons r reads)
  show ?case
  proof (cases "k < 1024")
    case False
    then show ?thesis using Cons.prems by (simp add: recv_loop.simps)
  next
    case True
    obtain n where r: "r = Deliver n False" using Cons.prems(4) by (cases r) (auto simp: timely_def)
    define m where "m = min (max 1 n) (1024 - k)"
    define buffer' where "buffer' = take k buffer @ take m incoming @ drop (k + m) buffer"
    have m: "0 < m" "m \<le> 1024 - k" using True by (simp_all add: m_def)
    have "length (take m incoming) = m" using m(2) Cons.prems(3) by simp
    then have "recv_loop buffer k incoming (r # reads) = recv_loop buffer' (k + m) (drop m incoming) reads"
      using recv_loop_step(1) [of k buffer "take m incoming" n incoming False reads] True m(1) Cons.prems(1)
      by (simp add: r buffer'_def m_def Let_def del: length_take) auto
    also have "\<dots> = (Ok (), take (k + m) buffer' @ drop m incoming)"
    proof (rule Cons.IH)
      show "length buffer' = 1024" using m True Cons.prems(1,3) by (simp add: buffer'_def)
      show "timely reads" using Cons.prems(4) by (simp add: timely_def)
      show "1024 - (k + m) \<le> capacity_of reads"
        using Cons.prems(5) unfolding r by (simp add: capacity_of_def m_def)
    qed (use m True Cons.prems(3) in simp_all)
    finally show ?thesis using m True Cons.prems(1,3) by (simp add: buffer'_def)
  qed
qed

text \<open>
  The logon message crosses the socket intact: however the client's 1024 bytes are cut into pieces, and
  whatever an earlier connection left in the server's buffer, the server reads the versions and the logon
  that were sent.
\<close>

lemma recv_logon_reads:
  assumes "logon_in_range l" "length (sv_buffer s) = 1024" "co_incoming stream = send_logon l v"
    and "timely (co_reads stream)" "1024 \<le> capacity_of (co_reads stream)"
  shows "recv_logon lib stream s =
    (if v = ProtocolVersions_current lib then Ok l else Err (Version (ProtocolVersions_current lib) v),
     s\<lparr>sv_buffer := send_logon l v\<rparr>)"
proof -
  have loop: "recv_loop (sv_buffer s) 0 (send_logon l v) (co_reads stream) = (Ok (), send_logon l v)"
    using recv_loop_reads [of "sv_buffer s" 0 "send_logon l v"] assms by simp
  have "ProtocolVersions_try_from_bytes (take ProtocolVersions_SIZE (send_logon l v)) = Some v"
    using versions_codec.get_field [where x = v and pre = "[]" and pos = 0] by (simp add: send_logon_def)
  moreover have "ClientLogon_try_from_bytes (take (LOGON_END - ProtocolVersions_SIZE)
      (drop ProtocolVersions_SIZE (send_logon l v))) = Some l"
    unfolding logon_end send_logon_def by (rule logon_codec.get_field [OF assms(1)]) simp
  ultimately show ?thesis
    using assms(3) by (auto simp: recv_logon_def p_bind_def comp_unfold loop unwrap_def Let_def)
qed

section \<open>The server withstands any peer\<close>

lemma recv_loop_safe:
  assumes "recv_loop buffer k incoming reads = (r, buffer')" "k \<le> length buffer" "length buffer \<le> 1024"
  shows "no_fault r \<and> length buffer' = length buffer"
  using assms
proof (induction reads arbitrary: buffer k incoming)
  case Nil
  then show ?case by (auto simp: recv_loop.simps split: if_splits)
next
  case (Cons x reads)
  show ?case
  proof (cases "k < length buffer \<and> (\<exists>n late. x = Deliver n late)")
    case False
    then show ?thesis using Cons.prems(1) by (cases x) (auto simp: recv_loop.simps split: if_splits)
  next
    case True
    then obtain n late where x: "x = Deliver n late" and k: "k < length buffer" by blast
    define chunk where "chunk = take (min (max 1 n) (length buffer - k)) incoming"
    note step = recv_loop_step [OF k Cons.prems(3) chunk_def]
    note run = step(1) [of late reads, folded x, symmetric, unfolded Cons.prems(1)]
    show ?thesis
    proof (cases "chunk = [] \<or> late")
      case True
      then show ?thesis using run step(3) by (auto simp: Let_def split: if_splits)
    next
      case False
      then show ?thesis using Cons.IH [of _ "k + length chunk" "drop (length chunk) incoming"] run step(2,3) Cons.prems(3)
        by (simp add: Let_def)
    qed
  qed
qed

lemma recv_loop_bounded:
  assumes "length buffer \<le> 1024" "k \<le> length buffer" "min (length buffer - k) (length incoming + 1) \<le> length reads"
  shows "recv_loop buffer k incoming (reads @ later) = recv_loop buffer k incoming reads"
  using assms
proof (induction reads arbitrary: buffer k incoming)
  case Nil
  then have "\<not> k < length buffer" by auto
  then show ?case by (simp add: recv_loop.simps)
next
  case (Cons x reads)
  show ?case
  proof (cases "k < length buffer \<and> (\<exists>n late. x = Deliver n late)")
    case False
    then show ?thesis by (cases x) (auto simp: recv_loop.simps)
  next
    case True
    then obtain n late where x: "x = Deliver n late" and k: "k < length buffer" by blast
    define chunk where "chunk = take (min (max 1 n) (length buffer - k)) incoming"
    note step = recv_loop_step [OF k Cons.prems(1) chunk_def]
    have "recv_loop b (k + length chunk) (drop (length chunk) incoming) (reads @ later)
        = recv_loop b (k + length chunk) (drop (length chunk) incoming) reads"
      if "chunk \<noteq> []" "length b = length buffer" for b
    proof (rule Cons.IH)
      have "min (b - (k + c)) (i - c + 1) \<le> r" if "min (b - k) (i + 1) \<le> Suc r" "0 < c" "c \<le> i" "k + c \<le> b"
        for b i c r :: nat using that by (auto simp: min_def split: if_splits)
      moreover have "0 < length chunk" "length chunk \<le> length incoming" using that(1) by (simp_all add: chunk_def)
      ultimately show "min (length b - (k + length chunk)) (length (drop (length chunk) incoming) + 1) \<le> length reads"
        using Cons.prems(3) step(2) unfolding that(2) length_drop length_Cons by blast
    qed (use that(2) Cons.prems(1) step(2) in simp_all)
    then show ?thesis using step(1,3) by (simp add: x Let_def)
  qed
qed

lemma recv_logon_safe:
  assumes "recv_logon lib stream s = (r, s')" "length (sv_buffer s) = 1024"
  shows "no_fault r \<and> length (sv_buffer s') = 1024 \<and> sv_shm s' = sv_shm s \<and> sv_reply s' = sv_reply s"
proof -
  obtain q buffer where q: "recv_loop (sv_buffer s) 0 (co_incoming stream) (co_reads stream) = (q, buffer)" by fastforce
  with recv_loop_safe [OF q] assms(2) have b: "no_fault q" "length buffer = 1024" by simp_all
  obtain v l where "ProtocolVersions_try_from_bytes (take ProtocolVersions_SIZE buffer) = Some v"
    "ClientLogon_try_from_bytes (take (LOGON_END - ProtocolVersions_SIZE) (drop ProtocolVersions_SIZE buffer)) = Some l"
    using b(2) versions_codec.get_field_total [of 0 buffer] logon_codec.get_field_total [of ProtocolVersions_SIZE buffer]
    unfolding logon_end by (auto simp: ProtocolVersions_SIZE_def ClientLogon_SIZE_def)
  then show ?thesis
    using assms(1) b q by (cases q) (auto simp: recv_logon_def p_bind_def comp_unfold unwrap_def Let_def split: if_splits)
qed

lemma reject_safe:
  assumes "reject fmt stream e s = (r, s')" "no_fault (co_write stream)" "length (sv_buffer s) = 1024"
  shows "no_fault r \<and> \<not> is_ok r \<and> length (sv_buffer s') = 1024 \<and> sv_shm s' = sv_shm s
    \<and> (sv_reply s' = sv_reply s \<or> length (fst (sv_reply s')) \<le> 257 \<and> snd (sv_reply s') = [])"
proof -
  have u: "u8_try_from_or_max n \<le> 255" "min n (u8_try_from_or_max n) = u8_try_from_or_max n"
    "u8_try_from_or_max n + (1022 - u8_try_from_or_max n) = 1022" for n
    by (auto simp: u8_try_from_or_max_def)
  have t: "min j (min k (Suc (Suc (u8_try_from_or_max n)))) \<le> 257" for j k n using u(1) [of n] by linarith
  show ?thesis
    using assms by (cases "co_nonblocking stream"; cases "co_write stream")
      (auto simp: reject_def Let_def p_bind_def comp_unfold fails_with_def u t)
qed

lemma handle_logon_safe:
  assumes "shmem_laws lib" "shmem_total lib" "length (sv_buffer s) = 1024" "sv_reply s = ([], [])"
    and run: "handle_logon lib stream s = (r, s')"
  shows "no_fault r \<and> length (sv_buffer s') = 1024
    \<and> (case r of Ok session \<Rightarrow> sv_reply s' = ([LOGON_SUCCESS], [ScmRights (session_files session)])
       | _ \<Rightarrow> sv_reply s' = ([], []))"
proof -
  obtain q s1 where q: "recv_logon lib stream s = (q, s1)" by fastforce
  note s1 = recv_logon_safe [OF q assms(3)]
  show ?thesis
  proof (cases q)
    case (Ok l)
    obtain p w where p: "Server_setup_session lib l (sv_shm s1) = (p, w)" by fastforce
    then have "no_fault p" using Server_setup_session_no_fault [OF assms(1,2), of l "sv_shm s1"] by simp
    moreover have "files = session_files session" if "p = Ok (session, files)" for session files
      using Server_setup_session_stored [OF assms(1)] p that by blast
    ultimately show ?thesis
      using run q Ok s1 p assms(4) by (cases p; cases "co_send stream")
        (auto simp: handle_logon_def p_bind_def on_shm_def comp_unfold fails_with_def)
  next
    case (Err e)
    then show ?thesis using run q s1 assms(4) by (auto simp: handle_logon_def p_bind_def)
  qed (use s1 in simp_all)
qed

text \<open>
  C35. The server withstands any peer. Whatever bytes a client sends, however they arrive and whichever
  calls on the socket fail, accepting a connection never panics and leaves the server's buffer at 1024
  bytes, ready for the next connection. It answers with the success byte and the session's files exactly
  when it returns the session; when it returns an error, the answer, if one could be sent, is a failure of
  at most 257 bytes that carries no file.
\<close>

theorem accept_withstands:
  assumes "shmem_laws lib" "shmem_total lib" "no_fault (co_write stream)" "length (sv_buffer s) = 1024"
    and "sv_reply s = ([], [])" "Server_accept lib fmt stream s = (r, s')"
  shows "length (sv_buffer s') = 1024
    \<and> ((\<exists>session. r = Ok session \<and> sv_reply s' = ([LOGON_SUCCESS], [ScmRights (session_files session)]))
       \<or> (\<exists>e. r = Err e \<and> length (fst (sv_reply s')) \<le> 257 \<and> snd (sv_reply s') = []))"
proof (cases "co_accept stream")
  case (Some e)
  then show ?thesis using assms(4-6) by (auto simp: Server_accept_def fails_with_def p_bind_def p_lift_def)
next
  case None
  obtain q s1 where q: "handle_logon lib stream s = (q, s1)" by fastforce
  have h: "no_fault q \<and> length (sv_buffer s1) = 1024
    \<and> (case q of Ok session \<Rightarrow> sv_reply s1 = ([LOGON_SUCCESS], [ScmRights (session_files session)])
       | _ \<Rightarrow> sv_reply s1 = ([], []))"
    by (rule handle_logon_safe [OF assms(1,2,4,5) q])
  show ?thesis
  proof (cases q)
    case (Ok session)
    then show ?thesis using h q assms(6) None
      by (auto simp: Server_accept_def fails_with_def p_bind_def p_lift_def)
  next
    case (Err e)
    then have "reject fmt stream e s1 = (r, s')"
      using q assms(6) None by (simp add: Server_accept_def fails_with_def p_bind_def p_lift_def)
    from reject_safe [OF this assms(3)] h Err show ?thesis by (cases r) auto
  qed (use h in simp_all)
qed

text \<open>
  C38. Accepting a connection ends. The receive loop has no bound of its own, and the peer decides how many
  bytes each read yields; still the server never makes more than 1024 reads, nor more than one beyond the
  bytes the peer sends: what further reads would have given makes no difference to its answer or its state.
\<close>

theorem accept_ends:
  assumes "length (sv_buffer s) = 1024" "min 1024 (length (co_incoming stream) + 1) \<le> length reads"
  shows "Server_accept lib fmt (stream\<lparr>co_reads := reads @ later\<rparr>) s = Server_accept lib fmt (stream\<lparr>co_reads := reads\<rparr>) s"
proof -
  let ?conn = "\<lambda>rs. stream\<lparr>co_reads := rs\<rparr>"
  have "recv_loop (sv_buffer s) 0 (co_incoming stream) (reads @ later) = recv_loop (sv_buffer s) 0 (co_incoming stream) reads"
    using assms by (intro recv_loop_bounded) simp_all
  then have "recv_logon lib (?conn (reads @ later)) s = recv_logon lib (?conn reads) s"
    by (simp add: recv_logon_def p_bind_def)
  then have "handle_logon lib (?conn (reads @ later)) s = handle_logon lib (?conn reads) s"
    by (simp add: handle_logon_def p_bind_def)
  then show ?thesis by (cases "co_accept stream") (auto simp: Server_accept_def reject_def p_bind_def p_lift_def fails_with_def
      split: prod.split outcome.split)
qed

definition plain_fmt :: wrapped_fmt where
  "plain_fmt = \<lparr>io_fmt = (\<lambda>_. str_lit ''io''), rts_fmt = (\<lambda>_. str_lit ''rts''), shaq_fmt = (\<lambda>_. str_lit ''shaq'')\<rparr>"

theorem accept_withstands_witness:
  "\<exists>s'. Server_accept plain_lib plain_fmt \<lparr>co_accept = None, co_incoming = [1, 2, 3], co_reads = [Deliver 3 False, Deliver 3 False],
        co_send = None, co_nonblocking = None, co_write = Ok 300\<rparr> (Server_new example_world) = (Err EofDuringHandshake, s')
     \<and> length (sv_buffer s') = 1024 \<and> snd (sv_reply s') = []"
proof -
  let ?c = "\<lparr>co_accept = None, co_incoming = [1, 2, 3], co_reads = [Deliver 3 False, Deliver 3 False],
        co_send = None, co_nonblocking = None, co_write = Ok 300\<rparr>"
  obtain r s' where run: "Server_accept plain_lib plain_fmt ?c (Server_new example_world) = (r, s')" by fastforce
  have "fst (recv_loop (replicate 1024 0) 0 [1, 2, 3] [Deliver 3 False, Deliver 3 False]) = Err EofDuringHandshake"
    by (simp add: recv_loop.simps usize_checked_add_def Let_def)
  then have "r = Err EofDuringHandshake"
    using run by (auto simp: Server_accept_def handle_logon_def recv_logon_def fails_with_def p_bind_def comp_unfold
        Server_new_def reject_def Let_def split: prod.splits outcome.splits)
  then show ?thesis
    using accept_withstands [OF plain_laws _ _ _ run] run by (simp add: Server_new_def)
qed

theorem accept_ends_witness:
  "Server_accept plain_lib plain_fmt \<lparr>co_accept = None, co_incoming = [1, 2, 3],
       co_reads = replicate 4 (Deliver 1 False) @ [Fail (OsError 4)],
       co_send = None, co_nonblocking = None, co_write = Ok 300\<rparr> (Server_new example_world)
   = Server_accept plain_lib plain_fmt \<lparr>co_accept = None, co_incoming = [1, 2, 3],
       co_reads = replicate 4 (Deliver 1 False),
       co_send = None, co_nonblocking = None, co_write = Ok 300\<rparr> (Server_new example_world)"
  using accept_ends [of "Server_new example_world" "\<lparr>co_accept = None, co_incoming = [1, 2, 3], co_reads = [],
       co_send = None, co_nonblocking = None, co_write = Ok 300\<rparr>" "replicate 4 (Deliver 1 False)" plain_lib plain_fmt
       "[Fail (OsError 4)]"]
  by (simp add: Server_new_def)

section \<open>The whole handshake\<close>

text \<open>The server, with what is in its buffer, as the peer of the client; a connection on which nothing fails.\<close>

definition server_at :: "bytes \<Rightarrow> 'f shm_world \<Rightarrow> 'f server" where
  "server_at buffer w = \<lparr>sv_buffer = buffer, sv_shm = w, sv_reply = ([], [])\<rparr>"

definition server_peer :: "'f shmem_lib \<Rightarrow> wrapped_fmt \<Rightarrow> conn \<Rightarrow> bytes \<Rightarrow> 'f peer" where
  "server_peer lib fmt stream buffer =
     \<lparr>pe_connect = None, pe_write = None,
      pe_answer = (\<lambda>sent w. case Server_accept lib fmt (stream\<lparr>co_incoming := sent\<rparr>) (server_at buffer w) of
                     (_, s) \<Rightarrow> (Ok (sv_reply s), sv_shm s))\<rparr>"

definition reliable :: "conn \<Rightarrow> bool" where
  "reliable stream \<longleftrightarrow> co_accept stream = None \<and> timely (co_reads stream) \<and> 1024 \<le> capacity_of (co_reads stream)
     \<and> co_send stream = None \<and> co_nonblocking stream = None \<and> (\<exists>n. co_write stream = Ok n \<and> 257 \<le> n)"

text \<open>What the client is told of an error: the first 255 bytes of its text.\<close>

definition shown :: "wrapped_fmt \<Rightarrow> AgaveHandshakeError \<Rightarrow> str" where
  "shown fmt e = from_utf8_lossy (take 255 (as_bytes (agave_error_fmt fmt e)))"

lemma reject_shown:
  assumes "reliable stream"
  shows "\<exists>s'. reject fmt stream e s = (Err e, s') \<and> sv_shm s' = sv_shm s
    \<and> recv_response (sv_reply s') = Err (Rejected (shown fmt e))"
proof -
  define reason where "reason = as_bytes (agave_error_fmt fmt e)"
  define n where "n = u8_try_from_or_max (length reason)"
  obtain k where k: "co_write stream = Ok k" "257 \<le> k" using assms by (auto simp: reliable_def)
  have n: "n \<le> 255" "n \<le> length reason" "take n reason = take 255 reason" "unat (of_nat n :: u8) = n"
    by (auto simp: n_def u8_try_from_or_max_def unat_of_nat_u8)
  let ?msg = "LOGON_FAILURE # of_nat n # take n reason"
  have "min k (Suc (Suc n)) = Suc (Suc n)" using n(1) k(2) by simp
  then have "reject fmt stream e s = (Err e, s\<lparr>sv_buffer := ?msg @ drop (2 + n) (sv_buffer s), sv_reply := (?msg, [])\<rparr>)"
    using assms k n(2) by (simp add: reject_def reason_def [symmetric] n_def [symmetric] Let_def p_bind_def comp_unfold
        fails_with_def reliable_def)
  moreover have "recv_response (?msg, []) = Err (Rejected (shown fmt e))"
    using n by (simp add: recv_response_def shown_def reason_def Let_def)
  ultimately show ?thesis by simp
qed

lemma accept_reads:
  assumes "reliable stream" "logon_in_range l" "length (sv_buffer s) = 1024" "co_incoming stream = send_logon l v"
  shows "Server_accept lib fmt stream s =
    (let s1 = s\<lparr>sv_buffer := send_logon l v\<rparr> in
     if v \<noteq> ProtocolVersions_current lib then reject fmt stream (Version (ProtocolVersions_current lib) v) s1
     else case Server_setup_session lib l (sv_shm s) of
       (Ok (session, files), w) \<Rightarrow> (Ok session, s1\<lparr>sv_shm := w, sv_reply := ([LOGON_SUCCESS], [ScmRights files])\<rparr>)
     | (Err e, w) \<Rightarrow> reject fmt stream e (s1\<lparr>sv_shm := w\<rparr>)
     | (Panic, w) \<Rightarrow> (Panic, s1\<lparr>sv_shm := w\<rparr>)
     | (UB, w) \<Rightarrow> (UB, s1\<lparr>sv_shm := w\<rparr>))"
proof -
  have "recv_logon lib stream s = (if v = ProtocolVersions_current lib then Ok l
      else Err (Version (ProtocolVersions_current lib) v), s\<lparr>sv_buffer := send_logon l v\<rparr>)"
    using recv_logon_reads [OF assms(2-4)] assms(1) by (simp add: reliable_def)
  then show ?thesis
    using assms(1) by (auto simp: Server_accept_def handle_logon_def on_shm_def p_bind_def comp_unfold fails_with_def
        reliable_def Let_def split: prod.splits outcome.splits)
qed

lemma session_files_fit: "session_shape l s \<Longrightarrow> logon_valid lib l \<Longrightarrow> length (session_files s) \<le> CMSG_MAX_FDS"
  by (auto simp: session_files_def length_worker_files length_shared_files session_shape_def logon_valid_def
      CMSG_MAX_FDS_def GLOBAL_SHMEM_def MAX_WORKERS_def WORKER_SHMEM_def CHECK_SHMEM_def SIMULATE_SHMEM_def)

text \<open>
  C33. The handshake refines setting up a local session. On a connection that fails nowhere, however it
  cuts the messages and whatever the server's buffer held, the server and the client end as the two halves of
  \<open>setup_local_session\<close> on the same logon would: both with the paired sessions, or the server with its error
  and the client rejected with the first 255 bytes of that error's text. When the versions differ, the
  server reports both, the client is told so, and no shared memory is made. The client never panics and
  all files fit its control buffer.
\<close>

theorem handshake_agrees:
  assumes "shmem_laws lib" "shmem_total lib" "logon_in_range l" "length buffer = 1024" "reliable stream"
    and server: "Server_accept lib fmt (stream\<lparr>co_incoming := send_logon l v\<rparr>) (server_at buffer w) = (r, s')"
    and client: "connect_path lib (server_peer lib fmt stream buffer) l v w = (q, w')"
  shows "if v \<noteq> ProtocolVersions_current lib then
      r = Err (Version (ProtocolVersions_current lib) v)
      \<and> q = Err (Rejected (shown fmt (Version (ProtocolVersions_current lib) v))) \<and> w' = w
    else case setup_local_session lib l w of
        (Ok (session, client), w1) \<Rightarrow> r = Ok session \<and> q = Ok client \<and> w' = w1
      | (Err (ServerError e), w1) \<Rightarrow> r = Err e \<and> q = Err (Rejected (shown fmt e)) \<and> w' = w1
      | _ \<Rightarrow> False"
proof -
  let ?c = "stream\<lparr>co_incoming := send_logon l v\<rparr>"
  have rel: "reliable ?c" using assms(5) by (simp add: reliable_def)
  have "length (sv_buffer (server_at buffer w)) = 1024" using assms(4) by (simp add: server_at_def)
  note accept = accept_reads [OF rel assms(3) this, of v lib fmt, simplified, unfolded server]
  have run: "connect_path lib (server_peer lib fmt stream buffer) l v w =
      p_bind (p_lift (recv_response (sv_reply s'))) (client_setup_session lib l) (sv_shm s')"
    using server by (simp add: connect_path_def server_peer_def fails_with_def p_bind_def comp_unfold shm_map_err_def)
  have told: "r = Err e \<and> q = Err (Rejected (shown fmt e)) \<and> w' = sv_shm s1"
    if "(r, s') = reject fmt ?c e s1" for e and s1 :: "'a server"
    using reject_shown [OF rel, of fmt e s1] that client run by (auto simp: p_bind_def p_lift_def)
  show ?thesis
  proof (cases "v = ProtocolVersions_current lib")
    case False
    then show ?thesis using told accept by (simp add: Let_def server_at_def)
  next
    case True
    obtain p w1 where p: "Server_setup_session lib l w = (p, w1)" by fastforce
    have "no_fault p" using Server_setup_session_no_fault [OF assms(1,2), of l w] p by simp
    then consider session files where "p = Ok (session, files)" | e where "p = Err e" by (cases p) auto
    then show ?thesis
    proof cases
      case 1
      with Server_setup_session_stored [OF assms(1)] p
      have fit: "length files \<le> CMSG_MAX_FDS" using session_files_fit by blast
      have "r = Ok session" "sv_shm s' = w1" "sv_reply s' = ([LOGON_SUCCESS], [ScmRights files])"
        using accept True p 1 by (simp_all add: Let_def server_at_def)
      then have r: "r = Ok session" and c: "client_setup_session lib l files w1 = (q, w')"
        using run client fit
        by (auto simp: recv_response_def p_bind_def p_lift_def LOGON_SUCCESS_def LOGON_FAILURE_def)
      obtain x w2 where local: "setup_local_session lib l w = (x, w2)" by fastforce
      have "x = result_map_err ClientError (case q of Ok c \<Rightarrow> Ok (session, c) | Err e \<Rightarrow> Err e | Panic \<Rightarrow> Panic | UB \<Rightarrow> UB)"
        "w2 = w'"
        using local p 1 c by (cases q; auto simp: setup_local_session_def p_bind_def shm_map_err_def p_return_def)+
      with local_session_cases [OF assms(1,2) local] r True local show ?thesis by (cases q) auto
    next
      case 2
      then have "setup_local_session lib l w = (Err (ServerError e), w1)"
        using p by (simp add: setup_local_session_def p_bind_def shm_map_err_def)
      then show ?thesis using told accept True p 2 by (simp add: Let_def server_at_def)
    qed
  qed
qed

lemma example_in_range: "logon_in_range example_logon"
  by (simp add: logon_in_range_def logon_fields_def example_logon_def)

theorem handshake_agrees_witness:
  "\<exists>stream session s' w'.
     Server_accept plain_lib plain_fmt
         (stream\<lparr>co_incoming := send_logon example_logon (ProtocolVersions_current plain_lib)\<rparr>)
         (server_at (replicate 1024 9) example_world) = (Ok session, s')
     \<and> connect_path plain_lib (server_peer plain_lib plain_fmt stream (replicate 1024 9)) example_logon
         (ProtocolVersions_current plain_lib) example_world = (Ok (client_session session), w')"
proof -
  define stream where "stream = \<lparr>co_accept = None, co_incoming = [], co_reads = [Deliver 1000 False, Deliver 100 False],
    co_send = None, co_nonblocking = None, co_write = Ok 300\<rparr>"
  have rel: "reliable stream" by (simp add: reliable_def stream_def timely_def capacity_of_def)
  let ?v = "ProtocolVersions_current plain_lib"
  let ?b = "replicate 1024 9 :: bytes"
  obtain r s' where server: "Server_accept plain_lib plain_fmt (stream\<lparr>co_incoming := send_logon example_logon ?v\<rparr>)
      (server_at ?b example_world) = (r, s')" by fastforce
  obtain q w' where client: "connect_path plain_lib (server_peer plain_lib plain_fmt stream ?b) example_logon ?v
      example_world = (q, w')" by fastforce
  obtain session w1 where "setup_local_session plain_lib example_logon example_world
      = (Ok (session, client_session session), w1)" using example_local by blast
  with handshake_agrees [OF plain_laws example_in_range _ rel server client]
  have "r = Ok session" "q = Ok (client_session session)" by simp_all
  with server client show ?thesis by blast
qed

section \<open>The reasons arrive whole\<close>

lemma fmt_nat_length: "n < 10 ^ Suc k \<Longrightarrow> length (fmt_nat n) \<le> Suc k"
proof (induction k arbitrary: n)
  case 0
  then show ?case by (simp add: fmt_nat.simps)
next
  case (Suc k)
  then have "n div 10 < 10 ^ Suc k" by (simp add: less_mult_imp_div_less)
  from Suc.IH [OF this] show ?case by (subst fmt_nat.simps) simp
qed

lemma fmt_nat_ascii: "list_all (\<lambda>c. c < 0x80) (fmt_nat n)"
proof (induction n rule: fmt_nat.induct)
  case (1 n)
  have "48 + n mod 10 < (0x80 :: nat)" by (rule order_less_trans [of _ 58]) simp_all
  with 1 show ?case by (subst fmt_nat.simps) simp
qed

lemma ascii_bytes: "list_all (\<lambda>c. c < 0x80) s \<Longrightarrow> length (as_bytes s) = length s \<and> list_all scalar s"
  by (induction s) (auto simp: utf8_char_def scalar_def)

text \<open>The errors whose text the crate words itself.\<close>

fun own_error :: "'f shmem_lib \<Rightarrow> ClientLogon \<Rightarrow> AgaveHandshakeError \<Rightarrow> bool" where
  "own_error lib l (Version server client) \<longleftrightarrow> server = ProtocolVersions_current lib"
| "own_error lib l Timeout \<longleftrightarrow> True"
| "own_error lib l EofDuringHandshake \<longleftrightarrow> True"
| "own_error lib l (AgaveIo e) \<longleftrightarrow> False"
| "own_error lib l (AgaveRtsAlloc e) \<longleftrightarrow> False"
| "own_error lib l (AgaveShaq e) \<longleftrightarrow> False"
| "own_error lib l e \<longleftrightarrow> blames lib l e"

lemma usize_digits: "n \<le> USIZE_MAX \<Longrightarrow> length (fmt_nat n) \<le> 20"
  using fmt_nat_length [of n 19] by simp

lemma u64_digits: "length (fmt_nat (unat (x :: u64))) \<le> 20"
  using unsigned_less [of x, where 'a = nat] by (intro usize_digits) simp

lemma u32_digits: "length (fmt_nat (unat (ucast (x :: u32) :: u64))) \<le> 10"
proof -
  have "unat (ucast x :: u64) < 2 ^ 32" using unsigned_less [of x, where 'a = nat] by (simp add: unsigned_ucast_eq take_bit_nat_eq_self)
  then show ?thesis using fmt_nat_length [of "unat (ucast x :: u64)" 9] by simp
qed

lemma versions_fmt_short: "length (versions_fmt v) \<le> 130 \<and> list_all (\<lambda>c. c < 0x80) (versions_fmt v)"
  using u64_digits [of "pv_handshake v"] u64_digits [of "pv_scheduler_bindings v"] u64_digits [of "pv_shaq v"]
    u64_digits [of "pv_rts_alloc v"]
  by (simp add: versions_fmt_def str_lit_def fmt_nat_ascii)

lemma current_fmt_short: "length (versions_fmt (ProtocolVersions_current lib)) \<le> 73"
  using u32_digits [of "shaq_VERSION lib"] u32_digits [of "rts_alloc_VERSION lib"]
  by (simp add: versions_fmt_def ProtocolVersions_current_def handshake_version_def scheduler_bindings_version_def
      str_lit_def fmt_nat.simps)

lemma logon_queue_names:
  assumes "(field, n, minimum, p) \<in> set (logon_queues lib l)" "logon_in_range l"
  shows "length field \<le> 32 \<and> list_all (\<lambda>c. c < 0x80) field \<and> n \<le> USIZE_MAX"
  using assms by (auto simp: logon_queues_def logon_in_range_def logon_fields_def str_lit_def split: if_splits)

lemma own_error_short:
  assumes "own_error lib l e" "logon_in_range l"
  shows "length (agave_error_fmt fmt e) \<le> 255 \<and> list_all (\<lambda>c. c < 0x80) (agave_error_fmt fmt e)"
proof (cases e)
  case (Version server client)
  then show ?thesis
    using assms(1) versions_fmt_short [of client] versions_fmt_short [of server] current_fmt_short [of lib]
    by (simp add: str_lit_def)
next
  case (QueueCapacity field n)
  then obtain minimum p where "(field, n, minimum, p) \<in> set (logon_queues lib l)" using assms(1) by auto
  from logon_queue_names [OF this assms(2)] usize_digits [of n] show ?thesis
    using QueueCapacity by (simp add: str_lit_def fmt_nat_ascii)
qed (use assms in \<open>auto simp: str_lit_def fmt_nat_ascii logon_in_range_def logon_fields_def
      intro: order_trans [OF usize_digits]\<close>)

text \<open>
  C37. The reasons of the crate arrive whole. A rejection whose text the crate words itself (a version
  mismatch, a late or closed connection, a field of the logon out of its limits) is ASCII and at most 255 bytes
  long, whatever the numbers in it, so the client reports exactly the server's text. Longer texts of the
  libraries are cut; any text of at most 255 bytes arrives whole, also when it is not ASCII.
\<close>

theorem reason_arrives_whole:
  assumes "own_error lib l e \<and> logon_in_range l
    \<or> list_all scalar (agave_error_fmt fmt e) \<and> str_len (agave_error_fmt fmt e) \<le> 255"
  shows "shown fmt e = agave_error_fmt fmt e"
proof -
  have "list_all scalar (agave_error_fmt fmt e) \<and> str_len (agave_error_fmt fmt e) \<le> 255"
    using assms own_error_short [of lib l e fmt] ascii_bytes [of "agave_error_fmt fmt e"] by (auto simp: str_len_def)
  then show ?thesis by (simp add: shown_def str_len_def from_utf8_lossy_as_bytes)
qed

theorem reason_arrives_whole_witness:
  "shown plain_fmt (WorkerCount 65) = str_lit ''Worker count; count=65''"
proof -
  have "own_error plain_lib (example_logon\<lparr>worker_count := 65\<rparr>) (WorkerCount 65)"
    "logon_in_range (example_logon\<lparr>worker_count := 65\<rparr>)"
    by (simp_all add: logon_in_range_def logon_fields_def example_logon_def)
  then have "shown plain_fmt (WorkerCount 65) = agave_error_fmt plain_fmt (WorkerCount 65)"
    using reason_arrives_whole by blast
  then show ?thesis by (simp add: fmt_nat.simps str_lit_def)
qed

end
