(* ===== verification/Handshake_Shm_Open.thy ===== *)
theory Handshake_Shm_Open
  imports Handshake_Session
begin

text \<open>
  Shared memory on systems without \<open>memfd_create\<close> (the second \<open>create_shmem\<close> of
  \<open>scheduler-handshake/src/server.rs\<close>): an object is created under a name that every process of the system can
  use, and the name is removed again. Other processes may use the name between any two calls.
\<close>

definition SHMEM_NAME :: str where "SHMEM_NAME = str_lit ''/agave-scheduler-bindings''"

text \<open>What another process may do with the name: remove it, or create an object under it.\<close>

datatype other_process = OtherUnlink | OtherOpen

text \<open>
  The objects, the names, and for each coming call what other processes do just before it and whether the
  operating system refuses it. A missing name is error 2, an existing one error 17.
\<close>

record 'f posix_world =
  px_shm :: "'f shm_world"
  px_names :: "str \<rightharpoonup> nat"
  px_calls :: "(other_process list \<times> socket_error option) list"

type_synonym ('f, 'e, 'a) posix = "('f posix_world, 'e, 'a) comp"

definition new_object :: "str \<Rightarrow> 'f posix_world \<Rightarrow> 'f posix_world" where
  "new_object name w =
     (let m = px_shm w; i = sm_next m in
      w\<lparr>px_shm := m\<lparr>sm_files := (sm_files m)(i \<mapsto> None), sm_next := Suc i\<rparr>, px_names := (px_names w)(name \<mapsto> i)\<rparr>)"

fun other_step :: "str \<Rightarrow> other_process \<Rightarrow> 'f posix_world \<Rightarrow> 'f posix_world" where
  "other_step name OtherUnlink w = w\<lparr>px_names := (px_names w)(name := None)\<rparr>"
| "other_step name OtherOpen w = (if px_names w name = None then new_object name w else w)"

definition posix_call :: "('f, socket_error, 'a) posix \<Rightarrow> ('f, socket_error, 'a) posix" where
  "posix_call f w =
     (case px_calls w of
        [] \<Rightarrow> f w
      | (others, fault) # calls \<Rightarrow>
          let w' = fold (other_step SHMEM_NAME) others (w\<lparr>px_calls := calls\<rparr>) in
          (case fault of Some e \<Rightarrow> (Err e, w') | None \<Rightarrow> f w'))"

definition shm_unlink :: "str \<Rightarrow> ('f, socket_error, unit) posix" where
  "shm_unlink name = posix_call (\<lambda>w.
     if px_names w name = None then (Err (OsError 2), w) else (Ok (), w\<lparr>px_names := (px_names w)(name := None)\<rparr>))"

text \<open>\<open>O_CREAT | O_EXCL\<close>: the object is new.\<close>

definition shm_open :: "str \<Rightarrow> ('f, socket_error, nat) posix" where
  "shm_open name = posix_call (\<lambda>w.
     if px_names w name \<noteq> None then (Err (OsError 17), w) else (Ok (sm_next (px_shm w)), new_object name w))"

definition is_not_found :: "socket_error \<Rightarrow> bool" where
  "is_not_found e \<longleftrightarrow> e = OsError 2"

text \<open>Cleaning up a previous link, if there is one.\<close>

definition clean_up_link :: "('f, socket_error, unit) posix" where
  "clean_up_link w =
     (case shm_unlink SHMEM_NAME w of
        (Err err, w') \<Rightarrow> if is_not_found err then (Ok (), w') else (Err err, w')
      | (r, w') \<Rightarrow> (r, w'))"

definition create_shmem_named :: "PageSize \<Rightarrow> ('f, socket_error, nat) posix" where
  "create_shmem_named page_size =
     (case page_size of
        Huge \<Rightarrow> p_lift (Err Unsupported)
      | Standard \<Rightarrow>
          p_bind clean_up_link (\<lambda>_.
          p_bind (shm_open SHMEM_NAME) (\<lambda>file.
          p_bind (shm_unlink SHMEM_NAME) (\<lambda>_.
          p_return file))))"

section \<open>What the calls leave alone\<close>

text \<open>Objects are only added.\<close>

definition objects_kept :: "'f posix_world \<Rightarrow> 'f posix_world \<Rightarrow> bool" where
  "objects_kept w w' \<longleftrightarrow> sm_next (px_shm w) \<le> sm_next (px_shm w')
     \<and> (\<forall>i < sm_next (px_shm w). sm_files (px_shm w') i = sm_files (px_shm w) i)"

lemma objects_kept_refl [simp]: "objects_kept w w"
  by (simp add: objects_kept_def)

lemma objects_kept_trans: "objects_kept w w1 \<Longrightarrow> objects_kept w1 w2 \<Longrightarrow> objects_kept w w2"
  unfolding objects_kept_def by (auto intro: order_trans)

lemma objects_kept_new: "objects_kept w (new_object name w)"
  by (simp add: objects_kept_def new_object_def Let_def)

lemma objects_kept_names [simp]:
  "objects_kept w (w1\<lparr>px_names := n\<rparr>) = objects_kept w w1" "objects_kept w (w1\<lparr>px_calls := c\<rparr>) = objects_kept w w1"
  "objects_kept (w\<lparr>px_calls := c\<rparr>) w1 = objects_kept w w1"
  by (simp_all add: objects_kept_def)

lemma objects_kept_others: "objects_kept w (fold (other_step name) others w)"
proof (induction others arbitrary: w)
  case (Cons x others)
  have "objects_kept w (other_step name x w)" by (cases x) (auto intro: objects_kept_new)
  from objects_kept_trans [OF this Cons] show ?case by simp
qed simp

lemma posix_call_kept:
  assumes "posix_call f w = (r, w')" "\<And>w r w'. f w = (r, w') \<Longrightarrow> objects_kept w w'"
  shows "objects_kept w w'"
proof (cases "px_calls w")
  case Nil
  then show ?thesis using assms by (simp add: posix_call_def)
next
  case (Cons x calls)
  obtain others fault where x: "x = (others, fault)" by (cases x)
  let ?w = "fold (other_step SHMEM_NAME) others (w\<lparr>px_calls := calls\<rparr>)"
  have w: "objects_kept w ?w" using objects_kept_others [of "w\<lparr>px_calls := calls\<rparr>"] by simp
  show ?thesis
    using assms objects_kept_trans [OF w, of w'] w Cons x by (cases fault) (auto simp: posix_call_def Let_def)
qed

lemma shm_unlink_kept: "shm_unlink name w = (r, w') \<Longrightarrow> objects_kept w w'"
  unfolding shm_unlink_def by (erule posix_call_kept) (auto split: if_splits)

lemma shm_open_kept: "shm_open name w = (r, w') \<Longrightarrow> objects_kept w w'"
  unfolding shm_open_def by (erule posix_call_kept) (auto intro: objects_kept_new split: if_splits)

lemma clean_up_link_kept: "clean_up_link w = (r, w') \<Longrightarrow> objects_kept w w'"
  by (auto simp: clean_up_link_def split: prod.splits outcome.splits if_splits dest: shm_unlink_kept)

lemma posix_call_fresh:
  assumes "shm_open name w = (Ok i, w')"
  shows "sm_next (px_shm w) \<le> i" "i < sm_next (px_shm w')" "sm_files (px_shm w') i = Some None"
proof -
  obtain w1 where w1: "objects_kept w w1" "i = sm_next (px_shm w1)" "w' = new_object name w1"
  proof (cases "px_calls w")
    case Nil
    then show thesis using that [of w] assms by (auto simp: shm_open_def posix_call_def split: if_splits)
  next
    case (Cons x calls)
    obtain others fault where x: "x = (others, fault)" by (cases x)
    let ?w = "fold (other_step SHMEM_NAME) others (w\<lparr>px_calls := calls\<rparr>)"
    have "objects_kept w ?w" using objects_kept_others [of "w\<lparr>px_calls := calls\<rparr>"] by simp
    then show thesis using that [of ?w] assms Cons x
      by (auto simp: shm_open_def posix_call_def Let_def split: if_splits option.splits)
  qed
  then show "sm_next (px_shm w) \<le> i" "i < sm_next (px_shm w')" "sm_files (px_shm w') i = Some None"
    by (simp_all add: objects_kept_def new_object_def Let_def)
qed

lemma shm_unlink_Ok: "shm_unlink SHMEM_NAME w = (Ok u, w') \<Longrightarrow> px_names w' SHMEM_NAME = None"
  by (auto simp: shm_unlink_def posix_call_def Let_def split: list.splits option.splits if_splits prod.splits)

section \<open>The object is private\<close>

text \<open>
  Whatever other processes do with the name and whichever call fails: the objects that exist keep their
  contents; an object that is returned is new and empty, never one that a previous server left under the name
  or another process made, and the name is gone again, so nobody can open it later.
\<close>

lemma create_shmem_named_private:
  assumes "create_shmem_named page_size w = (r, w')"
  shows "objects_kept w w'"
    "r = Ok i \<Longrightarrow> sm_next (px_shm w) \<le> i \<and> i < sm_next (px_shm w') \<and> sm_files (px_shm w') i = Some None
       \<and> px_names w' SHMEM_NAME = None \<and> page_size = Standard"
proof -
  obtain r1 w1 where l: "clean_up_link w = (r1, w1)" by fastforce
  obtain r2 w2 where o: "shm_open SHMEM_NAME w1 = (r2, w2)" by fastforce
  obtain r3 w3 where u: "shm_unlink SHMEM_NAME w2 = (r3, w3)" by fastforce
  note kept = clean_up_link_kept [OF l] shm_open_kept [OF o] shm_unlink_kept [OF u]
  note run = assms [unfolded create_shmem_named_def p_bind_def comp_unfold]
  show "objects_kept w w'"
    using run l o u kept by (cases page_size; cases r1; cases r2; cases r3) (auto intro: objects_kept_trans)
  assume r: "r = Ok i"
  then have ok: "page_size = Standard" "r2 = Ok i" "\<exists>x. r3 = Ok x" "w' = w3"
    using run l o u by (cases page_size; cases r1; cases r2; cases r3; simp)+
  with posix_call_fresh [of SHMEM_NAME w1 i w2] o u kept shm_unlink_Ok [of w2]
  show "sm_next (px_shm w) \<le> i \<and> i < sm_next (px_shm w') \<and> sm_files (px_shm w') i = Some None
       \<and> px_names w' SHMEM_NAME = None \<and> page_size = Standard"
    unfolding objects_kept_def by auto
qed

text \<open>
  Left alone, the function is \<open>create_shmem\<close> on a system without huge pages, whether or not a previous server
  left an object under the name; so every session that can be set up with \<open>memfd_create\<close> can be set up here.
\<close>

lemma create_shmem_named_refines:
  assumes "px_calls w = []"
  shows "create_shmem page_size ((px_shm w)\<lparr>sm_faults := [if page_size = Huge then Some Unsupported else None]\<rparr>)
    = (case create_shmem_named page_size w of (r, w') \<Rightarrow> (r, (px_shm w')\<lparr>sm_faults := []\<rparr>))"
    "px_calls (snd (create_shmem_named page_size w)) = []"
    "page_size = Standard \<Longrightarrow> fst (create_shmem_named page_size w) = Ok (sm_next (px_shm w))"
  using assms by (cases page_size; cases "px_names w SHMEM_NAME";
      simp add: create_shmem_named_def create_shmem_def clean_up_link_def shm_unlink_def shm_open_def posix_call_def
        p_bind_def comp_unfold new_object_def is_not_found_def Let_def)+

text \<open>
  The name is shared, so servers that start at the same time can make each other fail: one that creates its
  object just before the other's \<open>shm_open\<close> makes that call fail, and one that cleans up just before the
  other's last \<open>shm_unlink\<close> makes the other return an error although its object was created.
\<close>

lemma create_shmem_named_races:
  assumes "px_names w SHMEM_NAME = None"
  shows "px_calls w = [([], None), ([OtherOpen], None)] \<Longrightarrow> fst (create_shmem_named Standard w) = Err (OsError 17)"
    "px_calls w = [([], None), ([], None), ([OtherUnlink], None)] \<Longrightarrow>
       fst (create_shmem_named Standard w) = Err (OsError 2)"
  using assms by (simp_all add: create_shmem_named_def clean_up_link_def shm_unlink_def shm_open_def posix_call_def
        p_bind_def comp_unfold new_object_def is_not_found_def Let_def)

end
