(* ===== verification/Geyser_Plugin.thy ===== *)
theory Geyser_Plugin
  imports Rust_Strings
begin

text \<open>
  The interface between the validator and its Geyser plugins (\<open>geyser-plugin-interface/src/\<close>): the data the
  validator hands over, the \<open>GeyserPlugin\<close> trait with its default methods, and what a plugin that implements
  only part of the trait observes. A plugin is the record of the methods it overrides; a callback takes the
  plugin by shared reference, so what it changes (behind a lock, as in the crate's own test) is a state the
  callback is given and returns. Types of published crates that only pass through are left open.
\<close>

section \<open>Types of other crates\<close>

type_synonym Slot = u64
type_synonym BankId = u64
type_synonym UnixTimestamp = "64 word"
type_synonym Signature = bytes
type_synonym Hash = bytes
type_synonym Pubkey = bytes

typedecl SanitizedTransaction
typedecl VersionedTransaction
typedecl LoadedAddresses
typedecl CompiledInstruction
typedecl TransactionError
typedecl RewardType
typedecl SocketAddr
typedecl SignatureCompressed
typedecl f64
typedecl io_Error
typedecl dyn_Error
typedecl dyn_Log
typedecl LevelFilter

section \<open>Block footers\<close>

record VotesAggregate =
  va_signature :: SignatureCompressed
  va_bitmap :: bytes

record BlockFinalizationCert =
  bfc_slot :: Slot
  bfc_block_id :: Hash
  bfc_final_aggregate :: VotesAggregate
  bfc_notar_aggregate :: "VotesAggregate option"

record SkipRewardCertificate =
  src_slot :: Slot
  src_signature :: SignatureCompressed
  src_bitmap :: bytes

record NotarRewardCertificate =
  nrc_slot :: Slot
  nrc_block_id :: Hash
  nrc_signature :: SignatureCompressed
  nrc_bitmap :: bytes

record BlockFooterV1 =
  bf_bank_hash :: Hash
  bf_block_producer_time_nanos :: u64
  bf_block_user_agent :: bytes
  bf_block_final_cert :: "BlockFinalizationCert option"
  bf_skip_reward_cert :: "SkipRewardCertificate option"
  bf_notar_reward_cert :: "NotarRewardCertificate option"

datatype VersionedBlockFooter = FooterV1 BlockFooterV1

section \<open>Transaction status\<close>

record UiTokenAmount =
  ui_amount :: "f64 option"
  ui_decimals :: u8
  ui_raw_amount :: str
  ui_amount_string :: str

record TransactionTokenBalance =
  ttb_account_index :: u8
  ttb_mint :: str
  ttb_ui_token_amount :: UiTokenAmount
  ttb_owner :: str
  ttb_program_id :: str

record InnerInstruction =
  ii_instruction :: CompiledInstruction
  ii_stack_height :: "u32 option"

record InnerInstructions =
  iis_index :: u8
  iis_instructions :: "InnerInstruction list"

record Reward =
  rw_pubkey :: str
  rw_lamports :: "64 word"
  rw_post_balance :: u64
  rw_reward_type :: "RewardType option"
  rw_commission :: "u8 option"
  rw_commission_bps :: "u16 option"

record RewardsAndNumPartitions =
  rnp_rewards :: "Reward list"
  rnp_num_partitions :: "u64 option"

record TransactionReturnData =
  trd_program_id :: Pubkey
  trd_data :: bytes

record TransactionStatusMeta =
  tsm_status :: "TransactionError + unit"
  tsm_fee :: u64
  tsm_pre_balances :: "u64 list"
  tsm_post_balances :: "u64 list"
  tsm_inner_instructions :: "InnerInstructions list option"
  tsm_log_messages :: "str list option"
  tsm_pre_token_balances :: "TransactionTokenBalance list option"
  tsm_post_token_balances :: "TransactionTokenBalance list option"
  tsm_rewards :: "Reward list option"
  tsm_loaded_addresses :: LoadedAddresses
  tsm_return_data :: "TransactionReturnData option"
  tsm_compute_units_consumed :: "u64 option"
  tsm_cost_units :: "u64 option"

section \<open>What a plugin is told\<close>

text \<open>
  The versions of a structure differ by the fields added at the end, except that the fifth account structure
  has lost \<open>rent_epoch\<close>. The enumerations of versions are \<open>repr(u32)\<close>; where versions have been retired the
  discriminant of the first one left is given explicitly.
\<close>

record ReplicaAccountInfo =
  ai_pubkey :: bytes
  ai_lamports :: u64
  ai_owner :: bytes
  ai_executable :: bool
  ai_rent_epoch :: u64
  ai_data :: bytes
  ai_write_version :: u64

record ReplicaAccountInfoV2 = ReplicaAccountInfo +
  ai_txn_signature :: "Signature option"

record ReplicaAccountInfoV3 = ReplicaAccountInfo +
  ai_txn :: "SanitizedTransaction option"

record ReplicaAccountInfoV4 = ReplicaAccountInfoV3 +
  ai_txn_index :: "usize option"

record ReplicaAccountInfoV5 =
  ai5_pubkey :: bytes
  ai5_lamports :: u64
  ai5_owner :: bytes
  ai5_executable :: bool
  ai5_data :: bytes
  ai5_write_version :: u64
  ai5_txn :: "SanitizedTransaction option"
  ai5_txn_index :: "usize option"

datatype ReplicaAccountInfoVersions =
    Account_V0_0_1 ReplicaAccountInfo | Account_V0_0_2 ReplicaAccountInfoV2
  | Account_V0_0_3 ReplicaAccountInfoV3 | Account_V0_0_4 ReplicaAccountInfoV4
  | Account_V0_0_5 ReplicaAccountInfoV5

record ReplicaTransactionInfoV4 =
  ti_signature :: Signature
  ti_message_hash :: Hash
  ti_is_vote :: bool
  ti_transaction :: VersionedTransaction
  ti_transaction_status_meta :: TransactionStatusMeta
  ti_index :: usize

datatype ReplicaTransactionInfoVersions = Transaction_V0_0_4 ReplicaTransactionInfoV4

record ReplicaDeshredTransactionInfo =
  dt_signature :: Signature
  dt_is_vote :: bool
  dt_transaction :: VersionedTransaction
  dt_loaded_addresses :: "LoadedAddresses option"

record ReplicaDeshredTransactionInfoV2 = ReplicaDeshredTransactionInfo +
  dt_completed_data_set_starting_shred_index :: u32
  dt_completed_data_set_ending_shred_index_exclusive :: u32

datatype ReplicaDeshredTransactionInfoVersions =
    Deshred_V0_0_1 ReplicaDeshredTransactionInfo | Deshred_V0_0_2 ReplicaDeshredTransactionInfoV2

record ReplicaEntryInfo =
  ei_slot :: Slot
  ei_index :: usize
  ei_num_hashes :: u64
  ei_hash :: bytes
  ei_executed_transaction_count :: u64

record ReplicaEntryInfoV2 = ReplicaEntryInfo +
  ei_starting_transaction_index :: usize

datatype ReplicaEntryInfoVersions = Entry_V0_0_1 ReplicaEntryInfo | Entry_V0_0_2 ReplicaEntryInfoV2

record ReplicaEntryUpdateParentInfo =
  eu_slot :: Slot
  eu_cleared_bank_id :: BankId
  eu_parent_slot :: Slot
  eu_parent_block_id :: Hash

datatype ReplicaEntryUpdateParentInfoVersions = EntryUpdateParent_V0_0_1 ReplicaEntryUpdateParentInfo

record ReplicaDeshredUpdateParentInfo =
  du_slot :: Slot
  du_update_parent_fec_set_index :: u32
  du_parent_slot :: Slot
  du_parent_block_id :: Hash

datatype ReplicaDeshredUpdateParentInfoVersions = DeshredUpdateParent_V0_0_1 ReplicaDeshredUpdateParentInfo

record ReplicaBlockFooterInfo =
  fi_slot :: Slot
  fi_block_footer :: VersionedBlockFooter

datatype ReplicaBlockFooterInfoVersions = BlockFooter_V0_0_2 ReplicaBlockFooterInfo

record ReplicaBlockInfoV5 =
  bi_parent_slot :: Slot
  bi_parent_blockhash :: str
  bi_slot :: Slot
  bi_blockhash :: str
  bi_rewards :: RewardsAndNumPartitions
  bi_block_time :: "UnixTimestamp option"
  bi_block_height :: "u64 option"
  bi_executed_transaction_count :: u64
  bi_entry_count :: u64

datatype ReplicaBlockInfoVersions = BlockInfo_V0_0_5 ReplicaBlockInfoV5

record ReplicaContactInfoV0_0_1 =
  ci_pubkey :: bytes
  ci_wallclock :: u64
  ci_outset :: u64
  ci_shred_version :: u16
  ci_version_major :: u16
  ci_version_minor :: u16
  ci_version_patch :: u16
  ci_version_commit :: u32
  ci_version_feature_set :: u32
  ci_version_client_id :: u16
  ci_gossip :: "SocketAddr option"
  ci_tpu_quic :: "SocketAddr option"
  ci_tpu_forwards_quic :: "SocketAddr option"
  ci_tpu_vote_udp :: "SocketAddr option"
  ci_tpu_vote_quic :: "SocketAddr option"
  ci_tvu_udp :: "SocketAddr option"
  ci_tvu_quic :: "SocketAddr option"
  ci_serve_repair_udp :: "SocketAddr option"
  ci_serve_repair_quic :: "SocketAddr option"
  ci_rpc :: "SocketAddr option"
  ci_rpc_pubsub :: "SocketAddr option"
  ci_alpenglow :: "SocketAddr option"

datatype ReplicaContactInfoVersions = ContactInfo_V0_0_1 ReplicaContactInfoV0_0_1

text \<open>The discriminants: implicit ones count from zero.\<close>

fun account_discriminant :: "ReplicaAccountInfoVersions \<Rightarrow> u32" where
  "account_discriminant (Account_V0_0_1 _) = 0"
| "account_discriminant (Account_V0_0_2 _) = 1"
| "account_discriminant (Account_V0_0_3 _) = 2"
| "account_discriminant (Account_V0_0_4 _) = 3"
| "account_discriminant (Account_V0_0_5 _) = 4"

fun transaction_discriminant :: "ReplicaTransactionInfoVersions \<Rightarrow> u32" where
  "transaction_discriminant (Transaction_V0_0_4 _) = 3"

fun block_footer_discriminant :: "ReplicaBlockFooterInfoVersions \<Rightarrow> u32" where
  "block_footer_discriminant (BlockFooter_V0_0_2 _) = 1"

fun block_info_discriminant :: "ReplicaBlockInfoVersions \<Rightarrow> u32" where
  "block_info_discriminant (BlockInfo_V0_0_5 _) = 4"

section \<open>Errors and slot statuses\<close>

datatype GeyserPluginError =
    ConfigFileOpenError io_Error
  | ConfigFileReadError str
  | AccountsUpdateError str
  | SlotStatusUpdateError str
  | Custom dyn_Error
  | TransactionUpdateError str

text \<open>The texts of the errors; how a wrapped error prints is a parameter.\<close>

fun GeyserPluginError_fmt :: "(io_Error \<Rightarrow> str) \<Rightarrow> (dyn_Error \<Rightarrow> str) \<Rightarrow> GeyserPluginError \<Rightarrow> str" where
  "GeyserPluginError_fmt io_fmt dyn_fmt (ConfigFileOpenError e) =
     str_lit ''Error opening config file. Error detail: ('' @ io_fmt e @ str_lit '').''"
| "GeyserPluginError_fmt io_fmt dyn_fmt (ConfigFileReadError msg) =
     str_lit ''Error reading config file. Error message: ('' @ msg @ str_lit '')''"
| "GeyserPluginError_fmt io_fmt dyn_fmt (AccountsUpdateError msg) =
     str_lit ''Error updating account. Error message: ('' @ msg @ str_lit '')''"
| "GeyserPluginError_fmt io_fmt dyn_fmt (SlotStatusUpdateError msg) =
     str_lit ''Error updating slot status. Error message: ('' @ msg @ str_lit '')''"
| "GeyserPluginError_fmt io_fmt dyn_fmt (Custom e) =
     str_lit ''Plugin-defined custom error. Error message: ('' @ dyn_fmt e @ str_lit '')''"
| "GeyserPluginError_fmt io_fmt dyn_fmt (TransactionUpdateError msg) =
     str_lit ''Error updating transaction. Error message: ('' @ msg @ str_lit '')''"

datatype SlotStatus =
  Processed | Rooted | Confirmed | FirstShredReceived | Completed | CreatedBank | Dead str

fun SlotStatus_as_str :: "SlotStatus \<Rightarrow> str" where
  "SlotStatus_as_str Confirmed = str_lit ''confirmed''"
| "SlotStatus_as_str Processed = str_lit ''processed''"
| "SlotStatus_as_str Rooted = str_lit ''rooted''"
| "SlotStatus_as_str FirstShredReceived = str_lit ''first_shred_received''"
| "SlotStatus_as_str Completed = str_lit ''completed''"
| "SlotStatus_as_str CreatedBank = str_lit ''created_bank''"
| "SlotStatus_as_str (Dead err) = str_lit ''dead''"

section \<open>The trait\<close>

text \<open>
  The methods a plugin implements itself. Only \<open>name\<close> has no default.
\<close>

type_synonym 's callback = "('s, GeyserPluginError, unit) comp"

record 's GeyserPlugin =
  impl_name :: "'s \<Rightarrow> str"
  impl_setup_logger :: "(dyn_Log \<Rightarrow> LevelFilter \<Rightarrow> 's callback) option"
  impl_on_load :: "(str \<Rightarrow> bool \<Rightarrow> 's callback) option"
  impl_on_unload :: "('s \<Rightarrow> 's) option"
  impl_update_account :: "(ReplicaAccountInfoVersions \<Rightarrow> Slot \<Rightarrow> bool \<Rightarrow> 's callback) option"
  impl_update_account_from_snapshot :: "(ReplicaAccountInfoVersions \<Rightarrow> Slot \<Rightarrow> 's callback) option"
  impl_update_account_for_bank :: "(ReplicaAccountInfoVersions \<Rightarrow> Slot \<Rightarrow> BankId \<Rightarrow> 's callback) option"
  impl_notify_end_of_startup :: "'s callback option"
  impl_notify_bank_creation :: "(Slot \<Rightarrow> Slot option \<Rightarrow> BankId \<Rightarrow> 's callback) option"
  impl_update_slot_status :: "(Slot \<Rightarrow> u64 option \<Rightarrow> SlotStatus \<Rightarrow> 's callback) option"
  impl_update_bank_status :: "(Slot \<Rightarrow> u64 option \<Rightarrow> SlotStatus \<Rightarrow> BankId \<Rightarrow> 's callback) option"
  impl_notify_transaction :: "(ReplicaTransactionInfoVersions \<Rightarrow> Slot \<Rightarrow> 's callback) option"
  impl_notify_transaction_for_bank :: "(ReplicaTransactionInfoVersions \<Rightarrow> Slot \<Rightarrow> BankId \<Rightarrow> 's callback) option"
  impl_notify_entry :: "(ReplicaEntryInfoVersions \<Rightarrow> 's callback) option"
  impl_notify_entry_for_bank :: "(ReplicaEntryInfoVersions \<Rightarrow> BankId \<Rightarrow> 's callback) option"
  impl_notify_block_footer :: "(ReplicaBlockFooterInfoVersions \<Rightarrow> BankId \<Rightarrow> 's callback) option"
  impl_notify_block_metadata :: "(ReplicaBlockInfoVersions \<Rightarrow> 's callback) option"
  impl_notify_block_metadata_for_bank :: "(ReplicaBlockInfoVersions \<Rightarrow> BankId \<Rightarrow> 's callback) option"
  impl_notify_contact_info :: "(ReplicaContactInfoVersions \<Rightarrow> bool \<Rightarrow> 's callback) option"
  impl_notify_contact_info_removed :: "(bytes \<Rightarrow> 's callback) option"
  impl_notify_deshred_transaction :: "(ReplicaDeshredTransactionInfoVersions \<Rightarrow> Slot \<Rightarrow> 's callback) option"
  impl_notify_entry_update_parent :: "(ReplicaEntryUpdateParentInfoVersions \<Rightarrow> 's callback) option"
  impl_notify_deshred_update_parent :: "(ReplicaDeshredUpdateParentInfoVersions \<Rightarrow> 's callback) option"
  impl_account_data_notifications_enabled :: "('s \<Rightarrow> bool) option"
  impl_account_data_snapshot_notifications_enabled :: "('s \<Rightarrow> bool) option"
  impl_transaction_notifications_enabled :: "('s \<Rightarrow> bool) option"
  impl_entry_notifications_enabled :: "('s \<Rightarrow> bool) option"
  impl_block_footer_notifications_enabled :: "('s \<Rightarrow> bool) option"
  impl_contact_info_notifications_enabled :: "('s \<Rightarrow> bool) option"
  impl_deshred_transaction_notifications_enabled :: "('s \<Rightarrow> bool) option"
  impl_deshred_transaction_alt_resolution_enabled :: "('s \<Rightarrow> bool) option"

text \<open>The plugin that implements what it must and nothing else.\<close>

definition minimal_plugin :: "('s \<Rightarrow> str) \<Rightarrow> 's GeyserPlugin" where
  "minimal_plugin nm = \<lparr>impl_name = nm, impl_setup_logger = None, impl_on_load = None, impl_on_unload = None,
     impl_update_account = None, impl_update_account_from_snapshot = None, impl_update_account_for_bank = None,
     impl_notify_end_of_startup = None, impl_notify_bank_creation = None, impl_update_slot_status = None,
     impl_update_bank_status = None, impl_notify_transaction = None, impl_notify_transaction_for_bank = None,
     impl_notify_entry = None, impl_notify_entry_for_bank = None, impl_notify_block_footer = None,
     impl_notify_block_metadata = None, impl_notify_block_metadata_for_bank = None,
     impl_notify_contact_info = None, impl_notify_contact_info_removed = None,
     impl_notify_deshred_transaction = None, impl_notify_entry_update_parent = None,
     impl_notify_deshred_update_parent = None, impl_account_data_notifications_enabled = None,
     impl_account_data_snapshot_notifications_enabled = None, impl_transaction_notifications_enabled = None,
     impl_entry_notifications_enabled = None, impl_block_footer_notifications_enabled = None,
     impl_contact_info_notifications_enabled = None, impl_deshred_transaction_notifications_enabled = None,
     impl_deshred_transaction_alt_resolution_enabled = None\<rparr>"

text \<open>The methods of the trait: what the plugin implements, or the default body.\<close>

definition setup_logger :: "'s GeyserPlugin \<Rightarrow> dyn_Log \<Rightarrow> LevelFilter \<Rightarrow> 's callback" where
  "setup_logger self logger level =
     (case impl_setup_logger self of Some f \<Rightarrow> f logger level | None \<Rightarrow> p_return ())"

definition on_load :: "'s GeyserPlugin \<Rightarrow> str \<Rightarrow> bool \<Rightarrow> 's callback" where
  "on_load self config_file is_reload =
     (case impl_on_load self of Some f \<Rightarrow> f config_file is_reload | None \<Rightarrow> p_return ())"

definition on_unload :: "'s GeyserPlugin \<Rightarrow> 's \<Rightarrow> 's" where
  "on_unload self = (case impl_on_unload self of Some f \<Rightarrow> f | None \<Rightarrow> id)"

definition update_account :: "'s GeyserPlugin \<Rightarrow> ReplicaAccountInfoVersions \<Rightarrow> Slot \<Rightarrow> bool \<Rightarrow> 's callback" where
  "update_account self account slot is_startup =
     (case impl_update_account self of Some f \<Rightarrow> f account slot is_startup | None \<Rightarrow> p_return ())"

definition update_account_from_snapshot :: "'s GeyserPlugin \<Rightarrow> ReplicaAccountInfoVersions \<Rightarrow> Slot \<Rightarrow> 's callback" where
  "update_account_from_snapshot self account slot =
     (case impl_update_account_from_snapshot self of Some f \<Rightarrow> f account slot | None \<Rightarrow> update_account self account slot True)"

definition update_account_for_bank :: "'s GeyserPlugin \<Rightarrow> ReplicaAccountInfoVersions \<Rightarrow> Slot \<Rightarrow> BankId \<Rightarrow> 's callback" where
  "update_account_for_bank self account slot bank_id =
     (case impl_update_account_for_bank self of Some f \<Rightarrow> f account slot bank_id | None \<Rightarrow> update_account self account slot False)"

definition notify_end_of_startup :: "'s GeyserPlugin \<Rightarrow> 's callback" where
  "notify_end_of_startup self =
     (case impl_notify_end_of_startup self of Some f \<Rightarrow> f | None \<Rightarrow> p_return ())"

definition notify_bank_creation :: "'s GeyserPlugin \<Rightarrow> Slot \<Rightarrow> Slot option \<Rightarrow> BankId \<Rightarrow> 's callback" where
  "notify_bank_creation self slot parent bank_id =
     (case impl_notify_bank_creation self of Some f \<Rightarrow> f slot parent bank_id | None \<Rightarrow> p_return ())"

definition update_slot_status :: "'s GeyserPlugin \<Rightarrow> Slot \<Rightarrow> u64 option \<Rightarrow> SlotStatus \<Rightarrow> 's callback" where
  "update_slot_status self slot parent status =
     (case impl_update_slot_status self of Some f \<Rightarrow> f slot parent status | None \<Rightarrow> p_return ())"

definition update_bank_status :: "'s GeyserPlugin \<Rightarrow> Slot \<Rightarrow> u64 option \<Rightarrow> SlotStatus \<Rightarrow> BankId \<Rightarrow> 's callback" where
  "update_bank_status self slot parent status bank_id =
     (case impl_update_bank_status self of Some f \<Rightarrow> f slot parent status bank_id | None \<Rightarrow> update_slot_status self slot parent status)"

definition notify_transaction :: "'s GeyserPlugin \<Rightarrow> ReplicaTransactionInfoVersions \<Rightarrow> Slot \<Rightarrow> 's callback" where
  "notify_transaction self transaction slot =
     (case impl_notify_transaction self of Some f \<Rightarrow> f transaction slot | None \<Rightarrow> p_return ())"

definition notify_transaction_for_bank :: "'s GeyserPlugin \<Rightarrow> ReplicaTransactionInfoVersions \<Rightarrow> Slot \<Rightarrow> BankId \<Rightarrow> 's callback" where
  "notify_transaction_for_bank self transaction slot bank_id =
     (case impl_notify_transaction_for_bank self of Some f \<Rightarrow> f transaction slot bank_id | None \<Rightarrow> notify_transaction self transaction slot)"

definition notify_entry :: "'s GeyserPlugin \<Rightarrow> ReplicaEntryInfoVersions \<Rightarrow> 's callback" where
  "notify_entry self entry =
     (case impl_notify_entry self of Some f \<Rightarrow> f entry | None \<Rightarrow> p_return ())"

definition notify_entry_for_bank :: "'s GeyserPlugin \<Rightarrow> ReplicaEntryInfoVersions \<Rightarrow> BankId \<Rightarrow> 's callback" where
  "notify_entry_for_bank self entry bank_id =
     (case impl_notify_entry_for_bank self of Some f \<Rightarrow> f entry bank_id | None \<Rightarrow> notify_entry self entry)"

definition notify_block_footer :: "'s GeyserPlugin \<Rightarrow> ReplicaBlockFooterInfoVersions \<Rightarrow> BankId \<Rightarrow> 's callback" where
  "notify_block_footer self block_footer bank_id =
     (case impl_notify_block_footer self of Some f \<Rightarrow> f block_footer bank_id | None \<Rightarrow> p_return ())"

definition notify_block_metadata :: "'s GeyserPlugin \<Rightarrow> ReplicaBlockInfoVersions \<Rightarrow> 's callback" where
  "notify_block_metadata self blockinfo =
     (case impl_notify_block_metadata self of Some f \<Rightarrow> f blockinfo | None \<Rightarrow> p_return ())"

definition notify_block_metadata_for_bank :: "'s GeyserPlugin \<Rightarrow> ReplicaBlockInfoVersions \<Rightarrow> BankId \<Rightarrow> 's callback" where
  "notify_block_metadata_for_bank self blockinfo bank_id =
     (case impl_notify_block_metadata_for_bank self of Some f \<Rightarrow> f blockinfo bank_id | None \<Rightarrow> notify_block_metadata self blockinfo)"

definition notify_contact_info :: "'s GeyserPlugin \<Rightarrow> ReplicaContactInfoVersions \<Rightarrow> bool \<Rightarrow> 's callback" where
  "notify_contact_info self info is_startup =
     (case impl_notify_contact_info self of Some f \<Rightarrow> f info is_startup | None \<Rightarrow> p_return ())"

definition notify_contact_info_removed :: "'s GeyserPlugin \<Rightarrow> bytes \<Rightarrow> 's callback" where
  "notify_contact_info_removed self pubkey =
     (case impl_notify_contact_info_removed self of Some f \<Rightarrow> f pubkey | None \<Rightarrow> p_return ())"

definition notify_deshred_transaction :: "'s GeyserPlugin \<Rightarrow> ReplicaDeshredTransactionInfoVersions \<Rightarrow> Slot \<Rightarrow> 's callback" where
  "notify_deshred_transaction self transaction slot =
     (case impl_notify_deshred_transaction self of Some f \<Rightarrow> f transaction slot | None \<Rightarrow> p_return ())"

definition notify_entry_update_parent :: "'s GeyserPlugin \<Rightarrow> ReplicaEntryUpdateParentInfoVersions \<Rightarrow> 's callback" where
  "notify_entry_update_parent self update_parent =
     (case impl_notify_entry_update_parent self of Some f \<Rightarrow> f update_parent | None \<Rightarrow> p_return ())"

definition notify_deshred_update_parent :: "'s GeyserPlugin \<Rightarrow> ReplicaDeshredUpdateParentInfoVersions \<Rightarrow> 's callback" where
  "notify_deshred_update_parent self update_parent =
     (case impl_notify_deshred_update_parent self of Some f \<Rightarrow> f update_parent | None \<Rightarrow> p_return ())"

definition account_data_notifications_enabled :: "'s GeyserPlugin \<Rightarrow> 's \<Rightarrow> bool" where
  "account_data_notifications_enabled self =
     (case impl_account_data_notifications_enabled self of Some f \<Rightarrow> f | None \<Rightarrow> (\<lambda>_. True))"

definition account_data_snapshot_notifications_enabled :: "'s GeyserPlugin \<Rightarrow> 's \<Rightarrow> bool" where
  "account_data_snapshot_notifications_enabled self =
     (case impl_account_data_snapshot_notifications_enabled self of Some f \<Rightarrow> f | None \<Rightarrow> (\<lambda>_. True))"

definition transaction_notifications_enabled :: "'s GeyserPlugin \<Rightarrow> 's \<Rightarrow> bool" where
  "transaction_notifications_enabled self =
     (case impl_transaction_notifications_enabled self of Some f \<Rightarrow> f | None \<Rightarrow> (\<lambda>_. False))"

definition entry_notifications_enabled :: "'s GeyserPlugin \<Rightarrow> 's \<Rightarrow> bool" where
  "entry_notifications_enabled self =
     (case impl_entry_notifications_enabled self of Some f \<Rightarrow> f | None \<Rightarrow> (\<lambda>_. False))"

definition block_footer_notifications_enabled :: "'s GeyserPlugin \<Rightarrow> 's \<Rightarrow> bool" where
  "block_footer_notifications_enabled self =
     (case impl_block_footer_notifications_enabled self of Some f \<Rightarrow> f | None \<Rightarrow> (\<lambda>_. False))"

definition contact_info_notifications_enabled :: "'s GeyserPlugin \<Rightarrow> 's \<Rightarrow> bool" where
  "contact_info_notifications_enabled self =
     (case impl_contact_info_notifications_enabled self of Some f \<Rightarrow> f | None \<Rightarrow> (\<lambda>_. False))"

definition deshred_transaction_notifications_enabled :: "'s GeyserPlugin \<Rightarrow> 's \<Rightarrow> bool" where
  "deshred_transaction_notifications_enabled self =
     (case impl_deshred_transaction_notifications_enabled self of Some f \<Rightarrow> f | None \<Rightarrow> (\<lambda>_. False))"

definition deshred_transaction_alt_resolution_enabled :: "'s GeyserPlugin \<Rightarrow> 's \<Rightarrow> bool" where
  "deshred_transaction_alt_resolution_enabled self =
     (case impl_deshred_transaction_alt_resolution_enabled self of Some f \<Rightarrow> f | None \<Rightarrow> (\<lambda>_. False))"

section \<open>Notifications\<close>

text \<open>A call the validator makes on a loaded plugin, with its arguments.\<close>

datatype notification =
    UpdateAccount ReplicaAccountInfoVersions Slot bool
  | UpdateAccountFromSnapshot ReplicaAccountInfoVersions Slot
  | UpdateAccountForBank ReplicaAccountInfoVersions Slot BankId
  | NotifyEndOfStartup
  | NotifyBankCreation Slot "Slot option" BankId
  | UpdateSlotStatus Slot "u64 option" SlotStatus
  | UpdateBankStatus Slot "u64 option" SlotStatus BankId
  | NotifyTransaction ReplicaTransactionInfoVersions Slot
  | NotifyTransactionForBank ReplicaTransactionInfoVersions Slot BankId
  | NotifyEntry ReplicaEntryInfoVersions
  | NotifyEntryForBank ReplicaEntryInfoVersions BankId
  | NotifyBlockFooter ReplicaBlockFooterInfoVersions BankId
  | NotifyBlockMetadata ReplicaBlockInfoVersions
  | NotifyBlockMetadataForBank ReplicaBlockInfoVersions BankId
  | NotifyContactInfo ReplicaContactInfoVersions bool
  | NotifyContactInfoRemoved bytes
  | NotifyDeshredTransaction ReplicaDeshredTransactionInfoVersions Slot
  | NotifyEntryUpdateParent ReplicaEntryUpdateParentInfoVersions
  | NotifyDeshredUpdateParent ReplicaDeshredUpdateParentInfoVersions

fun notify :: "'s GeyserPlugin \<Rightarrow> notification \<Rightarrow> 's callback" where
  "notify p (UpdateAccount account slot is_startup) = update_account p account slot is_startup"
| "notify p (UpdateAccountFromSnapshot account slot) = update_account_from_snapshot p account slot"
| "notify p (UpdateAccountForBank account slot bank_id) = update_account_for_bank p account slot bank_id"
| "notify p NotifyEndOfStartup = notify_end_of_startup p"
| "notify p (NotifyBankCreation slot parent bank_id) = notify_bank_creation p slot parent bank_id"
| "notify p (UpdateSlotStatus slot parent status) = update_slot_status p slot parent status"
| "notify p (UpdateBankStatus slot parent status bank_id) = update_bank_status p slot parent status bank_id"
| "notify p (NotifyTransaction transaction slot) = notify_transaction p transaction slot"
| "notify p (NotifyTransactionForBank transaction slot bank_id) = notify_transaction_for_bank p transaction slot bank_id"
| "notify p (NotifyEntry entry) = notify_entry p entry"
| "notify p (NotifyEntryForBank entry bank_id) = notify_entry_for_bank p entry bank_id"
| "notify p (NotifyBlockFooter block_footer bank_id) = notify_block_footer p block_footer bank_id"
| "notify p (NotifyBlockMetadata blockinfo) = notify_block_metadata p blockinfo"
| "notify p (NotifyBlockMetadataForBank blockinfo bank_id) = notify_block_metadata_for_bank p blockinfo bank_id"
| "notify p (NotifyContactInfo info is_startup) = notify_contact_info p info is_startup"
| "notify p (NotifyContactInfoRemoved pubkey) = notify_contact_info_removed p pubkey"
| "notify p (NotifyDeshredTransaction transaction slot) = notify_deshred_transaction p transaction slot"
| "notify p (NotifyEntryUpdateParent update_parent) = notify_entry_update_parent p update_parent"
| "notify p (NotifyDeshredUpdateParent update_parent) = notify_deshred_update_parent p update_parent"

text \<open>The method a plugin implements for a notification, if it does.\<close>

fun implemented :: "'s GeyserPlugin \<Rightarrow> notification \<Rightarrow> 's callback option" where
  "implemented p (UpdateAccount account slot is_startup) =
     map_option (\<lambda>f. f account slot is_startup) (impl_update_account p)"
| "implemented p (UpdateAccountFromSnapshot account slot) =
     map_option (\<lambda>f. f account slot) (impl_update_account_from_snapshot p)"
| "implemented p (UpdateAccountForBank account slot bank_id) =
     map_option (\<lambda>f. f account slot bank_id) (impl_update_account_for_bank p)"
| "implemented p NotifyEndOfStartup =
     impl_notify_end_of_startup p"
| "implemented p (NotifyBankCreation slot parent bank_id) =
     map_option (\<lambda>f. f slot parent bank_id) (impl_notify_bank_creation p)"
| "implemented p (UpdateSlotStatus slot parent status) =
     map_option (\<lambda>f. f slot parent status) (impl_update_slot_status p)"
| "implemented p (UpdateBankStatus slot parent status bank_id) =
     map_option (\<lambda>f. f slot parent status bank_id) (impl_update_bank_status p)"
| "implemented p (NotifyTransaction transaction slot) =
     map_option (\<lambda>f. f transaction slot) (impl_notify_transaction p)"
| "implemented p (NotifyTransactionForBank transaction slot bank_id) =
     map_option (\<lambda>f. f transaction slot bank_id) (impl_notify_transaction_for_bank p)"
| "implemented p (NotifyEntry entry) =
     map_option (\<lambda>f. f entry) (impl_notify_entry p)"
| "implemented p (NotifyEntryForBank entry bank_id) =
     map_option (\<lambda>f. f entry bank_id) (impl_notify_entry_for_bank p)"
| "implemented p (NotifyBlockFooter block_footer bank_id) =
     map_option (\<lambda>f. f block_footer bank_id) (impl_notify_block_footer p)"
| "implemented p (NotifyBlockMetadata blockinfo) =
     map_option (\<lambda>f. f blockinfo) (impl_notify_block_metadata p)"
| "implemented p (NotifyBlockMetadataForBank blockinfo bank_id) =
     map_option (\<lambda>f. f blockinfo bank_id) (impl_notify_block_metadata_for_bank p)"
| "implemented p (NotifyContactInfo info is_startup) =
     map_option (\<lambda>f. f info is_startup) (impl_notify_contact_info p)"
| "implemented p (NotifyContactInfoRemoved pubkey) =
     map_option (\<lambda>f. f pubkey) (impl_notify_contact_info_removed p)"
| "implemented p (NotifyDeshredTransaction transaction slot) =
     map_option (\<lambda>f. f transaction slot) (impl_notify_deshred_transaction p)"
| "implemented p (NotifyEntryUpdateParent update_parent) =
     map_option (\<lambda>f. f update_parent) (impl_notify_entry_update_parent p)"
| "implemented p (NotifyDeshredUpdateParent update_parent) =
     map_option (\<lambda>f. f update_parent) (impl_notify_deshred_update_parent p)"

text \<open>
  The callback a bank-scoped callback replaced, with the arguments it would have had: snapshot accounts are
  startup updates, accounts of a bank are not, and the bank is left out.
\<close>

fun legacy :: "notification \<Rightarrow> notification" where
  "legacy (UpdateAccountFromSnapshot account slot) = UpdateAccount account slot True"
| "legacy (UpdateAccountForBank account slot bank_id) = UpdateAccount account slot False"
| "legacy (UpdateBankStatus slot parent status bank_id) = UpdateSlotStatus slot parent status"
| "legacy (NotifyTransactionForBank transaction slot bank_id) = NotifyTransaction transaction slot"
| "legacy (NotifyEntryForBank entry bank_id) = NotifyEntry entry"
| "legacy (NotifyBlockMetadataForBank blockinfo bank_id) = NotifyBlockMetadata blockinfo"
| "legacy n = n"

text \<open>A plugin written before the bank-scoped callbacks existed.\<close>

definition legacy_plugin :: "'s GeyserPlugin \<Rightarrow> bool" where
  "legacy_plugin p \<longleftrightarrow> impl_update_account_from_snapshot p = None \<and> impl_update_account_for_bank p = None
     \<and> impl_update_bank_status p = None \<and> impl_notify_transaction_for_bank p = None
     \<and> impl_notify_entry_for_bank p = None \<and> impl_notify_block_metadata_for_bank p = None"

text \<open>A sequence of notifications with their results, in order; an error of one does not stop the next.\<close>

fun deliver :: "'s GeyserPlugin \<Rightarrow> notification list \<Rightarrow> 's \<Rightarrow> (GeyserPluginError, unit) outcome list \<times> 's" where
  "deliver p [] s = ([], s)"
| "deliver p (n # ns) s =
     (case notify p n s of (r, s') \<Rightarrow> map_prod ((#) r) id (deliver p ns s'))"

section \<open>What reaches a plugin\<close>

lemmas trait_defs = update_account_def update_account_from_snapshot_def update_account_for_bank_def
  notify_end_of_startup_def notify_bank_creation_def update_slot_status_def update_bank_status_def
  notify_transaction_def notify_transaction_for_bank_def notify_entry_def notify_entry_for_bank_def
  notify_block_footer_def notify_block_metadata_def notify_block_metadata_for_bank_def notify_contact_info_def
  notify_contact_info_removed_def notify_deshred_transaction_def notify_entry_update_parent_def
  notify_deshred_update_parent_def

lemma notify_resolution:
  "notify p n = (case implemented p n of Some h \<Rightarrow> h
     | None \<Rightarrow> (case implemented p (legacy n) of Some h \<Rightarrow> h | None \<Rightarrow> p_return ()))"
  by (cases n) (auto simp: trait_defs split: option.splits)

lemma implemented_minimal [simp]: "implemented (minimal_plugin nm) n = None"
  by (cases n) (simp_all add: minimal_plugin_def)

lemma legacy_idem [simp]: "legacy (legacy n) = legacy n"
  by (cases n) simp_all

lemma legacy_plugin_implements: "legacy_plugin p \<Longrightarrow> legacy n \<noteq> n \<Longrightarrow> implemented p n = None"
  by (cases n) (simp_all add: legacy_plugin_def)

lemma notify_legacy: "legacy_plugin p \<Longrightarrow> notify p (legacy n) = notify p n"
  using legacy_plugin_implements [of p n] by (cases "legacy n = n") (auto simp: notify_resolution split: option.splits)

lemma deliver_cong: "(\<And>n. n \<in> set ns \<Longrightarrow> notify p (f n) = notify q n) \<Longrightarrow> deliver p (map f ns) s = deliver q ns s"
  by (induction ns arbitrary: s) (auto split: prod.splits)

lemma deliver_accepted:
  "(\<And>n. n \<in> set ns \<Longrightarrow> implemented p n = None \<and> implemented p (legacy n) = None)
     \<Longrightarrow> deliver p ns s = (replicate (length ns) (Ok ()), s)"
  by (induction ns arbitrary: s) (auto simp: notify_resolution p_return_def split: prod.splits)

lemma enabled_defaults:
  "account_data_notifications_enabled (minimal_plugin nm) s"
  "account_data_snapshot_notifications_enabled (minimal_plugin nm) s"
  "\<not> transaction_notifications_enabled (minimal_plugin nm) s"
  "\<not> entry_notifications_enabled (minimal_plugin nm) s"
  "\<not> block_footer_notifications_enabled (minimal_plugin nm) s"
  "\<not> contact_info_notifications_enabled (minimal_plugin nm) s"
  "\<not> deshred_transaction_notifications_enabled (minimal_plugin nm) s"
  "\<not> deshred_transaction_alt_resolution_enabled (minimal_plugin nm) s"
  by (simp_all add: minimal_plugin_def account_data_notifications_enabled_def
      account_data_snapshot_notifications_enabled_def transaction_notifications_enabled_def
      entry_notifications_enabled_def block_footer_notifications_enabled_def
      contact_info_notifications_enabled_def deshred_transaction_notifications_enabled_def
      deshred_transaction_alt_resolution_enabled_def)

lemma SlotStatus_as_str_eq_iff:
  "SlotStatus_as_str a = SlotStatus_as_str b \<longleftrightarrow> a = b \<or> (\<exists>e e'. a = Dead e \<and> b = Dead e')"
  by (cases a; cases b) (simp_all add: str_lit_def)

text \<open>A version keeps the discriminant it was released with: one less than its number.\<close>

lemma discriminants:
  "account_discriminant a = of_nat (case a of Account_V0_0_1 _ \<Rightarrow> 1 | Account_V0_0_2 _ \<Rightarrow> 2 | Account_V0_0_3 _ \<Rightarrow> 3
     | Account_V0_0_4 _ \<Rightarrow> 4 | Account_V0_0_5 _ \<Rightarrow> 5) - 1"
  "transaction_discriminant t = 4 - 1" "block_footer_discriminant f = 2 - 1" "block_info_discriminant b = 5 - 1"
  by (cases a, simp_all) (cases t, simp, cases f, simp, cases b, simp)

text \<open>The plugin of the crate's test: it keeps the statuses it is told, and knows nothing of banks.\<close>

definition LegacyPlugin :: "SlotStatus list GeyserPlugin" where
  "LegacyPlugin = (minimal_plugin (\<lambda>_. str_lit ''legacy''))
     \<lparr>impl_update_slot_status := Some (\<lambda>_ _ status. p_modify (\<lambda>statuses. statuses @ [status]))\<rparr>"

text \<open>
  C40. Default methods lose nothing and invent nothing. Every notification runs at most one method of the
  plugin: its own if the plugin implements it, and otherwise the one of the callback it replaced, with the
  arguments that one expects; if the plugin implements neither, the notification is accepted and changes
  nothing. So a plugin that knows no bank-scoped callback answers every sequence of notifications, and ends
  in the state, as if the validator had used the old callbacks throughout, and the bank identifiers make no
  difference to it; and a plugin that implements only its name accepts everything.
\<close>

theorem notifications_reach_plugin:
  "(notify p n = (case implemented p n of Some h \<Rightarrow> h
     | None \<Rightarrow> (case implemented p (legacy n) of Some h \<Rightarrow> h | None \<Rightarrow> p_return ())))
   \<and> (legacy_plugin p \<longrightarrow> deliver p ns s = deliver p (map legacy ns) s)
   \<and> (legacy_plugin p \<and> map legacy ns = map legacy ns' \<longrightarrow> deliver p ns s = deliver p ns' s)
   \<and> deliver (minimal_plugin nm) ns s = (replicate (length ns) (Ok ()), s)"
proof (intro conjI impI)
  have old: "deliver p ns s = deliver p (map legacy ns) s" if "legacy_plugin p" for ns
    using deliver_cong [of ns p legacy p] notify_legacy [OF that] by simp
  then show "deliver p ns s = deliver p (map legacy ns) s" if "legacy_plugin p" using that by blast
  show "deliver p ns s = deliver p ns' s" if "legacy_plugin p \<and> map legacy ns = map legacy ns'"
    using old [of ns] old [of ns'] that by simp
qed (simp_all add: notify_resolution deliver_accepted)

theorem notifications_reach_plugin_witness:
  "legacy_plugin LegacyPlugin
   \<and> deliver LegacyPlugin [NotifyBankCreation 42 (Some 41) 7, UpdateBankStatus 42 (Some 41) (Dead (str_lit ''replay failed'')) 7] []
     = ([Ok (), Ok ()], [Dead (str_lit ''replay failed'')])"
proof -
  have "legacy_plugin LegacyPlugin" by (simp add: LegacyPlugin_def legacy_plugin_def minimal_plugin_def)
  moreover have "deliver LegacyPlugin [NotifyBankCreation 42 (Some 41) 7,
        UpdateBankStatus 42 (Some 41) (Dead (str_lit ''replay failed'')) 7] []
      = deliver LegacyPlugin [NotifyBankCreation 42 (Some 41) 7,
        UpdateSlotStatus 42 (Some 41) (Dead (str_lit ''replay failed''))] []"
    using notifications_reach_plugin [of LegacyPlugin undefined "[NotifyBankCreation 42 (Some 41) 7,
        UpdateBankStatus 42 (Some 41) (Dead (str_lit ''replay failed'')) 7]"] calculation by simp
  ultimately show ?thesis
    by (simp add: LegacyPlugin_def minimal_plugin_def trait_defs p_modify_def p_return_def)
qed

end
