(* ===== verification/Spec2Isabelle.thy ===== *)
theory Spec2Isabelle
  imports Resolved_View Event_Concurrency Event_Dispatch Event_Delivery Event_Macro Cache_Padding Handshake_Protocol
    Handshake_Shm_Open Scheduler_Bindings Geyser_Plugin
begin

text \<open>
  A verification of the crates of the Agave SDK: parsing and sanitizing transactions
  (\<open>transaction-view\<close>), publishing events to other processes (\<open>event-system\<close>, \<open>event-system-derive\<close>), setting up
  shared memory with an external scheduler (\<open>scheduler-handshake\<close>, \<open>scheduler-bindings\<close>), and the interface of
  the validator's plugins (\<open>geyser-plugin-interface\<close>).

  \<^bold>\<open>Conventions.\<close> \<open>Prelude\<close> fixes the machine: 64-bit and little-endian; \<open>usize\<close> is a natural number whose
  wrapping and checked operations write out the reduction modulo \<open>2 ^ 64\<close>, the narrower integers are words.
  A Rust call ends in an \<open>outcome\<close>: \<open>Ok\<close>, \<open>Err\<close>, \<open>Panic\<close>, or \<open>UB\<close> for a use of an unsafe operation outside its
  contract, so that absence of panics and memory safety are statements about the model. A call on a
  mutable state is a function from the state to an outcome and a state. Definitions keep the source's
  names, prefixed by their type where Rust methods share a name.
  \<open>Rust_Strings\<close> models \<open>str\<close> as lists of code points with UTF-8, and the string functions the crates use;
  \<open>File_System\<close> the calls of \<open>std::fs\<close> with an arbitrary list of injected faults.

  \<^bold>\<open>Transactions\<close> (\<open>transaction-view/src\<close>). A view is a byte buffer and a frame of offsets and counts into it.
  \<^item> \<open>Bytes\<close>: the cursor functions of \<open>bytes.rs\<close>; unchecked reads outside the slice are undefined behaviour. The
    compact-u16 readers accept exactly the minimal encodings; the optimised one is the general one on small
    values.
  \<^item> \<open>Header_Frames\<close>, \<open>Transaction_Config\<close>, \<open>Instructions_Frame\<close>, \<open>Address_Table_Lookup_Frame\<close>, \<open>Message_Frame\<close>,
    \<open>Transaction_Frame\<close>: one theory per frame file, with a specification of the wire format
    (\<open>enc_\<dots>\<close> and \<open>wf_\<dots>\<close>) beside the parser. \<open>Record_Loop\<close> has the two interfaces of the repetitive parts: the
    locale \<open>record_loop\<close> for a loop that parses records and \<open>record_iterator\<close> for an iterator over them, each
    interpreted on the instructions and on the lookups.
  \<^item> \<open>Views\<close>: \<open>TransactionView\<close>, \<open>MessageView\<close> and the reference view. Parsing accepts exactly the encodings of
    well-formed transactions, every accessor returns the field that was encoded, and what the accessors return
    determines the bytes.
  \<^item> \<open>Sanitize\<close>: the checks of \<open>sanitize.rs\<close> decide the documented constraints; no constructor panics or reads
    outside the buffer, on any input.
  \<^item> \<open>SVM_Message\<close>, \<open>Resolved_View\<close>: the \<open>SVMStaticMessage\<close> implementations as instances of one locale, and the
    resolved view with its cache of writable accounts; \<open>AccountKeys\<close> and the loader's id are parameters.

  \<^bold>\<open>Events\<close> (\<open>event-system/src\<close>). An event system owns a directory; an enabled stream has a directory below it
  with its schema and a link to a sealed in-memory queue; subscribers explore the directory.
  \<^item> \<open>Stream_Name\<close>, \<open>Stream_Policy\<close>: validation of names; the policy parser refines the documented meaning of a
    policy string, the longest matching prefix decides, and equal policies are those with the same meaning.
  \<^item> \<open>Event_Directory\<close> (\<open>backend/linux.rs\<close>): creating, staging and publishing a queue under arbitrary faults: all
    or nothing, without leaked descriptors or staging directories.
  \<^item> \<open>Publisher_Interface\<close>: the contract of a publisher as the locale \<open>event_publisher\<close>, interpreted on the Linux
    publisher (in \<open>Event_Stream\<close>), the stub, and the public type that dispatches to either (in \<open>Event_Dispatch\<close>).
  \<^item> \<open>Event_Stream\<close>, \<open>Event_Concurrency\<close>: streams and publishers as one thread calls them, and all interleavings
    of publishers with policy changes, one step per critical section (an \<open>inductive\<close> step relation with
    invariants over the reachable states).
  \<^item> \<open>Stream_Policy_Manager\<close>: the manager over any stream that keeps the contract of the trait (locales
    \<open>policy_controlled\<close> and \<open>policy_world\<close>), interpreted on event streams.
  \<^item> \<open>Event_Layout\<close>, \<open>Event_System\<close>: the directory as the policy changes, the event system with its reference
    counts, and the invariants of whole runs: the policy in force, what subscribers find, and clean-up.
  \<^item> \<open>Event_Subscriber\<close>, \<open>Event_Receive\<close>: exploring, opening, connecting, receiving and decoding, in both
    backends.
  \<^item> \<open>Event_Delivery\<close>: the parts together. Runs interleave everything a program does with its event system and
    everything its subscribers do; a connection receives what was published to its queue since it connected, once,
    in order and decoded, also when its stream is disabled or dropped meanwhile, and enough calls receive all.
  \<^item> \<open>Cache_Padding\<close>: the wrapper around the generation of a stream, which has its cache lines to itself.
  \<^item> \<open>Event_Dispatch\<close>, \<open>Event_Macro\<close>: the public types and the stub; the \<open>event\<close> attribute and the metadata of
    events.

  \<^bold>\<open>Scheduler\<close> (\<open>scheduler-handshake/src\<close>, \<open>scheduler-bindings/src\<close>). A client sends versions and a logon over a
  socket; the server validates it, creates the shared memory and answers with descriptors or a reason.
  \<^item> \<open>Handshake_Shared\<close>: wire formats, file sizes, validation and error texts.
  \<^item> \<open>Handshake_Session\<close>: the endpoints of server and client over files whose contents record what the safety
    contracts of the libraries speak of; joining an endpoint twice, or with another type, is undefined
    behaviour, and is shown not to happen. \<open>Handshake_Shm_Open\<close>: shared memory where \<open>memfd_create\<close> is missing,
    created under a name that other processes can use at the same time; the object is private whatever they do.
  \<^item> \<open>Handshake_Protocol\<close>: the exchange over a socket that may deliver in pieces, late, or not at all. The
    two parts of the logon message are instances of the locale \<open>fixed_codec\<close>. The exchange refines the local
    setup; the server withstands any client and ends after boundedly many reads.
  \<^item> \<open>Scheduler_Bindings\<close>: the \<open>repr(C)\<close> structures with sizes and offsets, flags and codes.

  \<^bold>\<open>Plugins\<close> (\<open>geyser-plugin-interface/src\<close>). \<open>Geyser_Plugin\<close>: the data handed to plugins, and the trait as the
  record of the methods a plugin implements, with the default methods that forward the new callbacks to
  the ones they replaced.

  \<^bold>\<open>What is assumed.\<close> Code outside the repository is a parameter, with its documented behaviour as a hypothesis
  of the theorems that need it, each satisfied by a concrete instance in a witness: the queue library
  \<open>shaq\<close> (\<open>queue_log_laws\<close>, \<open>queue_view_laws\<close>, \<open>broadcast_laws\<close>: which calls change the messages of a queue, and that
  every consumer sees them by lanes), the allocator \<open>rts-alloc\<close> and \<open>shaq\<close> files of the handshake (\<open>shmem_laws\<close>,
  \<open>shmem_total\<close>; joining a file within the contract succeeds, as it does unless the mapping is refused), \<open>wincode\<close>
  (encoding functions, inverted by decoding where that is claimed), \<open>syn\<close>, and the operating system. Types of
  published crates that only pass through a plugin's interface are left open.

  \<^bold>\<open>Where calls may fail.\<close> The operations on one directory, queue, stream or connection are treated with an
  arbitrary list of refused calls; a refused call has no effect, so \<open>create_dir_all\<close>, \<open>remove_dir_all\<close> and \<open>write_all\<close>
  happen as a whole or not at all. The claims about all the states a whole event system can reach (\<open>sreachable\<close> in
  \<open>Event_System\<close>: the policy in force, what subscribers find, clean-up) and about delivery (\<open>Event_Delivery\<close>) are
  for runs in which the operating system refuses no call. Exploring a directory sees one state of it; a stream
  that disappears meanwhile is not part of the model.

  \<^bold>\<open>Recursion.\<close> Every loop is a total function: by the length of the buffer or of the list it walks; the receive
  loop of the handshake by the list of read results, with the bound of 1024 reads proved from the code, so
  that the list never decides the result. \<open>drain\<close> has a counter, and enough of it is proved to exist. Generations of
  a stream are 64-bit words: the claim about delivery is for runs of fewer than \<open>2 ^ 64\<close> steps, which no run exceeds in
  practice; the claims about interleavings of one stream make the same restriction where it matters.

  \<^bold>\<open>Not modelled.\<close> \<open>Debug\<close> output; weak memory orders, since the atomics
  of a stream only let a publisher notice a new generation later, which the interleavings include; and
  the crates' tests.
\<close>

end
